(* ===== verification/Prelude.thy ===== *)
theory Prelude
  imports Complex_Main "HOL-Library.Word" "HOL-Library.Sublist"
begin

text \<open>
  Shared vocabulary of the development: byte strings and the operations of the C++ standard
  library on them that the sources use (find, substr comparison, to_string, stoll, character
  classes of the C locale), machine word abbreviations, list lemmas used by more than one
  component, and the collections of simplification rules that the component theories fill.
\<close>

section \<open>Collections and type abbreviations\<close>

named_theorems str_simps \<open>characterisations of the string operations\<close>
named_theorems frame_simps \<open>fields an operation leaves unchanged\<close>
named_theorems inv_intros \<open>preservation of component invariants\<close>

type_synonym u8 = "8 word"
type_synonym u16 = "16 word"
type_synonym u32 = "32 word"
type_synonym u64 = "64 word"

section \<open>Characters of the C locale\<close>

definition char_code :: "char \<Rightarrow> nat" where
  "char_code c = of_char c"

definition c_isdigit :: "char \<Rightarrow> bool" where
  "c_isdigit c \<longleftrightarrow> 48 \<le> char_code c \<and> char_code c \<le> 57"

definition c_isupper :: "char \<Rightarrow> bool" where
  "c_isupper c \<longleftrightarrow> 65 \<le> char_code c \<and> char_code c \<le> 90"

definition c_islower :: "char \<Rightarrow> bool" where
  "c_islower c \<longleftrightarrow> 97 \<le> char_code c \<and> char_code c \<le> 122"

definition c_isalnum :: "char \<Rightarrow> bool" where
  "c_isalnum c \<longleftrightarrow> c_isdigit c \<or> c_isupper c \<or> c_islower c"

definition c_isspace :: "char \<Rightarrow> bool" where
  "c_isspace c \<longleftrightarrow> char_code c = 32 \<or> (9 \<le> char_code c \<and> char_code c \<le> 13)"

lemmas char_class_defs =
  char_code_def c_isdigit_def c_isupper_def c_islower_def c_isalnum_def c_isspace_def

lemma isdigit_isalnum: "c_isdigit c \<Longrightarrow> c_isalnum c"
  by (simp add: c_isalnum_def)

lemma isalnum_not_space: "c_isalnum c \<Longrightarrow> \<not> c_isspace c"
  by (auto simp: char_class_defs)

section \<open>Searching and comparing strings\<close>

text \<open>\<open>str_find l s\<close> is \<open>s.find(l)\<close>: the least offset at which \<open>l\<close> occurs in \<open>s\<close>,
  \<open>None\<close> for \<open>npos\<close>.\<close>

fun str_find :: "'a list \<Rightarrow> 'a list \<Rightarrow> nat option" where
  "str_find l [] = (if l = [] then Some 0 else None)"
| "str_find l (c # s) =
     (if take (length l) (c # s) = l then Some 0 else map_option Suc (str_find l s))"

definition str_contains :: "'a list \<Rightarrow> 'a list \<Rightarrow> bool" where
  "str_contains l s \<longleftrightarrow> str_find l s \<noteq> None"

definition starts_with :: "'a list \<Rightarrow> 'a list \<Rightarrow> bool" where
  "starts_with l s \<longleftrightarrow> take (length l) s = l"

lemma starts_with_prefix [str_simps]: "starts_with l s \<longleftrightarrow> prefix l s"
  by (metis append_take_drop_id append_eq_conv_conj prefix_def starts_with_def)

lemma take_eq_iff_prefix: "take (length l) s = l \<longleftrightarrow> prefix l s"
  using starts_with_prefix by (simp add: starts_with_def)

lemma str_contains_sublist [str_simps]: "str_contains l s \<longleftrightarrow> sublist l s"
proof (induction s)
  case Nil
  then show ?case by (simp add: str_contains_def)
next
  case (Cons c s)
  then show ?case
    by (simp add: str_contains_def take_eq_iff_prefix sublist_Cons_right)
qed

lemma str_find_bound: "str_find l s = Some i \<Longrightarrow> i + length l \<le> length s"
  by (induction s arbitrary: i) (auto split: if_splits dest: arg_cong [where f = length])

text \<open>The order of byte strings, that of \<open>std::less<std::string>\<close> and of SQLite's binary collation.\<close>

fun text_less :: "string \<Rightarrow> string \<Rightarrow> bool" where
  "text_less [] [] \<longleftrightarrow> False"
| "text_less [] (c # cs) \<longleftrightarrow> True"
| "text_less (b # bs) [] \<longleftrightarrow> False"
| "text_less (b # bs) (c # cs) \<longleftrightarrow> char_code b < char_code c \<or> (b = c \<and> text_less bs cs)"

text \<open>A \<open>std::map<std::string, _>\<close> as the list of its entries in the order of the keys.\<close>

fun map_put :: "string \<Rightarrow> 'a \<Rightarrow> (string \<times> 'a) list \<Rightarrow> (string \<times> 'a) list" where
  "map_put k v [] = [(k, v)]"
| "map_put k v ((k', v') # r) =
     (if k = k' then (k, v) # r
      else if text_less k k' then (k, v) # (k', v') # r
      else (k', v') # map_put k v r)"

lemma map_of_map_put: "map_of (map_put k v m) k' = (if k' = k then Some v else map_of m k')"
  by (induction k v m rule: map_put.induct) auto

lemma text_less_trans: "text_less a b \<Longrightarrow> text_less b c \<Longrightarrow> text_less a c"
proof (induction a b arbitrary: c rule: text_less.induct)
  case (2 x a)
  then show ?case by (cases c) auto
next
  case (4 x a y b)
  then show ?case by (cases c) auto
qed auto

lemma text_less_irrefl [simp]: "\<not> text_less a a"
  by (induction a) auto

lemma char_code_inj: "char_code a = char_code b \<Longrightarrow> a = b"
  by (simp add: char_code_def)

lemma text_less_total: "a \<noteq> b \<Longrightarrow> text_less a b \<or> text_less b a"
proof (induction a b rule: text_less.induct)
  case (4 x a y b)
  then show ?case using char_code_inj [of x y] by (cases "char_code x" "char_code y" rule: linorder_cases) auto
qed auto

definition key_sorted :: "(string \<times> 'a) list \<Rightarrow> bool" where
  "key_sorted m \<longleftrightarrow> sorted_wrt text_less (map fst m)"

lemma map_put_keys: "set (map fst (map_put k v m)) = insert k (set (map fst m))"
  by (induction k v m rule: map_put.induct) auto

lemma key_sorted_put: "key_sorted m \<Longrightarrow> key_sorted (map_put k v m)"
proof (induction k v m rule: map_put.induct)
  case (2 k v k' v' r)
  then show ?case
    using map_put_keys [of k v r] text_less_total [of k k'] text_less_trans
    by (auto simp: key_sorted_def)
qed (simp add: key_sorted_def)

lemma key_sorted_distinct: "key_sorted m \<Longrightarrow> distinct (map fst m)"
  unfolding key_sorted_def by (induction m) auto

text \<open>\<open>std::sort\<close> of strings that are pairwise different.\<close>

fun text_insert :: "('a \<Rightarrow> string) \<Rightarrow> 'a \<Rightarrow> 'a list \<Rightarrow> 'a list" where
  "text_insert f x [] = [x]"
| "text_insert f x (y # ys) = (if text_less (f y) (f x) then y # text_insert f x ys else x # y # ys)"

definition text_sort :: "('a \<Rightarrow> string) \<Rightarrow> 'a list \<Rightarrow> 'a list" where
  "text_sort f xs = foldr (text_insert f) xs []"

lemma set_text_sort [simp]: "set (text_sort f xs) = set xs"
proof -
  have "set (text_insert f x ys) = insert x (set ys)" for x and ys :: "'a list" by (induction ys) auto
  then show ?thesis by (induction xs) (simp_all add: text_sort_def)
qed

section \<open>Decimal numerals\<close>

text \<open>\<open>dec_of_nat\<close> and \<open>dec_of_int\<close> are \<open>std::to_string\<close>; \<open>nat_of_dec\<close> reads a string
  of digits the way \<open>std::stoll\<close> does before its range check.\<close>

definition digit_char :: "nat \<Rightarrow> char" where
  "digit_char n = char_of (48 + n)"

definition digit_val :: "char \<Rightarrow> nat" where
  "digit_val c = char_code c - 48"

fun dec_of_nat :: "nat \<Rightarrow> string" where
  "dec_of_nat n =
     (if n < 10 then [digit_char n] else dec_of_nat (n div 10) @ [digit_char (n mod 10)])"

declare dec_of_nat.simps [simp del]

definition dec_of_int :: "int \<Rightarrow> string" where
  "dec_of_int i = (if i < 0 then CHR ''-'' # dec_of_nat (nat (- i)) else dec_of_nat (nat i))"

definition nat_of_dec :: "string \<Rightarrow> nat" where
  "nat_of_dec s = foldl (\<lambda>a c. 10 * a + digit_val c) 0 s"

lemma char_code_digit: "n < 10 \<Longrightarrow> char_code (digit_char n) = 48 + n"
  by (simp add: digit_char_def char_code_def)

lemma digit_val_char: "n < 10 \<Longrightarrow> digit_val (digit_char n) = n"
  by (simp add: digit_val_def char_code_digit)

lemma isdigit_digit_char: "n < 10 \<Longrightarrow> c_isdigit (digit_char n)"
  by (simp add: c_isdigit_def char_code_digit)

lemma dec_of_nat_nonempty [simp]: "dec_of_nat n \<noteq> []"
  by (subst dec_of_nat.simps) simp

lemma dec_of_nat_digits: "\<forall>c \<in> set (dec_of_nat n). c_isdigit c"
proof (induction n rule: dec_of_nat.induct)
  case (1 n)
  then show ?case
    by (subst dec_of_nat.simps) (auto simp: isdigit_digit_char)
qed

lemma nat_of_dec_of_nat [simp]: "nat_of_dec (dec_of_nat n) = n"
proof (induction n rule: dec_of_nat.induct)
  case (1 n)
  show ?case
  proof (cases "n < 10")
    case True
    then show ?thesis
      by (simp add: dec_of_nat.simps [of n] nat_of_dec_def digit_val_char)
  next
    case False
    with 1 have "nat_of_dec (dec_of_nat (n div 10)) = n div 10" by simp
    with False show ?thesis
      by (simp add: dec_of_nat.simps [of n] nat_of_dec_def digit_val_char)
  qed
qed

lemma dec_of_nat_inj: "dec_of_nat m = dec_of_nat n \<Longrightarrow> m = n"
  by (metis nat_of_dec_of_nat)

text \<open>Signed 64-bit range of \<open>long long\<close>.\<close>

definition LLONG_MAX :: int where
  "LLONG_MAX = 9223372036854775807"

definition in_llong :: "int \<Rightarrow> bool" where
  "in_llong i \<longleftrightarrow> - LLONG_MAX - 1 \<le> i \<and> i \<le> LLONG_MAX"

text \<open>\<open>std::stoll\<close> on a nonempty string of digits: \<open>None\<close> stands for the
  \<open>std::out_of_range\<close> exception.\<close>

definition stoll_digits :: "string \<Rightarrow> int option" where
  "stoll_digits s = (let n = int (nat_of_dec s) in if n \<le> LLONG_MAX then Some n else None)"

lemma stoll_digits_range: "stoll_digits s = Some n \<Longrightarrow> 0 \<le> n \<and> n \<le> LLONG_MAX"
  by (auto simp: stoll_digits_def Let_def split: if_splits)

lemma stoll_digits_dec: "int n \<le> LLONG_MAX \<Longrightarrow> stoll_digits (dec_of_nat n) = Some (int n)"
  by (simp add: stoll_digits_def)

section \<open>Lists\<close>

text \<open>The first element satisfying a predicate, with a transparent prefilter.\<close>

lemma find_prefilter:
  "(\<And>x. x \<in> set xs \<Longrightarrow> P x \<Longrightarrow> Q x) \<Longrightarrow> find (\<lambda>x. Q x \<and> P x) xs = find P xs"
  by (induction xs) auto

lemma find_Some_in: "find P xs = Some x \<Longrightarrow> x \<in> set xs \<and> P x"
  by (auto simp: find_Some_iff)

lemma find_append: "find P (xs @ ys) = (case find P xs of None \<Rightarrow> find P ys | Some x \<Rightarrow> Some x)"
  by (induction xs) auto

lemma find_neq_None: "find P xs \<noteq> None \<longleftrightarrow> (\<exists>x \<in> set xs. P x)"
  by (auto simp: find_None_iff)

lemma takeWhile_dropWhile_length:
  "length (dropWhile P xs) \<le> length xs"
  by (metis length_append takeWhile_dropWhile_id le_add2)

lemma remove1_distinct_set: "distinct xs \<Longrightarrow> set (remove1 x xs) = set xs - {x}"
  by (rule set_remove1_eq)

end
