(* ===== verification/Rule.thy ===== *)
theory Rule
  imports Prelude
begin

text \<open>
  The data of the detection rules (\<open>src/src/detect/rule.hpp\<close>) and the field table of the
  condition parser (\<open>src/src/detect/condition_parser.cpp\<close>, lines 7 to 96). A field
  identifier \<open>FieldId::x\<close> is the constructor \<open>F_x\<close>. The C++ structs \<open>Operand\<close> and
  \<open>CondNode\<close> are tagged unions selected by their \<open>kind\<close>; they are datatypes here, and
  \<open>op_str\<close> and \<open>op_num\<close> read a member that the kind does not set as its default.
\<close>

section \<open>Operators and fields\<close>

datatype CmpOp = Eq | Ne | In | Contains | StartsWith

datatype FieldId =
    F_unknown | F_event_type | F_process_pid | F_process_ppid
  | F_process_uid | F_process_gid | F_process_comm | F_process_exe
  | F_ancestor_pid | F_ancestor_comm | F_ancestor_exe | F_container_id
  | F_file_path | F_file_action | F_file_new_mode | F_file_ino
  | F_file_mask | F_file_new_uid | F_file_new_gid | F_net_sip
  | F_net_dip | F_net_family | F_net_protocol | F_net_sport
  | F_net_dport | F_dns_domain | F_dns_qtype | F_priv_target_id
  | F_priv_effective_lo | F_priv_target_pid | F_priv_request_value | F_priv_request
  | F_priv_name | F_ns_source | F_ns_target | F_ns_fstype
  | F_ns_nstype_name | F_ns_target_ns | F_ns_flags | F_ns_fd
  | F_ns_nstype | F_ns_names

fun FieldIsNumber :: "FieldId \<Rightarrow> bool" where
  "FieldIsNumber F_process_pid = True"
| "FieldIsNumber F_process_ppid = True"
| "FieldIsNumber F_process_uid = True"
| "FieldIsNumber F_process_gid = True"
| "FieldIsNumber F_ancestor_pid = True"
| "FieldIsNumber F_file_ino = True"
| "FieldIsNumber F_file_mask = True"
| "FieldIsNumber F_file_new_uid = True"
| "FieldIsNumber F_file_new_gid = True"
| "FieldIsNumber F_net_family = True"
| "FieldIsNumber F_net_protocol = True"
| "FieldIsNumber F_net_sport = True"
| "FieldIsNumber F_net_dport = True"
| "FieldIsNumber F_dns_qtype = True"
| "FieldIsNumber F_priv_target_id = True"
| "FieldIsNumber F_priv_effective_lo = True"
| "FieldIsNumber F_priv_target_pid = True"
| "FieldIsNumber F_priv_request_value = True"
| "FieldIsNumber F_ns_flags = True"
| "FieldIsNumber F_ns_fd = True"
| "FieldIsNumber F_ns_nstype = True"
| "FieldIsNumber _ = False"

definition FieldIsArrayElem :: "FieldId \<Rightarrow> bool" where
  "FieldIsArrayElem fid \<longleftrightarrow>
     fid = F_ancestor_pid \<or> fid = F_ancestor_comm \<or> fid = F_ancestor_exe \<or> fid = F_ns_names"

text \<open>The table \<open>kFields\<close>, in the order of the source.\<close>

definition kFields :: "(string \<times> FieldId) list" where
  "kFields =
     [(''event_type'', F_event_type),
      (''process.pid'', F_process_pid),
      (''process.ppid'', F_process_ppid),
      (''process.uid'', F_process_uid),
      (''process.gid'', F_process_gid),
      (''process.comm'', F_process_comm),
      (''process.exe'', F_process_exe),
      (''process.ancestors[].pid'', F_ancestor_pid),
      (''process.ancestors[].comm'', F_ancestor_comm),
      (''process.ancestors[].exe'', F_ancestor_exe),
      (''container.container_id'', F_container_id),
      (''file.path'', F_file_path),
      (''file.action'', F_file_action),
      (''file.new_mode'', F_file_new_mode),
      (''file.ino'', F_file_ino),
      (''file.mask'', F_file_mask),
      (''file.new_uid'', F_file_new_uid),
      (''file.new_gid'', F_file_new_gid),
      (''network.sip'', F_net_sip),
      (''network.dip'', F_net_dip),
      (''network.family'', F_net_family),
      (''network.protocol'', F_net_protocol),
      (''network.sport'', F_net_sport),
      (''network.dport'', F_net_dport),
      (''dns.domain'', F_dns_domain),
      (''dns.qtype'', F_dns_qtype),
      (''priv.target_id'', F_priv_target_id),
      (''priv.effective_lo'', F_priv_effective_lo),
      (''priv.target_pid'', F_priv_target_pid),
      (''priv.request_value'', F_priv_request_value),
      (''priv.request'', F_priv_request),
      (''priv.name'', F_priv_name),
      (''ns.source'', F_ns_source),
      (''ns.target'', F_ns_target),
      (''ns.fstype'', F_ns_fstype),
      (''ns.nstype_name'', F_ns_nstype_name),
      (''ns.target_ns'', F_ns_target_ns),
      (''ns.flags'', F_ns_flags),
      (''ns.fd'', F_ns_fd),
      (''ns.nstype'', F_ns_nstype),
      (''ns.names[]'', F_ns_names)]"

text \<open>\<open>None\<close> is the result \<open>false\<close>, in which case \<open>out\<close> is \<open>FieldId::unknown\<close>.\<close>

definition FieldIdFromPath :: "string \<Rightarrow> FieldId option" where
  "FieldIdFromPath path = map_option snd (find (\<lambda>f. path = fst f) kFields)"

section \<open>Operands, conditions and rules\<close>

datatype Operand = OpField FieldId | OpStr string | OpNum string int | OpList "Operand list"

fun op_str :: "Operand \<Rightarrow> string" where
  "op_str (OpStr s) = s"
| "op_str (OpNum t _) = t"
| "op_str (OpField _) = []"
| "op_str (OpList _) = []"

fun op_num :: "Operand \<Rightarrow> int" where
  "op_num (OpNum _ n) = n"
| "op_num _ = 0"

definition op_is_num :: "Operand \<Rightarrow> bool" where
  "op_is_num x \<longleftrightarrow> (case x of OpNum _ _ \<Rightarrow> True | _ \<Rightarrow> False)"

definition op_is_str :: "Operand \<Rightarrow> bool" where
  "op_is_str x \<longleftrightarrow> (case x of OpStr _ \<Rightarrow> True | _ \<Rightarrow> False)"

definition op_is_field :: "Operand \<Rightarrow> bool" where
  "op_is_field x \<longleftrightarrow> (case x of OpField _ \<Rightarrow> True | _ \<Rightarrow> False)"

datatype CondNode =
    CondOr "CondNode list"
  | CondAnd "CondNode list"
  | CondNot CondNode
  | CondCompare CmpOp Operand Operand

record Rule =
  rule_name :: string
  rule_desc :: string
  output_template :: string
  rule_priority :: string
  rule_attack :: "string list"
  fpr_note :: string
  rule_response :: string
  source_file :: string
  condition :: CondNode

section \<open>The field table\<close>

lemma kFields_distinct: "distinct (map fst kFields)" "distinct (map snd kFields)"
  by (simp_all add: kFields_def)

lemma FieldIdFromPath_map_of: "FieldIdFromPath path = map_of kFields path"
proof -
  have "map_option snd (find (\<lambda>f. path = fst f) fs) = map_of fs path" for fs :: "(string \<times> FieldId) list"
    by (induction fs) auto
  then show ?thesis by (simp add: FieldIdFromPath_def)
qed

lemma FieldIdFromPath_Some: "FieldIdFromPath p = Some fid \<longleftrightarrow> (p, fid) \<in> set kFields"
  by (simp add: FieldIdFromPath_map_of kFields_distinct)

text \<open>The path under which a field is written; \<open>unknown\<close> has none.\<close>

definition path_of_field :: "FieldId \<Rightarrow> string option" where
  "path_of_field fid = map_option fst (find (\<lambda>f. fid = snd f) kFields)"

lemma path_of_field_Some: "path_of_field fid = Some p \<Longrightarrow> FieldIdFromPath p = Some fid"
  by (auto simp: path_of_field_def FieldIdFromPath_Some dest: find_Some_in)

lemma FieldIdFromPath_inj:
  "FieldIdFromPath p = Some fid \<Longrightarrow> FieldIdFromPath q = Some fid \<Longrightarrow> p = q"
  unfolding FieldIdFromPath_Some using kFields_distinct(2)
  by (metis eq_key_imp_eq_value distinct_map inj_on_def prod.inject snd_conv)

lemma path_of_field_total: "fid \<noteq> F_unknown \<Longrightarrow> path_of_field fid \<noteq> None"
proof -
  assume "fid \<noteq> F_unknown"
  then have "fid \<in> set (map snd kFields)"
    unfolding kFields_def list.map snd_conv by (cases fid) simp_all
  then show ?thesis by (auto simp: path_of_field_def find_None_iff)
qed

lemma FieldIdFromPath_known: "FieldIdFromPath p = Some fid \<Longrightarrow> fid \<noteq> F_unknown"
  by (auto simp: FieldIdFromPath_Some kFields_def)

lemma array_not_number_cases:
  "FieldIsArrayElem fid \<Longrightarrow> fid \<in> {F_ancestor_pid, F_ancestor_comm, F_ancestor_exe, F_ns_names}"
  by (auto simp: FieldIsArrayElem_def)

end
