(* ===== verification/Rule_Eval.thy ===== *)
theory Rule_Eval
  imports Rule
begin

text \<open>
  Evaluation of conditions (\<open>src/src/detect/rule_engine.cpp\<close>, lines 9 to 410, and the event
  view of \<open>rule_engine.hpp\<close>): field resolution, comparisons, and the evaluation of a
  condition tree. A \<open>string_view\<close> is the byte string it refers to; a \<open>long long\<close> that is only
  stored and compared is an \<open>int\<close>.
\<close>

section \<open>Event view\<close>

record AncestorView =
  av_pid :: int
  av_comm :: string
  av_exe :: string

record EventView =
  ev_event_type :: string
  ev_pid :: int
  ev_ppid :: int
  ev_uid :: int
  ev_gid :: int
  ev_comm :: string
  ev_exe :: string
  ev_container_id :: string
  ev_ancestors :: "AncestorView list"
  ev_has_file :: bool
  ev_file_path :: string
  ev_file_action :: string
  ev_file_new_mode :: string
  ev_file_ino :: int
  ev_file_mask :: int
  ev_file_new_uid :: int
  ev_file_new_gid :: int
  ev_has_network :: bool
  ev_net_sip :: string
  ev_net_dip :: string
  ev_net_family :: int
  ev_net_protocol :: int
  ev_net_sport :: int
  ev_net_dport :: int
  ev_has_dns :: bool
  ev_dns_domain :: string
  ev_dns_qtype :: int
  ev_has_priv :: bool
  ev_priv_request :: string
  ev_priv_name :: string
  ev_priv_target_id :: int
  ev_priv_effective_lo :: int
  ev_priv_target_pid :: int
  ev_priv_request_value :: int
  ev_has_ns :: bool
  ev_ns_source :: string
  ev_ns_target :: string
  ev_ns_fstype :: string
  ev_ns_nstype_name :: string
  ev_ns_target_ns :: string
  ev_ns_flags :: int
  ev_ns_fd :: int
  ev_ns_nstype :: int
  ev_ns_names :: "string list"

text \<open>The value-initialised view, from which a caller fills the families it has.\<close>

definition empty_view :: EventView where
  "empty_view = \<lparr>
     ev_event_type = [], ev_pid = 0, ev_ppid = 0, ev_uid = 0, ev_gid = 0,
     ev_comm = [], ev_exe = [], ev_container_id = [], ev_ancestors = [],
     ev_has_file = False, ev_file_path = [], ev_file_action = [], ev_file_new_mode = [],
     ev_file_ino = 0, ev_file_mask = 0, ev_file_new_uid = 0, ev_file_new_gid = 0,
     ev_has_network = False, ev_net_sip = [], ev_net_dip = [], ev_net_family = 0,
     ev_net_protocol = 0, ev_net_sport = 0, ev_net_dport = 0,
     ev_has_dns = False, ev_dns_domain = [], ev_dns_qtype = 0,
     ev_has_priv = False, ev_priv_request = [], ev_priv_name = [], ev_priv_target_id = 0,
     ev_priv_effective_lo = 0, ev_priv_target_pid = 0, ev_priv_request_value = 0,
     ev_has_ns = False, ev_ns_source = [], ev_ns_target = [], ev_ns_fstype = [],
     ev_ns_nstype_name = [], ev_ns_target_ns = [], ev_ns_flags = 0, ev_ns_fd = 0,
     ev_ns_nstype = 0, ev_ns_names = [] \<rparr>"

section \<open>Field resolution\<close>

record FieldVal =
  fv_has :: bool
  fv_num :: int
  fv_str :: string

definition fv_default :: FieldVal where
  "fv_default = \<lparr>fv_has = False, fv_num = 0, fv_str = []\<rparr>"

text \<open>The first switch of \<open>resolve_scalar\<close>: the \<open>num\<close> and \<open>str\<close> members it assigns;
  \<open>None\<close> for the fields that are not scalars.\<close>

fun scalar_member :: "EventView \<Rightarrow> FieldId \<Rightarrow> (int \<times> string) option" where
  "scalar_member ev F_event_type = Some (0, ev_event_type ev)"
| "scalar_member ev F_process_pid = Some (ev_pid ev, [])"
| "scalar_member ev F_process_ppid = Some (ev_ppid ev, [])"
| "scalar_member ev F_process_uid = Some (ev_uid ev, [])"
| "scalar_member ev F_process_gid = Some (ev_gid ev, [])"
| "scalar_member ev F_process_comm = Some (0, ev_comm ev)"
| "scalar_member ev F_process_exe = Some (0, ev_exe ev)"
| "scalar_member ev F_container_id = Some (0, ev_container_id ev)"
| "scalar_member ev F_file_path = Some (0, ev_file_path ev)"
| "scalar_member ev F_file_action = Some (0, ev_file_action ev)"
| "scalar_member ev F_file_new_mode = Some (0, ev_file_new_mode ev)"
| "scalar_member ev F_file_ino = Some (ev_file_ino ev, [])"
| "scalar_member ev F_file_mask = Some (ev_file_mask ev, [])"
| "scalar_member ev F_file_new_uid = Some (ev_file_new_uid ev, [])"
| "scalar_member ev F_file_new_gid = Some (ev_file_new_gid ev, [])"
| "scalar_member ev F_net_sip = Some (0, ev_net_sip ev)"
| "scalar_member ev F_net_dip = Some (0, ev_net_dip ev)"
| "scalar_member ev F_net_family = Some (ev_net_family ev, [])"
| "scalar_member ev F_net_protocol = Some (ev_net_protocol ev, [])"
| "scalar_member ev F_net_sport = Some (ev_net_sport ev, [])"
| "scalar_member ev F_net_dport = Some (ev_net_dport ev, [])"
| "scalar_member ev F_dns_domain = Some (0, ev_dns_domain ev)"
| "scalar_member ev F_dns_qtype = Some (ev_dns_qtype ev, [])"
| "scalar_member ev F_priv_request = Some (0, ev_priv_request ev)"
| "scalar_member ev F_priv_name = Some (0, ev_priv_name ev)"
| "scalar_member ev F_priv_target_id = Some (ev_priv_target_id ev, [])"
| "scalar_member ev F_priv_effective_lo = Some (ev_priv_effective_lo ev, [])"
| "scalar_member ev F_priv_target_pid = Some (ev_priv_target_pid ev, [])"
| "scalar_member ev F_priv_request_value = Some (ev_priv_request_value ev, [])"
| "scalar_member ev F_ns_source = Some (0, ev_ns_source ev)"
| "scalar_member ev F_ns_target = Some (0, ev_ns_target ev)"
| "scalar_member ev F_ns_fstype = Some (0, ev_ns_fstype ev)"
| "scalar_member ev F_ns_nstype_name = Some (0, ev_ns_nstype_name ev)"
| "scalar_member ev F_ns_target_ns = Some (0, ev_ns_target_ns ev)"
| "scalar_member ev F_ns_flags = Some (ev_ns_flags ev, [])"
| "scalar_member ev F_ns_fd = Some (ev_ns_fd ev, [])"
| "scalar_member ev F_ns_nstype = Some (ev_ns_nstype ev, [])"
| "scalar_member ev _ = None"

text \<open>The second switch: whether the field's family is present in the event.\<close>

fun family_present :: "EventView \<Rightarrow> FieldId \<Rightarrow> bool" where
  "family_present ev F_file_path = ev_has_file ev"
| "family_present ev F_file_action = ev_has_file ev"
| "family_present ev F_file_new_mode = ev_has_file ev"
| "family_present ev F_file_ino = ev_has_file ev"
| "family_present ev F_file_mask = ev_has_file ev"
| "family_present ev F_file_new_uid = ev_has_file ev"
| "family_present ev F_file_new_gid = ev_has_file ev"
| "family_present ev F_net_sip = ev_has_network ev"
| "family_present ev F_net_dip = ev_has_network ev"
| "family_present ev F_net_family = ev_has_network ev"
| "family_present ev F_net_protocol = ev_has_network ev"
| "family_present ev F_net_sport = ev_has_network ev"
| "family_present ev F_net_dport = ev_has_network ev"
| "family_present ev F_dns_domain = ev_has_dns ev"
| "family_present ev F_dns_qtype = ev_has_dns ev"
| "family_present ev F_priv_request = ev_has_priv ev"
| "family_present ev F_priv_name = ev_has_priv ev"
| "family_present ev F_priv_target_id = ev_has_priv ev"
| "family_present ev F_priv_effective_lo = ev_has_priv ev"
| "family_present ev F_priv_target_pid = ev_has_priv ev"
| "family_present ev F_priv_request_value = ev_has_priv ev"
| "family_present ev F_ns_source = ev_has_ns ev"
| "family_present ev F_ns_target = ev_has_ns ev"
| "family_present ev F_ns_fstype = ev_has_ns ev"
| "family_present ev F_ns_nstype_name = ev_has_ns ev"
| "family_present ev F_ns_target_ns = ev_has_ns ev"
| "family_present ev F_ns_flags = ev_has_ns ev"
| "family_present ev F_ns_fd = ev_has_ns ev"
| "family_present ev F_ns_nstype = ev_has_ns ev"
| "family_present ev _ = True"

text \<open>\<open>None\<close> is the result \<open>false\<close>.\<close>

definition resolve_scalar :: "EventView \<Rightarrow> FieldId \<Rightarrow> FieldVal option" where
  "resolve_scalar ev fid =
     (case scalar_member ev fid of
        None \<Rightarrow> None
      | Some (n, s) \<Rightarrow>
          (if FieldIsNumber fid
           then Some \<lparr>fv_has = family_present ev fid, fv_num = n, fv_str = s\<rparr>
           else Some \<lparr>fv_has = True, fv_num = n,
                      fv_str = (if family_present ev fid then s else [])\<rparr>))"

record OpValue =
  v_valid :: bool
  v_is_num :: bool
  v_num :: int
  v_str :: string

definition v_default :: OpValue where
  "v_default = \<lparr>v_valid = True, v_is_num = False, v_num = 0, v_str = []\<rparr>"

text \<open>A list operand has kind \<open>List\<close> and the default field \<open>unknown\<close>, which does not
  resolve.\<close>

fun operand_value :: "EventView \<Rightarrow> Operand \<Rightarrow> OpValue" where
  "operand_value ev (OpNum t n) = v_default\<lparr>v_is_num := True, v_num := n, v_str := t\<rparr>"
| "operand_value ev (OpStr s) = v_default\<lparr>v_str := s\<rparr>"
| "operand_value ev (OpList _) = v_default\<lparr>v_valid := False\<rparr>"
| "operand_value ev (OpField fid) =
     (case resolve_scalar ev fid of
        None \<Rightarrow> v_default\<lparr>v_valid := False\<rparr>
      | Some fv \<Rightarrow>
          (if FieldIsNumber fid
           then (if fv_has fv then v_default\<lparr>v_is_num := True, v_num := fv_num fv\<rparr>
                 else v_default\<lparr>v_valid := False\<rparr>)
           else v_default\<lparr>v_str := fv_str fv\<rparr>))"

section \<open>Comparisons\<close>

definition cmp_field_literal :: "FieldId \<Rightarrow> FieldVal \<Rightarrow> CmpOp \<Rightarrow> OpValue \<Rightarrow> bool" where
  "cmp_field_literal fid fv op lit =
     (if FieldIsNumber fid
      then (if \<not> fv_has fv \<or> \<not> v_valid lit \<or> \<not> v_is_num lit then False
            else (case op of
                    Eq \<Rightarrow> fv_num fv = v_num lit
                  | Ne \<Rightarrow> fv_num fv \<noteq> v_num lit
                  | _ \<Rightarrow> False))
      else (let s = (if fv_has fv then fv_str fv else []);
                l = (if v_valid lit then v_str lit else [])
            in (case op of
                  Eq \<Rightarrow> s = l
                | Ne \<Rightarrow> s \<noteq> l
                | Contains \<Rightarrow> str_contains l s
                | StartsWith \<Rightarrow> starts_with l s
                | In \<Rightarrow> False)))"

text \<open>The value of an array field in one ancestor; \<open>None\<close> for a field that is not one of
  them, where the loop returns false.\<close>

fun ancestor_val :: "FieldId \<Rightarrow> AncestorView \<Rightarrow> FieldVal option" where
  "ancestor_val F_ancestor_pid a = Some (fv_default\<lparr>fv_has := True, fv_num := av_pid a\<rparr>)"
| "ancestor_val F_ancestor_comm a = Some (fv_default\<lparr>fv_has := True, fv_str := av_comm a\<rparr>)"
| "ancestor_val F_ancestor_exe a = Some (fv_default\<lparr>fv_has := True, fv_str := av_exe a\<rparr>)"
| "ancestor_val _ a = None"

fun any_ancestor :: "FieldId \<Rightarrow> CmpOp \<Rightarrow> OpValue \<Rightarrow> AncestorView list \<Rightarrow> bool" where
  "any_ancestor fid op lit [] = False"
| "any_ancestor fid op lit (a # as) =
     (case ancestor_val fid a of
        None \<Rightarrow> False
      | Some fv \<Rightarrow> cmp_field_literal fid fv op lit \<or> any_ancestor fid op lit as)"

definition match_array_any :: "EventView \<Rightarrow> FieldId \<Rightarrow> CmpOp \<Rightarrow> OpValue \<Rightarrow> bool" where
  "match_array_any ev fid op lit =
     (if fid = F_ns_names
      then list_ex (\<lambda>name. cmp_field_literal fid (fv_default\<lparr>fv_has := True, fv_str := name\<rparr>) op lit)
             (ev_ns_names ev)
      else any_ancestor fid op lit (ev_ancestors ev))"

definition elem_value :: "Operand \<Rightarrow> OpValue" where
  "elem_value e = v_default\<lparr>v_is_num := op_is_num e, v_num := op_num e, v_str := op_str e\<rparr>"

text \<open>Two resolved values, as in the comparisons without a literal on the right.\<close>

definition cmp_values :: "CmpOp \<Rightarrow> OpValue \<Rightarrow> OpValue \<Rightarrow> bool" where
  "cmp_values op a b =
     (if \<not> v_valid a \<or> \<not> v_valid b then False
      else if v_is_num a \<noteq> v_is_num b then False
      else (let eq = (if v_is_num a then v_num a = v_num b else v_str a = v_str b)
            in (case op of Eq \<Rightarrow> eq | Ne \<Rightarrow> \<not> eq | _ \<Rightarrow> False)))"

definition eval_compare :: "EventView \<Rightarrow> CmpOp \<Rightarrow> Operand \<Rightarrow> Operand \<Rightarrow> bool" where
  "eval_compare ev op lhs rhs =
     (case lhs of
        OpField fid \<Rightarrow>
          (case rhs of
             OpField _ \<Rightarrow> cmp_values op (operand_value ev lhs) (operand_value ev rhs)
           | OpList es \<Rightarrow>
               (if FieldIsArrayElem fid
                then list_ex (\<lambda>e. match_array_any ev fid (if op = In then Eq else op) (elem_value e)) es
                else list_ex (\<lambda>e. cmp_field_literal fid
                       (case resolve_scalar ev fid of None \<Rightarrow> fv_default | Some fv \<Rightarrow> fv) Eq
                       (elem_value e)) es)
           | _ \<Rightarrow>
               (if FieldIsArrayElem fid
                then match_array_any ev fid op (operand_value ev rhs)
                else cmp_field_literal fid
                       (case resolve_scalar ev fid of None \<Rightarrow> fv_default | Some fv \<Rightarrow> fv) op
                       (operand_value ev rhs)))
      | _ \<Rightarrow>
          (case rhs of
             OpList _ \<Rightarrow> False
           | _ \<Rightarrow> cmp_values op (operand_value ev lhs) (operand_value ev rhs)))"

fun eval_node :: "EventView \<Rightarrow> CondNode \<Rightarrow> bool" where
  "eval_node ev (CondAnd cs) = list_all (\<lambda>c. eval_node ev c) cs"
| "eval_node ev (CondOr cs) = list_ex (\<lambda>c. eval_node ev c) cs"
| "eval_node ev (CondNot c) = (\<not> eval_node ev c)"
| "eval_node ev (CondCompare op lhs rhs) = eval_compare ev op lhs rhs"

end
