(* ===== verification/Rule_Engine.thy ===== *)
theory Rule_Engine
  imports Rule_Eval
begin

unbundle bit_operations_syntax

text \<open>
  The rule engine (\<open>src/src/detect/rule_engine.cpp\<close>, lines 411 to 655): the output template,
  the event type bitmap used as a prefilter, the category buckets, \<open>Build\<close> and \<open>Evaluate\<close>.
  The bitmaps are 32-bit words. A failure with its message is a constructor of an error
  datatype that carries the variable parts of the message.
\<close>

section \<open>Output templates\<close>

datatype TemplateSeg =
    SegText string
  | SegRuleName
  | SegRulePriority
  | SegField FieldId

datatype TemplateError = UnknownTemplateField string | ArrayTemplateField string

definition tmpl_path_char :: "char \<Rightarrow> bool" where
  "tmpl_path_char c \<longleftrightarrow> c_isalnum c \<or> c = CHR ''.'' \<or> c = CHR ''_''"

definition seg_of_path :: "string \<Rightarrow> TemplateError + TemplateSeg" where
  "seg_of_path path =
     (if path = ''rule.name'' then Inr SegRuleName
      else if path = ''rule.priority'' then Inr SegRulePriority
      else (case FieldIdFromPath path of
              None \<Rightarrow> Inl (UnknownTemplateField path)
            | Some fid \<Rightarrow>
                (if FieldIsArrayElem fid then Inl (ArrayTemplateField path)
                 else Inr (SegField fid))))"

text \<open>Prepend the segments already produced to the result for the rest of the template.\<close>

definition with_segs :: "TemplateSeg list \<Rightarrow> TemplateError + TemplateSeg list
    \<Rightarrow> TemplateError + TemplateSeg list" where
  "with_segs pre r = (case r of Inl e \<Rightarrow> Inl e | Inr segs \<Rightarrow> Inr (pre @ segs))"

text \<open>
  One round of the loop at offset \<open>i\<close>, the argument being the template from \<open>i\<close> on: the text
  up to the next \<open>%\<close>, then the longest path behind it.
\<close>

function ParseOutputTemplate :: "string \<Rightarrow> TemplateError + TemplateSeg list" where
  "ParseOutputTemplate t =
     (if t = [] then Inr []
      else (let lit = takeWhile (\<lambda>c. c \<noteq> CHR ''%'') t in
            case dropWhile (\<lambda>c. c \<noteq> CHR ''%'') t of
              [] \<Rightarrow> Inr [SegText lit]
            | _ # after \<Rightarrow>
               (let pre = (if lit = [] then [] else [SegText lit]);
                    path = takeWhile tmpl_path_char after
                in if path = []
                   then with_segs (pre @ [SegText ''%'']) (ParseOutputTemplate after)
                   else (case seg_of_path path of
                           Inl e \<Rightarrow> Inl e
                         | Inr seg \<Rightarrow>
                             with_segs (pre @ [seg])
                               (ParseOutputTemplate (dropWhile tmpl_path_char after))))))"
  by pat_completeness auto
termination
proof (relation "measure length", goal_cases)
  case 1 then show ?case by simp
next
  case (2 t lit c after pre path)
  then show ?case using length_dropWhile_le [of "\<lambda>c. c \<noteq> CHR ''%''" t] by simp
next
  case (3 t lit c after pre path seg)
  then show ?case
    using length_dropWhile_le [of "\<lambda>c. c \<noteq> CHR ''%''" t] length_dropWhile_le [of tmpl_path_char after]
    by simp
qed

declare ParseOutputTemplate.simps [simp del]

definition render_field_value :: "EventView \<Rightarrow> FieldId \<Rightarrow> string" where
  "render_field_value ev fid =
     (case resolve_scalar ev fid of
        None \<Rightarrow> []
      | Some fv \<Rightarrow>
          (if \<not> fv_has fv then []
           else if FieldIsNumber fid then dec_of_int (fv_num fv)
           else fv_str fv))"

fun render_seg :: "EventView \<Rightarrow> Rule \<Rightarrow> TemplateSeg \<Rightarrow> string" where
  "render_seg ev r (SegText s) = s"
| "render_seg ev r SegRuleName = rule_name r"
| "render_seg ev r SegRulePriority = rule_priority r"
| "render_seg ev r (SegField fid) = render_field_value ev fid"

section \<open>The event type prefilter\<close>

text \<open>\<open>EventTypeId\<close>: the position in this table is the enumerator's value.\<close>

definition event_types :: "string list" where
  "event_types =
     [''file.read'', ''file.write'', ''file.access'', ''file.chmod'', ''file.chown'',
      ''file.unlink'', ''file.rename'', ''file.mmap'', ''process.exec'',
      ''network.connect'', ''network.accept'', ''network.bind'', ''network.dns'',
      ''priv.setuid'', ''priv.setgid'', ''priv.capset'', ''priv.ptrace'', ''priv.module_load'',
      ''ns.mount'', ''ns.unshare'', ''ns.setns'']"

definition kEtCount :: nat where
  "kEtCount = 21"

definition kEtUnknownBit :: u32 where
  "kEtUnknownBit = push_bit kEtCount 1"

definition kEtAllMask :: u32 where
  "kEtAllMask = push_bit kEtCount 1 - 1"

fun index_of :: "'a \<Rightarrow> 'a list \<Rightarrow> nat option" where
  "index_of x [] = None"
| "index_of x (y # ys) = (if y = x then Some 0 else map_option Suc (index_of x ys))"

text \<open>\<open>None\<close> is \<open>-1\<close>.\<close>

definition EventTypeIdOf :: "string \<Rightarrow> nat option" where
  "EventTypeIdOf et = index_of et event_types"

definition et_bit_of :: "string \<Rightarrow> u32" where
  "et_bit_of et = (case EventTypeIdOf et of Some i \<Rightarrow> push_bit i 1 | None \<Rightarrow> kEtUnknownBit)"

definition et_bit_of_literal :: "Operand \<Rightarrow> u32" where
  "et_bit_of_literal x = et_bit_of (op_str x)"

fun et_mask_of_compare :: "CmpOp \<Rightarrow> Operand \<Rightarrow> Operand \<Rightarrow> u32" where
  "et_mask_of_compare op lhs rhs =
     (if lhs \<noteq> OpField F_event_type then kEtAllMask OR kEtUnknownBit
      else if op = Eq \<and> op_is_str rhs then et_bit_of_literal rhs
      else (case rhs of
              OpList es \<Rightarrow>
                (if op = In then fold (\<lambda>e m. m OR et_bit_of_literal e) es 0
                 else kEtAllMask OR kEtUnknownBit)
            | _ \<Rightarrow> kEtAllMask OR kEtUnknownBit))"

fun et_necessary_mask :: "CondNode \<Rightarrow> u32" where
  "et_necessary_mask (CondCompare op lhs rhs) = et_mask_of_compare op lhs rhs"
| "et_necessary_mask (CondAnd cs) =
     fold (\<lambda>c m. m AND et_necessary_mask c) cs (kEtAllMask OR kEtUnknownBit)"
| "et_necessary_mask (CondOr cs) = fold (\<lambda>c m. m OR et_necessary_mask c) cs 0"
| "et_necessary_mask (CondNot c) = kEtAllMask OR kEtUnknownBit"

section \<open>Category buckets\<close>

datatype Bucket = kFile | kProcess | kNetwork | kDns | kPriv | kNs | kAll

definition BucketOfEventType :: "string \<Rightarrow> Bucket" where
  "BucketOfEventType et =
     (let first = takeWhile (\<lambda>c. c \<noteq> CHR ''.'') et;
          second = tl (dropWhile (\<lambda>c. c \<noteq> CHR ''.'') et)
      in if first = ''file'' then kFile
         else if first = ''process'' then kProcess
         else if first = ''priv'' then kPriv
         else if first = ''ns'' then kNs
         else if first = ''dns'' then kDns
         else if first = ''network'' then (if second = ''dns'' then kDns else kNetwork)
         else kAll)"

text \<open>The lambda \<open>bucket_of_compare\<close>; \<open>None\<close> is its result \<open>false\<close>.\<close>

fun bucket_of_compare :: "CondNode \<Rightarrow> Bucket option" where
  "bucket_of_compare (CondCompare op lhs rhs) =
     (if lhs \<noteq> OpField F_event_type then None
      else if op = Eq \<and> op_is_str rhs then
        (if BucketOfEventType (op_str rhs) = kAll then None
         else Some (BucketOfEventType (op_str rhs)))
      else (case rhs of
              OpList (e # es) \<Rightarrow>
                (if op \<noteq> In then None
                 else (let b = BucketOfEventType (op_str e)
                       in if b = kAll then None
                          else if list_ex (\<lambda>x. BucketOfEventType (op_str x) \<noteq> b) (e # es) then None
                          else Some b))
            | _ \<Rightarrow> None))"
| "bucket_of_compare _ = None"

fun and_bucket :: "Bucket \<Rightarrow> CondNode list \<Rightarrow> Bucket" where
  "and_bucket found [] = found"
| "and_bucket found (c # cs) =
     (case bucket_of_compare c of
        None \<Rightarrow> and_bucket found cs
      | Some b \<Rightarrow> (if found \<noteq> kAll \<and> found \<noteq> b then kAll else and_bucket b cs))"

definition ExtractBucket :: "CondNode \<Rightarrow> Bucket" where
  "ExtractBucket c =
     (case c of
        CondAnd cs \<Rightarrow> and_bucket kAll cs
      | _ \<Rightarrow> (case bucket_of_compare c of Some b \<Rightarrow> b | None \<Rightarrow> kAll))"

section \<open>Building and evaluating\<close>

record CompiledRule =
  cr_rule :: Rule
  cr_segs :: "TemplateSeg list"
  cr_et_mask :: u32

record RuleEngine =
  engine_rules :: "Rule list"
  engine_buckets :: "Bucket \<Rightarrow> CompiledRule list"

record BuildError =
  be_source_file :: string
  be_rule :: string
  be_error :: TemplateError

definition compile_rule :: "Rule \<Rightarrow> TemplateError + CompiledRule" where
  "compile_rule r =
     (case ParseOutputTemplate (output_template r) of
        Inl e \<Rightarrow> Inl e
      | Inr segs \<Rightarrow>
          Inr \<lparr>cr_rule = r, cr_segs = segs, cr_et_mask = et_necessary_mask (condition r)\<rparr>)"

fun build_buckets :: "(Bucket \<Rightarrow> CompiledRule list) \<Rightarrow> Rule list
    \<Rightarrow> BuildError + (Bucket \<Rightarrow> CompiledRule list)" where
  "build_buckets bs [] = Inr bs"
| "build_buckets bs (r # rs) =
     (case compile_rule r of
        Inl e \<Rightarrow> Inl \<lparr>be_source_file = source_file r, be_rule = rule_name r, be_error = e\<rparr>
      | Inr cr \<Rightarrow>
          (let b = ExtractBucket (condition r) in build_buckets (bs(b := bs b @ [cr])) rs))"

definition Build :: "Rule list \<Rightarrow> BuildError + RuleEngine" where
  "Build rules =
     (case build_buckets (\<lambda>_. []) rules of
        Inl e \<Rightarrow> Inl e
      | Inr bs \<Rightarrow> Inr \<lparr>engine_rules = rules, engine_buckets = bs\<rparr>)"

definition render :: "EventView \<Rightarrow> CompiledRule \<Rightarrow> string" where
  "render ev cr = concat (map (render_seg ev (cr_rule cr)) (cr_segs cr))"

fun eval_bucket :: "EventView \<Rightarrow> u32 \<Rightarrow> CompiledRule list \<Rightarrow> (Rule \<times> string) option" where
  "eval_bucket ev et_bit [] = None"
| "eval_bucket ev et_bit (cr # crs) =
     (if cr_et_mask cr AND et_bit = 0 then eval_bucket ev et_bit crs
      else if \<not> eval_node ev (condition (cr_rule cr)) then eval_bucket ev et_bit crs
      else Some (cr_rule cr, render ev cr))"

text \<open>\<open>None\<close> is the result \<open>false\<close>; the event's own bucket first, then the bucket of the
  unconstrained rules.\<close>

definition Evaluate :: "RuleEngine \<Rightarrow> EventView \<Rightarrow> (Rule \<times> string) option" where
  "Evaluate eng ev =
     (let et_bit = et_bit_of (ev_event_type ev);
          b = BucketOfEventType (ev_event_type ev)
      in (case eval_bucket ev et_bit (engine_buckets eng b) of
            Some m \<Rightarrow> Some m
          | None \<Rightarrow> (if b = kAll then None else eval_bucket ev et_bit (engine_buckets eng kAll))))"

end
