(* ===== verification/Rule_Engine_Correct.thy ===== *)
theory Rule_Engine_Correct
  imports Rule_Engine
begin

text \<open>
  Correctness of the rule engine: the compiled output template, the event type bitmap and the
  category buckets as two instances of one filter contract (locale \<open>event_filter\<close>), and the
  refinement of \<open>Evaluate\<close> to a linear scan of the loaded rules.
\<close>

unbundle bit_operations_syntax

section \<open>Compilation\<close>

lemma with_segs_Inr: "with_segs pre r = Inr segs \<longleftrightarrow> (\<exists>s. r = Inr s \<and> segs = pre @ s)"
  by (auto simp: with_segs_def split: sum.splits)

lemma with_segs_Inl: "with_segs pre r = Inl e \<longleftrightarrow> r = Inl e"
  by (auto simp: with_segs_def split: sum.splits)

text \<open>The text a segment was parsed from.\<close>

fun seg_source :: "TemplateSeg \<Rightarrow> string" where
  "seg_source (SegText s) = s"
| "seg_source SegRuleName = ''%rule.name''"
| "seg_source SegRulePriority = ''%rule.priority''"
| "seg_source (SegField fid) =
     CHR ''%'' # (case path_of_field fid of Some p \<Rightarrow> p | None \<Rightarrow> [])"

lemma path_of_field_inverse: "FieldIdFromPath p = Some fid \<Longrightarrow> path_of_field fid = Some p"
proof -
  assume p: "FieldIdFromPath p = Some fid"
  then obtain q where q: "path_of_field fid = Some q"
    using path_of_field_total [of fid] FieldIdFromPath_known [of p fid] by blast
  from path_of_field_Some [OF q] p have "p = q" by (rule FieldIdFromPath_inj [rotated])
  with q show ?thesis by simp
qed

lemma seg_of_path_cases:
  assumes "seg_of_path p = Inr seg"
  obtains "p = ''rule.name''" "seg = SegRuleName"
  | "p = ''rule.priority''" "seg = SegRulePriority"
  | fid where "FieldIdFromPath p = Some fid" "\<not> FieldIsArrayElem fid" "seg = SegField fid"
proof (cases "p = ''rule.name''")
  case True
  with assms that(1) show ?thesis by (simp add: seg_of_path_def)
next
  case not_name: False
  show ?thesis
  proof (cases "p = ''rule.priority''")
    case True
    with assms that(2) show ?thesis by (simp add: seg_of_path_def)
  next
    case False
    with assms not_name have *: "(case FieldIdFromPath p of None \<Rightarrow> Inl (UnknownTemplateField p)
        | Some fid \<Rightarrow> if FieldIsArrayElem fid then Inl (ArrayTemplateField p) else Inr (SegField fid))
        = Inr seg"
      unfolding seg_of_path_def by (simp only: if_False)
    from * obtain fid where "FieldIdFromPath p = Some fid" by (cases "FieldIdFromPath p") simp_all
    with * that(3) show ?thesis by (cases "FieldIsArrayElem fid") simp_all
  qed
qed

lemma seg_of_path_source: "seg_of_path p = Inr seg \<Longrightarrow> seg_source seg = CHR ''%'' # p"
  by (erule seg_of_path_cases) (simp_all add: path_of_field_inverse)

lemma dropWhile_split:
  assumes "dropWhile (\<lambda>c. c \<noteq> x) t = c # after"
  shows "takeWhile (\<lambda>c. c \<noteq> x) t @ x # after = t"
proof -
  have "c = x" using hd_dropWhile [of "\<lambda>c. c \<noteq> x" t] assms by simp
  with assms show ?thesis using takeWhile_dropWhile_id [of "\<lambda>c. c \<noteq> x" t] by metis
qed

lemmas dropWhile_percent = dropWhile_split [of "CHR ''%''"]

text \<open>The rounds of the loop as equations: no \<open>%\<close> left, a lone \<open>%\<close>, a path.\<close>

definition text_seg :: "string \<Rightarrow> TemplateSeg list" where
  "text_seg t = (if t = [] then [] else [SegText t])"

lemma source_text_seg [simp]: "concat (map seg_source (text_seg t)) = t"
  by (simp add: text_seg_def)

lemma template_text:
  assumes "dropWhile (\<lambda>c. c \<noteq> CHR ''%'') t = []"
  shows "ParseOutputTemplate t = Inr (text_seg t)"
proof -
  have "takeWhile (\<lambda>c. c \<noteq> CHR ''%'') t = t"
    using takeWhile_dropWhile_id [of "\<lambda>c. c \<noteq> CHR ''%''" t] assms by (simp del: dropWhile_eq_Nil_conv)
  with assms show ?thesis
    by (subst ParseOutputTemplate.simps) (simp add: Let_def text_seg_def split: sum.split del: dropWhile_eq_Nil_conv takeWhile_eq_Nil_iff)
qed

lemma template_percent:
  assumes "dropWhile (\<lambda>c. c \<noteq> CHR ''%'') t = c # after"
    and "takeWhile tmpl_path_char after = []"
  shows "ParseOutputTemplate t =
    with_segs (text_seg (takeWhile (\<lambda>c. c \<noteq> CHR ''%'') t) @ [SegText ''%'']) (ParseOutputTemplate after)"
proof -
  have "t \<noteq> []" using assms(1) by auto
  with assms show ?thesis
    by (subst ParseOutputTemplate.simps) (simp add: Let_def text_seg_def split: sum.split del: dropWhile_eq_Nil_conv takeWhile_eq_Nil_iff)
qed

lemma template_path:
  assumes "dropWhile (\<lambda>c. c \<noteq> CHR ''%'') t = c # after"
    and "takeWhile tmpl_path_char after \<noteq> []"
  shows "ParseOutputTemplate t =
    (case seg_of_path (takeWhile tmpl_path_char after) of
       Inl e \<Rightarrow> Inl e
     | Inr seg \<Rightarrow>
         with_segs (text_seg (takeWhile (\<lambda>c. c \<noteq> CHR ''%'') t) @ [seg])
           (ParseOutputTemplate (dropWhile tmpl_path_char after)))"
proof -
  have "t \<noteq> []" using assms(1) by auto
  with assms show ?thesis
    by (subst ParseOutputTemplate.simps) (simp add: Let_def text_seg_def split: sum.split del: dropWhile_eq_Nil_conv takeWhile_eq_Nil_iff)
qed

text \<open>Induction along these rounds.\<close>

lemma template_induct [case_names plain lone path]:
  assumes plain: "\<And>t. dropWhile (\<lambda>c. c \<noteq> CHR ''%'') t = [] \<Longrightarrow> P t"
    and lone: "\<And>t c after. dropWhile (\<lambda>c. c \<noteq> CHR ''%'') t = c # after \<Longrightarrow>
      takeWhile tmpl_path_char after = [] \<Longrightarrow> P after \<Longrightarrow> P t"
    and path: "\<And>t c after. dropWhile (\<lambda>c. c \<noteq> CHR ''%'') t = c # after \<Longrightarrow>
      takeWhile tmpl_path_char after \<noteq> [] \<Longrightarrow> P (dropWhile tmpl_path_char after) \<Longrightarrow> P t"
  shows "P t"
proof (induction t rule: length_induct)
  case (1 t)
  show ?case
  proof (cases "dropWhile (\<lambda>c. c \<noteq> CHR ''%'') t")
    case Nil
    then show ?thesis by (rule plain)
  next
    case (Cons c after)
    have "length (c # after) \<le> length t"
      using length_dropWhile_le [of "\<lambda>c. c \<noteq> CHR ''%''" t] unfolding Cons .
    then have "P after" and "P (dropWhile tmpl_path_char after)"
      using 1 length_dropWhile_le [of tmpl_path_char after] by simp_all
    with Cons lone path show ?thesis by blast
  qed
qed

lemma template_source:
  "ParseOutputTemplate t = Inr segs \<Longrightarrow> concat (map seg_source segs) = t"
proof (induction t arbitrary: segs rule: template_induct)
  case (plain t)
  have "text_seg t = segs" using plain.prems unfolding template_text [OF plain.hyps] by simp
  then show ?case by (metis source_text_seg)
next
  case (lone t c after)
  obtain s where "ParseOutputTemplate after = Inr s"
    and "segs = text_seg (takeWhile (\<lambda>c. c \<noteq> CHR ''%'') t) @ [SegText ''%''] @ s"
    using lone.prems unfolding template_percent [OF lone.hyps] with_segs_Inr by auto
  with lone.IH dropWhile_percent [OF lone.hyps(1)] show ?case by simp
next
  case (path t c after)
  obtain seg s where seg: "seg_of_path (takeWhile tmpl_path_char after) = Inr seg"
    and "ParseOutputTemplate (dropWhile tmpl_path_char after) = Inr s"
    and "segs = text_seg (takeWhile (\<lambda>c. c \<noteq> CHR ''%'') t) @ [seg] @ s"
    using path.prems unfolding template_path [OF path.hyps]
    by (cases "seg_of_path (takeWhile tmpl_path_char after)") (auto simp: with_segs_Inr)
  with path.IH dropWhile_percent [OF path.hyps(1)] seg_of_path_source [OF seg] show ?case by simp
qed

text \<open>The paths a template can name hold no bracket, so none of them is an array path.\<close>

lemma bracket_not_path_char: "\<not> tmpl_path_char CHR ''[''"
  by (simp add: tmpl_path_char_def char_class_defs)

lemma array_path_bracket:
  "FieldIdFromPath p = Some fid \<Longrightarrow> FieldIsArrayElem fid \<Longrightarrow> CHR ''['' \<in> set p"
  unfolding FieldIdFromPath_Some by (auto simp: kFields_def FieldIsArrayElem_def)

lemma seg_of_path_not_array: "seg_of_path (takeWhile tmpl_path_char s) \<noteq> Inl (ArrayTemplateField p)"
proof
  assume "seg_of_path (takeWhile tmpl_path_char s) = Inl (ArrayTemplateField p)"
  then have "CHR ''['' \<in> set (takeWhile tmpl_path_char s)"
    by (auto simp: seg_of_path_def dest: array_path_bracket split: if_splits option.splits)
  then show False by (auto dest: set_takeWhileD simp: bracket_not_path_char)
qed

lemma template_not_array_error: "ParseOutputTemplate t \<noteq> Inl (ArrayTemplateField p)"
proof (induction t rule: template_induct)
  case (plain t)
  then show ?case by (simp add: template_text)
next
  case (lone t c after)
  then show ?case by (simp add: template_percent with_segs_Inl)
next
  case (path t c after)
  then show ?case
    using seg_of_path_not_array [of after p]
    by (cases "seg_of_path (takeWhile tmpl_path_char after)") (simp_all add: template_path with_segs_Inl)
qed

lemma seg_field_scalar: "seg_of_path p = Inr (SegField fid) \<Longrightarrow> \<not> FieldIsArrayElem fid \<and> fid \<noteq> F_unknown"
  by (auto simp: seg_of_path_def dest: FieldIdFromPath_known split: if_splits option.splits)

lemma template_scalar:
  "ParseOutputTemplate t = Inr segs \<Longrightarrow> SegField fid \<in> set segs \<Longrightarrow>
   fid \<noteq> F_unknown \<and> \<not> FieldIsArrayElem fid"
proof (induction t arbitrary: segs rule: template_induct)
  case (plain t)
  have "text_seg t = segs" using plain.prems(1) unfolding template_text [OF plain.hyps] by simp
  with plain.prems(2) show ?case by (auto simp: text_seg_def split: if_splits)
next
  case (lone t c after)
  obtain s where "ParseOutputTemplate after = Inr s"
    and "segs = text_seg (takeWhile (\<lambda>c. c \<noteq> CHR ''%'') t) @ [SegText ''%''] @ s"
    using lone.prems(1) unfolding template_percent [OF lone.hyps] with_segs_Inr by auto
  with lone.IH lone.prems(2) show ?case by (auto simp: text_seg_def split: if_splits)
next
  case (path t c after)
  obtain seg s where seg: "seg_of_path (takeWhile tmpl_path_char after) = Inr seg"
    and "ParseOutputTemplate (dropWhile tmpl_path_char after) = Inr s"
    and "segs = text_seg (takeWhile (\<lambda>c. c \<noteq> CHR ''%'') t) @ [seg] @ s"
    using path.prems(1) unfolding template_path [OF path.hyps]
    by (cases "seg_of_path (takeWhile tmpl_path_char after)") (auto simp: with_segs_Inr)
  with path.IH path.prems(2) show ?case
    using seg_field_scalar by (auto simp: text_seg_def split: if_splits)
qed

lemma scalar_member_total:
  "fid \<noteq> F_unknown \<Longrightarrow> \<not> FieldIsArrayElem fid \<Longrightarrow> scalar_member ev fid \<noteq> None"
  by (cases fid) (auto simp: FieldIsArrayElem_def)

section \<open>The event type bitmap\<close>

definition et_index :: "string \<Rightarrow> nat" where
  "et_index et = (case EventTypeIdOf et of Some i \<Rightarrow> i | None \<Rightarrow> kEtCount)"

lemma et_bit_of_push_bit: "et_bit_of et = push_bit (et_index et) 1"
  by (simp add: et_bit_of_def et_index_def kEtUnknownBit_def split: option.split)

lemma index_of_less: "index_of x xs = Some i \<Longrightarrow> i < length xs"
  by (induction xs arbitrary: i) (auto split: if_splits)

lemma index_of_inj: "index_of x xs = Some i \<Longrightarrow> index_of y xs = Some i \<Longrightarrow> x = y"
  by (induction xs arbitrary: i) (auto split: if_splits)

lemma et_index_le: "et_index et \<le> kEtCount"
  using index_of_less [of et event_types]
  by (auto simp: et_index_def EventTypeIdOf_def kEtCount_def event_types_def
      split: option.splits dest: index_of_less)

lemma et_index_less_32: "et_index et < 32"
  using et_index_le [of et] by (simp add: kEtCount_def)

lemma et_test_bit: "(m AND et_bit_of et \<noteq> 0) \<longleftrightarrow> bit m (et_index et)"
  by (simp add: et_bit_of_push_bit push_bit_of_1 and_exp_eq_0_iff_not_bit)

lemma et_bit_self: "bit (et_bit_of et) (et_index et)"
  unfolding et_bit_of_push_bit push_bit_of_1 bit_exp_iff using et_index_less_32 [of et] by simp

lemma full_mask: "kEtAllMask OR kEtUnknownBit = mask 22"
  by (simp add: kEtAllMask_def kEtUnknownBit_def kEtCount_def mask_eq_exp_minus_1)

lemma bit_full_mask: "bit (kEtAllMask OR kEtUnknownBit) (et_index et)"
  using et_index_le [of et] by (simp add: full_mask bit_mask_iff kEtCount_def)

lemma bit_fold_or:
  "bit (fold (\<lambda>c m. m OR f c) cs m) n \<longleftrightarrow> bit m n \<or> (\<exists>c \<in> set cs. bit (f c :: u32) n)"
  by (induction cs arbitrary: m) (auto simp: bit_or_iff)

lemma bit_fold_and:
  "bit (fold (\<lambda>c m. m AND f c) cs m) n \<longleftrightarrow> bit m n \<and> (\<forall>c \<in> set cs. bit (f c :: u32) n)"
  by (induction cs arbitrary: m) (auto simp: bit_and_iff)

lemma resolve_event_type:
  "resolve_scalar ev F_event_type = Some \<lparr>fv_has = True, fv_num = 0, fv_str = ev_event_type ev\<rparr>"
  by (simp add: resolve_scalar_def)

lemma eval_event_type_eq:
  "op_is_str rhs \<Longrightarrow>
   eval_compare ev Eq (OpField F_event_type) rhs \<longleftrightarrow> ev_event_type ev = op_str rhs"
  by (cases rhs) (auto simp: eval_compare_def op_is_str_def FieldIsArrayElem_def
      cmp_field_literal_def resolve_event_type v_default_def)

lemma eval_event_type_list:
  "eval_compare ev op (OpField F_event_type) (OpList es) \<longleftrightarrow>
   (\<exists>e \<in> set es. ev_event_type ev = op_str e)"
  by (auto simp: eval_compare_def FieldIsArrayElem_def list_ex_iff cmp_field_literal_def
      resolve_event_type elem_value_def v_default_def)

lemma et_mask_of_compare_sound:
  assumes "eval_compare ev op lhs rhs"
  shows "bit (et_mask_of_compare op lhs rhs) (et_index (ev_event_type ev))"
proof (cases "lhs = OpField F_event_type")
  case False
  then show ?thesis by (simp add: bit_full_mask)
next
  case lhs: True
  show ?thesis
  proof (cases "op = Eq \<and> op_is_str rhs")
    case True
    with assms lhs have "ev_event_type ev = op_str rhs" by (simp add: eval_event_type_eq)
    with lhs True show ?thesis by (simp add: et_bit_of_literal_def et_bit_self)
  next
    case False
    show ?thesis
    proof (cases "\<exists>es. op = In \<and> rhs = OpList es")
      case True
      then obtain es where rhs: "op = In" "rhs = OpList es" by blast
      with assms lhs obtain e where "e \<in> set es" "ev_event_type ev = op_str e"
        by (auto simp: eval_event_type_list)
      then have "bit (et_bit_of_literal e) (et_index (ev_event_type ev))"
        by (simp add: et_bit_of_literal_def et_bit_self)
      with \<open>e \<in> set es\<close> rhs lhs show ?thesis by (auto simp: bit_fold_or)
    next
      case no_list: False
      with False lhs have "et_mask_of_compare op lhs rhs = kEtAllMask OR kEtUnknownBit"
        by (cases rhs) auto
      then show ?thesis by (simp add: bit_full_mask)
    qed
  qed
qed

lemma et_necessary_mask_sound:
  "eval_node ev c \<Longrightarrow> bit (et_necessary_mask c) (et_index (ev_event_type ev))"
proof (induction c)
  case (CondOr cs)
  then show ?case by (auto simp: bit_fold_or list_ex_iff)
next
  case (CondAnd cs)
  then show ?case by (auto simp: bit_fold_and list_all_iff bit_full_mask)
next
  case (CondNot c)
  then show ?case by (simp add: bit_full_mask)
next
  case (CondCompare op lhs rhs)
  then show ?case
    using et_mask_of_compare_sound [of ev op lhs rhs] by simp
qed

section \<open>The category buckets\<close>

lemma bucket_of_compare_sound:
  assumes "eval_node ev c" and "bucket_of_compare c = Some b"
  shows "BucketOfEventType (ev_event_type ev) = b \<and> b \<noteq> kAll"
proof (cases c)
  case (CondCompare op lhs rhs)
  with assms(2) have lhs: "lhs = OpField F_event_type" by (auto split: if_splits)
  show ?thesis
  proof (cases "op = Eq \<and> op_is_str rhs")
    case True
    with assms CondCompare lhs show ?thesis
      by (auto simp: eval_event_type_eq split: if_splits)
  next
    case False
    with assms(2) CondCompare lhs obtain e es where rhs: "rhs = OpList (e # es)"
      and "BucketOfEventType (op_str e) = b" "b \<noteq> kAll"
      and "\<forall>x \<in> set (e # es). BucketOfEventType (op_str x) = b"
      by (auto simp: Let_def list_ex_iff split: if_splits Operand.splits list.splits)
    with assms(1) CondCompare lhs show ?thesis
      by (auto simp: eval_event_type_list)
  qed
qed (use assms in auto)

lemma and_bucket_sound:
  assumes "\<forall>c \<in> set cs. eval_node ev c"
    and "found = kAll \<or> found = BucketOfEventType (ev_event_type ev)"
  shows "and_bucket found cs = kAll \<or> and_bucket found cs = BucketOfEventType (ev_event_type ev)"
  using assms
proof (induction cs arbitrary: found)
  case (Cons c cs)
  then show ?case
    using bucket_of_compare_sound [of ev c] by (auto split: option.splits)
qed simp

lemma ExtractBucket_sound:
  assumes "eval_node ev c"
  shows "ExtractBucket c = kAll \<or> ExtractBucket c = BucketOfEventType (ev_event_type ev)"
proof (cases "\<exists>cs. c = CondAnd cs")
  case True
  with assms show ?thesis
    using and_bucket_sound [where found = kAll and ev = ev] by (fastforce simp: ExtractBucket_def list_all_iff)
next
  case False
  then have "ExtractBucket c = (case bucket_of_compare c of Some b \<Rightarrow> b | None \<Rightarrow> kAll)"
    by (cases c) (auto simp: ExtractBucket_def)
  with bucket_of_compare_sound [OF assms] show ?thesis by (cases "bucket_of_compare c") auto
qed

section \<open>Filters by event type\<close>

text \<open>
  The contract both indexes of the engine rely on: a classification of event types and a
  test of a condition against a class that holds whenever the condition can be true on an
  event of that class. Under it, skipping the conditions that fail the test changes nothing.
\<close>

locale event_filter =
  fixes class_of :: "string \<Rightarrow> 'k"
    and admits :: "CondNode \<Rightarrow> 'k \<Rightarrow> bool"
  assumes necessary: "eval_node ev c \<Longrightarrow> admits c (class_of (ev_event_type ev))"
begin

lemma find_admitted:
  "find (\<lambda>r. admits (condition r) (class_of (ev_event_type ev)) \<and> eval_node ev (condition r)) rs =
   find (\<lambda>r. eval_node ev (condition r)) rs"
  by (rule find_prefilter) (rule necessary)

lemma some_admitted:
  "(\<exists>r \<in> set rs. eval_node ev (condition r)) \<longleftrightarrow>
   (\<exists>r \<in> set rs. admits (condition r) (class_of (ev_event_type ev)) \<and> eval_node ev (condition r))"
  using necessary by blast

end

interpretation et_mask: event_filter et_bit_of "\<lambda>c b. et_necessary_mask c AND b \<noteq> 0"
  by unfold_locales (simp add: et_test_bit et_necessary_mask_sound)

interpretation category: event_filter BucketOfEventType
  "\<lambda>c b. ExtractBucket c = kAll \<or> ExtractBucket c = b"
  by unfold_locales (rule ExtractBucket_sound)

section \<open>Build and Evaluate\<close>

definition render_rule :: "EventView \<Rightarrow> Rule \<Rightarrow> string" where
  "render_rule ev r =
     (case ParseOutputTemplate (output_template r) of
        Inl _ \<Rightarrow> []
      | Inr segs \<Rightarrow> concat (map (render_seg ev r) segs))"

lemma compile_rule_Inr:
  "compile_rule r = Inr cr \<Longrightarrow>
   cr_rule cr = r \<and> cr_et_mask cr = et_necessary_mask (condition r) \<and> render ev cr = render_rule ev r"
  by (auto simp: compile_rule_def render_rule_def render_def split: sum.splits)

lemma build_buckets_Inr:
  "build_buckets bs rs = Inr bs' \<Longrightarrow>
   \<exists>crs. list_all2 (\<lambda>r cr. compile_rule r = Inr cr) rs crs \<and>
     (\<forall>b. bs' b = bs b @ filter (\<lambda>cr. ExtractBucket (condition (cr_rule cr)) = b) crs)"
proof (induction rs arbitrary: bs)
  case (Cons r rs)
  then obtain cr where cr: "compile_rule r = Inr cr"
    by (cases "compile_rule r") auto
  let ?b = "ExtractBucket (condition r)"
  from Cons.prems cr have "build_buckets (bs(?b := bs ?b @ [cr])) rs = Inr bs'"
    by (simp add: Let_def)
  from Cons.IH [OF this] obtain crs where
    crs: "list_all2 (\<lambda>r cr. compile_rule r = Inr cr) rs crs"
    and bs': "\<forall>b. bs' b = (bs(?b := bs ?b @ [cr])) b @
      filter (\<lambda>cr. ExtractBucket (condition (cr_rule cr)) = b) crs" by blast
  have "list_all2 (\<lambda>r cr. compile_rule r = Inr cr) (r # rs) (cr # crs)"
    using cr crs by simp
  moreover have "\<forall>b. bs' b = bs b @ filter (\<lambda>cr. ExtractBucket (condition (cr_rule cr)) = b) (cr # crs)"
    using bs' compile_rule_Inr [OF cr] by simp
  ultimately show ?case by blast
qed simp

lemma eval_bucket_compiled:
  "list_all2 (\<lambda>r cr. compile_rule r = Inr cr) rs crs \<Longrightarrow>
   eval_bucket ev (et_bit_of (ev_event_type ev))
     (filter (\<lambda>cr. ExtractBucket (condition (cr_rule cr)) = b) crs) =
   map_option (\<lambda>r. (r, render_rule ev r))
     (find (\<lambda>r. eval_node ev (condition r)) (filter (\<lambda>r. ExtractBucket (condition r) = b) rs))"
proof (induction rs crs rule: list_all2_induct)
  case (Cons r rs cr crs)
  have cr: "cr_rule cr = r" "cr_et_mask cr = et_necessary_mask (condition r)"
    "render ev cr = render_rule ev r"
    using compile_rule_Inr [OF Cons.hyps(1)] by blast+
  show ?case
    using Cons.IH et_mask.necessary [of ev "condition r"] by (auto simp: cr)
qed simp

text \<open>The rules \<open>Evaluate\<close> looks at, in its order.\<close>

definition candidates :: "Rule list \<Rightarrow> string \<Rightarrow> Rule list" where
  "candidates rules et =
     (let b = BucketOfEventType et
      in filter (\<lambda>r. ExtractBucket (condition r) = b) rules @
         (if b = kAll then [] else filter (\<lambda>r. ExtractBucket (condition r) = kAll) rules))"

lemma Evaluate_candidates:
  assumes "Build rules = Inr eng"
  shows "Evaluate eng ev = map_option (\<lambda>r. (r, render_rule ev r))
    (find (\<lambda>r. eval_node ev (condition r)) (candidates rules (ev_event_type ev)))"
proof -
  from assms obtain bs where bs: "build_buckets (\<lambda>_. []) rules = Inr bs"
    and eng: "engine_buckets eng = bs"
    by (auto simp: Build_def split: sum.splits)
  from build_buckets_Inr [OF bs] obtain crs where
    "list_all2 (\<lambda>r cr. compile_rule r = Inr cr) rules crs"
    and "\<forall>b. bs b = filter (\<lambda>cr. ExtractBucket (condition (cr_rule cr)) = b) crs" by auto
  then have "eval_bucket ev (et_bit_of (ev_event_type ev)) (engine_buckets eng b) =
    map_option (\<lambda>r. (r, render_rule ev r))
      (find (\<lambda>r. eval_node ev (condition r)) (filter (\<lambda>r. ExtractBucket (condition r) = b) rules))" for b
    by (simp add: eng eval_bucket_compiled)
  then show ?thesis
    by (simp add: Evaluate_def candidates_def Let_def find_append split: option.split)
qed

lemma candidates_matching:
  "(\<exists>r \<in> set (candidates rules (ev_event_type ev)). eval_node ev (condition r)) \<longleftrightarrow>
   (\<exists>r \<in> set rules. eval_node ev (condition r))"
  using category.some_admitted [of rules ev] by (auto simp: candidates_def Let_def)

lemma find_filter_nth:
  "find P (filter Q xs) = Some x \<Longrightarrow>
   \<exists>i < length xs. xs ! i = x \<and> P x \<and> Q x \<and> (\<forall>j < i. Q (xs ! j) \<longrightarrow> \<not> P (xs ! j))"
proof -
  have "find P (filter Q xs) = find (\<lambda>x. Q x \<and> P x) xs"
    by (induction xs) auto
  moreover assume "find P (filter Q xs) = Some x"
  ultimately have "find (\<lambda>x. Q x \<and> P x) xs = Some x" by simp
  then show ?thesis unfolding find_Some_iff by auto
qed

text \<open>A failed build names the first rule whose template does not parse.\<close>

definition template_error :: "Rule \<Rightarrow> TemplateError option" where
  "template_error r = (case ParseOutputTemplate (output_template r) of Inl e \<Rightarrow> Some e | Inr _ \<Rightarrow> None)"

lemma compile_rule_error:
  "compile_rule r = Inl e \<longleftrightarrow> template_error r = Some e"
  "(\<exists>cr. compile_rule r = Inr cr) \<longleftrightarrow> template_error r = None"
  by (auto simp: compile_rule_def template_error_def split: sum.splits)

definition build_error_of :: "Rule \<Rightarrow> BuildError" where
  "build_error_of r =
     \<lparr>be_source_file = source_file r, be_rule = rule_name r, be_error = the (template_error r)\<rparr>"

lemma build_buckets_error:
  "(case build_buckets bs rules of Inl e \<Rightarrow> Some e | Inr _ \<Rightarrow> None) =
   map_option build_error_of (find (\<lambda>r. template_error r \<noteq> None) rules)"
proof (induction rules arbitrary: bs)
  case (Cons r rules)
  then show ?case
    using compile_rule_error [of r]
    by (cases "compile_rule r") (auto simp: Let_def build_error_of_def)
qed simp

lemma Build_error:
  "(case Build rules of Inl e \<Rightarrow> Some e | Inr _ \<Rightarrow> None) =
   map_option build_error_of (find (\<lambda>r. template_error r \<noteq> None) rules)"
  using build_buckets_error [of "\<lambda>_. []" rules] by (auto simp: Build_def split: sum.splits)

lemma Build_ok: "\<forall>r \<in> set rules. template_error r = None \<Longrightarrow> \<exists>eng. Build rules = Inr eng"
proof -
  assume "\<forall>r \<in> set rules. template_error r = None"
  then have "find (\<lambda>r. template_error r \<noteq> None) rules = None" by (auto simp: find_None_iff)
  then show ?thesis using Build_error [of rules] by (cases "Build rules") auto
qed

section \<open>Missing fields\<close>

lemma absent_family_scalar:
  assumes "FieldIsNumber fid" and "\<not> family_present ev fid"
  shows "\<not> FieldIsArrayElem fid"
    and "\<exists>fv. resolve_scalar ev fid = Some fv \<and> \<not> fv_has fv"
  using assms by (cases fid; simp add: FieldIsArrayElem_def resolve_scalar_def)+

lemma absent_number_eval:
  assumes "FieldIsNumber fid" and "\<not> family_present ev fid"
  shows "\<not> eval_compare ev op (OpField fid) rhs"
proof -
  from absent_family_scalar [OF assms] obtain fv where
    "\<not> FieldIsArrayElem fid" "resolve_scalar ev fid = Some fv" "\<not> fv_has fv" by blast
  with assms(1) show ?thesis
    by (cases rhs) (simp_all add: eval_compare_def cmp_field_literal_def cmp_values_def list_ex_iff v_default_def)
qed

section \<open>A sample rule set\<close>

text \<open>Concrete rules and an event at which the properties below are instantiated.\<close>

definition sample_rule :: "string \<Rightarrow> CondNode \<Rightarrow> Rule" where
  "sample_rule n c = \<lparr>rule_name = n, rule_desc = ''d'', output_template = ''%rule.name: %process.exe'',
     rule_priority = ''high'', rule_attack = [''T1059''], fpr_note = [], rule_response = ''alert'',
     source_file = ''core.yaml'', condition = c\<rparr>"

definition exec_cond :: CondNode where
  "exec_cond = CondAnd [CondCompare Eq (OpField F_event_type) (OpStr ''process.exec''),
     CondCompare Eq (OpField F_process_comm) (OpStr ''bash'')]"

definition any_cond :: CondNode where
  "any_cond = CondCompare StartsWith (OpField F_process_exe) (OpStr ''/tmp/'')"

definition sample_rules :: "Rule list" where
  "sample_rules = [sample_rule ''any'' any_cond, sample_rule ''exec'' exec_cond]"

definition sample_event :: EventView where
  "sample_event = empty_view\<lparr>ev_event_type := ''process.exec'', ev_comm := ''bash'', ev_exe := ''/tmp/bash''\<rparr>"

lemma sample_template: "ParseOutputTemplate ''%rule.name: %process.exe'' =
    Inr [SegRuleName, SegText '': '', SegField F_process_exe]"
  by code_simp

lemma sample_builds: "\<exists>eng. Build sample_rules = Inr eng"
  by (rule Build_ok) (simp add: sample_rules_def sample_rule_def template_error_def sample_template)

lemma sample_matches:
  "eval_node sample_event any_cond" "eval_node sample_event exec_cond"
  by (simp_all add: sample_event_def any_cond_def exec_cond_def eval_compare_def FieldIsArrayElem_def
      resolve_scalar_def cmp_field_literal_def v_default_def starts_with_def empty_view_def)

lemma sample_buckets:
  "ExtractBucket any_cond = kAll" "ExtractBucket exec_cond = kProcess"
  "BucketOfEventType (ev_event_type sample_event) = kProcess"
  by (simp_all add: any_cond_def exec_cond_def ExtractBucket_def op_is_str_def
      BucketOfEventType_def sample_event_def Let_def)

lemma sample_exe: "render_field_value sample_event F_process_exe = ''/tmp/bash''"
  by (simp add: render_field_value_def resolve_scalar_def sample_event_def empty_view_def)

section \<open>Properties\<close>

text \<open>
  C1. Once \<open>Build\<close> succeeds, \<open>Evaluate\<close> returns the first rule, among the rules of the event's
  category bucket followed by the unconstrained rules, whose condition holds on the event,
  with its rendered output; the event type bitmap never changes the outcome.
\<close>

theorem Evaluate_linear_scan:
  assumes "Build rules = Inr eng"
  shows "Evaluate eng ev =
    map_option (\<lambda>r. (r, render_rule ev r))
      (find (\<lambda>r. eval_node ev (condition r)) (candidates rules (ev_event_type ev)))"
  using assms by (rule Evaluate_candidates)

theorem Evaluate_linear_scan_witness:
  "\<exists>eng. Build sample_rules = Inr eng \<and>
     Evaluate eng sample_event = Some (sample_rule ''exec'' exec_cond, ''exec: /tmp/bash'')"
proof -
  obtain eng where eng: "Build sample_rules = Inr eng" using sample_builds by blast
  have "candidates sample_rules (ev_event_type sample_event) = rev sample_rules"
    by (simp add: candidates_def sample_rules_def sample_rule_def sample_buckets)
  then have "Evaluate eng sample_event = map_option (\<lambda>r. (r, render_rule sample_event r))
      (find (\<lambda>r. eval_node sample_event (condition r)) (rev sample_rules))"
    using Evaluate_linear_scan [OF eng, of sample_event] by simp
  also have "\<dots> = Some (sample_rule ''exec'' exec_cond, ''exec: /tmp/bash'')"
    by (simp add: sample_rules_def sample_rule_def sample_matches render_rule_def sample_template sample_exe)
  finally show ?thesis using eng by blast
qed

text \<open>
  C2. No detection is lost or invented by the two indexes: after a successful \<open>Build\<close>,
  \<open>Evaluate\<close> reports a match exactly when some loaded rule's condition holds on the event.
\<close>

theorem Evaluate_detects_iff:
  assumes "Build rules = Inr eng"
  shows "Evaluate eng ev \<noteq> None \<longleftrightarrow> (\<exists>r \<in> set rules. eval_node ev (condition r))"
proof -
  have "Evaluate eng ev \<noteq> None \<longleftrightarrow>
    find (\<lambda>r. eval_node ev (condition r)) (candidates rules (ev_event_type ev)) \<noteq> None"
    by (simp add: Evaluate_candidates [OF assms])
  then show ?thesis by (simp only: find_neq_None candidates_matching)
qed

theorem Evaluate_detects_iff_witness:
  "\<exists>eng. Build sample_rules = Inr eng \<and> Evaluate eng sample_event \<noteq> None"
proof -
  obtain eng where eng: "Build sample_rules = Inr eng" using sample_builds by blast
  have "\<exists>r \<in> set sample_rules. eval_node sample_event (condition r)"
    by (simp add: sample_rules_def sample_rule_def sample_matches)
  with Evaluate_detects_iff [OF eng, of sample_event] eng show ?thesis by blast
qed

text \<open>
  A rule constrained to the event's category always wins over a rule without a category,
  whichever was loaded first: if some rule of the event's own bucket matches, the reported
  rule belongs to that bucket, and it is the first loaded rule of the bucket that matches.
\<close>

theorem Evaluate_category_first:
  assumes "Build rules = Inr eng"
    and "r \<in> set rules" and "eval_node ev (condition r)"
    and "ExtractBucket (condition r) = BucketOfEventType (ev_event_type ev)"
  shows "\<exists>i < length rules.
    Evaluate eng ev = Some (rules ! i, render_rule ev (rules ! i)) \<and>
    ExtractBucket (condition (rules ! i)) = BucketOfEventType (ev_event_type ev) \<and>
    (\<forall>j < i. ExtractBucket (condition (rules ! j)) = BucketOfEventType (ev_event_type ev)
      \<longrightarrow> \<not> eval_node ev (condition (rules ! j)))"
proof -
  let ?P = "\<lambda>r. eval_node ev (condition r)"
  let ?Q = "\<lambda>r. ExtractBucket (condition r) = BucketOfEventType (ev_event_type ev)"
  have "find ?P (filter ?Q rules) \<noteq> None" using assms by (auto simp: find_None_iff)
  then obtain x where x: "find ?P (filter ?Q rules) = Some x" by blast
  then have "Evaluate eng ev = Some (x, render_rule ev x)"
    by (simp add: Evaluate_candidates [OF assms(1)] candidates_def Let_def find_append)
  with find_filter_nth [OF x] show ?thesis by blast
qed

theorem Evaluate_category_first_witness:
  "\<exists>eng. Build sample_rules = Inr eng \<and> eval_node sample_event (condition (sample_rules ! 0)) \<and>
     (\<exists>out. Evaluate eng sample_event = Some (sample_rules ! 1, out))"
proof -
  obtain eng where eng: "Build sample_rules = Inr eng" using sample_builds by blast
  have "sample_rule ''exec'' exec_cond \<in> set sample_rules" by (simp add: sample_rules_def)
  from Evaluate_category_first [OF eng this, of sample_event]
  obtain i where "i < length sample_rules"
    and ev: "Evaluate eng sample_event = Some (sample_rules ! i, render_rule sample_event (sample_rules ! i))"
    and "ExtractBucket (condition (sample_rules ! i)) = kProcess"
    by (auto simp: sample_rule_def sample_matches sample_buckets)
  then have "i = 1"
    by (cases i) (auto simp: sample_rules_def sample_rule_def sample_buckets)
  with ev eng show ?thesis
    by (auto simp: sample_rules_def sample_rule_def sample_matches)
qed

text \<open>
  C3. A number field of an absent family never matches: every comparison with such a field on
  its left, \<open>!=\<close> included and whatever the right operand, is false.
\<close>

theorem absent_number_never_matches:
  assumes "FieldIsNumber fid" and "\<not> family_present ev fid"
  shows "\<not> eval_compare ev op (OpField fid) rhs"
  using assms by (rule absent_number_eval)

theorem absent_number_never_matches_witness:
  "\<not> eval_compare sample_event Ne (OpField F_net_dport) (OpNum ''22'' 22)"
  by (rule absent_number_never_matches) (simp_all add: sample_event_def empty_view_def)

text \<open>
  Compiling an output template loses nothing: the segments, written back as text, are the
  template, and every field segment names a scalar field of the schema.
\<close>

theorem ParseOutputTemplate_roundtrip:
  assumes "ParseOutputTemplate t = Inr segs"
  shows "concat (map seg_source segs) = t \<and>
    (\<forall>fid. SegField fid \<in> set segs \<longrightarrow> fid \<noteq> F_unknown \<and> \<not> FieldIsArrayElem fid)"
  using assms template_source [of t segs] template_scalar [of t segs] by blast

theorem ParseOutputTemplate_roundtrip_witness:
  "concat (map seg_source [SegRuleName, SegText '': '', SegField F_process_exe]) =
     ''%rule.name: %process.exe''"
  using ParseOutputTemplate_roundtrip [OF sample_template] by blast

text \<open>
  The error for interpolating an array field is never reported: a template path cannot hold
  the brackets of an array path, so such a template is rejected as an unknown field instead.
\<close>

theorem array_template_error_unreachable: "ParseOutputTemplate t \<noteq> Inl (ArrayTemplateField p)"
  by (rule template_not_array_error)

text \<open>
  C7. \<open>Build\<close> fails exactly when some rule's template does not parse, and then reports the
  first such rule in load order, with its file, its name and the template's error.
\<close>

theorem Build_reports_first_bad_template:
  "(case Build rules of Inl e \<Rightarrow> Some e | Inr _ \<Rightarrow> None) =
   map_option build_error_of (find (\<lambda>r. template_error r \<noteq> None) rules)"
  by (rule Build_error)

end
