(* ===== verification/Condition_Parser.thy ===== *)
theory Condition_Parser
  imports Rule
begin

text \<open>
  The condition language of the rules (\<open>src/src/detect/condition_parser.cpp\<close>, lines 98 to 491):
  lexer, recursive descent parser and \<open>ParseCondition\<close>. The lexer's position in the text is
  the suffix that is left to read; \<open>Token::pos\<close>, which nothing reads, is left out. A failure
  is a constructor of \<open>ParseError\<close> with the variable parts of its message: every failing
  branch returns at once, so the first message recorded by \<open>Fail\<close> is the result.
\<close>

section \<open>Lexer\<close>

datatype TokKind = TkEnd | TkLParen | TkRParen | TkComma | TkEq | TkNe | TkBare

record Token =
  tok_kind :: TokKind
  tok_text :: string
  quoted_empty :: bool

abbreviation simple_token :: "TokKind \<Rightarrow> Token" where
  "simple_token k \<equiv> \<lparr>tok_kind = k, tok_text = [], quoted_empty = False\<rparr>"

abbreviation bare_token :: "string \<Rightarrow> Token" where
  "bare_token s \<equiv> \<lparr>tok_kind = TkBare, tok_text = s, quoted_empty = False\<rparr>"

definition is_bare_char :: "char \<Rightarrow> bool" where
  "is_bare_char c \<longleftrightarrow> c_isalnum c \<or>
     c \<in> {CHR ''/'', CHR ''.'', CHR ''_'', CHR ''-'', CHR '':'', CHR ''*'', CHR ''+'',
          CHR ''@'', CHR ''['', CHR '']''}"

text \<open>\<open>Lexer::Next\<close>: the token and the text behind it.\<close>

definition lex_next :: "string \<Rightarrow> Token \<times> string" where
  "lex_next s =
     (case dropWhile c_isspace s of
        [] \<Rightarrow> (simple_token TkEnd, [])
      | c # r \<Rightarrow>
         (if c = CHR ''('' then (simple_token TkLParen, r)
          else if c = CHR '')'' then (simple_token TkRParen, r)
          else if c = CHR '','' then (simple_token TkComma, r)
          else if c = CHR ''='' then (simple_token TkEq, r)
          else if c = CHR ''!'' then
            (case r of
               d # r' \<Rightarrow> (if d = CHR ''='' then (simple_token TkNe, r') else (bare_token ''!'', r))
             | [] \<Rightarrow> (bare_token ''!'', r))
          else if c = CHR 0x22 then
            (case r of
               d # r' \<Rightarrow>
                 (if d = CHR 0x22
                  then (\<lparr>tok_kind = TkBare, tok_text = [], quoted_empty = True\<rparr>, r')
                  else (bare_token [CHR 0x22], r))
             | [] \<Rightarrow> (bare_token [CHR 0x22], r))
          else if \<not> is_bare_char c then (bare_token [c], r)
          else (bare_token (takeWhile is_bare_char (c # r)), dropWhile is_bare_char (c # r))))"

definition is_keyword :: "string \<Rightarrow> bool" where
  "is_keyword s \<longleftrightarrow> s = ''and'' \<or> s = ''or'' \<or> s = ''not'' \<or> s = ''in'' \<or> s = ''contains'' \<or>
     s = ''startswith''"

definition kPrefixes :: "string list" where
  "kPrefixes = [''process.'', ''container.'', ''file.'', ''network.'', ''dns.'', ''priv.'', ''ns.'']"

definition looks_like_field :: "string \<Rightarrow> bool" where
  "looks_like_field s \<longleftrightarrow> s = ''event_type'' \<or> list_ex (\<lambda>p. starts_with p s) kPrefixes"

definition is_number_text :: "string \<Rightarrow> bool" where
  "is_number_text s \<longleftrightarrow> s \<noteq> [] \<and> list_all c_isdigit s"

section \<open>Parser state\<close>

record PState =
  cur :: Token
  rest :: string

definition start :: "string \<Rightarrow> PState" where
  "start s = (case lex_next s of (t, r) \<Rightarrow> \<lparr>cur = t, rest = r\<rparr>)"

definition Advance :: "PState \<Rightarrow> PState" where
  "Advance st = start (rest st)"

definition PeekKw :: "string \<Rightarrow> PState \<Rightarrow> bool" where
  "PeekKw kw st \<longleftrightarrow> tok_kind (cur st) = TkBare \<and> tok_text (cur st) = kw"

datatype ParseError =
    EmptyCondition
  | TrailingContent string
  | MissingRParen
  | OperandExpected "string option"
  | KeywordOperand string
  | QuotedString
  | UnknownField string
  | NumberOverflow string
  | EmptyList
  | ListElementField
  | ListSeparator
  | CompareOpExpected "string option"
  | ListOnlyForIn
  | InNeedsList
  | StringOpOnNumber

text \<open>The text of the current token in a message; \<open>None\<close> is the end of the input.\<close>

definition got :: "PState \<Rightarrow> string option" where
  "got st = (if tok_kind (cur st) = TkEnd then None else Some (tok_text (cur st)))"

section \<open>Comparisons\<close>

definition ParseOperand :: "bool \<Rightarrow> PState \<Rightarrow> ParseError + Operand \<times> PState" where
  "ParseOperand force_literal st =
     (if tok_kind (cur st) \<noteq> TkBare then Inl (OperandExpected (got st))
      else if is_keyword (tok_text (cur st)) then Inl (KeywordOperand (tok_text (cur st)))
      else if quoted_empty (cur st) then Inr (OpStr [], Advance st)
      else if tok_text (cur st) = [CHR 0x22] then Inl QuotedString
      else (let txt = tok_text (cur st); st' = Advance st
            in if \<not> force_literal \<and> FieldIdFromPath txt \<noteq> None
               then Inr (OpField (the (FieldIdFromPath txt)), st')
               else if \<not> force_literal \<and> looks_like_field txt then Inl (UnknownField txt)
               else if is_number_text txt then
                 (case stoll_digits txt of
                    None \<Rightarrow> Inl (NumberOverflow txt)
                  | Some n \<Rightarrow> Inr (OpNum txt n, st'))
               else Inr (OpStr txt, st')))"

definition psize :: "PState \<Rightarrow> nat" where
  "psize st = length (rest st) + (if tok_kind (cur st) = TkEnd then 0 else 1)"

lemma lex_next_length:
  "lex_next s = (t, r) \<Longrightarrow> length r + (if tok_kind t = TkEnd then 0 else 1) \<le> length s"
proof -
  assume lex: "lex_next s = (t, r)"
  have len: "length (dropWhile c_isspace s) \<le> length s" by (rule length_dropWhile_le)
  show ?thesis
  proof (cases "dropWhile c_isspace s")
    case Nil
    with lex show ?thesis by (auto simp: lex_next_def simp del: dropWhile_eq_Nil_conv)
  next
    case (Cons c u)
    have "length (dropWhile is_bare_char u) \<le> length u" by (rule length_dropWhile_le)
    moreover have "length u + 1 \<le> length s" using len Cons by simp
    ultimately show ?thesis
      using lex Cons
      by (auto simp: lex_next_def split: if_splits list.splits)
  qed
qed

lemma psize_start: "psize (start s) \<le> length s"
  using lex_next_length [of s] by (auto simp: psize_def start_def split: prod.split)

lemma psize_Advance: "psize (Advance st) \<le> psize st"
  using psize_start [of "rest st"] by (simp add: psize_def Advance_def)

lemma psize_Advance_less: "tok_kind (cur st) \<noteq> TkEnd \<Longrightarrow> psize (Advance st) < psize st"
  using psize_start [of "rest st"] by (simp add: psize_def Advance_def)

lemma ParseOperand_Inr:
  "ParseOperand fl st = Inr (x, st') \<Longrightarrow> st' = Advance st \<and> tok_kind (cur st) = TkBare"
  by (auto simp: ParseOperand_def Let_def split: if_splits option.splits)

text \<open>The loop of \<open>ParseList\<close>, entered with the token behind \<open>(\<close> or behind a comma.\<close>

function list_loop :: "bool \<Rightarrow> PState \<Rightarrow> ParseError + Operand list \<times> PState" where
  "list_loop force_literal st =
     (case ParseOperand force_literal st of
        Inl e \<Rightarrow> Inl e
      | Inr (elem, st1) \<Rightarrow>
          (if op_is_field elem then Inl ListElementField
           else if tok_kind (cur st1) = TkComma then
             (case list_loop force_literal (Advance st1) of
                Inl e \<Rightarrow> Inl e
              | Inr (es, st2) \<Rightarrow> Inr (elem # es, st2))
           else if tok_kind (cur st1) = TkRParen then Inr ([elem], Advance st1)
           else Inl ListSeparator))"
  by pat_completeness auto
termination
proof (relation "measure (\<lambda>(_, st). psize st)", goal_cases)
  case 1 then show ?case by simp
next
  case (2 fl st b elem st1)
  then have "st1 = Advance st" using ParseOperand_Inr by metis
  moreover from 2 have "psize (Advance st1) < psize st1"
    by (intro psize_Advance_less) simp
  ultimately show ?case using psize_Advance [of st] by simp
qed

declare list_loop.simps [simp del]

definition ParseList :: "bool \<Rightarrow> PState \<Rightarrow> ParseError + Operand \<times> PState" where
  "ParseList force_literal st =
     (let st1 = Advance st
      in if tok_kind (cur st1) = TkRParen then Inl EmptyList
         else (case list_loop force_literal st1 of
                 Inl e \<Rightarrow> Inl e
               | Inr (es, st2) \<Rightarrow> Inr (OpList es, st2)))"

definition compare_op :: "PState \<Rightarrow> CmpOp option" where
  "compare_op st =
     (if tok_kind (cur st) = TkEq then Some Eq
      else if tok_kind (cur st) = TkNe then Some Ne
      else if PeekKw ''in'' st then Some In
      else if PeekKw ''contains'' st then Some Contains
      else if PeekKw ''startswith'' st then Some StartsWith
      else None)"

definition ParseComparison :: "PState \<Rightarrow> ParseError + CondNode \<times> PState" where
  "ParseComparison st =
     (case ParseOperand False st of
        Inl e \<Rightarrow> Inl e
      | Inr (lhs, st1) \<Rightarrow>
         (case compare_op st1 of
            None \<Rightarrow> Inl (CompareOpExpected (got st1))
          | Some op \<Rightarrow>
             (let st2 = Advance st1; force_literal = (lhs = OpField F_event_type)
              in case (if tok_kind (cur st2) = TkLParen
                       then (if op \<noteq> In then Inl ListOnlyForIn else ParseList force_literal st2)
                       else (if op = In then Inl InNeedsList else ParseOperand force_literal st2)) of
                   Inl e \<Rightarrow> Inl e
                 | Inr (rhs, st3) \<Rightarrow>
                    (if (op = Contains \<or> op = StartsWith) \<and>
                        (case lhs of OpField fid \<Rightarrow> FieldIsNumber fid | _ \<Rightarrow> False)
                     then Inl StringOpOnNumber
                     else Inr (CondCompare op lhs rhs, st3)))))"

section \<open>Input consumption\<close>

text \<open>No call grows the input that is left; this is needed to show termination.\<close>

lemma list_loop_psize: "list_loop fl st = Inr (es, st') \<Longrightarrow> psize st' \<le> psize st"
proof (induction fl st arbitrary: es st' rule: list_loop.induct)
  case (1 fl st)
  obtain elem st1 where op: "ParseOperand fl st = Inr (elem, st1)"
    using "1.prems" by (subst (asm) list_loop.simps) (auto split: sum.splits)
  then have st1: "st1 = Advance st" using ParseOperand_Inr by metis
  have fld: "\<not> op_is_field elem"
    using "1.prems" op by (subst (asm) list_loop.simps) (auto split: if_splits)
  have le: "psize (Advance st1) \<le> psize st"
    using psize_Advance [of st1] psize_Advance [of st] by (simp add: st1)
  show ?case
  proof (cases "tok_kind (cur st1) = TkComma")
    case True
    with "1.prems" op fld obtain es' where "list_loop fl (Advance st1) = Inr (es', st')"
      by (subst (asm) list_loop.simps) (auto split: sum.splits)
    with "1.IH" [OF op refl fld True] le show ?thesis by fastforce
  next
    case False
    with "1.prems" op fld have "st' = Advance st1"
      by (subst (asm) list_loop.simps) (auto split: if_splits)
    with le show ?thesis by simp
  qed
qed

lemma ParseOperand_psize: "ParseOperand fl st = Inr (x, st') \<Longrightarrow> psize st' \<le> psize st"
  using ParseOperand_Inr psize_Advance by metis

lemma ParseList_psize: "ParseList fl st = Inr (x, st') \<Longrightarrow> psize st' \<le> psize st"
  using list_loop_psize [of fl "Advance st"] psize_Advance [of st]
  by (fastforce simp: ParseList_def Let_def split: if_splits sum.splits)

lemma ParseComparison_Inr:
  assumes "ParseComparison st = Inr (c, st')"
  obtains lhs st1 op rhs where "ParseOperand False st = Inr (lhs, st1)" "compare_op st1 = Some op"
    "c = CondCompare op lhs rhs"
    "(tok_kind (cur (Advance st1)) = TkLParen \<and> op = In \<and>
        ParseList (lhs = OpField F_event_type) (Advance st1) = Inr (rhs, st')) \<or>
     (tok_kind (cur (Advance st1)) \<noteq> TkLParen \<and> op \<noteq> In \<and>
        ParseOperand (lhs = OpField F_event_type) (Advance st1) = Inr (rhs, st'))"
    "op = Contains \<or> op = StartsWith \<Longrightarrow> \<not> (\<exists>fid. lhs = OpField fid \<and> FieldIsNumber fid)"
proof -
  from assms obtain lhs st1 where 1: "ParseOperand False st = Inr (lhs, st1)"
    by (auto simp: ParseComparison_def split: sum.splits)
  with assms obtain op where 2: "compare_op st1 = Some op"
    by (auto simp: ParseComparison_def split: option.splits)
  show ?thesis
  proof (cases "tok_kind (cur (Advance st1)) = TkLParen")
    case True
    with assms 1 2 show ?thesis
      by (auto simp: ParseComparison_def Let_def split: if_splits sum.splits Operand.splits
          intro!: that [OF 1 2])
  next
    case False
    with assms 1 2 show ?thesis
      by (auto simp: ParseComparison_def Let_def split: if_splits sum.splits Operand.splits
          intro!: that [OF 1 2])
  qed
qed

lemma ParseComparison_psize: "ParseComparison st = Inr (c, st') \<Longrightarrow> psize st' \<le> psize st"
proof (erule ParseComparison_Inr)
  fix lhs st1 op rhs
  assume "ParseOperand False st = Inr (lhs, st1)"
    and 2: "(tok_kind (cur (Advance st1)) = TkLParen \<and> op = In \<and>
        ParseList (lhs = OpField F_event_type) (Advance st1) = Inr (rhs, st')) \<or>
     (tok_kind (cur (Advance st1)) \<noteq> TkLParen \<and> op \<noteq> In \<and>
        ParseOperand (lhs = OpField F_event_type) (Advance st1) = Inr (rhs, st'))"
  then have "psize st1 \<le> psize st" by (blast dest: ParseOperand_psize)
  moreover have "psize st' \<le> psize (Advance st1)"
    using 2 ParseOperand_psize ParseList_psize by blast
  ultimately show ?thesis using psize_Advance [of st1] by simp
qed

lemma PeekKw_psize: "PeekKw kw st \<Longrightarrow> psize (Advance st) < psize st"
  by (rule psize_Advance_less) (simp add: PeekKw_def)

lemma LParen_psize: "tok_kind (cur st) = TkLParen \<Longrightarrow> psize (Advance st) < psize st"
  by (rule psize_Advance_less) simp

section \<open>Conditions\<close>

text \<open>
  The three levels of the grammar. \<open>or_loop\<close> and \<open>and_loop\<close> are the \<open>while\<close> loops of
  \<open>ParseOr\<close> and \<open>ParseAnd\<close>, with the children they append.
\<close>

function ParseOr :: "PState \<Rightarrow> ParseError + CondNode \<times> PState"
  and or_loop :: "PState \<Rightarrow> ParseError + CondNode list \<times> PState"
  and ParseAnd :: "PState \<Rightarrow> ParseError + CondNode \<times> PState"
  and and_loop :: "PState \<Rightarrow> ParseError + CondNode list \<times> PState"
  and ParseNot :: "PState \<Rightarrow> ParseError + CondNode \<times> PState"
where
  "ParseOr st =
     (case ParseAnd st of
        Inl e \<Rightarrow> Inl e
      | Inr (lhs, st1) \<Rightarrow>
          (if \<not> PeekKw ''or'' st1 then Inr (lhs, st1)
           else (case or_loop st1 of
                   Inl e \<Rightarrow> Inl e
                 | Inr (cs, st2) \<Rightarrow> Inr (CondOr (lhs # cs), st2))))"
| "or_loop st =
     (if PeekKw ''or'' st
      then (case ParseAnd (Advance st) of
              Inl e \<Rightarrow> Inl e
            | Inr (rhs, st1) \<Rightarrow>
                (case or_loop st1 of
                   Inl e \<Rightarrow> Inl e
                 | Inr (cs, st2) \<Rightarrow> Inr (rhs # cs, st2)))
      else Inr ([], st))"
| "ParseAnd st =
     (case ParseNot st of
        Inl e \<Rightarrow> Inl e
      | Inr (lhs, st1) \<Rightarrow>
          (if \<not> PeekKw ''and'' st1 then Inr (lhs, st1)
           else (case and_loop st1 of
                   Inl e \<Rightarrow> Inl e
                 | Inr (cs, st2) \<Rightarrow> Inr (CondAnd (lhs # cs), st2))))"
| "and_loop st =
     (if PeekKw ''and'' st
      then (case ParseNot (Advance st) of
              Inl e \<Rightarrow> Inl e
            | Inr (rhs, st1) \<Rightarrow>
                (case and_loop st1 of
                   Inl e \<Rightarrow> Inl e
                 | Inr (cs, st2) \<Rightarrow> Inr (rhs # cs, st2)))
      else Inr ([], st))"
| "ParseNot st =
     (if PeekKw ''not'' st
      then (case ParseNot (Advance st) of
              Inl e \<Rightarrow> Inl e
            | Inr (child, st1) \<Rightarrow> Inr (CondNot child, st1))
      else if tok_kind (cur st) = TkLParen
      then (case ParseOr (Advance st) of
              Inl e \<Rightarrow> Inl e
            | Inr (inner, st1) \<Rightarrow>
                (if tok_kind (cur st1) \<noteq> TkRParen then Inl MissingRParen
                 else Inr (inner, Advance st1)))
      else ParseComparison st)"
  by pat_completeness auto

lemma parse_psize_dom:
  "ParseOr_or_loop_ParseAnd_and_loop_ParseNot_dom (Inl (Inl st)) \<Longrightarrow>
     \<forall>c st'. ParseOr st = Inr (c, st') \<longrightarrow> psize st' \<le> psize st"
  "ParseOr_or_loop_ParseAnd_and_loop_ParseNot_dom (Inl (Inr st)) \<Longrightarrow>
     \<forall>cs st'. or_loop st = Inr (cs, st') \<longrightarrow> psize st' \<le> psize st"
  "ParseOr_or_loop_ParseAnd_and_loop_ParseNot_dom (Inr (Inl st)) \<Longrightarrow>
     \<forall>c st'. ParseAnd st = Inr (c, st') \<longrightarrow> psize st' \<le> psize st"
  "ParseOr_or_loop_ParseAnd_and_loop_ParseNot_dom (Inr (Inr (Inl st))) \<Longrightarrow>
     \<forall>cs st'. and_loop st = Inr (cs, st') \<longrightarrow> psize st' \<le> psize st"
  "ParseOr_or_loop_ParseAnd_and_loop_ParseNot_dom (Inr (Inr (Inr st))) \<Longrightarrow>
     \<forall>c st'. ParseNot st = Inr (c, st') \<longrightarrow> psize st' \<le> psize st"
proof (induction rule: ParseOr_or_loop_ParseAnd_and_loop_ParseNot.pinduct)
  case (1 st)
  then show ?case
    by (fastforce simp: ParseOr.psimps split: sum.splits if_splits intro: order_trans)
next
  case (2 st)
  then show ?case using PeekKw_psize [of "''or''" st]
    by (fastforce simp: or_loop.psimps split: sum.splits if_splits)
next
  case (3 st)
  then show ?case
    by (fastforce simp: ParseAnd.psimps split: sum.splits if_splits intro: order_trans)
next
  case (4 st)
  then show ?case using PeekKw_psize [of "''and''" st]
    by (fastforce simp: and_loop.psimps split: sum.splits if_splits)
next
  case (5 st)
  have adv: "psize (Advance st1) \<le> psize st" if "psize st1 \<le> psize (Advance st)" for st1
    using that psize_Advance [of st] psize_Advance [of st1] by linarith
  have le: "psize st1 \<le> psize st" if "psize st1 \<le> psize (Advance st)" for st1
    using that psize_Advance [of st] by linarith
  show ?case
  proof (cases "PeekKw ''not'' st")
    case True
    with 5 show ?thesis
      by (auto simp: ParseNot.psimps split: sum.splits intro: le)
  next
    case no_not: False
    show ?thesis
    proof (cases "tok_kind (cur st) = TkLParen")
      case True
      with no_not 5 show ?thesis
        by (auto simp: ParseNot.psimps split: sum.splits if_splits intro: adv)
    next
      case False
      with no_not 5 show ?thesis by (auto simp: ParseNot.psimps dest: ParseComparison_psize)
    qed
  qed
qed

termination ParseOr
proof (relation "measure (\<lambda>x. case x of
      Inl (Inl st) \<Rightarrow> 3 * psize st + 2 | Inl (Inr st) \<Rightarrow> 3 * psize st
    | Inr (Inl st) \<Rightarrow> 3 * psize st + 1 | Inr (Inr (Inl st)) \<Rightarrow> 3 * psize st
    | Inr (Inr (Inr st)) \<Rightarrow> 3 * psize st)", goal_cases)
qed (fastforce dest: PeekKw_psize LParen_psize parse_psize_dom)+

declare ParseOr.simps [simp del] or_loop.simps [simp del] ParseAnd.simps [simp del]
  and_loop.simps [simp del] ParseNot.simps [simp del]

text \<open>\<open>ParseCondition\<close> with \<open>Parser::Parse\<close>.\<close>

definition ParseCondition :: "string \<Rightarrow> ParseError + CondNode" where
  "ParseCondition txt =
     (if list_all (\<lambda>c. c \<in> {CHR '' '', CHR 0x09, CHR 0x0D, CHR 0x0A}) txt then Inl EmptyCondition
      else (case ParseOr (start txt) of
              Inl e \<Rightarrow> Inl e
            | Inr (node, st) \<Rightarrow>
                (if tok_kind (cur st) \<noteq> TkEnd then Inl (TrailingContent (tok_text (cur st)))
                 else Inr node)))"

end
