(* ===== verification/Condition_Parser_Correct.thy ===== *)
theory Condition_Parser_Correct
  imports Condition_Parser
begin

text \<open>
  What the parser of \<open>src/src/detect/condition_parser.cpp\<close> accepts and builds: a printer
  for conditions, the well-formed trees, the round trip through lexer and parser, and the
  proof that nothing but well-formed trees is built. Every function of the parser is total:
  the termination proofs are in the theory of the parser.
\<close>

section \<open>Printing conditions\<close>

definition sep_join :: "string \<Rightarrow> string list \<Rightarrow> string" where
  "sep_join sep xs = (case xs of [] \<Rightarrow> [] | x # ys \<Rightarrow> x @ concat (map (\<lambda>y. sep @ y) ys))"

fun operand_text :: "Operand \<Rightarrow> string" where
  "operand_text (OpField fid) = (case path_of_field fid of Some p \<Rightarrow> p | None \<Rightarrow> [])"
| "operand_text (OpStr s) = (if s = [] then [CHR 0x22, CHR 0x22] else s)"
| "operand_text (OpNum t _) = t"
| "operand_text (OpList es) = ''('' @ sep_join '','' (map operand_text es) @ '')''"

fun op_text :: "CmpOp \<Rightarrow> string" where
  "op_text Eq = ''=''"
| "op_text Ne = ''!=''"
| "op_text In = ''in''"
| "op_text Contains = ''contains''"
| "op_text StartsWith = ''startswith''"

definition paren :: "bool \<Rightarrow> string \<Rightarrow> string" where
  "paren b s = (if b then ''('' @ s @ '')'' else s)"

text \<open>The level is 0 where an \<open>or\<close> may stand, 1 where an \<open>and\<close> may stand, 2 below \<open>not\<close>.\<close>

fun cond_text :: "nat \<Rightarrow> CondNode \<Rightarrow> string" where
  "cond_text k (CondCompare op lhs rhs) =
     operand_text lhs @ '' '' @ op_text op @ '' '' @ operand_text rhs"
| "cond_text k (CondNot c) = ''not '' @ cond_text 2 c"
| "cond_text k (CondAnd cs) = paren (2 \<le> k) (sep_join '' and '' (map (\<lambda>c. cond_text 2 c) cs))"
| "cond_text k (CondOr cs) = paren (1 \<le> k) (sep_join '' or '' (map (\<lambda>c. cond_text 1 c) cs))"

section \<open>Well-formed conditions\<close>

text \<open>The texts the lexer delivers as one unquoted token.\<close>

definition lexeme :: "string \<Rightarrow> bool" where
  "lexeme s \<longleftrightarrow>
     (s \<noteq> [] \<and> list_all is_bare_char s) \<or>
     (case s of
        [c] \<Rightarrow> \<not> is_bare_char c \<and> \<not> c_isspace c \<and>
               c \<notin> {CHR ''('', CHR '')'', CHR '','', CHR ''='', CHR 0x22}
      | _ \<Rightarrow> False)"

fun operand_ok :: "bool \<Rightarrow> Operand \<Rightarrow> bool" where
  "operand_ok force_literal (OpField fid) \<longleftrightarrow> \<not> force_literal \<and> fid \<noteq> F_unknown"
| "operand_ok force_literal (OpStr s) \<longleftrightarrow>
     s = [] \<or> (lexeme s \<and> \<not> is_keyword s \<and> \<not> is_number_text s \<and>
       (force_literal \<or> (FieldIdFromPath s = None \<and> \<not> looks_like_field s)))"
| "operand_ok force_literal (OpNum t n) \<longleftrightarrow> is_number_text t \<and> stoll_digits t = Some n"
| "operand_ok force_literal (OpList es) \<longleftrightarrow> False"

definition is_event_type :: "Operand \<Rightarrow> bool" where
  "is_event_type x \<longleftrightarrow> x = OpField F_event_type"

definition rhs_ok :: "bool \<Rightarrow> CmpOp \<Rightarrow> Operand \<Rightarrow> bool" where
  "rhs_ok force_literal op rhs \<longleftrightarrow>
     (case rhs of
        OpList es \<Rightarrow> op = In \<and> es \<noteq> [] \<and>
          list_all (\<lambda>e. operand_ok force_literal e \<and> \<not> op_is_field e) es
      | _ \<Rightarrow> op \<noteq> In \<and> operand_ok force_literal rhs)"

definition is_number_field :: "Operand \<Rightarrow> bool" where
  "is_number_field x \<longleftrightarrow> (case x of OpField fid \<Rightarrow> FieldIsNumber fid | _ \<Rightarrow> False)"

fun wf_cond :: "CondNode \<Rightarrow> bool" where
  "wf_cond (CondCompare op lhs rhs) \<longleftrightarrow>
     operand_ok False lhs \<and> rhs_ok (is_event_type lhs) op rhs \<and>
     (op = Contains \<or> op = StartsWith \<longrightarrow> \<not> is_number_field lhs)"
| "wf_cond (CondNot c) \<longleftrightarrow> wf_cond c"
| "wf_cond (CondAnd cs) \<longleftrightarrow> 2 \<le> length cs \<and> list_all (\<lambda>c. wf_cond c) cs"
| "wf_cond (CondOr cs) \<longleftrightarrow> 2 \<le> length cs \<and> list_all (\<lambda>c. wf_cond c) cs"

section \<open>Lexing\<close>

text \<open>What may follow an operand in a printed condition.\<close>

definition delimited :: "string \<Rightarrow> bool" where
  "delimited s \<longleftrightarrow> (case s of [] \<Rightarrow> True | c # _ \<Rightarrow> c = CHR '' '' \<or> c = CHR '')'' \<or> c = CHR '','')"

lemma delimited_simps [simp]:
  "delimited []" "delimited (CHR '' '' # s)" "delimited (CHR '')'' # s)" "delimited (CHR '','' # s)"
  by (simp_all add: delimited_def)

lemma char_facts:
  "c_isspace (CHR '' '')" "\<not> c_isspace (CHR ''('')" "\<not> c_isspace (CHR '')'')"
  "\<not> c_isspace (CHR '','')" "\<not> c_isspace (CHR ''='')" "\<not> c_isspace (CHR ''!'')"
  "\<not> c_isspace (CHR 0x22)"
  "\<not> is_bare_char (CHR '' '')" "\<not> is_bare_char (CHR '')'')" "\<not> is_bare_char (CHR '','')"
  "\<not> is_bare_char (CHR ''('')" "\<not> is_bare_char (CHR ''='')" "\<not> is_bare_char (CHR ''!'')"
  "\<not> is_bare_char (CHR 0x22)"
  by (simp_all add: is_bare_char_def char_class_defs)

lemma bare_not_space: "is_bare_char c \<Longrightarrow> \<not> c_isspace c"
  by (auto simp: is_bare_char_def isalnum_not_space) (simp_all add: char_class_defs)

lemma start_space [simp]: "start (CHR '' '' # s) = start s"
  by (simp add: start_def lex_next_def char_facts)

lemma start_punct [simp]:
  "start (CHR ''('' # s) = \<lparr>cur = simple_token TkLParen, rest = s\<rparr>"
  "start (CHR '')'' # s) = \<lparr>cur = simple_token TkRParen, rest = s\<rparr>"
  "start (CHR '','' # s) = \<lparr>cur = simple_token TkComma, rest = s\<rparr>"
  "start (CHR ''='' # s) = \<lparr>cur = simple_token TkEq, rest = s\<rparr>"
  "start (CHR ''!'' # CHR ''='' # s) = \<lparr>cur = simple_token TkNe, rest = s\<rparr>"
  "start (CHR 0x22 # CHR 0x22 # s) =
     \<lparr>cur = \<lparr>tok_kind = TkBare, tok_text = [], quoted_empty = True\<rparr>, rest = s\<rparr>"
  by (simp_all add: start_def lex_next_def char_facts)

lemma start_Nil [simp]: "start [] = \<lparr>cur = simple_token TkEnd, rest = []\<rparr>"
  by (simp add: start_def lex_next_def)

lemma start_word:
  assumes "s \<noteq> []" and "list_all is_bare_char s" and "delimited t"
  shows "start (s @ t) = \<lparr>cur = bare_token s, rest = t\<rparr>"
proof -
  from assms obtain c u where s: "s = c # u" by (cases s) auto
  with assms(2) have c: "is_bare_char c" by simp
  have "dropWhile c_isspace (s @ t) = c # u @ t"
    using bare_not_space [OF c] by (simp add: s)
  moreover have "takeWhile is_bare_char (c # u @ t) = s" "dropWhile is_bare_char (c # u @ t) = t"
  proof -
    have "takeWhile is_bare_char t = []" "dropWhile is_bare_char t = t"
      using assms(3) by (cases t; auto simp: delimited_def char_facts)+
    with assms(2) show "takeWhile is_bare_char (c # u @ t) = s" "dropWhile is_bare_char (c # u @ t) = t"
      using takeWhile_append2 [of s is_bare_char t] dropWhile_append2 [of s is_bare_char t]
      by (auto simp: s list_all_iff)
  qed
  moreover have "c \<noteq> CHR ''(''" "c \<noteq> CHR '')''" "c \<noteq> CHR '',''" "c \<noteq> CHR ''=''" "c \<noteq> CHR ''!''"
    "c \<noteq> CHR 0x22"
    using c char_facts by auto
  ultimately show ?thesis using c by (simp add: start_def lex_next_def)
qed

lemma start_lexeme:
  assumes "lexeme s" and "delimited t"
  shows "start (s @ t) = \<lparr>cur = bare_token s, rest = t\<rparr>"
proof (cases "s \<noteq> [] \<and> list_all is_bare_char s")
  case True
  with assms(2) show ?thesis by (intro start_word) auto
next
  case False
  with assms(1) obtain c where s: "s = [c]" and c: "\<not> is_bare_char c" "\<not> c_isspace c"
    "c \<notin> {CHR ''('', CHR '')'', CHR '','', CHR ''='', CHR 0x22}"
    by (auto simp: lexeme_def split: list.splits)
  with assms(2) show ?thesis
    by (cases t) (auto simp: start_def lex_next_def delimited_def)
qed

lemma keyword_lexeme: "is_keyword s \<Longrightarrow> lexeme s"
  by (auto simp: is_keyword_def lexeme_def is_bare_char_def char_class_defs)

lemma digit_bare: "c_isdigit c \<Longrightarrow> is_bare_char c"
  by (simp add: is_bare_char_def isdigit_isalnum)

lemma number_lexeme: "is_number_text s \<Longrightarrow> lexeme s"
  by (auto simp: is_number_text_def lexeme_def list_all_iff digit_bare)

lemma field_path_lexeme: "FieldIdFromPath p = Some fid \<Longrightarrow> lexeme p \<and> \<not> is_keyword p \<and> \<not> is_number_text p"
proof -
  have "list_all (\<lambda>f. lexeme (fst f) \<and> \<not> is_keyword (fst f) \<and> \<not> is_number_text (fst f)) kFields"
    by code_simp
  then show "FieldIdFromPath p = Some fid \<Longrightarrow> ?thesis"
    by (auto simp: FieldIdFromPath_Some list_all_iff)
qed

lemma number_not_keyword: "is_number_text s \<Longrightarrow> \<not> is_keyword s"
  by (auto simp: is_number_text_def is_keyword_def char_class_defs)

lemma number_not_field: "is_number_text s \<Longrightarrow> FieldIdFromPath s = None \<and> \<not> looks_like_field s"
proof
  assume s: "is_number_text s"
  then show "FieldIdFromPath s = None" using field_path_lexeme [of s] by (cases "FieldIdFromPath s") auto
  have letter: "\<not> starts_with (c # p) s" if "\<not> c_isdigit c" for c p
    using s that by (cases s) (auto simp: is_number_text_def starts_with_def)
  show "\<not> looks_like_field s"
    using letter s by (auto simp: looks_like_field_def kPrefixes_def is_number_text_def char_class_defs)
qed

lemma lexeme_nonempty: "lexeme s \<Longrightarrow> s \<noteq> [] \<and> s \<noteq> [CHR 0x22]"
  by (auto simp: lexeme_def char_facts)

section \<open>Parsing printed operands and comparisons\<close>

lemma Advance_start [simp]: "Advance \<lparr>cur = t, rest = s\<rparr> = start s"
  by (simp add: Advance_def)

text \<open>The first token of a printed operand.\<close>

lemma operand_token:
  assumes "operand_ok fl x" and "delimited t"
  obtains tok where "start (operand_text x @ t) = \<lparr>cur = tok, rest = t\<rparr>"
    "tok_kind tok = TkBare" "\<not> is_keyword (tok_text tok)"
    "ParseOperand fl \<lparr>cur = tok, rest = t\<rparr> = Inr (x, start t)"
proof (cases x)
  case (OpField fid)
  with assms(1) obtain p where p: "path_of_field fid = Some p" and fl: "\<not> fl"
    using path_of_field_total [of fid] by auto
  note fp = path_of_field_Some [OF p]
  with field_path_lexeme [OF fp] p fl OpField assms(2) show ?thesis
    by (intro that [of "bare_token p"])
      (auto simp: start_lexeme ParseOperand_def Let_def dest: lexeme_nonempty)
next
  case (OpStr s)
  show ?thesis
  proof (cases "s = []")
    case True
    with OpStr show ?thesis
      by (intro that [of "\<lparr>tok_kind = TkBare, tok_text = [], quoted_empty = True\<rparr>"])
        (auto simp: ParseOperand_def is_keyword_def)
  next
    case False
    with OpStr assms show ?thesis
      by (intro that [of "bare_token s"])
        (auto simp: start_lexeme ParseOperand_def Let_def dest: lexeme_nonempty)
  qed
next
  case (OpNum s n)
  with assms number_not_keyword [of s] number_not_field [of s] number_lexeme [of s] show ?thesis
    by (intro that [of "bare_token s"])
      (auto simp: start_lexeme ParseOperand_def Let_def dest: lexeme_nonempty)
qed (use assms in simp)

lemma ParseOperand_text:
  assumes "operand_ok fl x" and "delimited t"
  shows "ParseOperand fl (start (operand_text x @ t)) = Inr (x, start t)"
  using operand_token [OF assms] by metis

lemma list_loop_text:
  assumes "operand_ok fl e \<and> \<not> op_is_field e" and "list_all (\<lambda>e. operand_ok fl e \<and> \<not> op_is_field e) es"
  shows "list_loop fl (start (operand_text e @ concat (map (\<lambda>y. '','' @ operand_text y) es) @ '')'' @ t)) =
    Inr (e # es, start t)"
  using assms
proof (induction es arbitrary: e)
  case Nil
  then have "ParseOperand fl (start (operand_text e @ '')'' @ t)) = Inr (e, start ('')'' @ t))"
    by (intro ParseOperand_text) auto
  with Nil show ?case by (subst list_loop.simps) simp
next
  case (Cons x xs)
  let ?t = "concat (map (\<lambda>y. '','' @ operand_text y) (x # xs)) @ '')'' @ t"
  have "ParseOperand fl (start (operand_text e @ ?t)) = Inr (e, start ?t)"
    using Cons.prems by (intro ParseOperand_text) auto
  moreover have "list_loop fl (start (operand_text x @ concat (map (\<lambda>y. '','' @ operand_text y) xs) @ '')'' @ t))
      = Inr (x # xs, start t)"
    using Cons.prems by (intro Cons.IH) auto
  ultimately show ?case using Cons.prems(1) by (subst list_loop.simps) simp
qed

lemma rhs_text:
  assumes "rhs_ok fl op rhs" and "delimited t"
  defines "st \<equiv> start (operand_text rhs @ t)"
  shows "(if tok_kind (cur st) = TkLParen
          then (if op \<noteq> In then Inl ListOnlyForIn else ParseList fl st)
          else (if op = In then Inl InNeedsList else ParseOperand fl st)) = Inr (rhs, start t)"
proof (cases "\<exists>es. rhs = OpList es")
  case True
  with assms(1) obtain e es where rhs: "rhs = OpList (e # es)" and op: "op = In"
    and ok: "operand_ok fl e \<and> \<not> op_is_field e" "list_all (\<lambda>e. operand_ok fl e \<and> \<not> op_is_field e) es"
    by (cases rhs) (auto simp: rhs_ok_def neq_Nil_conv)
  let ?u = "operand_text e @ concat (map (\<lambda>y. '','' @ operand_text y) es) @ '')'' @ t"
  have st: "st = start (''('' @ ?u)"
    by (simp add: st_def rhs sep_join_def comp_def)
  have "list_loop fl (start ?u) = Inr (e # es, start t)" using ok by (rule list_loop_text)
  moreover obtain tok v where "start ?u = \<lparr>cur = tok, rest = v\<rparr>" "tok_kind tok = TkBare"
  proof -
    have "delimited (concat (map (\<lambda>y. '','' @ operand_text y) es) @ '')'' @ t)" by (cases es) auto
    with ok(1) show ?thesis using that operand_token [of fl e] by metis
  qed
  ultimately show ?thesis by (simp add: st op ParseList_def Let_def rhs)
next
  case False
  with assms(1) have "op \<noteq> In" "operand_ok fl rhs" by (cases rhs; simp add: rhs_ok_def)+
  moreover obtain tok where "st = \<lparr>cur = tok, rest = t\<rparr>" "tok_kind tok = TkBare"
    "ParseOperand fl \<lparr>cur = tok, rest = t\<rparr> = Inr (rhs, start t)"
    using operand_token [OF \<open>operand_ok fl rhs\<close> assms(2)] st_def by metis
  ultimately show ?thesis by simp
qed

lemma compare_op_text:
  "compare_op (start (op_text op @ '' '' @ t)) = Some op \<and>
   Advance (start (op_text op @ '' '' @ t)) = start t"
proof (cases op)
  case In
  have "start (''in'' @ '' '' @ t) = \<lparr>cur = bare_token ''in'', rest = '' '' @ t\<rparr>"
    by (rule start_lexeme) (simp_all add: keyword_lexeme is_keyword_def)
  with In show ?thesis by (simp add: compare_op_def PeekKw_def)
next
  case Contains
  have "start (''contains'' @ '' '' @ t) = \<lparr>cur = bare_token ''contains'', rest = '' '' @ t\<rparr>"
    by (rule start_lexeme) (simp_all add: keyword_lexeme is_keyword_def)
  with Contains show ?thesis by (simp add: compare_op_def PeekKw_def)
next
  case StartsWith
  have "start (''startswith'' @ '' '' @ t) = \<lparr>cur = bare_token ''startswith'', rest = '' '' @ t\<rparr>"
    by (rule start_lexeme) (simp_all add: keyword_lexeme is_keyword_def)
  with StartsWith show ?thesis by (simp add: compare_op_def PeekKw_def)
qed (simp_all add: compare_op_def)

lemma ParseComparison_text:
  assumes "wf_cond (CondCompare op lhs rhs)" and "delimited t"
  shows "ParseComparison (start (cond_text k (CondCompare op lhs rhs) @ t)) =
    Inr (CondCompare op lhs rhs, start t)"
proof -
  let ?u = "op_text op @ '' '' @ operand_text rhs @ t"
  have "ParseOperand False (start (operand_text lhs @ '' '' @ ?u)) = Inr (lhs, start ('' '' @ ?u))"
    using assms by (intro ParseOperand_text) auto
  moreover have "compare_op (start ?u) = Some op" "Advance (start ?u) = start (operand_text rhs @ t)"
    using compare_op_text [of op "operand_text rhs @ t"] by auto
  moreover have "(if tok_kind (cur (start (operand_text rhs @ t))) = TkLParen
          then (if op \<noteq> In then Inl ListOnlyForIn else ParseList (lhs = OpField F_event_type) (start (operand_text rhs @ t)))
          else (if op = In then Inl InNeedsList
                else ParseOperand (lhs = OpField F_event_type) (start (operand_text rhs @ t)))) =
      Inr (rhs, start t)"
    using assms rhs_text [of "lhs = OpField F_event_type" op rhs t] by (simp add: is_event_type_def)
  moreover have "\<not> ((op = Contains \<or> op = StartsWith) \<and>
      (case lhs of OpField fid \<Rightarrow> FieldIsNumber fid | _ \<Rightarrow> False))"
    using assms by (auto simp: is_number_field_def)
  ultimately show ?thesis
    unfolding ParseComparison_def by (simp add: Let_def del: if_split de_Morgan_conj de_Morgan_disj)
qed

section \<open>Parsing printed conditions\<close>

lemma start_keyword:
  assumes "is_keyword kw"
  shows "start (kw @ '' '' @ t) = \<lparr>cur = bare_token kw, rest = '' '' @ t\<rparr>"
  using assms by (intro start_lexeme keyword_lexeme) auto

lemma start_and: "start ('' and '' @ t) = \<lparr>cur = bare_token ''and'', rest = '' '' @ t\<rparr>"
  using start_keyword [of "''and''" t] by (simp add: is_keyword_def)

lemma start_or: "start ('' or '' @ t) = \<lparr>cur = bare_token ''or'', rest = '' '' @ t\<rparr>"
  using start_keyword [of "''or''" t] by (simp add: is_keyword_def)

lemma start_not: "start (''not '' @ t) = \<lparr>cur = bare_token ''not'', rest = '' '' @ t\<rparr>"
  using start_keyword [of "''not''" t] by (simp add: is_keyword_def)

definition not_text_ok :: "CondNode \<Rightarrow> bool" where
  "not_text_ok c \<longleftrightarrow>
     (\<forall>s. delimited s \<longrightarrow> ParseNot (start (cond_text 2 c @ s)) = Inr (c, start s))"

definition and_text_ok :: "CondNode \<Rightarrow> bool" where
  "and_text_ok c \<longleftrightarrow>
     (\<forall>s. delimited s \<and> \<not> PeekKw ''and'' (start s) \<longrightarrow>
        ParseAnd (start (cond_text 1 c @ s)) = Inr (c, start s))"

definition or_text_ok :: "CondNode \<Rightarrow> bool" where
  "or_text_ok c \<longleftrightarrow>
     (\<forall>s. delimited s \<and> \<not> PeekKw ''and'' (start s) \<and> \<not> PeekKw ''or'' (start s) \<longrightarrow>
        ParseOr (start (cond_text 0 c @ s)) = Inr (c, start s))"

lemma and_ok_from_not: "cond_text 1 c = cond_text 2 c \<Longrightarrow> not_text_ok c \<Longrightarrow> and_text_ok c"
  by (simp add: and_text_ok_def not_text_ok_def ParseAnd.simps)

lemma or_ok_from_and: "cond_text 0 c = cond_text 1 c \<Longrightarrow> and_text_ok c \<Longrightarrow> or_text_ok c"
  by (simp add: or_text_ok_def and_text_ok_def ParseOr.simps)

lemma not_ok_from_or: "cond_text 2 c = paren True (cond_text 0 c) \<Longrightarrow> or_text_ok c \<Longrightarrow> not_text_ok c"
  by (simp add: or_text_ok_def not_text_ok_def paren_def ParseNot.simps PeekKw_def)

lemma and_loop_text:
  assumes "list_all not_text_ok cs" and "delimited s" and "\<not> PeekKw ''and'' (start s)"
  shows "delimited (concat (map (\<lambda>c. '' and '' @ cond_text 2 c) cs) @ s) \<and>
    and_loop (start (concat (map (\<lambda>c. '' and '' @ cond_text 2 c) cs) @ s)) = Inr (cs, start s)"
  using assms
proof (induction cs)
  case Nil
  then show ?case by (simp add: and_loop.simps)
next
  case (Cons c cs)
  let ?t = "concat (map (\<lambda>c. '' and '' @ cond_text 2 c) cs) @ s"
  have IH: "delimited ?t" "and_loop (start ?t) = Inr (cs, start s)" using Cons by auto
  with Cons.prems(1) have "ParseNot (start (cond_text 2 c @ ?t)) = Inr (c, start ?t)"
    by (simp add: not_text_ok_def)
  with IH show ?case
    using start_and [of "cond_text 2 c @ ?t"] by (subst and_loop.simps) (simp add: PeekKw_def)
qed

lemma or_loop_text:
  assumes "list_all and_text_ok cs" and "delimited s" and "\<not> PeekKw ''and'' (start s)"
    and "\<not> PeekKw ''or'' (start s)"
  shows "delimited (concat (map (\<lambda>c. '' or '' @ cond_text 1 c) cs) @ s) \<and>
    \<not> PeekKw ''and'' (start (concat (map (\<lambda>c. '' or '' @ cond_text 1 c) cs) @ s)) \<and>
    or_loop (start (concat (map (\<lambda>c. '' or '' @ cond_text 1 c) cs) @ s)) = Inr (cs, start s)"
  using assms
proof (induction cs)
  case Nil
  then show ?case by (simp add: or_loop.simps)
next
  case (Cons c cs)
  let ?t = "concat (map (\<lambda>c. '' or '' @ cond_text 1 c) cs) @ s"
  have IH: "delimited ?t" "\<not> PeekKw ''and'' (start ?t)" "or_loop (start ?t) = Inr (cs, start s)"
    using Cons by auto
  with Cons.prems(1) have "ParseAnd (start (cond_text 1 c @ ?t)) = Inr (c, start ?t)"
    by (simp add: and_text_ok_def)
  with IH show ?case
    using start_or [of "cond_text 1 c @ ?t"] by (subst or_loop.simps) (simp add: PeekKw_def)
qed

lemma and_node_text:
  assumes "2 \<le> length cs" and "list_all not_text_ok cs"
  shows "and_text_ok (CondAnd cs)"
  unfolding and_text_ok_def
proof (intro allI impI)
  fix s assume s: "delimited s \<and> \<not> PeekKw ''and'' (start s)"
  from assms(1) obtain c d ds where cs: "cs = c # d # ds" by (cases cs; cases "tl cs") auto
  let ?t = "concat (map (\<lambda>c. '' and '' @ cond_text 2 c) (d # ds)) @ s"
  from assms(2) cs s have t: "delimited ?t" "and_loop (start ?t) = Inr (d # ds, start s)"
    using and_loop_text [of "d # ds" s] by auto
  with assms(2) cs have "ParseNot (start (cond_text 2 c @ ?t)) = Inr (c, start ?t)"
    by (simp add: not_text_ok_def)
  moreover have "PeekKw ''and'' (start ?t)"
    using start_and by (simp add: PeekKw_def)
  ultimately show "ParseAnd (start (cond_text 1 (CondAnd cs) @ s)) = Inr (CondAnd cs, start s)"
    using t by (subst ParseAnd.simps) (simp add: cs paren_def sep_join_def comp_def)
qed

lemma or_node_text:
  assumes "2 \<le> length cs" and "list_all and_text_ok cs"
  shows "or_text_ok (CondOr cs)"
  unfolding or_text_ok_def
proof (intro allI impI)
  fix s assume s: "delimited s \<and> \<not> PeekKw ''and'' (start s) \<and> \<not> PeekKw ''or'' (start s)"
  from assms(1) obtain c d ds where cs: "cs = c # d # ds" by (cases cs; cases "tl cs") auto
  let ?t = "concat (map (\<lambda>c. '' or '' @ cond_text 1 c) (d # ds)) @ s"
  from assms(2) cs s have t: "delimited ?t" "\<not> PeekKw ''and'' (start ?t)"
    "or_loop (start ?t) = Inr (d # ds, start s)"
    using or_loop_text [of "d # ds" s] by auto
  with assms(2) cs have "ParseAnd (start (cond_text 1 c @ ?t)) = Inr (c, start ?t)"
    by (simp add: and_text_ok_def)
  moreover have "PeekKw ''or'' (start ?t)"
    using start_or by (simp add: PeekKw_def)
  ultimately show "ParseOr (start (cond_text 0 (CondOr cs) @ s)) = Inr (CondOr cs, start s)"
    using t by (subst ParseOr.simps) (simp add: cs paren_def sep_join_def comp_def)
qed

lemma compare_text:
  assumes "wf_cond (CondCompare op lhs rhs)"
  shows "not_text_ok (CondCompare op lhs rhs)"
  unfolding not_text_ok_def
proof (intro allI impI)
  fix s assume s: "delimited s"
  let ?st = "start (cond_text 2 (CondCompare op lhs rhs) @ s)"
  have "operand_ok False lhs" using assms by simp
  then obtain tok where "?st = \<lparr>cur = tok, rest = '' '' @ op_text op @ '' '' @ operand_text rhs @ s\<rparr>"
    "tok_kind tok = TkBare" "\<not> is_keyword (tok_text tok)"
    using operand_token [of False lhs "'' '' @ op_text op @ '' '' @ operand_text rhs @ s"] by auto
  then have "\<not> PeekKw ''not'' ?st" "tok_kind (cur ?st) \<noteq> TkLParen"
    by (auto simp: PeekKw_def is_keyword_def)
  then show "ParseNot ?st = Inr (CondCompare op lhs rhs, start s)"
    using ParseComparison_text [OF assms s, of 2] by (simp add: ParseNot.simps)
qed

lemma cond_text_ok: "wf_cond c \<Longrightarrow> not_text_ok c \<and> and_text_ok c \<and> or_text_ok c"
proof (induction c)
  case (CondOr cs)
  then have "or_text_ok (CondOr cs)" by (intro or_node_text) (auto simp: list_all_iff)
  moreover then have "not_text_ok (CondOr cs)" by (rule not_ok_from_or [rotated]) (simp add: paren_def)
  ultimately show ?case by (auto intro: and_ok_from_not simp: paren_def)
next
  case (CondAnd cs)
  then have "and_text_ok (CondAnd cs)" by (intro and_node_text) (auto simp: list_all_iff)
  moreover then have "or_text_ok (CondAnd cs)" by (rule or_ok_from_and [rotated]) (simp add: paren_def)
  ultimately show ?case by (auto intro: not_ok_from_or simp: paren_def)
next
  case (CondNot c)
  then have "not_text_ok (CondNot c)"
    using start_not by (auto simp: not_text_ok_def ParseNot.simps PeekKw_def)
  moreover from this have "and_text_ok (CondNot c)" by (rule and_ok_from_not [rotated]) simp
  moreover from this have "or_text_ok (CondNot c)" by (rule or_ok_from_and [rotated]) simp
  ultimately show ?case by blast
next
  case (CondCompare op lhs rhs)
  then have "not_text_ok (CondCompare op lhs rhs)" by (rule compare_text)
  moreover from this have "and_text_ok (CondCompare op lhs rhs)" by (rule and_ok_from_not [rotated]) simp
  moreover from this have "or_text_ok (CondCompare op lhs rhs)" by (rule or_ok_from_and [rotated]) simp
  ultimately show ?case by blast
qed

lemma operand_text_nonblank:
  assumes "operand_ok fl x"
  shows "\<exists>c \<in> set (operand_text x). \<not> c_isspace c"
proof (rule ccontr)
  assume "\<not> ?thesis"
  then have "dropWhile c_isspace (operand_text x @ []) = []" by auto
  then have "start (operand_text x @ []) = \<lparr>cur = simple_token TkEnd, rest = []\<rparr>"
    unfolding start_def lex_next_def by (simp only: list.case prod.case)
  with operand_token [OF assms, of "[]"] show False by auto
qed

lemma cond_text_nonblank: "wf_cond c \<Longrightarrow> \<exists>x \<in> set (cond_text k c). \<not> c_isspace x"
proof (induction c arbitrary: k)
  case (CondCompare op lhs rhs)
  then show ?case using operand_text_nonblank [of False lhs] by auto
next
  case (CondOr cs)
  then obtain c ds where "cs = c # ds" by (cases cs) auto
  with CondOr show ?case by (fastforce simp: sep_join_def paren_def)
next
  case (CondAnd cs)
  then obtain c ds where "cs = c # ds" by (cases cs) auto
  with CondAnd show ?case by (fastforce simp: sep_join_def paren_def)
qed auto

lemma blank_space: "c \<in> {CHR '' '', CHR 0x09, CHR 0x0D, CHR 0x0A} \<Longrightarrow> c_isspace c"
  unfolding insert_iff empty_iff by (elim disjE; simp add: char_class_defs)

lemma ParseCondition_cond_text:
  assumes "wf_cond c"
  shows "ParseCondition (cond_text 0 c) = Inr c"
proof -
  obtain x where "x \<in> set (cond_text 0 c)" "\<not> c_isspace x" using cond_text_nonblank [OF assms] by auto
  then have "\<not> list_all (\<lambda>c. c \<in> {CHR '' '', CHR 0x09, CHR 0x0D, CHR 0x0A}) (cond_text 0 c)"
    using blank_space unfolding list_all_iff by blast
  moreover have "ParseOr (start (cond_text 0 c @ [])) = Inr (c, start [])"
  proof -
    have "\<forall>s. delimited s \<and> \<not> PeekKw ''and'' (start s) \<and> \<not> PeekKw ''or'' (start s) \<longrightarrow>
        ParseOr (start (cond_text 0 c @ s)) = Inr (c, start s)"
      using cond_text_ok [OF assms] or_text_ok_def by blast
    then show ?thesis by (rule allE [where x = "[]"]) (simp add: PeekKw_def)
  qed
  ultimately show ?thesis by (simp add: ParseCondition_def)
qed

section \<open>Parsed conditions are well-formed\<close>

definition tok_ok :: "Token \<Rightarrow> bool" where
  "tok_ok t \<longleftrightarrow> tok_kind t = TkBare \<longrightarrow>
     (if quoted_empty t then tok_text t = [] else lexeme (tok_text t) \<or> tok_text t = [CHR 0x22])"

lemma tok_ok_start: "tok_ok (cur (start s))"
proof (cases "dropWhile c_isspace s")
  case Nil
  then show ?thesis
    unfolding start_def lex_next_def by (simp only: list.case prod.case) (simp add: tok_ok_def)
next
  case (Cons c r)
  then have c: "\<not> c_isspace c" by (metis hd_dropWhile list.distinct(1) list.sel(1))
  have "list_all is_bare_char (takeWhile is_bare_char r)"
    unfolding list_all_iff by (blast dest: set_takeWhileD)
  with c have "tok_ok (fst (lex_next s))"
    unfolding lex_next_def Cons list.case
    by (auto simp: tok_ok_def lexeme_def char_facts split: list.splits)
  then show ?thesis by (cases "lex_next s") (simp add: start_def)
qed

lemma tok_ok_Advance: "tok_ok (cur (Advance st))"
  by (simp add: Advance_def tok_ok_start)

lemma ParseOperand_ok:
  assumes "tok_ok (cur st)" and "ParseOperand fl st = Inr (x, st')"
  shows "operand_ok fl x \<and> tok_ok (cur st')"
proof -
  have "operand_ok fl x"
    using assms by (auto simp: ParseOperand_def Let_def tok_ok_def dest: FieldIdFromPath_known
        split: if_splits option.splits)
  with assms(2) show ?thesis using ParseOperand_Inr [OF assms(2)] tok_ok_Advance by auto
qed

lemma list_loop_ok:
  "tok_ok (cur st) \<Longrightarrow> list_loop fl st = Inr (es, st') \<Longrightarrow>
     es \<noteq> [] \<and> list_all (\<lambda>e. operand_ok fl e \<and> \<not> op_is_field e) es \<and> tok_ok (cur st')"
proof (induction fl st arbitrary: es st' rule: list_loop.induct)
  case (1 fl st)
  obtain e st1 where op: "ParseOperand fl st = Inr (e, st1)"
    using "1.prems"(2) by (subst (asm) list_loop.simps) (auto split: sum.splits)
  with "1.prems"(1) have e: "operand_ok fl e" using ParseOperand_ok by blast
  have fld: "\<not> op_is_field e"
    using "1.prems"(2) op by (subst (asm) list_loop.simps) (auto split: if_splits)
  show ?case
  proof (cases "tok_kind (cur st1) = TkComma")
    case True
    with "1.prems"(2) op fld obtain fs where fs: "list_loop fl (Advance st1) = Inr (fs, st')" "es = e # fs"
      by (subst (asm) list_loop.simps) (auto split: sum.splits)
    with "1.IH" [OF op refl fld True tok_ok_Advance] e fld show ?thesis by auto
  next
    case False
    with "1.prems"(2) op fld have "st' = Advance st1" "es = [e]"
      by (subst (asm) list_loop.simps, auto split: if_splits)+
    with e fld show ?thesis by (simp add: tok_ok_Advance)
  qed
qed

lemma ParseList_ok:
  assumes "ParseList fl st = Inr (x, st')"
  shows "rhs_ok fl In x \<and> tok_ok (cur st')"
proof -
  from assms obtain es where "list_loop fl (Advance st) = Inr (es, st')" "x = OpList es"
    by (auto simp: ParseList_def Let_def split: if_splits sum.splits)
  with list_loop_ok [OF tok_ok_Advance] show ?thesis by (auto simp: rhs_ok_def)
qed

lemma ParseComparison_ok:
  assumes "tok_ok (cur st)" and "ParseComparison st = Inr (c, st')"
  shows "wf_cond c \<and> tok_ok (cur st')"
proof -
  from assms(2) obtain lhs st1 op rhs where 1: "ParseOperand False st = Inr (lhs, st1)"
    and c: "c = CondCompare op lhs rhs"
    and 2: "(op = In \<and> ParseList (lhs = OpField F_event_type) (Advance st1) = Inr (rhs, st')) \<or>
       (op \<noteq> In \<and> ParseOperand (lhs = OpField F_event_type) (Advance st1) = Inr (rhs, st'))"
    and 3: "op = Contains \<or> op = StartsWith \<Longrightarrow> \<not> (\<exists>fid. lhs = OpField fid \<and> FieldIsNumber fid)"
    by (elim ParseComparison_Inr) blast
  have single: "op \<noteq> In \<Longrightarrow> operand_ok fl x \<Longrightarrow> rhs_ok fl op x" for fl x
    by (cases x) (simp_all add: rhs_ok_def)
  have "operand_ok False lhs" using ParseOperand_ok [OF assms(1) 1] by blast
  moreover have "rhs_ok (is_event_type lhs) op rhs \<and> tok_ok (cur st')"
    unfolding is_event_type_def
    using 2 ParseList_ok ParseOperand_ok [OF tok_ok_Advance] single by blast
  ultimately show ?thesis
    using 3 by (auto simp: c is_number_field_def split: Operand.splits)
qed

lemma parse_ok:
  "tok_ok (cur st) \<Longrightarrow> ParseOr st = Inr (c, st') \<Longrightarrow> wf_cond c \<and> tok_ok (cur st')"
  "tok_ok (cur st) \<Longrightarrow> or_loop st = Inr (cs, st') \<Longrightarrow>
     (PeekKw ''or'' st \<longrightarrow> cs \<noteq> []) \<and> list_all wf_cond cs \<and> tok_ok (cur st')"
  "tok_ok (cur st) \<Longrightarrow> ParseAnd st = Inr (c, st') \<Longrightarrow> wf_cond c \<and> tok_ok (cur st')"
  "tok_ok (cur st) \<Longrightarrow> and_loop st = Inr (cs, st') \<Longrightarrow>
     (PeekKw ''and'' st \<longrightarrow> cs \<noteq> []) \<and> list_all wf_cond cs \<and> tok_ok (cur st')"
  "tok_ok (cur st) \<Longrightarrow> ParseNot st = Inr (c, st') \<Longrightarrow> wf_cond c \<and> tok_ok (cur st')"
proof (induction st and st and st and st and st arbitrary: c st' and cs st' and c st' and cs st' and c st'
    rule: ParseOr_or_loop_ParseAnd_and_loop_ParseNot.induct)
  case (1 st)
  obtain lhs st1 where sub: "ParseAnd st = Inr (lhs, st1)"
    using "1.prems"(2) by (subst (asm) ParseOr.simps) (auto split: sum.splits)
  note lhs = "1.IH"(1) [OF "1.prems"(1) sub]
  show ?case
  proof (cases "PeekKw ''or'' st1")
    case True
    with "1.prems"(2) sub obtain cs where cs: "or_loop st1 = Inr (cs, st')" "c = CondOr (lhs # cs)"
      by (subst (asm) ParseOr.simps) (auto split: sum.splits)
    with "1.IH"(2) [OF sub refl _ _ cs(1)] lhs True show ?thesis by (cases cs) auto
  next
    case False
    with "1.prems"(2) sub lhs show ?thesis by (subst (asm) ParseOr.simps) auto
  qed
next
  case (2 st)
  show ?case
  proof (cases "PeekKw ''or'' st")
    case True
    with "2.prems"(2) obtain rhs st1 ds where sub: "ParseAnd (Advance st) = Inr (rhs, st1)"
      and ds: "or_loop st1 = Inr (ds, st')" "cs = rhs # ds"
      by (subst (asm) or_loop.simps) (auto split: sum.splits)
    note rhs = "2.IH"(1) [OF True tok_ok_Advance sub]
    with "2.IH"(2) [OF True sub refl _ ds(1)] ds(2) show ?thesis by simp
  next
    case False
    with "2.prems" show ?thesis by (subst (asm) or_loop.simps) auto
  qed
next
  case (3 st)
  obtain lhs st1 where sub: "ParseNot st = Inr (lhs, st1)"
    using "3.prems"(2) by (subst (asm) ParseAnd.simps) (auto split: sum.splits)
  note lhs = "3.IH"(1) [OF "3.prems"(1) sub]
  show ?case
  proof (cases "PeekKw ''and'' st1")
    case True
    with "3.prems"(2) sub obtain cs where cs: "and_loop st1 = Inr (cs, st')" "c = CondAnd (lhs # cs)"
      by (subst (asm) ParseAnd.simps) (auto split: sum.splits)
    with "3.IH"(2) [OF sub refl _ _ cs(1)] lhs True show ?thesis by (cases cs) auto
  next
    case False
    with "3.prems"(2) sub lhs show ?thesis by (subst (asm) ParseAnd.simps) auto
  qed
next
  case (4 st)
  show ?case
  proof (cases "PeekKw ''and'' st")
    case True
    with "4.prems"(2) obtain rhs st1 ds where sub: "ParseNot (Advance st) = Inr (rhs, st1)"
      and ds: "and_loop st1 = Inr (ds, st')" "cs = rhs # ds"
      by (subst (asm) and_loop.simps) (auto split: sum.splits)
    note rhs = "4.IH"(1) [OF True tok_ok_Advance sub]
    with "4.IH"(2) [OF True sub refl _ ds(1)] ds(2) show ?thesis by simp
  next
    case False
    with "4.prems" show ?thesis by (subst (asm) and_loop.simps) auto
  qed
next
  case (5 st)
  show ?case
  proof (cases "PeekKw ''not'' st")
    case True
    with "5.prems"(2) obtain c1 where sub: "ParseNot (Advance st) = Inr (c1, st')" "c = CondNot c1"
      by (subst (asm) ParseNot.simps) (auto split: sum.splits)
    with "5.IH"(1) [OF True tok_ok_Advance sub(1)] show ?thesis by simp
  next
    case no_not: False
    show ?thesis
    proof (cases "tok_kind (cur st) = TkLParen")
      case True
      with no_not "5.prems"(2) obtain st1 where "ParseOr (Advance st) = Inr (c, st1)" "st' = Advance st1"
        by (subst (asm) ParseNot.simps) (auto split: sum.splits if_splits)
      with "5.IH"(2) [OF no_not True tok_ok_Advance] show ?thesis by (simp add: tok_ok_Advance)
    next
      case False
      with no_not "5.prems" ParseComparison_ok show ?thesis by (subst (asm) ParseNot.simps) auto
    qed
  qed
qed

section \<open>Properties\<close>

text \<open>
  C3. What \<open>ParseCondition\<close> accepts can be printed and read back: the printed form of the
  tree of an accepted text, with its parentheses, lists, fields, numbers and empty strings,
  parses to that same tree.
\<close>

theorem ParseCondition_roundtrip:
  assumes "ParseCondition t = Inr c"
  shows "ParseCondition (cond_text 0 c) = Inr c"
proof -
  from assms obtain st where "ParseOr (start t) = Inr (c, st)"
    by (auto simp: ParseCondition_def split: if_splits sum.splits)
  with parse_ok(1) [OF tok_ok_start] have "wf_cond c" by blast
  then show ?thesis by (rule ParseCondition_cond_text)
qed

lemma ParseCondition_roundtrip_witness:
  "ParseCondition (cond_text 0
     (CondNot (CondCompare In (OpField F_process_comm) (OpList [OpStr ''bash'', OpStr ''sh''])))) =
   Inr (CondNot (CondCompare In (OpField F_process_comm) (OpList [OpStr ''bash'', OpStr ''sh''])))"
proof -
  have "ParseCondition ''not (process.comm in (bash, sh))'' =
      Inr (CondNot (CondCompare In (OpField F_process_comm) (OpList [OpStr ''bash'', OpStr ''sh''])))"
    by code_simp
  then show ?thesis by (rule ParseCondition_roundtrip)
qed

text \<open>
  C4. The trees the parser builds are exactly the well-formed ones: \<open>and\<close> and \<open>or\<close> nodes have
  at least two children, lists stand only behind \<open>in\<close> and hold no field, \<open>contains\<close> and
  \<open>startswith\<close> never apply to a numeric field, and event types are never read as fields.
\<close>

theorem ParseCondition_image: "(\<exists>t. ParseCondition t = Inr c) \<longleftrightarrow> wf_cond c"
proof
  assume "\<exists>t. ParseCondition t = Inr c"
  then obtain t st where "ParseOr (start t) = Inr (c, st)"
    by (auto simp: ParseCondition_def split: if_splits sum.splits)
  with parse_ok(1) [OF tok_ok_start] show "wf_cond c" by blast
qed (blast intro: ParseCondition_cond_text)

text \<open>
  A character outside the language is not rejected: where an operand may stand, the
  lexer hands it over as a one-character literal and the condition is accepted.
\<close>

theorem illegal_char_is_literal:
  assumes "c \<in> set ''!#$%&;<>?^`{|}~''"
  shows "ParseCondition (''process.comm = '' @ [c]) =
    Inr (CondCompare Eq (OpField F_process_comm) (OpStr [c]))"
proof -
  have "list_all (\<lambda>c. ParseCondition (''process.comm = '' @ [c]) =
    Inr (CondCompare Eq (OpField F_process_comm) (OpStr [c]))) ''!#$%&;<>?^`{|}~''"
    by code_simp
  with assms show ?thesis unfolding list_all_iff by blast
qed

lemma illegal_char_is_literal_witness:
  "ParseCondition (''process.comm = '' @ ''$'') =
    Inr (CondCompare Eq (OpField F_process_comm) (OpStr ''$''))"
  by (rule illegal_char_is_literal) simp

end
