(* ===== verification/Event_Record.thy ===== *)
theory Event_Record
  imports Prelude
begin

text \<open>
  The fixed-size event record of the telemetry bus (\<open>src/src/telemetry/event_record.hpp\<close>), its
  categories and priorities, and the copy into its character arrays. A C character array is
  the list of its characters, all of them; the string it holds ends before the first NUL.
\<close>

section \<open>Character arrays\<close>

abbreviation NUL :: char where "NUL \<equiv> CHR 0x00"

text \<open>The string in a character array, \<open>std::string(a, strnlen(a, sizeof(a)))\<close>.\<close>

definition c_str :: "string \<Rightarrow> string" where
  "c_str a = takeWhile (\<lambda>c. c \<noteq> NUL) a"

text \<open>\<open>record_set_str\<close>: the destination array after the copy; \<open>src\<close> holds the \<open>src_len\<close>
  characters to copy.\<close>

definition record_set_str :: "string \<Rightarrow> string \<Rightarrow> string" where
  "record_set_str dst src =
     (if length dst = 0 then dst
      else (let n = (if length src < length dst - 1 then length src else length dst - 1)
            in take n src @ [NUL] @ drop (n + 1) dst))"

lemma length_record_set_str [simp]: "length (record_set_str dst src) = length dst"
  by (auto simp: record_set_str_def Let_def)

lemma c_str_no_NUL: "NUL \<notin> set (c_str a)"
  by (auto simp: c_str_def dest: set_takeWhileD)

lemma length_c_str: "length (c_str a) \<le> length a"
  by (simp add: c_str_def length_takeWhile_le)

lemma takeWhile_NUL: "NUL \<notin> set s \<Longrightarrow> takeWhile (\<lambda>c. c \<noteq> NUL) (s @ NUL # t) = s"
  by (induction s) auto

text \<open>What is read back is the longest part that fits beside the terminator.\<close>

lemma c_str_record_set_str:
  assumes "dst \<noteq> []" and "NUL \<notin> set src"
  shows "c_str (record_set_str dst src) = take (length dst - 1) src"
proof -
  let ?n = "if length src < length dst - 1 then length src else length dst - 1"
  have "NUL \<notin> set (take ?n src)" using assms(2) by (meson in_set_takeD)
  then have "c_str (record_set_str dst src) = take ?n src"
    using assms(1) takeWhile_NUL [of "take ?n src" "drop (?n + 1) dst"]
    by (simp add: record_set_str_def c_str_def Let_def)
  also have "\<dots> = take (length dst - 1) src" by auto
  finally show ?thesis .
qed

section \<open>Event records\<close>

definition PRIO_FILE :: u8 where "PRIO_FILE = 0"
definition PRIO_CTRL :: u8 where "PRIO_CTRL = 1"
definition PRIO_NETWORK :: u8 where "PRIO_NETWORK = 2"
definition PRIO_DNS :: u8 where "PRIO_DNS = 3"

lemmas prio_defs = PRIO_FILE_def PRIO_CTRL_def PRIO_NETWORK_def PRIO_DNS_def

definition CAT_FILE :: u8 where "CAT_FILE = 0"
definition CAT_PROCESS :: u8 where "CAT_PROCESS = 1"
definition CAT_PRIV :: u8 where "CAT_PRIV = 2"
definition CAT_NS :: u8 where "CAT_NS = 3"
definition CAT_NETWORK :: u8 where "CAT_NETWORK = 4"
definition CAT_DNS :: u8 where "CAT_DNS = 5"

lemmas cat_defs = CAT_FILE_def CAT_PROCESS_def CAT_PRIV_def CAT_NS_def CAT_NETWORK_def CAT_DNS_def

definition category_priority :: "u8 \<Rightarrow> u8" where
  "category_priority cat =
     (if cat = CAT_FILE then PRIO_FILE
      else if cat = CAT_NETWORK then PRIO_NETWORK
      else if cat = CAT_DNS then PRIO_DNS
      else PRIO_CTRL)"

record EventRecord =
  ts_ns :: u64
  enqueue_ts_ns :: u64
  rec_pid :: u32
  rec_ppid :: u32
  rec_uid :: u32
  rec_gid :: u32
  rec_category :: u8
  rec_action :: u8
  rec_priority :: u8
  rec_pad :: u8
  rec_comm :: string
  rec_exe :: string
  rec_container_id :: string
  payload_raw :: string

definition kRecordPayloadCap :: nat where "kRecordPayloadCap = 640"

text \<open>The value of the slots of a fresh queue.\<close>

definition zero_record :: EventRecord where
  "zero_record = \<lparr>ts_ns = 0, enqueue_ts_ns = 0, rec_pid = 0, rec_ppid = 0, rec_uid = 0, rec_gid = 0,
     rec_category = 0, rec_action = 0, rec_priority = 0, rec_pad = 0, rec_comm = replicate 16 NUL,
     rec_exe = replicate 256 NUL, rec_container_id = replicate 13 NUL,
     payload_raw = replicate kRecordPayloadCap NUL\<rparr>"

end
