(* ===== verification/Mpsc_Queue.thy ===== *)
theory Mpsc_Queue
  imports Event_Record
begin

text \<open>
  The bounded queue of the telemetry bus (\<open>src/src/telemetry/event_bus.hpp\<close> and \<open>.cpp\<close>,
  class \<open>MpscQueue\<close>). A call of \<open>try_push\<close> or \<open>try_pop\<close> is a sequence of atomic actions on
  the shared queue; the program counter of the calling thread says which action is next and
  keeps the local variable \<open>pos\<close>. A call that runs alone is the iteration of its actions; calls
  that overlap are the steps of a relation, in which any producer or the consumer moves.
  Actions interleave sequentially consistently. Positions and sequence numbers are 64 bit words.
\<close>

section \<open>The queue\<close>

record MpscQueue =
  q_capacity :: u64
  q_mask :: u64
  q_seq :: "u64 list"
  q_data :: "EventRecord list"
  enqueue_pos :: u64
  dequeue_pos :: u64

text \<open>The loop of the constructor; it does not return when the requested capacity is above
  \<open>2^63\<close>, because \<open>cap\<close> then becomes 0 and stays 0.\<close>

partial_function (option) round_up_pow2 :: "u64 \<Rightarrow> u64 \<Rightarrow> u64 option" where
  "round_up_pow2 capacity cap =
     (if cap < capacity then round_up_pow2 capacity (push_bit 1 cap) else Some cap)"

declare round_up_pow2.simps [code]

definition mk_queue :: "u64 \<Rightarrow> MpscQueue" where
  "mk_queue cap = \<lparr>q_capacity = cap, q_mask = cap - 1, q_seq = map of_nat [0..<unat cap],
     q_data = replicate (unat cap) zero_record, enqueue_pos = 0, dequeue_pos = 0\<rparr>"

definition new_queue :: "u64 \<Rightarrow> MpscQueue option" where
  "new_queue capacity = map_option mk_queue (round_up_pow2 capacity 1)"

definition depth :: "MpscQueue \<Rightarrow> u64" where
  "depth q = (if enqueue_pos q > dequeue_pos q then enqueue_pos q - dequeue_pos q else 0)"

definition slot :: "MpscQueue \<Rightarrow> u64 \<Rightarrow> nat" where
  "slot q pos = unat (and pos (q_mask q))"

text \<open>\<open>static_cast<intptr_t>(a) - static_cast<intptr_t>(b)\<close>, as a mathematical integer.\<close>

definition ptr_dif :: "u64 \<Rightarrow> u64 \<Rightarrow> int" where
  "ptr_dif a b = sint a - sint b"

section \<open>The actions of a call\<close>

text \<open>
  \<open>PushLoadSeq\<close>: about to read the sequence number of the slot of \<open>pos\<close>. \<open>PushCas\<close>: it was
  \<open>pos\<close>, the compare-exchange is next. \<open>PushReload\<close>: it was ahead. \<open>PushWrite\<close>: the position is
  claimed, the slot is about to be written. \<open>PushPublish\<close>: its sequence number is about to be
  stored. \<open>PushRet\<close>: the call has returned.
\<close>

datatype PushPc =
    PushStart EventRecord
  | PushLoadSeq EventRecord u64
  | PushCas EventRecord u64
  | PushReload EventRecord
  | PushWrite EventRecord u64
  | PushPublish EventRecord u64
  | PushRet bool

text \<open>One action; \<open>spurious\<close> makes a compare-exchange fail although the value is the expected one.\<close>

fun push_step :: "bool \<Rightarrow> MpscQueue \<Rightarrow> PushPc \<Rightarrow> MpscQueue \<times> PushPc" where
  "push_step spurious q (PushStart r) = (q, PushLoadSeq r (enqueue_pos q))"
| "push_step spurious q (PushLoadSeq r pos) =
     (let dif = ptr_dif (q_seq q ! slot q pos) pos
      in if dif = 0 then (q, PushCas r pos)
         else if dif < 0 then (q, PushRet False)
         else (q, PushReload r))"
| "push_step spurious q (PushCas r pos) =
     (if enqueue_pos q = pos \<and> \<not> spurious
      then (q\<lparr>enqueue_pos := pos + 1\<rparr>, PushWrite r pos)
      else (q, PushLoadSeq r (enqueue_pos q)))"
| "push_step spurious q (PushReload r) = (q, PushLoadSeq r (enqueue_pos q))"
| "push_step spurious q (PushWrite r pos) =
     (q\<lparr>q_data := (q_data q)[slot q pos := r]\<rparr>, PushPublish r pos)"
| "push_step spurious q (PushPublish r pos) =
     (q\<lparr>q_seq := (q_seq q)[slot q pos := pos + 1]\<rparr>, PushRet True)"
| "push_step spurious q (PushRet b) = (q, PushRet b)"

datatype PopPc =
    PopStart
  | PopLoadSeq u64
  | PopCas u64
  | PopReload
  | PopRead u64
  | PopRelease u64 EventRecord
  | PopRet "EventRecord option"

fun pop_step :: "bool \<Rightarrow> MpscQueue \<Rightarrow> PopPc \<Rightarrow> MpscQueue \<times> PopPc" where
  "pop_step spurious q PopStart = (q, PopLoadSeq (dequeue_pos q))"
| "pop_step spurious q (PopLoadSeq pos) =
     (let dif = ptr_dif (q_seq q ! slot q pos) (pos + 1)
      in if dif = 0 then (q, PopCas pos)
         else if dif < 0 then (q, PopRet None)
         else (q, PopReload))"
| "pop_step spurious q (PopCas pos) =
     (if dequeue_pos q = pos \<and> \<not> spurious
      then (q\<lparr>dequeue_pos := pos + 1\<rparr>, PopRead pos)
      else (q, PopLoadSeq (dequeue_pos q)))"
| "pop_step spurious q PopReload = (q, PopLoadSeq (dequeue_pos q))"
| "pop_step spurious q (PopRead pos) = (q, PopRelease pos (q_data q ! slot q pos))"
| "pop_step spurious q (PopRelease pos r) =
     (q\<lparr>q_seq := (q_seq q)[slot q pos := pos + q_mask q + 1]\<rparr>, PopRet (Some r))"
| "pop_step spurious q (PopRet x) = (q, PopRet x)"

section \<open>Calls that run alone\<close>

partial_function (option) run_push :: "MpscQueue \<Rightarrow> PushPc \<Rightarrow> (bool \<times> MpscQueue) option" where
  "run_push q pc =
     (case pc of
        PushRet b \<Rightarrow> Some (b, q)
      | _ \<Rightarrow> (case push_step False q pc of (q', pc') \<Rightarrow> run_push q' pc'))"

declare run_push.simps [code]

definition try_push :: "MpscQueue \<Rightarrow> EventRecord \<Rightarrow> (bool \<times> MpscQueue) option" where
  "try_push q r = run_push q (PushStart r)"

partial_function (option) run_pop :: "MpscQueue \<Rightarrow> PopPc \<Rightarrow> (EventRecord option \<times> MpscQueue) option" where
  "run_pop q pc =
     (case pc of
        PopRet x \<Rightarrow> Some (x, q)
      | _ \<Rightarrow> (case pop_step False q pc of (q', pc') \<Rightarrow> run_pop q' pc'))"

declare run_pop.simps [code]

definition try_pop :: "MpscQueue \<Rightarrow> (EventRecord option \<times> MpscQueue) option" where
  "try_pop q = run_pop q PopStart"

section \<open>Overlapping calls\<close>

text \<open>
  Producers are numbered. \<open>claimed\<close> and \<open>popped\<close> are history: the records in the order in which
  their positions were claimed, with their producers, and the records \<open>try_pop\<close> has returned.
\<close>

record Conc =
  queue :: MpscQueue
  producers :: "nat \<Rightarrow> PushPc"
  consumer :: PopPc
  claimed :: "(nat \<times> EventRecord) list"
  popped :: "EventRecord list"

definition init_conc :: "u64 \<Rightarrow> Conc" where
  "init_conc cap = \<lparr>queue = mk_queue cap, producers = (\<lambda>_. PushRet False), consumer = PopRet None,
     claimed = [], popped = []\<rparr>"

definition newly_claimed :: "nat \<Rightarrow> PushPc \<Rightarrow> PushPc \<Rightarrow> (nat \<times> EventRecord) list" where
  "newly_claimed p old new =
     (case (old, new) of (PushCas _ _, PushWrite r _) \<Rightarrow> [(p, r)] | _ \<Rightarrow> [])"

definition newly_popped :: "PopPc \<Rightarrow> PopPc \<Rightarrow> EventRecord list" where
  "newly_popped old new = (case (old, new) of (PopRelease _ _, PopRet (Some r)) \<Rightarrow> [r] | _ \<Rightarrow> [])"

inductive conc_step :: "Conc \<Rightarrow> Conc \<Rightarrow> bool" where
  call_push: "producers s p = PushRet b \<Longrightarrow>
     conc_step s (s\<lparr>producers := (producers s)(p := PushStart r)\<rparr>)"
| producer: "push_step spurious (queue s) (producers s p) = (q', pc') \<Longrightarrow>
     conc_step s (s\<lparr>queue := q', producers := (producers s)(p := pc'),
       claimed := claimed s @ newly_claimed p (producers s p) pc'\<rparr>)"
| call_pop: "consumer s = PopRet x \<Longrightarrow> conc_step s (s\<lparr>consumer := PopStart\<rparr>)"
| consumer: "pop_step spurious (queue s) (consumer s) = (q', pc') \<Longrightarrow>
     conc_step s (s\<lparr>queue := q', consumer := pc',
       popped := popped s @ newly_popped (consumer s) pc'\<rparr>)"

inductive conc_reachable :: "u64 \<Rightarrow> Conc \<Rightarrow> bool" for cap :: u64 where
  conc_init: "conc_reachable cap (init_conc cap)"
| conc_next: "conc_reachable cap s \<Longrightarrow> conc_step s s' \<Longrightarrow> conc_reachable cap s'"

end
