(* ===== verification/Mpsc_Queue_Correct.thy ===== *)
theory Mpsc_Queue_Correct
  imports Mpsc_Queue
begin

text \<open>
  The queue of \<open>src/src/telemetry/event_bus.cpp\<close> under any interleaving of producers and the
  consumer: the invariant on slots, sequence numbers and program counters, and what follows
  from it; the contract of a bounded queue as a locale, interpreted for calls that run alone;
  the constructor, and what goes wrong for the capacities it does not reject.
\<close>

section \<open>Positions\<close>

lemma window_mod:
  assumes "n mod (C::nat) = m mod C" and "R \<le> n" "n < R + C" "R \<le> m" "m < R + C"
  shows "n = m"
proof -
  have "n = m" if "n mod C = m mod C" "R \<le> n" "n \<le> m" "m < R + C" for n m
  proof -
    from that(1,3) have "C dvd m - n" by (metis mod_eq_dvd_iff_nat)
    moreover have "m - n < C" using that by linarith
    ultimately show "n = m" using that(3) by (metis diff_is_0_eq dvd_imp_le le_antisym not_le gr0I)
  qed
  with assms show ?thesis by (metis nat_le_linear)
qed

lemma slot_of_nat: "q_mask q = mask k \<Longrightarrow> k \<le> 64 \<Longrightarrow> slot q (of_nat n) = n mod 2 ^ k"
proof -
  assume *: "q_mask q = mask k" "k \<le> 64"
  have "slot q (of_nat n) = unat (take_bit k (of_nat n :: u64))"
    by (simp only: slot_def *(1) take_bit_eq_mask)
  also have "\<dots> = take_bit k (take_bit 64 n)"
    by (simp only: unsigned_take_bit_eq) (simp add: unat_of_nat take_bit_eq_mod)
  also have "\<dots> = n mod 2 ^ k" using *(2) by (simp only: take_bit_take_bit) (simp add: take_bit_eq_mod min_def)
  finally show ?thesis .
qed

lemma sint_of_nat_small: "n < 2 ^ 63 \<Longrightarrow> sint (of_nat n :: u64) = int n"
  by (simp add: sint_uint uint_nat unat_of_nat signed_take_bit_int_eq_self take_bit_eq_mod)

lemma ptr_dif_of_nat: "a < 2 ^ 63 \<Longrightarrow> b < 2 ^ 63 \<Longrightarrow> ptr_dif (of_nat a) (of_nat b) = int a - int b"
  by (simp add: ptr_dif_def sint_of_nat_small)

lemma of_nat_u64_inj: "a < 2 ^ 63 \<Longrightarrow> b < 2 ^ 63 \<Longrightarrow> (of_nat a :: u64) = of_nat b \<longleftrightarrow> a = b"
  by (simp add: word_of_nat_eq_iff take_bit_eq_mod)

lemma unat_u64: "a < 2 ^ 63 \<Longrightarrow> unat (of_nat a :: u64) = a"
  by (simp add: unat_of_nat take_bit_eq_mod)

section \<open>The invariant\<close>

text \<open>
  With \<open>E\<close> positions claimed and \<open>R\<close> records returned, the window of positions from \<open>R\<close> to
  \<open>R + 2^k\<close> covers every slot once. A position of the window is free (not yet claimed), in
  flight (claimed, not yet published) or published; the sequence number of its slot says which.
\<close>

definition in_flight :: "Conc \<Rightarrow> nat \<Rightarrow> bool" where
  "in_flight s n \<longleftrightarrow> (case claimed s ! n of (p, r) \<Rightarrow>
     producers s p = PushWrite r (of_nat n) \<or> producers s p = PushPublish r (of_nat n))"

definition ring_ok :: "nat \<Rightarrow> Conc \<Rightarrow> bool" where
  "ring_ok k s \<longleftrightarrow>
     q_mask (queue s) = mask k \<and> length (q_seq (queue s)) = 2 ^ k \<and> length (q_data (queue s)) = 2 ^ k \<and>
     enqueue_pos (queue s) = of_nat (length (claimed s)) \<and>
     length (popped s) \<le> length (claimed s) \<and> length (claimed s) \<le> length (popped s) + 2 ^ k \<and>
     popped s = map snd (take (length (popped s)) (claimed s))"

definition slot_ok :: "nat \<Rightarrow> Conc \<Rightarrow> nat \<Rightarrow> bool" where
  "slot_ok k s n \<longleftrightarrow>
     (if length (claimed s) \<le> n \<or> in_flight s n
      then q_seq (queue s) ! (n mod 2 ^ k) = of_nat n
      else q_seq (queue s) ! (n mod 2 ^ k) = of_nat (n + 1) \<and>
           q_data (queue s) ! (n mod 2 ^ k) = snd (claimed s ! n))"

definition slots_ok :: "nat \<Rightarrow> Conc \<Rightarrow> bool" where
  "slots_ok k s \<longleftrightarrow>
     (\<forall>n. length (popped s) \<le> n \<and> n < length (popped s) + 2 ^ k \<longrightarrow> slot_ok k s n)"

definition holds_position :: "nat \<Rightarrow> (nat \<times> EventRecord) list \<Rightarrow> nat \<Rightarrow> EventRecord \<Rightarrow> u64 \<Rightarrow> bool" where
  "holds_position R cl p r pos \<longleftrightarrow> (\<exists>n. pos = of_nat n \<and> R \<le> n \<and> n < length cl \<and> cl ! n = (p, r))"

fun push_ok :: "nat \<Rightarrow> MpscQueue \<Rightarrow> nat \<Rightarrow> (nat \<times> EventRecord) list \<Rightarrow> nat \<Rightarrow> PushPc \<Rightarrow> bool" where
  "push_ok k q R cl p (PushLoadSeq r pos) \<longleftrightarrow> (\<exists>n \<le> length cl. pos = of_nat n)"
| "push_ok k q R cl p (PushCas r pos) \<longleftrightarrow>
     (\<exists>n \<le> length cl. pos = of_nat n \<and> (n = length cl \<longrightarrow> n < R + 2 ^ k))"
| "push_ok k q R cl p (PushWrite r pos) \<longleftrightarrow> holds_position R cl p r pos"
| "push_ok k q R cl p (PushPublish r pos) \<longleftrightarrow>
     holds_position R cl p r pos \<and> q_data q ! slot q pos = r"
| "push_ok k q R cl p _ \<longleftrightarrow> True"

definition producer_ok :: "nat \<Rightarrow> Conc \<Rightarrow> nat \<Rightarrow> bool" where
  "producer_ok k s p \<longleftrightarrow>
     push_ok k (queue s) (length (popped s)) (claimed s) p (producers s p)"

definition next_published :: "Conc \<Rightarrow> bool" where
  "next_published s \<longleftrightarrow>
     length (popped s) < length (claimed s) \<and> \<not> in_flight s (length (popped s))"

text \<open>The consumer: \<open>dq\<close> is the dequeue position, \<open>np\<close> that the record at \<open>R\<close>, which is
  \<open>r0\<close>, is published.\<close>

fun pop_ok :: "u64 \<Rightarrow> nat \<Rightarrow> bool \<Rightarrow> EventRecord \<Rightarrow> PopPc \<Rightarrow> bool" where
  "pop_ok dq R np r0 (PopLoadSeq pos) \<longleftrightarrow> pos = of_nat R \<and> dq = of_nat R"
| "pop_ok dq R np r0 (PopCas pos) \<longleftrightarrow> pos = of_nat R \<and> dq = of_nat R \<and> np"
| "pop_ok dq R np r0 (PopRead pos) \<longleftrightarrow> pos = of_nat R \<and> dq = of_nat (R + 1) \<and> np"
| "pop_ok dq R np r0 (PopRelease pos r) \<longleftrightarrow> pos = of_nat R \<and> dq = of_nat (R + 1) \<and> np \<and> r = r0"
| "pop_ok dq R np r0 _ \<longleftrightarrow> dq = of_nat R"

definition consumer_ok :: "Conc \<Rightarrow> bool" where
  "consumer_ok s \<longleftrightarrow> pop_ok (dequeue_pos (queue s)) (length (popped s)) (next_published s)
     (snd (claimed s ! length (popped s))) (consumer s)"

definition conc_inv :: "nat \<Rightarrow> Conc \<Rightarrow> bool" where
  "conc_inv k s \<longleftrightarrow> ring_ok k s \<and> slots_ok k s \<and> (\<forall>p. producer_ok k s p) \<and> consumer_ok s"

definition room :: "nat \<Rightarrow> Conc \<Rightarrow> bool" where
  "room k s \<longleftrightarrow> length (claimed s) + 2 ^ k < 2 ^ 63"

text \<open>What the slot of a position shows.\<close>

lemma conc_slot: "ring_ok k s \<Longrightarrow> k \<le> 64 \<Longrightarrow> slot (queue s) (of_nat n) = n mod 2 ^ k"
  by (simp add: ring_ok_def slot_of_nat)

lemma window_position:
  assumes "n < length (popped s) + 2 ^ k"
  obtains m where "length (popped s) \<le> m" "m < length (popped s) + 2 ^ k" "m mod 2 ^ k = n mod 2 ^ k"
    "n \<le> m"
proof -
  let ?R = "length (popped s)" and ?C = "2 ^ k :: nat"
  show ?thesis
  proof (cases "?R \<le> n")
    case True
    with assms that [of n] show ?thesis by simp
  next
    case False
    let ?m = "n + ?C * ((?R + ?C - 1 - n) div ?C)"
    have "?R \<le> ?m \<and> ?m < ?R + ?C"
    proof -
      have "?C * ((?R + ?C - 1 - n) div ?C) = (?R + ?C - 1 - n) - (?R + ?C - 1 - n) mod ?C"
        by (simp add: minus_mod_eq_mult_div)
      moreover have "(?R + ?C - 1 - n) mod ?C < ?C" by simp
      moreover have "0 < ?C" by simp
      ultimately show ?thesis using False assms by linarith
    qed
    moreover have "?m mod ?C = n mod ?C" by simp
    ultimately show ?thesis using that [of ?m] by simp
  qed
qed

lemma push_sees:
  assumes inv: "conc_inv k s" "room k s" and k: "1 \<le> k" and n: "n \<le> length (claimed s)"
  defines "sq \<equiv> q_seq (queue s) ! (n mod 2 ^ k)"
  shows "sq = of_nat n \<Longrightarrow> n = length (claimed s) \<Longrightarrow> n < length (popped s) + 2 ^ k"
    and "ptr_dif sq (of_nat n) < 0 \<Longrightarrow>
           n = length (claimed s) \<and> length (claimed s) = length (popped s) + 2 ^ k"
proof -
  let ?R = "length (popped s)" and ?E = "length (claimed s)" and ?C = "2 ^ k :: nat"
  from inv have E: "?E \<le> ?R + ?C" "?R \<le> ?E" and bound: "?E + ?C < 2 ^ 63"
    by (auto simp: conc_inv_def ring_ok_def room_def)
  have C: "2 \<le> ?C" using k by (metis one_le_numeral power_increasing power_one_right)
  have sq: "sq = of_nat m \<or> (sq = of_nat (m + 1) \<and> m < ?E)"
    if "?R \<le> m" "m < ?R + ?C" "m mod ?C = n mod ?C" for m
    using inv that by (auto simp: conc_inv_def slots_ok_def slot_ok_def sq_def split: if_splits)
  have full: "sq = of_nat ?R \<or> sq = of_nat (?R + 1)" if "n = ?R + ?C"
    using sq [of ?R] C that by auto
  show "n < ?R + ?C" if "sq = of_nat n" "n = ?E"
  proof (rule ccontr)
    assume "\<not> n < ?R + ?C"
    with that E have nR: "n = ?R + ?C" by simp
    have "(of_nat n :: u64) = of_nat ?R \<or> (of_nat n :: u64) = of_nat (?R + 1)"
      using full [OF nR] that(1) by simp
    then have "n = ?R \<or> n = ?R + 1"
      using of_nat_u64_inj [of n ?R] of_nat_u64_inj [of n "?R + 1"] nR bound E C that(2) by linarith
    with nR C show False by linarith
  qed
  show "n = ?E \<and> ?E = ?R + ?C" if dif: "ptr_dif sq (of_nat n) < 0"
  proof (cases "n < ?R + ?C")
    case True
    then obtain m where m: "?R \<le> m" "m < ?R + ?C" "m mod ?C = n mod ?C" "n \<le> m"
      using window_position by blast
    from sq [OF m(1-3)] m E bound n dif have False
      by (auto simp: ptr_dif_of_nat simp del: of_nat_add of_nat_Suc)
    then show ?thesis ..
  next
    case False
    with n E show ?thesis by simp
  qed
qed

section \<open>Steps keep the invariant\<close>

definition writing :: "PushPc \<Rightarrow> bool" where
  "writing pc \<longleftrightarrow> (case pc of PushWrite _ _ \<Rightarrow> True | PushPublish _ _ \<Rightarrow> True | _ \<Rightarrow> False)"

lemma writing_simps [simp]:
  "writing (PushWrite r pos)" "writing (PushPublish r pos)" "\<not> writing (PushStart r)"
  "\<not> writing (PushLoadSeq r pos)" "\<not> writing (PushCas r pos)" "\<not> writing (PushReload r)"
  "\<not> writing (PushRet b)"
  by (simp_all add: writing_def)

lemma in_flight_move:
  assumes "\<not> writing (producers s p)" and "\<not> writing pc"
  shows "in_flight (s\<lparr>producers := (producers s)(p := pc)\<rparr>) n = in_flight s n"
  using assms by (auto simp: in_flight_def split: prod.splits)

text \<open>A producer that moves without holding a position.\<close>

lemma inv_producer_move:
  assumes "conc_inv k s" and "\<not> writing (producers s p)" and "\<not> writing pc"
    and "producer_ok k (s\<lparr>producers := (producers s)(p := pc)\<rparr>) p"
  shows "conc_inv k (s\<lparr>producers := (producers s)(p := pc)\<rparr>)"
proof -
  let ?s = "s\<lparr>producers := (producers s)(p := pc)\<rparr>"
  have "producer_ok k ?s p'" for p'
    using assms(1,4) by (cases "p' = p") (auto simp: conc_inv_def producer_ok_def)
  moreover have "consumer_ok ?s = consumer_ok s"
    by (simp add: consumer_ok_def next_published_def in_flight_move [OF assms(2,3)])
  ultimately show ?thesis
    using assms(1) in_flight_move [OF assms(2,3)]
    by (simp add: conc_inv_def ring_ok_def slots_ok_def slot_ok_def)
qed

lemma push_ok_claim:
  assumes "push_ok k q R cl p pc" and "length cl < R + 2 ^ k"
  shows "push_ok k (q\<lparr>enqueue_pos := e\<rparr>) R (cl @ [x]) p pc"
proof (cases pc)
  case (PushLoadSeq r pos)
  with assms show ?thesis using le_SucI by (simp, blast)
next
  case (PushCas r pos)
  with assms obtain n where "n \<le> length cl" "pos = of_nat n" by auto
  with PushCas assms(2) show ?thesis by (auto intro!: exI [of _ n])
qed (use assms in \<open>auto simp: holds_position_def nth_append slot_def\<close>)

lemma pop_ok_np: "pop_ok dq R np r0 pc \<Longrightarrow> (np \<Longrightarrow> np' \<and> r0' = r0) \<Longrightarrow> pop_ok dq R np' r0' pc"
  by (cases pc) auto

text \<open>A successful compare-exchange on the enqueue position.\<close>

lemma inv_claim:
  assumes inv: "conc_inv k s" "room k s" and pc: "producers s p = PushCas r pos"
    and pos: "enqueue_pos (queue s) = pos"
  shows "conc_inv k (s\<lparr>queue := (queue s)\<lparr>enqueue_pos := pos + 1\<rparr>,
    producers := (producers s)(p := PushWrite r pos), claimed := claimed s @ [(p, r)]\<rparr>)"
    (is "conc_inv k ?s")
proof -
  let ?E = "length (claimed s)" and ?R = "length (popped s)"
  have ring: "ring_ok k s" and slots: "slots_ok k s" and prod: "\<And>p. producer_ok k s p" and cons: "consumer_ok s"
    using inv by (auto simp: conc_inv_def)
  from ring pos have posE: "pos = of_nat ?E" by (simp add: ring_ok_def)
  have small: "?E < 2 ^ 63" using inv(2) by (simp add: room_def)
  have free: "?E < ?R + 2 ^ k"
  proof -
    from prod [of p] pc obtain n where n: "n \<le> ?E" "pos = of_nat n" "n = ?E \<longrightarrow> n < ?R + 2 ^ k"
      by (auto simp: producer_ok_def)
    then have "n = ?E" using posE small of_nat_u64_inj [of n ?E] by simp
    with n show ?thesis by simp
  qed
  have flight: "in_flight ?s n = in_flight s n" if "n < ?E" for n
  proof -
    have "(of_nat n :: u64) \<noteq> pos" using that small posE of_nat_u64_inj [of n ?E] by simp
    with that pc show ?thesis by (auto simp: in_flight_def nth_append split: prod.splits)
  qed
  have flightE: "in_flight ?s ?E" by (simp add: in_flight_def posE)
  have "ring_ok k ?s" using ring free by (simp add: ring_ok_def posE)
  moreover have "slots_ok k ?s"
    unfolding slots_ok_def
  proof (intro allI impI)
    fix n assume "length (popped ?s) \<le> n \<and> n < length (popped ?s) + 2 ^ k"
    with slots have "slot_ok k s n" by (simp add: slots_ok_def)
    then show "slot_ok k ?s n"
      using flight [of n] flightE
      by (cases n ?E rule: linorder_cases) (auto simp: slot_ok_def nth_append split: if_splits)
  qed
  moreover have "producer_ok k ?s p'" for p'
  proof (cases "p' = p")
    case True
    then show ?thesis using posE ring by (auto simp: producer_ok_def holds_position_def ring_ok_def)
  next
    case False
    with prod [of p'] free show ?thesis by (simp add: producer_ok_def push_ok_claim)
  qed
  moreover have "consumer_ok ?s"
    using cons flight [of ?R]
    by (auto simp: consumer_ok_def next_published_def nth_append elim!: pop_ok_np)
  ultimately show ?thesis by (simp add: conc_inv_def)
qed

text \<open>Writing the slot of a claimed position, and publishing it.\<close>

lemma inv_write:
  assumes inv: "conc_inv k s" "room k s" and k: "k \<le> 64" and pc: "producers s p = PushWrite r pos"
  shows "conc_inv k (s\<lparr>queue := (queue s)\<lparr>q_data := (q_data (queue s))[slot (queue s) pos := r]\<rparr>,
    producers := (producers s)(p := PushPublish r pos)\<rparr>)"
    (is "conc_inv k ?s")
proof -
  let ?E = "length (claimed s)" and ?R = "length (popped s)"
  have ring: "ring_ok k s" and slots: "slots_ok k s" and prod: "\<And>p. producer_ok k s p" and cons: "consumer_ok s"
    using inv by (auto simp: conc_inv_def)
  have small: "?E < 2 ^ 63" using inv(2) by (simp add: room_def)
  have hold: "holds_position ?R (claimed s) p r pos" using prod [of p] pc by (simp add: producer_ok_def)
  then obtain m where m: "pos = of_nat m" "?R \<le> m" "m < ?E" "claimed s ! m = (p, r)"
    by (auto simp: holds_position_def)
  have slot: "slot (queue s) (of_nat n) = n mod 2 ^ k" for n using conc_slot [OF ring k] .
  have len: "length (q_data (queue s)) = 2 ^ k" and ER: "?E \<le> ?R + 2 ^ k" using ring by (auto simp: ring_ok_def)
  have flight: "in_flight ?s n = in_flight s n" for n
    using pc by (auto simp: in_flight_def split: prod.splits)
  have mflight: "in_flight s m" using m pc by (simp add: in_flight_def)
  have other: "n mod 2 ^ k \<noteq> m mod 2 ^ k" if "?R \<le> n" "n < ?R + 2 ^ k" "n \<noteq> m" for n
    using that m ER window_mod [of n "2 ^ k" m ?R] by linarith
  have slots': "slot_ok k ?s n" if "?R \<le> n" "n < ?R + 2 ^ k" for n
  proof -
    have "slot_ok k s n" using slots that by (simp add: slots_ok_def)
    then show ?thesis using flight [of n] mflight other [OF that] m(1)
      by (cases "n = m") (simp_all add: slot_ok_def slot)
  qed
  have "producer_ok k ?s p'" for p'
  proof (cases "p' = p")
    case True
    with hold len show ?thesis by (simp add: producer_ok_def slot_def m(1)) (simp add: slot flip: slot_def)
  next
    case False
    show ?thesis
    proof (cases "producers s p'")
      case (PushPublish r' pos')
      with prod [of p'] have h': "holds_position ?R (claimed s) p' r' pos'"
        and d': "q_data (queue s) ! slot (queue s) pos' = r'"
        by (auto simp: producer_ok_def)
      then obtain m' where m': "pos' = of_nat m'" "?R \<le> m'" "m' < ?E" "claimed s ! m' = (p', r')"
        by (auto simp: holds_position_def)
      have "m' \<noteq> m" using m m' False by auto
      then have "slot (queue s) pos' \<noteq> slot (queue s) pos"
        using other [of m'] m' ER by (simp add: m(1) slot)
      with False PushPublish h' d' show ?thesis by (simp add: producer_ok_def slot_def)
    qed (use prod [of p'] False in \<open>auto simp: producer_ok_def\<close>)
  qed
  moreover have "ring_ok k ?s" using ring by (simp add: ring_ok_def)
  moreover have "slots_ok k ?s" using slots' by (simp add: slots_ok_def)
  moreover have "consumer_ok ?s"
    using cons flight by (simp add: consumer_ok_def next_published_def)
  ultimately show ?thesis by (simp add: conc_inv_def)
qed

lemma inv_publish:
  assumes inv: "conc_inv k s" "room k s" and k: "k \<le> 64" and pc: "producers s p = PushPublish r pos"
  shows "conc_inv k (s\<lparr>queue := (queue s)\<lparr>q_seq := (q_seq (queue s))[slot (queue s) pos := pos + 1]\<rparr>,
    producers := (producers s)(p := PushRet True)\<rparr>)"
    (is "conc_inv k ?s")
proof -
  let ?E = "length (claimed s)" and ?R = "length (popped s)"
  have ring: "ring_ok k s" and slots: "slots_ok k s" and prod: "\<And>p. producer_ok k s p" and cons: "consumer_ok s"
    using inv by (auto simp: conc_inv_def)
  have small: "?E < 2 ^ 63" using inv(2) by (simp add: room_def)
  have hold: "holds_position ?R (claimed s) p r pos" "q_data (queue s) ! slot (queue s) pos = r"
    using prod [of p] pc by (auto simp: producer_ok_def)
  then obtain m where m: "pos = of_nat m" "?R \<le> m" "m < ?E" "claimed s ! m = (p, r)"
    by (auto simp: holds_position_def)
  have slot: "slot (queue s) (of_nat n) = n mod 2 ^ k" for n using conc_slot [OF ring k] .
  have len: "length (q_seq (queue s)) = 2 ^ k" and ER: "?E \<le> ?R + 2 ^ k" using ring by (auto simp: ring_ok_def)
  have flight: "in_flight ?s n = in_flight s n" if "n \<noteq> m" "n < ?E" for n
  proof -
    have "(of_nat n :: u64) \<noteq> pos" using that m small of_nat_u64_inj [of n m] by simp
    with pc show ?thesis by (auto simp: in_flight_def split: prod.splits)
  qed
  have mflight: "in_flight s m" "\<not> in_flight ?s m" using m pc by (simp_all add: in_flight_def)
  have other: "n mod 2 ^ k \<noteq> m mod 2 ^ k" if "?R \<le> n" "n < ?R + 2 ^ k" "n \<noteq> m" for n
    using that m ER window_mod [of n "2 ^ k" m ?R] by linarith
  have slots': "slot_ok k ?s n" if "?R \<le> n" "n < ?R + 2 ^ k" for n
  proof -
    have "slot_ok k s n" using slots that by (simp add: slots_ok_def)
    then show ?thesis using flight [of n] mflight other [OF that] m hold(2) len
      by (cases "n = m"; cases "?E \<le> n") (simp_all add: slot_ok_def slot)
  qed
  have "producer_ok k ?s p'" for p'
  proof (cases "p' = p")
    case True
    then show ?thesis by (simp add: producer_ok_def)
  next
    case False
    with prod [of p'] show ?thesis
      by (cases "producers s p'") (auto simp: producer_ok_def slot_def)
  qed
  moreover have "ring_ok k ?s" using ring by (simp add: ring_ok_def)
  moreover have "slots_ok k ?s" using slots' by (simp add: slots_ok_def)
  moreover have "consumer_ok ?s"
  proof -
    have "next_published s \<Longrightarrow> next_published ?s"
      using flight [of ?R] mflight by (cases "?R = m") (auto simp: next_published_def)
    with cons show ?thesis by (auto simp: consumer_ok_def elim!: pop_ok_np)
  qed
  ultimately show ?thesis by (simp add: conc_inv_def)
qed

text \<open>The consumer moves without releasing a slot.\<close>

lemma push_ok_dequeue [simp]:
  "push_ok k (q\<lparr>dequeue_pos := d\<rparr>) R cl p pc = push_ok k q R cl p pc"
  by (cases pc) (auto simp: slot_def)

lemma inv_consumer_move:
  assumes "conc_inv k s"
    and "pop_ok dq (length (popped s)) (next_published s) (snd (claimed s ! length (popped s))) pc"
  shows "conc_inv k (s\<lparr>queue := (queue s)\<lparr>dequeue_pos := dq\<rparr>, consumer := pc\<rparr>)" (is "conc_inv k ?s")
proof -
  have "in_flight ?s n = in_flight s n" for n by (simp add: in_flight_def)
  with assms show ?thesis
    by (auto simp: conc_inv_def ring_ok_def slots_ok_def slot_ok_def producer_ok_def
        consumer_ok_def next_published_def)
qed

text \<open>Releasing the slot of the record that was read.\<close>

lemma inv_release:
  assumes inv: "conc_inv k s" "room k s" and k: "k \<le> 63" and pc: "consumer s = PopRelease pos r"
  shows "conc_inv k (s\<lparr>queue := (queue s)\<lparr>q_seq := (q_seq (queue s))[slot (queue s) pos := pos + q_mask (queue s) + 1]\<rparr>,
    consumer := PopRet (Some r), popped := popped s @ [r]\<rparr>)"
    (is "conc_inv k ?s")
proof -
  let ?E = "length (claimed s)" and ?R = "length (popped s)"
  have ring: "ring_ok k s" and slots: "slots_ok k s" and prod: "\<And>p. producer_ok k s p" and cons: "consumer_ok s"
    using inv by (auto simp: conc_inv_def)
  have small: "?E < 2 ^ 63" using inv(2) by (simp add: room_def)
  from cons pc have pos: "pos = of_nat ?R" and dq: "dequeue_pos (queue s) = of_nat (?R + 1)"
    and RE: "?R < ?E" and nf: "\<not> in_flight s ?R" and r: "r = snd (claimed s ! ?R)"
    by (auto simp: consumer_ok_def next_published_def)
  have slot: "slot (queue s) (of_nat n) = n mod 2 ^ k" for n using conc_slot [OF ring] k by simp
  have len: "length (q_seq (queue s)) = 2 ^ k" and mask: "q_mask (queue s) = mask k"
    using ring by (auto simp: ring_ok_def)
  have "(mask k :: u64) + 1 = of_nat (2 ^ k)" by (simp add: mask_eq_exp_minus_1)
  then have nextseq: "pos + q_mask (queue s) + 1 = of_nat (?R + 2 ^ k)"
    by (simp add: pos mask add.assoc)
  have flight: "in_flight ?s n = in_flight s n" for n by (simp add: in_flight_def)
  have other: "n mod 2 ^ k \<noteq> ?R mod 2 ^ k" if "?R < n" "n < ?R + 2 ^ k" for n
    using that window_mod [of n "2 ^ k" ?R ?R] by linarith
  have slots': "slot_ok k ?s n" if "?R + 1 \<le> n" "n < ?R + 1 + 2 ^ k" for n
  proof (cases "n = ?R + 2 ^ k")
    case True
    moreover have "?E \<le> ?R + 2 ^ k" using ring by (simp add: ring_ok_def)
    ultimately show ?thesis using len by (simp add: slot_ok_def slot pos nextseq [unfolded pos])
  next
    case False
    with that have "slot_ok k s n" using slots by (simp add: slots_ok_def)
    then show ?thesis using flight [of n] other [of n] that False by (simp add: slot_ok_def slot pos)
  qed
  have "push_ok k (queue ?s) (?R + 1) (claimed s) p (producers s p)" for p
  proof -
    have hold: "holds_position (?R + 1) (claimed s) p r' pos'"
      if h: "holds_position ?R (claimed s) p r' pos'"
        and w: "producers s p = PushWrite r' pos' \<or> producers s p = PushPublish r' pos'" for r' pos'
    proof -
      from h obtain m where m: "pos' = of_nat m" "?R \<le> m" "m < ?E" "claimed s ! m = (p, r')"
        by (auto simp: holds_position_def)
      with w have "in_flight s m" by (auto simp: in_flight_def)
      with nf have "m \<noteq> ?R" by auto
      with m show ?thesis by (auto simp: holds_position_def intro!: exI [of _ m])
    qed
    show ?thesis
    proof (cases "producers s p")
      case (PushCas r' pos')
      with prod [of p] obtain n where "n \<le> ?E" "pos' = of_nat n" "n = ?E \<longrightarrow> n < ?R + 2 ^ k"
        by (auto simp: producer_ok_def)
      with PushCas show ?thesis by (auto intro!: exI [of _ n])
    qed (use prod [of p] hold in \<open>auto simp: producer_ok_def slot_def\<close>)
  qed
  then have "producer_ok k ?s p" for p by (simp add: producer_ok_def)
  moreover have "ring_ok k ?s" using ring RE
    by (auto simp: ring_ok_def r take_Suc_conv_app_nth)
  moreover have "slots_ok k ?s" using slots' by (simp add: slots_ok_def)
  moreover have "consumer_ok ?s" using dq by (simp add: consumer_ok_def)
  ultimately show ?thesis by (simp add: conc_inv_def)
qed

section \<open>Reachable states\<close>

lemma inv_push_step:
  assumes inv: "conc_inv k s" and k: "1 \<le> k" "k \<le> 63"
    and step: "push_step spurious (queue s) (producers s p) = (q', pc')"
    and room: "room k s"
  shows "conc_inv k (s\<lparr>queue := q', producers := (producers s)(p := pc'),
    claimed := claimed s @ newly_claimed p (producers s p) pc'\<rparr>)"
proof -
  let ?E = "length (claimed s)"
  have ring: "ring_ok k s" and prod: "producer_ok k s p" using inv by (auto simp: conc_inv_def)
  have enq: "enqueue_pos (queue s) = of_nat ?E" using ring by (simp add: ring_ok_def)
  have move: "conc_inv k (s\<lparr>queue := queue s, producers := (producers s)(p := pc), claimed := claimed s @ []\<rparr>)"
    if "\<not> writing (producers s p)" "\<not> writing pc"
      "push_ok k (queue s) (length (popped s)) (claimed s) p pc" for pc
    using inv_producer_move [OF inv that(1,2)] that(3) by (simp add: producer_ok_def)
  have load: "conc_inv k (s\<lparr>queue := queue s, producers := (producers s)(p := PushLoadSeq r (enqueue_pos (queue s))),
      claimed := claimed s @ []\<rparr>)" if "\<not> writing (producers s p)" for r
    by (rule move [OF that]) (use enq in auto)
  show ?thesis
  proof (cases "producers s p")
    case (PushStart r)
    with step load [of r] show ?thesis by (auto simp: newly_claimed_def)
  next
    case (PushLoadSeq r pos)
    with prod obtain n where n: "n \<le> ?E" "pos = of_nat n" by (auto simp: producer_ok_def)
    have slot: "slot (queue s) pos = n mod 2 ^ k" using conc_slot [OF ring] k n by simp
    consider "ptr_dif (q_seq (queue s) ! slot (queue s) pos) pos = 0"
      | "ptr_dif (q_seq (queue s) ! slot (queue s) pos) pos < 0"
      | "ptr_dif (q_seq (queue s) ! slot (queue s) pos) pos > 0" by linarith
    then show ?thesis
    proof cases
      case 1
      then have "q_seq (queue s) ! (n mod 2 ^ k) = of_nat n"
        using slot by (auto simp: ptr_dif_def n(2) intro: signed_word_eqI)
      then have "n = ?E \<longrightarrow> n < length (popped s) + 2 ^ k"
        using push_sees(1) [OF inv room k(1) n(1)] by blast
      then have "push_ok k (queue s) (length (popped s)) (claimed s) p (PushCas r pos)"
        unfolding push_ok.simps using n by blast
      moreover have "q' = queue s" "pc' = PushCas r pos" using step PushLoadSeq 1 by (simp_all add: Let_def)
      ultimately show ?thesis using move [of pc'] PushLoadSeq by (simp add: newly_claimed_def)
    next
      case 2
      with step PushLoadSeq move [of "PushRet False"] show ?thesis
        by (auto simp: newly_claimed_def Let_def)
    next
      case 3
      with step PushLoadSeq move [of "PushReload r"] show ?thesis
        by (auto simp: newly_claimed_def Let_def)
    qed
  next
    case (PushCas r pos)
    show ?thesis
    proof (cases "enqueue_pos (queue s) = pos \<and> \<not> spurious")
      case True
      with step PushCas inv_claim [OF inv room PushCas] show ?thesis
        by (auto simp: newly_claimed_def)
    next
      case False
      with step PushCas load [of r] show ?thesis by (auto simp: newly_claimed_def split: if_splits)
    qed
  next
    case (PushReload r)
    with step load [of r] show ?thesis by (auto simp: newly_claimed_def)
  next
    case (PushWrite r pos)
    with step inv_write [OF inv room _ PushWrite] k show ?thesis by (auto simp: newly_claimed_def)
  next
    case (PushPublish r pos)
    with step inv_publish [OF inv room _ PushPublish] k show ?thesis by (auto simp: newly_claimed_def)
  next
    case (PushRet b)
    with step have "q' = queue s" "pc' = producers s p" by simp_all
    moreover from this PushRet have "newly_claimed p (producers s p) pc' = []" by (simp add: newly_claimed_def)
    ultimately show ?thesis using inv by simp
  qed
qed

text \<open>What the consumer sees at its position.\<close>

lemma pop_sees:
  assumes inv: "conc_inv k s" "room k s"
  defines "sq \<equiv> q_seq (queue s) ! (length (popped s) mod 2 ^ k)"
  shows "sq = (if next_published s then of_nat (length (popped s) + 1) else of_nat (length (popped s)))"
    and "next_published s \<Longrightarrow> q_data (queue s) ! (length (popped s) mod 2 ^ k) = snd (claimed s ! length (popped s))"
proof -
  have "slot_ok k s (length (popped s))"
    using inv by (simp add: conc_inv_def slots_ok_def)
  then show "sq = (if next_published s then of_nat (length (popped s) + 1) else of_nat (length (popped s)))"
    "next_published s \<Longrightarrow> q_data (queue s) ! (length (popped s) mod 2 ^ k) = snd (claimed s ! length (popped s))"
    using inv by (auto simp: slot_ok_def next_published_def sq_def split: if_splits)
qed

lemma inv_pop_step:
  assumes inv: "conc_inv k s" and k: "1 \<le> k" "k \<le> 63"
    and step: "pop_step spurious (queue s) (consumer s) = (q', pc')"
    and room: "room k s"
  shows "conc_inv k (s\<lparr>queue := q', consumer := pc', popped := popped s @ newly_popped (consumer s) pc'\<rparr>)"
proof -
  let ?R = "length (popped s)"
  have ring: "ring_ok k s" and cons: "consumer_ok s" using inv by (auto simp: conc_inv_def)
  have "1 \<le> (2 :: nat) ^ k" by simp
  then have R: "?R + 1 < 2 ^ 63" using room ring unfolding room_def ring_ok_def by linarith
  have slot: "slot (queue s) (of_nat ?R) = ?R mod 2 ^ k" using conc_slot [OF ring] k by simp
  have stay: "queue s\<lparr>dequeue_pos := dequeue_pos (queue s)\<rparr> = queue s" by simp
  have move: "conc_inv k (s\<lparr>queue := queue s, consumer := pc, popped := popped s @ []\<rparr>)"
    if "pop_ok (dequeue_pos (queue s)) ?R (next_published s) (snd (claimed s ! ?R)) pc" for pc
    using inv_consumer_move [OF inv that] by (simp add: stay)
  show ?thesis
  proof (cases "consumer s")
    case (PopLoadSeq pos)
    then have pos: "pos = of_nat ?R" and dq: "dequeue_pos (queue s) = of_nat ?R"
      using cons by (auto simp: consumer_ok_def)
    have dif: "ptr_dif (q_seq (queue s) ! slot (queue s) pos) (pos + 1) = (if next_published s then 0 else -1)"
      using pop_sees(1) [OF inv room] R ptr_dif_of_nat [of ?R "?R + 1"] ptr_dif_of_nat [of "?R + 1" "?R + 1"]
      by (simp add: pos slot add.commute)
    show ?thesis
    proof (cases "next_published s")
      case True
      with step PopLoadSeq dif move [of "PopCas pos"] pos dq show ?thesis by (auto simp: newly_popped_def)
    next
      case False
      with step PopLoadSeq dif move [of "PopRet None"] dq show ?thesis by (auto simp: newly_popped_def)
    qed
  next
    case (PopCas pos)
    then have pos: "pos = of_nat ?R" and dq: "dequeue_pos (queue s) = of_nat ?R" and np: "next_published s"
      using cons by (auto simp: consumer_ok_def)
    show ?thesis
    proof (cases spurious)
      case False
      have "conc_inv k (s\<lparr>queue := (queue s)\<lparr>dequeue_pos := pos + 1\<rparr>, consumer := PopRead pos\<rparr>)"
        by (rule inv_consumer_move [OF inv]) (simp add: pos np add.commute)
      with step PopCas False pos dq show ?thesis by (auto simp: newly_popped_def)
    next
      case True
      with step PopCas move [of "PopLoadSeq pos"] pos dq show ?thesis by (auto simp: newly_popped_def)
    qed
  next
    case (PopRead pos)
    then have pos: "pos = of_nat ?R" and dq: "dequeue_pos (queue s) = of_nat (?R + 1)" and np: "next_published s"
      using cons by (auto simp: consumer_ok_def)
    with step PopRead pop_sees(2) [OF inv room np] move [of "PopRelease pos (snd (claimed s ! ?R))"] slot
    show ?thesis by (auto simp: newly_popped_def)
  next
    case (PopRelease pos r)
    with step inv_release [OF inv room k(2) PopRelease] show ?thesis by (auto simp: newly_popped_def)
  next
    case (PopRet x)
    with step have "q' = queue s" "pc' = consumer s" by simp_all
    moreover from this PopRet have "newly_popped (consumer s) pc' = []" by (simp add: newly_popped_def)
    ultimately show ?thesis using inv by simp
  qed (use step cons inv move [of "PopLoadSeq (dequeue_pos (queue s))"] in
      \<open>auto simp: newly_popped_def consumer_ok_def\<close>)
qed

lemma conc_step_inv:
  assumes "conc_step s s'" and "conc_inv k s" and "room k s" and "1 \<le> k" and "k \<le> 63"
  shows "conc_inv k s'"
  using assms
proof cases
  case (call_push p b r)
  then show ?thesis using assms(2)
    by (auto intro!: inv_producer_move simp: producer_ok_def)
next
  case (producer spurious p q' pc')
  then show ?thesis using inv_push_step assms by blast
next
  case (call_pop x)
  then have "pop_ok (dequeue_pos (queue s)) (length (popped s)) (next_published s)
      (snd (claimed s ! length (popped s))) PopStart"
    using assms(2) by (auto simp: conc_inv_def consumer_ok_def)
  from inv_consumer_move [OF assms(2) this] call_pop show ?thesis by simp
next
  case (consumer spurious q' pc')
  then show ?thesis using inv_pop_step assms by blast
qed

lemma conc_step_claimed: "conc_step s s' \<Longrightarrow> length (claimed s) \<le> length (claimed s')"
  by (cases rule: conc_step.cases) auto

lemma mk_queue_ring:
  assumes "k \<le> 62"
  shows "q_mask (mk_queue (of_nat (2 ^ k))) = mask k" "length (q_seq (mk_queue (of_nat (2 ^ k)))) = 2 ^ k"
    "length (q_data (mk_queue (of_nat (2 ^ k)))) = 2 ^ k"
    "n < 2 ^ k \<Longrightarrow> q_seq (mk_queue (of_nat (2 ^ k))) ! n = of_nat n"
proof -
  have "(2 :: nat) ^ k < 2 ^ 63" using assms by (intro power_strict_increasing) auto
  then have "unat (of_nat (2 ^ k) :: u64) = 2 ^ k" by (rule unat_u64)
  then show "q_mask (mk_queue (of_nat (2 ^ k))) = mask k" "length (q_seq (mk_queue (of_nat (2 ^ k)))) = 2 ^ k"
    "length (q_data (mk_queue (of_nat (2 ^ k)))) = 2 ^ k"
    "n < 2 ^ k \<Longrightarrow> q_seq (mk_queue (of_nat (2 ^ k))) ! n = of_nat n"
    by (simp_all add: mk_queue_def mask_eq_exp_minus_1)
qed

lemma init_inv:
  assumes "k \<le> 62"
  shows "conc_inv k (init_conc (of_nat (2 ^ k)))"
  using mk_queue_ring [OF assms]
  by (auto simp: conc_inv_def init_conc_def ring_ok_def slots_ok_def slot_ok_def producer_ok_def
      consumer_ok_def) (simp_all add: mk_queue_def)

lemma reachable_inv:
  "conc_reachable (of_nat (2 ^ k)) s \<Longrightarrow> 1 \<le> k \<Longrightarrow> k \<le> 62 \<Longrightarrow> room k s \<Longrightarrow> conc_inv k s"
proof (induction rule: conc_reachable.induct)
  case conc_init
  from init_inv [OF conc_init(2)] show ?case .
next
  case (conc_next s s')
  then have "room k s" using conc_step_claimed [of s s'] by (simp add: room_def)
  with conc_next conc_step_inv show ?case by simp
qed

section \<open>Calls that run alone\<close>

definition quiescent :: "Conc \<Rightarrow> bool" where
  "quiescent s \<longleftrightarrow> (\<forall>p. \<exists>b. producers s p = PushRet b) \<and> (\<exists>x. consumer s = PopRet x)"

lemma quiescent_not_in_flight: "quiescent s \<Longrightarrow> \<not> in_flight s n"
proof
  assume q: "quiescent s" and f: "in_flight s n"
  obtain p r where "claimed s ! n = (p, r)" by fastforce
  moreover from q obtain b where "producers s p = PushRet b" by (auto simp: quiescent_def)
  ultimately show False using f by (simp add: in_flight_def)
qed

lemma run_push_step:
  "(\<And>b. pc \<noteq> PushRet b) \<Longrightarrow> push_step False q pc = (q', pc') \<Longrightarrow> run_push q pc = run_push q' pc'"
  by (subst run_push.simps) (auto split: PushPc.split)

lemma run_push_ret: "run_push q (PushRet b) = Some (b, q)"
  by (subst run_push.simps) simp

lemma run_pop_step:
  "(\<And>x. pc \<noteq> PopRet x) \<Longrightarrow> pop_step False q pc = (q', pc') \<Longrightarrow> run_pop q pc = run_pop q' pc'"
  by (subst run_pop.simps) (auto split: PopPc.split)

lemma run_pop_ret: "run_pop q (PopRet x) = Some (x, q)"
  by (subst run_pop.simps) simp

text \<open>A push that finds room, action by action.\<close>

lemma try_push_room:
  assumes inv: "conc_inv k s" "room k s" and k: "1 \<le> k" "k \<le> 62" and q: "quiescent s"
    and free: "length (claimed s) < length (popped s) + 2 ^ k"
    and room': "length (claimed s) + 1 + 2 ^ k < 2 ^ 63"
  shows "\<exists>s'. try_push (queue s) r = Some (True, queue s') \<and> conc_inv k s' \<and> quiescent s' \<and>
    claimed s' = claimed s @ [(0, r)] \<and> popped s' = popped s"
proof -
  let ?E = "length (claimed s)"
  let ?pos = "of_nat ?E :: u64"
  have ring: "ring_ok k s" using inv by (simp add: conc_inv_def)
  then have enq: "enqueue_pos (queue s) = ?pos" and RE: "length (popped s) \<le> ?E" by (simp_all add: ring_ok_def)
  have "slot_ok k s ?E" using inv free RE by (simp add: conc_inv_def slots_ok_def)
  then have seq: "q_seq (queue s) ! slot (queue s) ?pos = ?pos"
    using conc_slot [OF ring] k by (simp add: slot_ok_def)
  define s1 where "s1 = s\<lparr>producers := (producers s)(0 := PushCas r ?pos)\<rparr>"
  obtain b where b: "producers s 0 = PushRet b" using q by (auto simp: quiescent_def)
  have i1: "conc_inv k s1"
    unfolding s1_def by (rule inv_producer_move [OF inv(1)]) (use b free in \<open>auto simp: producer_ok_def\<close>)
  have r1: "room k s1" using inv(2) by (simp add: s1_def room_def)
  define s2 where "s2 = s1\<lparr>queue := (queue s1)\<lparr>enqueue_pos := ?pos + 1\<rparr>,
    producers := (producers s1)(0 := PushWrite r ?pos), claimed := claimed s1 @ [(0, r)]\<rparr>"
  have i2: "conc_inv k s2"
    unfolding s2_def by (rule inv_claim [OF i1 r1]) (simp_all add: s1_def enq)
  have r2: "room k s2" using room' by (simp add: s2_def s1_def room_def)
  define s3 where "s3 = s2\<lparr>queue := (queue s2)\<lparr>q_data := (q_data (queue s2))[slot (queue s2) ?pos := r]\<rparr>,
    producers := (producers s2)(0 := PushPublish r ?pos)\<rparr>"
  have i3: "conc_inv k s3"
    unfolding s3_def by (rule inv_write [OF i2 r2]) (use k in \<open>simp_all add: s2_def\<close>)
  have r3: "room k s3" using r2 by (simp add: s3_def room_def)
  define s4 where "s4 = s3\<lparr>queue := (queue s3)\<lparr>q_seq := (q_seq (queue s3))[slot (queue s3) ?pos := ?pos + 1]\<rparr>,
    producers := (producers s3)(0 := PushRet True)\<rparr>"
  have i4: "conc_inv k s4"
    unfolding s4_def by (rule inv_publish [OF i3 r3]) (use k in \<open>simp_all add: s3_def\<close>)
  have "run_push (queue s) (PushStart r) = run_push (queue s) (PushLoadSeq r ?pos)"
    by (rule run_push_step) (simp_all add: enq)
  also have "\<dots> = run_push (queue s) (PushCas r ?pos)"
    by (rule run_push_step) (simp_all add: seq ptr_dif_def Let_def)
  also have "\<dots> = run_push (queue s2) (PushWrite r ?pos)"
    by (rule run_push_step) (simp_all add: enq s2_def s1_def)
  also have "\<dots> = run_push (queue s3) (PushPublish r ?pos)"
    by (rule run_push_step) (simp_all add: s3_def)
  also have "\<dots> = run_push (queue s4) (PushRet True)"
    by (rule run_push_step) (simp_all add: s4_def)
  finally have "try_push (queue s) r = Some (True, queue s4)" by (simp add: try_push_def run_push_ret)
  moreover have "quiescent s4" using q by (auto simp: s4_def s3_def s2_def s1_def quiescent_def)
  moreover have "claimed s4 = claimed s @ [(0, r)]" "popped s4 = popped s"
    by (simp_all add: s4_def s3_def s2_def s1_def)
  ultimately show ?thesis using i4 by blast
qed

lemma try_push_full:
  assumes inv: "conc_inv k s" "room k s" and k: "1 \<le> k" "k \<le> 62" and q: "quiescent s"
    and full: "length (claimed s) = length (popped s) + 2 ^ k"
  shows "try_push (queue s) r = Some (False, queue s)"
proof -
  let ?E = "length (claimed s)" and ?R = "length (popped s)"
  let ?pos = "of_nat ?E :: u64"
  have ring: "ring_ok k s" using inv by (simp add: conc_inv_def)
  then have enq: "enqueue_pos (queue s) = ?pos" by (simp add: ring_ok_def)
  have C: "2 \<le> (2 :: nat) ^ k" using k by (metis one_le_numeral power_increasing power_one_right)
  have "slot_ok k s ?R" using inv by (simp add: conc_inv_def slots_ok_def)
  moreover have "slot (queue s) ?pos = ?E mod 2 ^ k" by (rule conc_slot [OF ring]) (use k in simp)
  then have "slot (queue s) ?pos = ?R mod 2 ^ k" using full by simp
  ultimately have calculation: "q_seq (queue s) ! slot (queue s) ?pos = of_nat (?R + 1)"
    using quiescent_not_in_flight [OF q] full by (simp add: slot_ok_def)
  then have dif: "ptr_dif (q_seq (queue s) ! slot (queue s) ?pos) ?pos < 0"
  proof -
    have "(1 :: int) < 2 ^ k" using k by simp
    then show ?thesis
      using calculation ptr_dif_of_nat [of "?R + 1" ?E] inv(2) C full unfolding room_def by simp
  qed
  have "run_push (queue s) (PushStart r) = run_push (queue s) (PushLoadSeq r ?pos)"
    by (rule run_push_step) (simp_all add: enq)
  also have "\<dots> = run_push (queue s) (PushRet False)"
    by (rule run_push_step) (use dif in \<open>simp_all add: Let_def\<close>)
  finally show ?thesis by (simp add: try_push_def run_push_ret)
qed

lemma try_pop_some:
  assumes inv: "conc_inv k s" "room k s" and k: "1 \<le> k" "k \<le> 62" and q: "quiescent s"
    and some: "length (popped s) < length (claimed s)"
  shows "\<exists>s'. try_pop (queue s) = Some (Some (snd (claimed s ! length (popped s))), queue s') \<and>
    conc_inv k s' \<and> quiescent s' \<and> claimed s' = claimed s \<and>
    popped s' = popped s @ [snd (claimed s ! length (popped s))]"
proof -
  let ?R = "length (popped s)"
  let ?pos = "of_nat ?R :: u64" and ?r = "snd (claimed s ! ?R)"
  have ring: "ring_ok k s" using inv by (simp add: conc_inv_def)
  have slot: "slot (queue s) ?pos = ?R mod 2 ^ k" using conc_slot [OF ring] k by simp
  have np: "next_published s" using some quiescent_not_in_flight [OF q] by (simp add: next_published_def)
  obtain x where x: "consumer s = PopRet x" using q by (auto simp: quiescent_def)
  with inv have dq: "dequeue_pos (queue s) = ?pos" by (simp add: conc_inv_def consumer_ok_def)
  have seq: "q_seq (queue s) ! slot (queue s) ?pos = ?pos + 1"
    using pop_sees(1) [OF inv] np by (simp add: slot add.commute)
  have dat: "q_data (queue s) ! slot (queue s) ?pos = ?r" using pop_sees(2) [OF inv np] by (simp add: slot)
  define s1 where "s1 = s\<lparr>queue := (queue s)\<lparr>dequeue_pos := ?pos + 1\<rparr>, consumer := PopRelease ?pos ?r\<rparr>"
  have i1: "conc_inv k s1"
    unfolding s1_def by (rule inv_consumer_move [OF inv(1)]) (simp add: np add.commute)
  have r1: "room k s1" using inv(2) by (simp add: s1_def room_def)
  define s2 where "s2 = s1\<lparr>queue := (queue s1)\<lparr>q_seq := (q_seq (queue s1))[slot (queue s1) ?pos :=
      ?pos + q_mask (queue s1) + 1]\<rparr>, consumer := PopRet (Some ?r), popped := popped s1 @ [?r]\<rparr>"
  have i2: "conc_inv k s2"
    unfolding s2_def by (rule inv_release [OF i1 r1]) (use k in \<open>simp_all add: s1_def\<close>)
  have "run_pop (queue s) PopStart = run_pop (queue s) (PopLoadSeq ?pos)"
    by (rule run_pop_step) (simp_all add: dq)
  also have "\<dots> = run_pop (queue s) (PopCas ?pos)"
    by (rule run_pop_step) (simp_all add: seq ptr_dif_def Let_def)
  also have "\<dots> = run_pop (queue s1) (PopRead ?pos)"
    by (rule run_pop_step) (simp_all add: dq s1_def)
  also have "\<dots> = run_pop (queue s1) (PopRelease ?pos ?r)"
    by (rule run_pop_step) (use dat in \<open>simp_all add: s1_def slot_def\<close>)
  also have "\<dots> = run_pop (queue s2) (PopRet (Some ?r))"
    by (rule run_pop_step) (simp_all add: s2_def)
  finally have "try_pop (queue s) = Some (Some ?r, queue s2)" by (simp add: try_pop_def run_pop_ret)
  moreover have "quiescent s2" using q by (auto simp: s2_def s1_def quiescent_def)
  moreover have "claimed s2 = claimed s" "popped s2 = popped s @ [?r]"
    by (simp_all add: s2_def s1_def)
  ultimately show ?thesis using i2 by blast
qed

lemma try_pop_none:
  assumes inv: "conc_inv k s" "room k s" and k: "1 \<le> k" "k \<le> 62" and q: "quiescent s"
    and none: "length (claimed s) = length (popped s)"
  shows "try_pop (queue s) = Some (None, queue s)"
proof -
  let ?R = "length (popped s)"
  let ?pos = "of_nat ?R :: u64"
  have ring: "ring_ok k s" using inv by (simp add: conc_inv_def)
  have slot: "slot (queue s) ?pos = ?R mod 2 ^ k" using conc_slot [OF ring] k by simp
  have np: "\<not> next_published s" using none by (simp add: next_published_def)
  obtain x where "consumer s = PopRet x" using q by (auto simp: quiescent_def)
  with inv have dq: "dequeue_pos (queue s) = ?pos" by (simp add: conc_inv_def consumer_ok_def)
  have "1 \<le> (2 :: nat) ^ k" by simp
  then have "?R + 1 < 2 ^ 63" using inv(2) none unfolding room_def by linarith
  then have dif: "ptr_dif (q_seq (queue s) ! slot (queue s) ?pos) (?pos + 1) < 0"
    using pop_sees(1) [OF inv] np ptr_dif_of_nat [of ?R "?R + 1"] by (simp add: slot add.commute)
  have "run_pop (queue s) PopStart = run_pop (queue s) (PopLoadSeq ?pos)"
    by (rule run_pop_step) (simp_all add: dq)
  also have "\<dots> = run_pop (queue s) (PopRet None)"
    by (rule run_pop_step) (use dif in \<open>simp_all add: Let_def\<close>)
  finally show ?thesis by (simp add: try_pop_def run_pop_ret)
qed

section \<open>The queue as a bounded first-in first-out buffer\<close>

text \<open>
  The contract a client of the queue relies on. \<open>inv n q\<close> says that \<open>q\<close> is in order and that
  \<open>n\<close> more records can be accepted before positions leave the range of signed subtraction.
\<close>

locale bounded_queue =
  fixes inv :: "nat \<Rightarrow> 'q \<Rightarrow> bool" and contents :: "'q \<Rightarrow> 'a list" and cap :: "'q \<Rightarrow> nat"
    and push :: "'q \<Rightarrow> 'a \<Rightarrow> (bool \<times> 'q) option" and pop :: "'q \<Rightarrow> ('a option \<times> 'q) option"
  assumes push_room: "inv (Suc n) q \<Longrightarrow> length (contents q) < cap q \<Longrightarrow>
      \<exists>q'. push q x = Some (True, q') \<and> inv n q' \<and> contents q' = contents q @ [x] \<and> cap q' = cap q"
    and push_full: "inv (Suc n) q \<Longrightarrow> length (contents q) \<ge> cap q \<Longrightarrow> push q x = Some (False, q)"
    and pop_Nil: "inv n q \<Longrightarrow> contents q = [] \<Longrightarrow> pop q = Some (None, q)"
    and pop_Cons: "inv n q \<Longrightarrow> contents q = x # xs \<Longrightarrow>
      \<exists>q'. pop q = Some (Some x, q') \<and> inv n q' \<and> contents q' = xs \<and> cap q' = cap q"
    and inv_mono: "inv n q \<Longrightarrow> m \<le> n \<Longrightarrow> inv m q"
    and bounded: "inv n q \<Longrightarrow> length (contents q) \<le> cap q"
begin

lemma push_cases:
  assumes "inv (Suc n) q"
  obtains q' where "push q x = Some (True, q')" "inv n q'" "contents q' = contents q @ [x]"
    "cap q' = cap q" "length (contents q) < cap q"
  | "push q x = Some (False, q)" "inv n q" "length (contents q) = cap q"
  using assms push_room [of n q x] push_full [of n q x] inv_mono [of "Suc n" q n] bounded [of "Suc n" q]
  by (metis le_antisym le_Suc_eq not_le order_refl)

lemma push_total: "inv (Suc n) q \<Longrightarrow> \<exists>b q'. push q x = Some (b, q') \<and> inv n q' \<and> cap q' = cap q"
  by (erule push_cases [of n q x]) auto

lemma pop_cases:
  assumes "inv n q"
  obtains x xs q' where "pop q = Some (Some x, q')" "inv n q'" "contents q = x # xs" "contents q' = xs"
    "cap q' = cap q"
  | "pop q = Some (None, q)" "contents q = []"
  using assms pop_Nil pop_Cons by (cases "contents q") blast+

lemma pop_total: "inv n q \<Longrightarrow> \<exists>r q'. pop q = Some (r, q') \<and> inv n q' \<and> cap q' = cap q"
  by (rule pop_cases [of n q]) auto

end

text \<open>The records between the two positions, oldest first.\<close>

definition queued :: "MpscQueue \<Rightarrow> EventRecord list" where
  "queued q = map (\<lambda>i. q_data q ! slot q (of_nat i)) [unat (dequeue_pos q)..<unat (enqueue_pos q)]"

definition queue_inv :: "nat \<Rightarrow> MpscQueue \<Rightarrow> bool" where
  "queue_inv n q \<longleftrightarrow> (\<exists>k s. 1 \<le> k \<and> k \<le> 62 \<and> queue s = q \<and> conc_inv k s \<and> quiescent s \<and>
     length (claimed s) + n + 2 ^ k < 2 ^ 63)"

definition queue_cap :: "MpscQueue \<Rightarrow> nat" where
  "queue_cap q = length (q_seq q)"

lemma quiescent_queued:
  assumes inv: "conc_inv k s" "room k s" and k: "1 \<le> k" "k \<le> 62" and q: "quiescent s"
  shows "queued (queue s) = map snd (drop (length (popped s)) (claimed s))"
proof -
  let ?E = "length (claimed s)" and ?R = "length (popped s)"
  have ring: "ring_ok k s" using inv by (simp add: conc_inv_def)
  obtain x where "consumer s = PopRet x" using q by (auto simp: quiescent_def)
  with inv have dq: "dequeue_pos (queue s) = of_nat ?R" by (simp add: conc_inv_def consumer_ok_def)
  have enq: "enqueue_pos (queue s) = of_nat ?E" and RE: "?R \<le> ?E" "?E \<le> ?R + 2 ^ k"
    using ring by (auto simp: ring_ok_def)
  have pos: "unat (enqueue_pos (queue s)) = ?E" "unat (dequeue_pos (queue s)) = ?R"
    using inv(2) RE unat_u64 [of ?E] unat_u64 [of ?R] unfolding room_def enq dq by linarith+
  have "q_data (queue s) ! slot (queue s) (of_nat i) = snd (claimed s ! i)" if "?R \<le> i" "i < ?E" for i
  proof -
    have "slot_ok k s i" using inv that RE by (simp add: conc_inv_def slots_ok_def)
    then show ?thesis using conc_slot [OF ring, of i] k that quiescent_not_in_flight [OF q]
      by (simp add: slot_ok_def)
  qed
  then show ?thesis
    by (intro nth_equalityI) (simp_all add: queued_def pos RE del: of_nat_add)
qed

lemma conc_cap: "conc_inv k s \<Longrightarrow> queue_cap (queue s) = 2 ^ k"
  by (simp add: conc_inv_def ring_ok_def queue_cap_def)

lemma queue_invE:
  assumes "queue_inv n q"
  obtains k s where "1 \<le> k" "k \<le> 62" "queue s = q" "conc_inv k s" "quiescent s" "room k s"
    "length (claimed s) + n + 2 ^ k < 2 ^ 63" "queued q = map snd (drop (length (popped s)) (claimed s))"
    "queue_cap q = 2 ^ k" "length (queued q) \<le> 2 ^ k"
proof -
  from assms obtain k s where *: "1 \<le> k" "k \<le> 62" "queue s = q" "conc_inv k s" "quiescent s"
    "length (claimed s) + n + 2 ^ k < 2 ^ 63"
    unfolding queue_inv_def by blast
  then have r: "room k s" by (simp add: room_def)
  moreover have "length (claimed s) \<le> length (popped s) + 2 ^ k"
    using *(4) by (simp add: conc_inv_def ring_ok_def)
  ultimately show ?thesis
    using that [of k s] * quiescent_queued [OF *(4) r *(1,2,5)] conc_cap [OF *(4)] by auto
qed

lemma queue_inv_mono: "queue_inv n q \<Longrightarrow> m \<le> n \<Longrightarrow> queue_inv m q"
proof -
  assume "queue_inv n q" and mn: "m \<le> n"
  then obtain k s where "1 \<le> k" "k \<le> 62" "queue s = q" "conc_inv k s" "quiescent s"
    "length (claimed s) + n + 2 ^ k < 2 ^ 63"
    unfolding queue_inv_def by blast
  moreover from this(6) mn have "length (claimed s) + m + 2 ^ k < 2 ^ 63" by linarith
  ultimately show ?thesis unfolding queue_inv_def by blast
qed

lemma push_room_law:
  assumes "queue_inv (Suc n) q" and "length (queued q) < queue_cap q"
  shows "\<exists>q'. try_push q x = Some (True, q') \<and> queue_inv n q' \<and> queued q' = queued q @ [x] \<and>
    queue_cap q' = queue_cap q"
  using assms(1)
proof (rule queue_invE)
  fix k s
  assume s: "1 \<le> k" "k \<le> 62" "queue s = q" "conc_inv k s" "quiescent s" "room k s"
    "length (claimed s) + Suc n + 2 ^ k < 2 ^ 63" "queued q = map snd (drop (length (popped s)) (claimed s))"
    "queue_cap q = 2 ^ k"
  have le: "length (popped s) \<le> length (claimed s)" using s(4) by (simp add: conc_inv_def ring_ok_def)
  have "length (claimed s) < length (popped s) + 2 ^ k" "length (claimed s) + 1 + 2 ^ k < 2 ^ 63"
    using assms(2) s by auto
  from try_push_room [OF s(4,6,1,2,5) this, of x] obtain s' where s':
    "try_push q x = Some (True, queue s')" "conc_inv k s'" "quiescent s'"
    "claimed s' = claimed s @ [(0, x)]" "popped s' = popped s" using s(3) by auto
  have bound: "length (claimed s') + n + 2 ^ k < 2 ^ 63" using s(7) s'(4) by simp
  then have "room k s'" by (simp add: room_def)
  from quiescent_queued [OF s'(2) this s(1,2) s'(3)] have "queued (queue s') = queued q @ [x]"
    using s(8) s'(4,5) le by simp
  moreover have "queue_inv n (queue s')" unfolding queue_inv_def using s(1,2) s' bound by blast
  ultimately show ?thesis using s'(1) conc_cap [OF s'(2)] s(9) by auto
qed

lemma push_full_law:
  assumes "queue_inv (Suc n) q" and "queue_cap q \<le> length (queued q)"
  shows "try_push q x = Some (False, q)"
  using assms(1)
proof (rule queue_invE)
  fix k s
  assume s: "1 \<le> k" "k \<le> 62" "queue s = q" "conc_inv k s" "quiescent s" "room k s"
    "queued q = map snd (drop (length (popped s)) (claimed s))" "queue_cap q = 2 ^ k"
  have "length (claimed s) \<le> length (popped s) + 2 ^ k" "length (popped s) \<le> length (claimed s)"
    using s(4) by (auto simp: conc_inv_def ring_ok_def)
  moreover have "2 ^ k \<le> length (claimed s) - length (popped s)" using assms(2) s(7,8) by simp
  ultimately have "length (claimed s) = length (popped s) + 2 ^ k" by linarith
  from try_push_full [OF s(4,6,1,2,5) this] s(3) show ?thesis by simp
qed

lemma pop_Nil_law:
  assumes "queue_inv n q" and "queued q = []"
  shows "try_pop q = Some (None, q)"
  using assms(1)
proof (rule queue_invE)
  fix k s
  assume s: "1 \<le> k" "k \<le> 62" "queue s = q" "conc_inv k s" "quiescent s" "room k s"
    "queued q = map snd (drop (length (popped s)) (claimed s))"
  have "length (claimed s) = length (popped s)"
    using assms(2) s by (simp add: conc_inv_def ring_ok_def)
  from try_pop_none [OF s(4,6,1,2,5) this] s(3) show ?thesis by simp
qed

lemma pop_Cons_law:
  assumes "queue_inv n q" and "queued q = x # xs"
  shows "\<exists>q'. try_pop q = Some (Some x, q') \<and> queue_inv n q' \<and> queued q' = xs \<and> queue_cap q' = queue_cap q"
  using assms(1)
proof (rule queue_invE)
  fix k s
  assume s: "1 \<le> k" "k \<le> 62" "queue s = q" "conc_inv k s" "quiescent s" "room k s"
    "length (claimed s) + n + 2 ^ k < 2 ^ 63" "queued q = map snd (drop (length (popped s)) (claimed s))"
    "queue_cap q = 2 ^ k"
  have lt: "length (popped s) < length (claimed s)" 
  proof (rule ccontr)
    assume "\<not> ?thesis"
    then have "drop (length (popped s)) (claimed s) = []" by simp
    with assms(2) s(8) show False by simp
  qed
  from try_pop_some [OF s(4,6,1,2,5) this] obtain s' where s':
    "try_pop q = Some (Some (snd (claimed s ! length (popped s))), queue s')" "conc_inv k s'" "quiescent s'"
    "claimed s' = claimed s" "popped s' = popped s @ [snd (claimed s ! length (popped s))]" using s(3) by auto
  have head: "queued q = snd (claimed s ! length (popped s)) # map snd (drop (Suc (length (popped s))) (claimed s))"
    using s(8) lt by (simp add: Cons_nth_drop_Suc [symmetric])
  have bound: "length (claimed s') + n + 2 ^ k < 2 ^ 63" using s(7) s'(4) by simp
  then have "room k s'" by (simp add: room_def)
  from quiescent_queued [OF s'(2) this s(1,2) s'(3)] have "queued (queue s') = xs"
    using head assms(2) s'(4,5) by simp
  moreover have "queue_inv n (queue s')" unfolding queue_inv_def using s(1,2) s' bound by blast
  ultimately show ?thesis using s'(1) conc_cap [OF s'(2)] s(9) head assms(2) by auto
qed

interpretation mpsc: bounded_queue queue_inv queued queue_cap try_push try_pop
proof unfold_locales
  show "queue_inv n q \<Longrightarrow> length (queued q) \<le> queue_cap q" for n q
    by (erule queue_invE) simp
qed (blast intro: push_room_law push_full_law pop_Nil_law pop_Cons_law queue_inv_mono)+


section \<open>The constructor\<close>

lemma round_up_from:
  assumes "capacity \<le> 2 ^ 63" and "j \<le> 63" and "j = 0 \<or> 2 ^ (j - 1) < capacity"
  shows "\<exists>k \<le> 63. round_up_pow2 capacity (2 ^ j) = Some (2 ^ k) \<and> capacity \<le> 2 ^ k \<and>
    (k = 0 \<or> 2 ^ (k - 1) < capacity)"
  using assms(2,3)
proof (induction "63 - j" arbitrary: j)
  case 0
  then have "j = 63" by simp
  with assms(1) 0 show ?case
    by (intro exI [of _ 63]) (subst round_up_pow2.simps, auto simp: not_less)
next
  case (Suc m)
  show ?case
  proof (cases "2 ^ j < capacity")
    case True
    have "push_bit 1 (2 ^ j :: u64) = 2 ^ Suc j" by (simp add: push_bit_eq_mult mult.commute)
    then have "round_up_pow2 capacity (2 ^ j) = round_up_pow2 capacity (2 ^ Suc j)"
      using True by (subst round_up_pow2.simps) (simp only: if_True)
    with Suc.hyps(1) [of "Suc j"] Suc.hyps(2) True show ?thesis by simp
  next
    case False
    with Suc.prems show ?thesis
      by (intro exI [of _ j]) (subst round_up_pow2.simps, auto simp: not_less)
  qed
qed

definition pow2_or_0 :: "u64 \<Rightarrow> bool" where
  "pow2_or_0 x \<longleftrightarrow> x = 0 \<or> (\<exists>j \<le> 63. x = 2 ^ j)"

lemma pow2_or_0_shift: "pow2_or_0 x \<Longrightarrow> pow2_or_0 (push_bit 1 x)"
proof -
  assume "pow2_or_0 x"
  then consider "x = 0" | "x = 2 ^ 63" | j where "j < 63" "x = 2 ^ j"
    by (force simp: pow2_or_0_def le_less)
  then show ?thesis
  proof cases
    case 3
    then have "push_bit 1 x = 2 ^ Suc j" by (simp add: push_bit_eq_mult mult.commute)
    with 3 show ?thesis unfolding pow2_or_0_def by (intro disjI2 exI [of _ "Suc j"]) simp
  qed (simp_all add: pow2_or_0_def push_bit_eq_mult)
qed

lemma pow2_or_0_le: "pow2_or_0 x \<Longrightarrow> x \<le> 2 ^ 63"
proof -
  assume "pow2_or_0 x"
  then consider "x = 0" | j where "j \<le> 63" "x = 2 ^ j" by (auto simp: pow2_or_0_def)
  then show ?thesis
  proof cases
    case 2
    then have "(2 :: nat) ^ j \<le> 2 ^ 63" by (intro power_increasing) auto
    then have "unat (of_nat (2 ^ j) :: u64) = 2 ^ j"
      by (simp only: unat_of_nat take_bit_eq_mod) simp
    with \<open>(2 :: nat) ^ j \<le> 2 ^ 63\<close> show ?thesis using 2 by (simp add: word_le_nat_alt)
  qed simp
qed

lemma round_up_result:
  "round_up_pow2 capacity cap = Some y \<Longrightarrow> capacity \<le> y \<and> (pow2_or_0 cap \<longrightarrow> pow2_or_0 y)"
  by (rule round_up_pow2.raw_induct [of "\<lambda>capacity cap y. capacity \<le> y \<and> (pow2_or_0 cap \<longrightarrow> pow2_or_0 y)"])
    (auto split: if_splits simp: not_less dest: pow2_or_0_shift)

lemma round_up_diverges:
  assumes "capacity > 2 ^ 63" and "pow2_or_0 cap"
  shows "round_up_pow2 capacity cap = None"
  using round_up_result [of capacity cap] pow2_or_0_le assms
  by (cases "round_up_pow2 capacity cap") fastforce+

text \<open>A fresh queue is empty and in order.\<close>

lemma new_queue_ok:
  assumes "2 \<le> capacity" and "capacity \<le> 2 ^ 62" and "n < 2 ^ 62"
  shows "\<exists>q. new_queue capacity = Some q \<and> queue_inv n q \<and> queued q = [] \<and> unat capacity \<le> queue_cap q"
proof -
  have "(2 :: u64) ^ 62 \<le> 2 ^ 63" by simp
  with assms(2) have "capacity \<le> 2 ^ 63" by (rule order_trans)
  from round_up_from [OF this, of 0] obtain k where k: "k \<le> 63" "round_up_pow2 capacity 1 = Some (2 ^ k)"
    "capacity \<le> 2 ^ k" "k = 0 \<or> 2 ^ (k - 1) < capacity"
    by auto
  have "k \<noteq> 0"
  proof
    assume "k = 0"
    with k(3) assms(1) have "(2 :: u64) \<le> 1" by simp
    moreover have "\<not> (2 :: u64) \<le> 1" by (simp add: word_le_nat_alt)
    ultimately show False by contradiction
  qed
  moreover have "k \<le> 62"
  proof (rule ccontr)
    assume "\<not> k \<le> 62"
    with k(1) have "k = 63" by simp
    with k(4) assms(2) show False by simp
  qed
  ultimately have k62: "1 \<le> k" "k \<le> 62" by simp_all
  let ?s = "init_conc (of_nat (2 ^ k))"
  have inv: "conc_inv k ?s" by (rule init_inv [OF k62(2)])
  have quiet: "quiescent ?s" by (auto simp: quiescent_def init_conc_def)
  have C: "(2 :: nat) ^ k \<le> 2 ^ 62" using k62 by (intro power_increasing) auto
  then have bound: "length (claimed ?s) + n + 2 ^ k < 2 ^ 63" using assms(3) by (simp add: init_conc_def)
  then have "room k ?s" by (simp add: room_def)
  from quiescent_queued [OF inv this k62 quiet] have "queued (queue ?s) = []"
    by (simp add: init_conc_def)
  moreover have "queue_inv n (queue ?s)" unfolding queue_inv_def using k62 inv quiet bound by blast
  moreover have "new_queue capacity = Some (queue ?s)" using k(2) by (simp add: new_queue_def init_conc_def)
  moreover have "unat capacity \<le> queue_cap (queue ?s)"
  proof -
    have "unat (of_nat (2 ^ k) :: u64) = 2 ^ k" using C by (intro unat_u64) simp
    moreover have "capacity \<le> of_nat (2 ^ k)" using k(3) by simp
    ultimately show ?thesis using conc_cap [OF inv] by (simp add: word_le_nat_alt)
  qed
  ultimately show ?thesis by blast
qed

lemma run_pop_loops:
  assumes "dequeue_pos q = pos" and "ptr_dif (q_seq q ! slot q pos) (pos + 1) > 0"
  shows "run_pop q PopStart = None"
proof (rule ccontr)
  have loop: "run_pop q' pc = Some y \<Longrightarrow> \<not> (q' = q \<and> (pc = PopStart \<or> pc = PopLoadSeq pos \<or> pc = PopReload))"
    for q' pc y
    by (rule run_pop.raw_induct [of "\<lambda>q' pc y. \<not> (q' = q \<and> (pc = PopStart \<or> pc = PopLoadSeq pos \<or> pc = PopReload))"])
      (use assms in \<open>auto simp: Let_def split: PopPc.splits; blast\<close>)
  assume "run_pop q PopStart \<noteq> None"
  then show False using loop by blast
qed

lemma new_queue_one: "new_queue 1 = Some \<lparr>q_capacity = 1, q_mask = 0, q_seq = [0], q_data = [zero_record],
    enqueue_pos = 0, dequeue_pos = 0\<rparr>"
proof -
  have "round_up_pow2 1 1 = Some 1" by (subst round_up_pow2.simps) simp
  then show ?thesis by (simp add: new_queue_def mk_queue_def)
qed

section \<open>Schedules\<close>

datatype Move = CallPush nat EventRecord | MoveProducer nat bool | CallPop | MoveConsumer bool

fun conc_move :: "Move \<Rightarrow> Conc \<Rightarrow> Conc" where
  "conc_move (CallPush p r) s =
     (case producers s p of PushRet b \<Rightarrow> s\<lparr>producers := (producers s)(p := PushStart r)\<rparr> | _ \<Rightarrow> s)"
| "conc_move (MoveProducer p spurious) s =
     (case push_step spurious (queue s) (producers s p) of
        (q', pc') \<Rightarrow> s\<lparr>queue := q', producers := (producers s)(p := pc'),
          claimed := claimed s @ newly_claimed p (producers s p) pc'\<rparr>)"
| "conc_move CallPop s = (case consumer s of PopRet x \<Rightarrow> s\<lparr>consumer := PopStart\<rparr> | _ \<Rightarrow> s)"
| "conc_move (MoveConsumer spurious) s =
     (case pop_step spurious (queue s) (consumer s) of
        (q', pc') \<Rightarrow> s\<lparr>queue := q', consumer := pc', popped := popped s @ newly_popped (consumer s) pc'\<rparr>)"

lemma conc_move_step: "conc_move m s = s \<or> conc_step s (conc_move m s)"
proof (cases m)
  case (CallPush p r)
  then show ?thesis by (cases "producers s p") (auto intro: conc_step.call_push)
next
  case (MoveProducer p spurious)
  then show ?thesis
    by (cases "push_step spurious (queue s) (producers s p)") (auto intro: conc_step.producer)
next
  case CallPop
  then show ?thesis by (cases "consumer s") (auto intro: conc_step.call_pop)
next
  case (MoveConsumer spurious)
  then show ?thesis
    by (cases "pop_step spurious (queue s) (consumer s)") (auto intro: conc_step.consumer)
qed

lemma schedule_reachable: "conc_reachable cap s \<Longrightarrow> conc_reachable cap (fold conc_move ms s)"
proof (induction ms arbitrary: s)
  case (Cons m ms)
  then show ?case using conc_move_step [of m s] by (auto intro: conc_next)
qed simp

lemma init_two: "init_conc 2 = \<lparr>queue = \<lparr>q_capacity = 2, q_mask = 1, q_seq = [0, 1],
    q_data = [zero_record, zero_record], enqueue_pos = 0, dequeue_pos = 0\<rparr>,
    producers = (\<lambda>_. PushRet False), consumer = PopRet None, claimed = [], popped = []\<rparr>"
proof -
  have "[0..<2] = [0, Suc 0]" by (simp add: upt_rec)
  moreover have "replicate 2 zero_record = [zero_record, zero_record]" by (simp add: numeral_2_eq_2)
  ultimately show ?thesis by (simp add: init_conc_def mk_queue_def)
qed

lemmas run_simps = init_two slot_def ptr_dif_def newly_claimed_def newly_popped_def Let_def

definition sample_record :: "nat \<Rightarrow> EventRecord" where
  "sample_record n = zero_record\<lparr>rec_pid := of_nat n, rec_comm := [], rec_exe := [], rec_container_id := [], payload_raw := []\<rparr>"

text \<open>Two producers race: producer 1 claims position 0, producer 0 loses the exchange and takes 1.\<close>

definition race :: "Move list" where
  "race = [CallPush 0 (sample_record 10), CallPush 1 (sample_record 11),
     MoveProducer 0 False, MoveProducer 0 False, MoveProducer 1 False, MoveProducer 1 False,
     MoveProducer 1 False, MoveProducer 0 False, MoveProducer 0 False, MoveProducer 0 False,
     MoveProducer 1 False, MoveProducer 1 False, CallPop, MoveConsumer False, MoveConsumer False,
     MoveConsumer True, MoveConsumer False, MoveConsumer False, MoveConsumer False, MoveConsumer False]"

section \<open>Properties\<close>

text \<open>
  C5. Under every interleaving of any number of producers with the consumer, what has been
  popped is an initial part of what has been claimed, in the order of the claims: no record is
  lost, duplicated, torn or reordered, and never more than the capacity is outstanding.
\<close>

theorem mpsc_fifo:
  assumes "conc_reachable (of_nat (2 ^ k)) s" and "1 \<le> k" and "k \<le> 62"
    and "length (claimed s) + 2 ^ k < 2 ^ 63"
  shows "\<exists>rest. map snd (claimed s) = popped s @ rest \<and> length rest \<le> 2 ^ k"
proof -
  have "conc_inv k s" using reachable_inv assms by (simp add: room_def)
  then have ring: "popped s = map snd (take (length (popped s)) (claimed s))"
    "length (claimed s) \<le> length (popped s) + 2 ^ k"
    by (auto simp: conc_inv_def ring_ok_def)
  have "map snd (claimed s) = map snd (take (length (popped s)) (claimed s)) @ map snd (drop (length (popped s)) (claimed s))"
    by (simp flip: map_append)
  with ring show ?thesis by (intro exI [of _ "map snd (drop (length (popped s)) (claimed s))"]) auto
qed

lemma mpsc_fifo_witness:
  "\<exists>rest. map snd (claimed (fold conc_move race (init_conc (of_nat (2 ^ 1))))) =
     popped (fold conc_move race (init_conc (of_nat (2 ^ 1)))) @ rest \<and> length rest \<le> 2 ^ 1"
proof (rule mpsc_fifo)
  show "conc_reachable (of_nat (2 ^ 1)) (fold conc_move race (init_conc (of_nat (2 ^ 1))))"
    by (rule schedule_reachable [OF conc_init])
  show "length (claimed (fold conc_move race (init_conc (of_nat (2 ^ 1))))) + 2 ^ 1 < 2 ^ 63"
    by (simp add: race_def run_simps)
qed simp_all

text \<open>
  A push is refused only when every slot is taken: at the moment its check of the slot
  fails, the claimed and not yet popped records number exactly the capacity.
\<close>

theorem push_refused_only_when_full:
  assumes "conc_reachable (of_nat (2 ^ k)) s" and "1 \<le> k" and "k \<le> 62"
    and "length (claimed s) + 2 ^ k < 2 ^ 63"
    and "\<exists>r pos. producers s p = PushLoadSeq r pos"
    and "push_step spurious (queue s) (producers s p) = (q', PushRet False)"
  shows "length (claimed s) = length (popped s) + 2 ^ k"
proof -
  have room: "room k s" using assms(4) by (simp add: room_def)
  have inv: "conc_inv k s" using reachable_inv assms room by blast
  from assms(5) obtain r pos where pc: "producers s p = PushLoadSeq r pos" by blast
  with inv obtain n where n: "n \<le> length (claimed s)" "pos = of_nat n"
    by (auto simp: conc_inv_def producer_ok_def dest!: spec [of _ p])
  have "slot (queue s) pos = n mod 2 ^ k"
    using inv assms(3) n conc_slot [of k s n] by (simp add: conc_inv_def)
  moreover have "ptr_dif (q_seq (queue s) ! slot (queue s) pos) pos < 0"
    using assms(6) pc by (auto simp: Let_def split: if_splits)
  ultimately show ?thesis using push_sees(2) [OF inv room assms(2) n(1)] n(2) by simp
qed

definition full_race :: "Move list" where
  "full_race = [CallPush 0 (sample_record 5), MoveProducer 0 False, MoveProducer 0 False, MoveProducer 0 False,
     MoveProducer 0 False, MoveProducer 0 False, CallPush 0 (sample_record 6), MoveProducer 0 False,
     MoveProducer 0 False, MoveProducer 0 False, MoveProducer 0 False, MoveProducer 0 False,
     CallPush 1 (sample_record 7), MoveProducer 1 False]"

lemma push_refused_only_when_full_witness:
  "length (claimed (fold conc_move full_race (init_conc (of_nat (2 ^ 1))))) =
     length (popped (fold conc_move full_race (init_conc (of_nat (2 ^ 1))))) + 2 ^ 1"
proof (rule push_refused_only_when_full)
  let ?s = "fold conc_move full_race (init_conc (of_nat (2 ^ 1)))"
  show "conc_reachable (of_nat (2 ^ 1)) ?s" by (rule schedule_reachable [OF conc_init])
  show "length (claimed ?s) + 2 ^ 1 < 2 ^ 63" by (simp add: full_race_def run_simps)
  have pc: "producers ?s 1 = PushLoadSeq (sample_record 7) 2" by (simp add: full_race_def run_simps)
  then show "\<exists>r pos. producers ?s 1 = PushLoadSeq r pos" by blast
  show "push_step False (queue ?s) (producers ?s 1) = (queue ?s, PushRet False)"
    unfolding pc by (simp add: full_race_def run_simps)
qed simp_all

text \<open>
  A pop comes back empty only when the oldest claimed record is not published yet: there
  is no claimed record left, or its producer is still writing it.
\<close>

theorem pop_empty_only_when_unpublished:
  assumes "conc_reachable (of_nat (2 ^ k)) s" and "1 \<le> k" and "k \<le> 62"
    and "length (claimed s) + 2 ^ k < 2 ^ 63"
    and "consumer s = PopLoadSeq pos"
  shows "pop_step spurious (queue s) (consumer s) = (queue s, PopRet None) \<longleftrightarrow>
    length (claimed s) = length (popped s) \<or>
    (\<exists>p r. claimed s ! length (popped s) = (p, r) \<and> writing (producers s p) \<and>
       in_flight s (length (popped s)))"
proof -
  have room: "room k s" using assms(4) by (simp add: room_def)
  have inv: "conc_inv k s" using reachable_inv assms room by blast
  then have pos: "pos = of_nat (length (popped s))" using assms(5) by (simp add: conc_inv_def consumer_ok_def)
  have le: "length (popped s) \<le> length (claimed s)" using inv by (simp add: conc_inv_def ring_ok_def)
  have slot: "slot (queue s) pos = length (popped s) mod 2 ^ k"
    using inv assms(3) pos conc_slot [of k s] by (simp add: conc_inv_def)
  have "1 \<le> (2 :: nat) ^ k" by simp
  then have "length (popped s) + 1 < 2 ^ 63" using room le unfolding room_def by linarith
  then have "ptr_dif (q_seq (queue s) ! slot (queue s) pos) (pos + 1) = (if next_published s then 0 else -1)"
    using pop_sees(1) [OF inv room] ptr_dif_of_nat [of "length (popped s)" "length (popped s) + 1"]
      ptr_dif_of_nat [of "length (popped s) + 1" "length (popped s) + 1"]
    by (simp add: pos slot [unfolded pos] add.commute)
  then have "pop_step spurious (queue s) (consumer s) = (queue s, PopRet None) \<longleftrightarrow> \<not> next_published s"
    by (simp add: assms(5) Let_def)
  also have "\<dots> \<longleftrightarrow> length (claimed s) = length (popped s) \<or> in_flight s (length (popped s))"
    using le by (auto simp: next_published_def)
  finally show ?thesis by (auto simp: in_flight_def split: prod.splits)
qed

definition late_race :: "Move list" where
  "late_race = [CallPush 0 (sample_record 3), MoveProducer 0 False, MoveProducer 0 False, MoveProducer 0 False,
     CallPush 1 (sample_record 4), MoveProducer 1 False, MoveProducer 1 False, MoveProducer 1 False,
     MoveProducer 1 False, MoveProducer 1 False, CallPop, MoveConsumer False]"

lemma pop_empty_only_when_unpublished_witness:
  "pop_step False (queue (fold conc_move late_race (init_conc (of_nat (2 ^ 1)))))
     (consumer (fold conc_move late_race (init_conc (of_nat (2 ^ 1))))) =
   (queue (fold conc_move late_race (init_conc (of_nat (2 ^ 1)))), PopRet None)"
proof -
  let ?s = "fold conc_move late_race (init_conc (of_nat (2 ^ 1)))"
  have reach: "conc_reachable (of_nat (2 ^ 1)) ?s" by (rule schedule_reachable [OF conc_init])
  have len: "length (claimed ?s) + 2 ^ 1 < 2 ^ 63" by (simp add: late_race_def run_simps)
  have pc: "consumer ?s = PopLoadSeq 0" by (simp add: late_race_def run_simps)
  have "claimed ?s ! length (popped ?s) = (0, sample_record 3)" by (simp add: late_race_def run_simps)
  moreover have "producers ?s 0 = PushWrite (sample_record 3) (of_nat (length (popped ?s)))" by (simp add: late_race_def run_simps)
  ultimately show ?thesis
    using pop_empty_only_when_unpublished [OF reach _ _ len pc, of False] by (simp add: in_flight_def)
qed

text \<open>
  C6. The constructor returns for every capacity up to \<open>2^63\<close>, with the least power of two that
  is large enough; above that it never returns. A negative configuration value, converted to
  \<open>size_t\<close>, is such a capacity.
\<close>

theorem round_up_pow2_result:
  "(capacity \<le> 2 ^ 63 \<and> (\<exists>k \<le> 63. round_up_pow2 capacity 1 = Some (2 ^ k) \<and> capacity \<le> 2 ^ k \<and>
      (k = 0 \<or> 2 ^ (k - 1) < capacity))) \<or>
   (capacity > 2 ^ 63 \<and> round_up_pow2 capacity 1 = None)"
proof (cases "capacity \<le> 2 ^ 63")
  case True
  from round_up_from [OF this, of 0] True show ?thesis by simp
next
  case False
  have "pow2_or_0 1" unfolding pow2_or_0_def by (intro disjI2 exI [of _ 0]) simp
  with False round_up_diverges [of capacity 1] show ?thesis by simp
qed

text \<open>
  A queue made for one record, which the configuration does not rule out, is broken: the
  second push overwrites the first record, which nobody has read, and reports success, and the
  next pop never returns.
\<close>

theorem capacity_one_overwrites:
  "\<exists>q0 q1 q2. new_queue 1 = Some q0 \<and> try_push q0 a = Some (True, q1) \<and>
     try_push q1 b = Some (True, q2) \<and> q_data q1 = [a] \<and> q_data q2 = [b] \<and> try_pop q2 = None"
proof -
  let ?q = "\<lambda>n d. \<lparr>q_capacity = 1, q_mask = 0, q_seq = [n], q_data = [d], enqueue_pos = n, dequeue_pos = 0\<rparr>"
  have push: "try_push (?q n d) r = Some (True, ?q (n + 1) r)" for n d r
    by (simp add: try_push_def) (simp add: run_push.simps slot_def ptr_dif_def Let_def)
  have "try_pop (?q 2 b) = None"
    unfolding try_pop_def by (rule run_pop_loops [of _ 0]) (simp_all add: slot_def ptr_dif_def)
  with push [of 0 zero_record a] push [of 1 a b] new_queue_one show ?thesis by force
qed

end
