(* ===== verification/Event_Bus.thy ===== *)
theory Event_Bus
  imports Mpsc_Queue_Correct
begin

text \<open>
  The event bus (\<open>src/src/telemetry/event_bus.hpp\<close> and \<open>.cpp\<close>): the latency statistics over
  the last 1024 samples, and the pair of bounded queues with their drop counters. A bus call
  is a call of one of the queues that runs alone, so its result is optional: \<open>None\<close> is a call
  that does not return. The average is the exact quotient; rounding of \<open>double\<close> is left out,
  and the rank, which \<open>double\<close> arithmetic computes exactly for these counts, is written with
  integer division.
\<close>

section \<open>Latency statistics\<close>

definition kCapacity :: nat where "kCapacity = 1024"

record LatencyStats =
  samples :: "u64 list"
  lat_idx :: nat
  lat_count :: nat

definition new_latency :: LatencyStats where
  "new_latency = \<lparr>samples = replicate kCapacity 0, lat_idx = 0, lat_count = 0\<rparr>"

definition latency_add :: "u64 \<Rightarrow> LatencyStats \<Rightarrow> LatencyStats" where
  "latency_add x ls =
     ls\<lparr>samples := (samples ls)[lat_idx ls := x],
       lat_idx := (lat_idx ls + 1) mod kCapacity,
       lat_count := (if lat_count ls < kCapacity then lat_count ls + 1 else lat_count ls)\<rparr>"

definition latency_reset :: "LatencyStats \<Rightarrow> LatencyStats" where
  "latency_reset ls = ls\<lparr>lat_idx := 0, lat_count := 0\<rparr>"

record Summary =
  sum_count :: nat
  avg_us :: rat
  p95_us :: u64
  valid :: bool

text \<open>\<open>size_t(double(count - 1) * 0.95 + 0.5)\<close>.\<close>

definition p95_rank :: "nat \<Rightarrow> nat" where
  "p95_rank n = (19 * (n - 1) + 10) div 20"

definition summarize :: "LatencyStats \<Rightarrow> Summary" where
  "summarize ls =
     (if lat_count ls = 0 then \<lparr>sum_count = 0, avg_us = 0, p95_us = 0, valid = False\<rparr>
      else (let buf = sort (take (lat_count ls) (samples ls));
                total = fold (\<lambda>x acc. acc + x) buf 0;
                rank = p95_rank (lat_count ls);
                rank = (if rank \<ge> lat_count ls then lat_count ls - 1 else rank)
            in \<lparr>sum_count = lat_count ls,
                avg_us = of_nat (unat total) / of_nat (lat_count ls) / 1000,
                p95_us = (buf ! rank) div 1000,
                valid = True\<rparr>))"

section \<open>The bus\<close>

record EventBus =
  bus_hi :: MpscQueue
  bus_lo :: MpscQueue
  drops_hi :: "u64 list"
  drops_lo :: "u64 list"
  bus_pushed :: u64
  queue_lat :: LatencyStats

definition new_bus :: "u64 \<Rightarrow> u64 \<Rightarrow> EventBus option" where
  "new_bus hi_capacity lo_capacity =
     (case new_queue hi_capacity of
        None \<Rightarrow> None
      | Some hi \<Rightarrow>
         (case new_queue lo_capacity of
            None \<Rightarrow> None
          | Some lo \<Rightarrow> Some \<lparr>bus_hi = hi, bus_lo = lo, drops_hi = replicate 4 0, drops_lo = replicate 4 0,
              bus_pushed = 0, queue_lat = new_latency\<rparr>))"

definition is_hi :: "EventRecord \<Rightarrow> bool" where
  "is_hi r \<longleftrightarrow> rec_priority r \<le> PRIO_CTRL"

definition bump :: "u64 list \<Rightarrow> u8 \<Rightarrow> u64 list" where
  "bump cs prio = cs[unat prio := cs ! unat prio + 1]"

definition bus_try_push :: "EventBus \<Rightarrow> EventRecord \<Rightarrow> (bool \<times> EventBus) option" where
  "bus_try_push bus r =
     (let prio = rec_priority r; hi = is_hi r
      in case try_push (if hi then bus_hi bus else bus_lo bus) r of
           None \<Rightarrow> None
         | Some (ok, q) \<Rightarrow>
            (let bus = (if hi then bus\<lparr>bus_hi := q\<rparr> else bus\<lparr>bus_lo := q\<rparr>)
             in if ok then Some (True, bus\<lparr>bus_pushed := bus_pushed bus + 1\<rparr>)
                else Some (False,
                  (if prio < 4
                   then (if hi then bus\<lparr>drops_hi := bump (drops_hi bus) prio\<rparr>
                         else bus\<lparr>drops_lo := bump (drops_lo bus) prio\<rparr>)
                   else bus))))"

definition bus_try_pop_hi :: "EventBus \<Rightarrow> (EventRecord option \<times> EventBus) option" where
  "bus_try_pop_hi bus =
     map_option (\<lambda>(r, q). (r, bus\<lparr>bus_hi := q\<rparr>)) (try_pop (bus_hi bus))"

definition bus_try_pop_lo :: "EventBus \<Rightarrow> (EventRecord option \<times> EventBus) option" where
  "bus_try_pop_lo bus =
     map_option (\<lambda>(r, q). (r, bus\<lparr>bus_lo := q\<rparr>)) (try_pop (bus_lo bus))"

definition drop_count :: "EventBus \<Rightarrow> bool \<Rightarrow> int \<Rightarrow> u64" where
  "drop_count bus hi prio =
     (if prio < 0 \<or> prio \<ge> 4 then 0
      else (if hi then drops_hi bus else drops_lo bus) ! nat prio)"

definition drop_count_total :: "EventBus \<Rightarrow> u64" where
  "drop_count_total bus =
     fold (\<lambda>p total. total + drop_count bus True p + drop_count bus False p) [0, 1, 2, 3] 0"

definition record_queue_latency :: "u64 \<Rightarrow> EventBus \<Rightarrow> EventBus" where
  "record_queue_latency x bus = bus\<lparr>queue_lat := latency_add x (queue_lat bus)\<rparr>"

section \<open>Sequences of calls\<close>

datatype BusOp = OpPush EventRecord | OpPopHi | OpPopLo

datatype BusOut = Pushed bool | Popped "EventRecord option"

fun bus_step :: "BusOp \<Rightarrow> EventBus \<Rightarrow> (BusOut \<times> EventBus) option" where
  "bus_step (OpPush r) bus = map_option (\<lambda>(b, bus'). (Pushed b, bus')) (bus_try_push bus r)"
| "bus_step OpPopHi bus = map_option (\<lambda>(r, bus'). (Popped r, bus')) (bus_try_pop_hi bus)"
| "bus_step OpPopLo bus = map_option (\<lambda>(r, bus'). (Popped r, bus')) (bus_try_pop_lo bus)"

fun bus_run :: "BusOp list \<Rightarrow> EventBus \<Rightarrow> (BusOut list \<times> EventBus) option" where
  "bus_run [] bus = Some ([], bus)"
| "bus_run (c # cs) bus =
     (case bus_step c bus of
        None \<Rightarrow> None
      | Some (r, bus') \<Rightarrow> map_option (\<lambda>(rs, bus''). (r # rs, bus'')) (bus_run cs bus'))"

end
