(* ===== verification/Event_Bus_Correct.thy ===== *)
theory Event_Bus_Correct
  imports Event_Bus "HOL-Library.Multiset"
begin

text \<open>
  What the event bus of \<open>src/src/telemetry/event_bus.cpp\<close> promises: the summary of the latency
  window, the refinement of a pair of bounded lists with drop counters, and the conservation of
  records. The proofs use the queue only through the contract of a bounded queue.
\<close>

section \<open>The sample window\<close>

text \<open>The last \<open>n\<close> elements of a list.\<close>

definition last_n :: "nat \<Rightarrow> 'a list \<Rightarrow> 'a list" where
  "last_n n xs = drop (length xs - n) xs"

lemma last_n_snoc: "0 < n \<Longrightarrow> last_n n (xs @ [x]) = (if length xs < n then last_n n xs @ [x] else tl (last_n n xs) @ [x])"
  by (auto simp: last_n_def Suc_diff_le tl_drop drop_Suc)

lemma length_last_n [simp]: "length (last_n n xs) = min (length xs) n"
  by (simp add: last_n_def)

definition latency_run :: "u64 list \<Rightarrow> LatencyStats" where
  "latency_run xs = fold latency_add xs new_latency"

text \<open>The ring buffer holds the last 1024 samples, from the write index on once it is full.\<close>

definition ring_holds :: "LatencyStats \<Rightarrow> u64 list \<Rightarrow> bool" where
  "ring_holds ls xs \<longleftrightarrow>
     length (samples ls) = kCapacity \<and> lat_idx ls = length xs mod kCapacity \<and>
     lat_count ls = min (length xs) kCapacity \<and>
     (if length xs < kCapacity then take (length xs) (samples ls) = xs
      else drop (lat_idx ls) (samples ls) @ take (lat_idx ls) (samples ls) = last_n kCapacity xs)"

lemma ring_full:
  "ring_holds ls xs \<Longrightarrow> \<not> length xs < kCapacity \<Longrightarrow>
     drop (lat_idx ls) (samples ls) @ take (lat_idx ls) (samples ls) = last_n kCapacity xs"
  unfolding ring_holds_def by (elim conjE) (simp only: if_False)

lemma kCapacity_pos: "0 < kCapacity"
  by (simp add: kCapacity_def)

lemma ring_holds_add:
  assumes "ring_holds ls xs"
  shows "ring_holds (latency_add x ls) (xs @ [x])"
proof -
  let ?C = kCapacity and ?i = "lat_idx ls" and ?s = "samples ls"
  have len: "length ?s = ?C" and i: "?i = length xs mod ?C" "?i < ?C" and cnt: "lat_count ls = min (length xs) ?C"
    using assms kCapacity_pos by (auto simp: ring_holds_def)
  have idx: "(?i + 1) mod ?C = Suc (length xs) mod ?C" by (simp add: i(1) mod_Suc_eq)
  have tk: "take (Suc ?i) (?s[?i := x]) = take ?i ?s @ [x]"
    using i(2) len by (simp add: take_Suc_conv_app_nth)
  show ?thesis
  proof (cases "length xs < ?C")
    case True
    then have xs: "take ?i ?s = xs" and il: "?i = length xs" using assms i by (auto simp: ring_holds_def)
    show ?thesis
    proof (cases "Suc (length xs) < ?C")
      case True
      with xs il tk len idx cnt show ?thesis by (simp add: ring_holds_def latency_add_def)
    next
      case False
      with \<open>length xs < ?C\<close> have C: "Suc (length xs) = ?C" by simp
      then have "?s[?i := x] = xs @ [x]" using tk xs il len by (metis take_all length_list_update order_refl)
      with C len idx cnt show ?thesis by (simp add: ring_holds_def latency_add_def last_n_def)
    qed
  next
    case False
    then have win: "drop ?i ?s @ take ?i ?s = last_n ?C xs" using ring_full [OF assms] by blast
    have "drop (Suc ?i) (?s[?i := x]) @ take (Suc ?i) (?s[?i := x]) = tl (drop ?i ?s @ take ?i ?s) @ [x]"
    proof -
      have "drop (Suc ?i) (?s[?i := x]) = drop (Suc ?i) ?s" by simp
      moreover have "tl (drop ?i ?s @ take ?i ?s) = drop (Suc ?i) ?s @ take ?i ?s"
        using i(2) len by (simp add: tl_append2 tl_drop drop_Suc)
      ultimately show ?thesis using tk by simp
    qed
    also have "\<dots> = last_n ?C (xs @ [x])" using False kCapacity_pos win by (simp add: last_n_snoc)
    finally have step: "drop (Suc ?i) (?s[?i := x]) @ take (Suc ?i) (?s[?i := x]) = last_n ?C (xs @ [x])" .
    have "drop ((?i + 1) mod ?C) (?s[?i := x]) @ take ((?i + 1) mod ?C) (?s[?i := x]) = last_n ?C (xs @ [x])"
    proof (cases "Suc ?i = ?C")
      case True
      with step len show ?thesis by simp
    next
      case False
      with i(2) step show ?thesis by simp
    qed
    with False len idx cnt show ?thesis by (simp add: ring_holds_def latency_add_def)
  qed
qed

lemma ring_holds_run: "ring_holds (latency_run xs) xs"
proof (induction xs rule: rev_induct)
  case Nil
  then show ?case by (simp add: ring_holds_def latency_run_def new_latency_def kCapacity_def)
next
  case (snoc x xs)
  then show ?case using ring_holds_add by (simp add: latency_run_def)
qed

lemma ring_window:
  assumes "ring_holds ls xs"
  shows "mset (take (lat_count ls) (samples ls)) = mset (last_n kCapacity xs)"
proof (cases "length xs < kCapacity")
  case True
  with assms show ?thesis by (simp add: ring_holds_def last_n_def)
next
  case False
  have "mset (last_n kCapacity xs) = mset (drop (lat_idx ls) (samples ls) @ take (lat_idx ls) (samples ls))"
    using ring_full [OF assms False] by simp
  also have "\<dots> = mset (take (lat_idx ls) (samples ls) @ drop (lat_idx ls) (samples ls))"
    by (simp only: mset_append add.commute)
  also have "\<dots> = mset (samples ls)" by simp
  finally show ?thesis using False assms by (simp add: ring_holds_def)
qed

lemma sort_window: "sort (take (lat_count (latency_run xs)) (samples (latency_run xs))) = sort (last_n kCapacity xs)"
  using ring_window [OF ring_holds_run] by (metis mset_sort sorted_sort properties_for_sort)

lemma p95_rank_less: "0 < n \<Longrightarrow> p95_rank n < n"
  unfolding p95_rank_def by linarith

lemma sorted_count_le:
  assumes "sorted xs" and "i < length xs"
  shows "i + 1 \<le> length (filter (\<lambda>x. x \<le> xs ! i) xs)" and "length xs - i \<le> length (filter (\<lambda>x. xs ! i \<le> x) xs)"
proof -
  have "filter (\<lambda>x. x \<le> xs ! i) (take (i + 1) xs) = take (i + 1) xs"
    using assms by (intro filter_True) (auto simp: in_set_conv_nth sorted_nth_mono)
  moreover have "filter (\<lambda>x. x \<le> xs ! i) xs =
      filter (\<lambda>x. x \<le> xs ! i) (take (i + 1) xs) @ filter (\<lambda>x. x \<le> xs ! i) (drop (i + 1) xs)"
    by (metis append_take_drop_id filter_append)
  ultimately show "i + 1 \<le> length (filter (\<lambda>x. x \<le> xs ! i) xs)" using assms(2) by simp
  have "filter (\<lambda>x. xs ! i \<le> x) (drop i xs) = drop i xs"
    using assms by (intro filter_True) (auto simp: in_set_conv_nth sorted_nth_mono)
  moreover have "filter (\<lambda>x. xs ! i \<le> x) xs =
      filter (\<lambda>x. xs ! i \<le> x) (take i xs) @ filter (\<lambda>x. xs ! i \<le> x) (drop i xs)"
    by (metis append_take_drop_id filter_append)
  ultimately show "length xs - i \<le> length (filter (\<lambda>x. xs ! i \<le> x) xs)" by simp
qed

text \<open>
  C13. After any number of samples the summary is that of the last 1024 of them: their number,
  and as percentile a sample of the window that at least \<open>p95_rank + 1\<close> samples do not exceed
  and at least the remaining ones do not fall below. Older samples have no influence.
\<close>

theorem latency_summary_window:
  assumes "xs \<noteq> []"
  defines "w \<equiv> last_n kCapacity xs"
  shows "\<exists>v \<in> set w. valid (summarize (latency_run xs)) \<and> sum_count (summarize (latency_run xs)) = length w \<and>
    p95_us (summarize (latency_run xs)) = v div 1000 \<and>
    p95_rank (length w) + 1 \<le> length (filter (\<lambda>x. x \<le> v) w) \<and>
    length w - p95_rank (length w) \<le> length (filter (\<lambda>x. v \<le> x) w)"
proof -
  let ?n = "length w" and ?b = "sort w"
  have n: "lat_count (latency_run xs) = ?n" using ring_holds_run [of xs] by (simp add: ring_holds_def w_def)
  have pos: "0 < ?n" using assms(1) kCapacity_pos by (simp add: w_def)
  then have rank: "p95_rank ?n < ?n" by (rule p95_rank_less)
  have "summarize (latency_run xs) = \<lparr>sum_count = ?n,
      avg_us = of_nat (unat (fold (\<lambda>x acc. acc + x) ?b 0)) / of_nat ?n / 1000,
      p95_us = (?b ! p95_rank ?n) div 1000, valid = True\<rparr>"
    using pos rank sort_window [of xs] unfolding summarize_def n w_def [symmetric] Let_def
    by (simp add: not_le [symmetric])
  moreover have "?b ! p95_rank ?n \<in> set w" using rank by (metis length_sort nth_mem set_sort)
  moreover have "length (filter P ?b) = length (filter P w)" for P
    by (metis mset_filter mset_sort size_mset)
  ultimately show ?thesis
    using sorted_count_le [of ?b "p95_rank ?n"] rank by (intro bexI [of _ "?b ! p95_rank ?n"]) simp_all
qed

lemma latency_summary_window_witness:
  "\<exists>v \<in> set (last_n kCapacity [3000, 1000, 2000]).
     valid (summarize (latency_run [3000, 1000, 2000])) \<and>
     sum_count (summarize (latency_run [3000, 1000, 2000])) = length (last_n kCapacity [3000, 1000, 2000 :: u64]) \<and>
     p95_us (summarize (latency_run [3000, 1000, 2000])) = v div 1000"
  using latency_summary_window [of "[3000, 1000, 2000]"] by blast

section \<open>Abstract bus\<close>

text \<open>
  What the bus promises: two bounded lists, a count of accepted records and counts of refused
  ones per list and priority.
\<close>

record AbsBus =
  abs_hi :: "EventRecord list"
  abs_lo :: "EventRecord list"
  cap_hi :: nat
  cap_lo :: nat
  abs_drops :: "bool \<Rightarrow> nat \<Rightarrow> nat"
  abs_pushed :: nat

definition count_drop :: "bool \<Rightarrow> u8 \<Rightarrow> AbsBus \<Rightarrow> AbsBus" where
  "count_drop hi prio a = a\<lparr>abs_drops := (abs_drops a)(hi := (abs_drops a hi)(unat prio := abs_drops a hi (unat prio) + 1))\<rparr>"

fun abs_step :: "BusOp \<Rightarrow> AbsBus \<Rightarrow> BusOut \<times> AbsBus" where
  "abs_step (OpPush r) a =
     (if is_hi r
      then (if length (abs_hi a) < cap_hi a
            then (Pushed True, a\<lparr>abs_hi := abs_hi a @ [r], abs_pushed := abs_pushed a + 1\<rparr>)
            else (Pushed False, count_drop True (rec_priority r) a))
      else (if length (abs_lo a) < cap_lo a
            then (Pushed True, a\<lparr>abs_lo := abs_lo a @ [r], abs_pushed := abs_pushed a + 1\<rparr>)
            else (Pushed False, count_drop False (rec_priority r) a)))"
| "abs_step OpPopHi a =
     (case abs_hi a of [] \<Rightarrow> (Popped None, a) | r # rs \<Rightarrow> (Popped (Some r), a\<lparr>abs_hi := rs\<rparr>))"
| "abs_step OpPopLo a =
     (case abs_lo a of [] \<Rightarrow> (Popped None, a) | r # rs \<Rightarrow> (Popped (Some r), a\<lparr>abs_lo := rs\<rparr>))"

fun abs_run :: "BusOp list \<Rightarrow> AbsBus \<Rightarrow> BusOut list \<times> AbsBus" where
  "abs_run [] a = ([], a)"
| "abs_run (c # cs) a =
     (case abs_step c a of (r, a') \<Rightarrow> (case abs_run cs a' of (rs, a'') \<Rightarrow> (r # rs, a'')))"

definition counters_match :: "u64 list \<Rightarrow> (nat \<Rightarrow> nat) \<Rightarrow> bool" where
  "counters_match cs f \<longleftrightarrow> length cs = 4 \<and> (\<forall>p < 4. cs ! p = of_nat (f p))"

lemma counters_match_bump:
  assumes "counters_match cs f"
  shows "counters_match (if prio < 4 then bump cs prio else cs) (f(unat prio := f (unat prio) + 1))"
proof (cases "prio < (4 :: u8)")
  case True
  then have "unat prio < 4" by (simp add: word_less_nat_alt)
  with True assms show ?thesis by (auto simp: counters_match_def bump_def nth_list_update add.commute)
next
  case False
  then have "\<not> unat prio < 4" by (simp add: word_less_nat_alt)
  with False assms show ?thesis by (auto simp: counters_match_def)
qed

definition bus_rel :: "nat \<Rightarrow> EventBus \<Rightarrow> AbsBus \<Rightarrow> bool" where
  "bus_rel n bus a \<longleftrightarrow>
     queue_inv n (bus_hi bus) \<and> queue_inv n (bus_lo bus) \<and>
     queued (bus_hi bus) = abs_hi a \<and> queued (bus_lo bus) = abs_lo a \<and>
     queue_cap (bus_hi bus) = cap_hi a \<and> queue_cap (bus_lo bus) = cap_lo a \<and>
     counters_match (drops_hi bus) (abs_drops a True) \<and> counters_match (drops_lo bus) (abs_drops a False) \<and>
     bus_pushed bus = of_nat (abs_pushed a)"

lemma bus_push_refines:
  assumes "bus_rel (Suc n) bus a"
  shows "\<exists>b bus' a'. bus_try_push bus r = Some (b, bus') \<and> abs_step (OpPush r) a = (Pushed b, a') \<and> bus_rel n bus' a'"
proof (cases "is_hi r")
  case True
  have hi: "queue_inv (Suc n) (bus_hi bus)" and lo: "queue_inv n (bus_lo bus)"
    using assms mpsc.inv_mono [of "Suc n" "bus_lo bus" n] by (auto simp: bus_rel_def)
  from hi show ?thesis
  proof (rule mpsc.push_cases [of n "bus_hi bus" r])
    fix q' assume "try_push (bus_hi bus) r = Some (True, q')" "queue_inv n q'"
      "queued q' = queued (bus_hi bus) @ [r]" "queue_cap q' = queue_cap (bus_hi bus)"
      "length (queued (bus_hi bus)) < queue_cap (bus_hi bus)"
    with True lo assms show ?thesis by (auto simp: bus_try_push_def bus_rel_def Let_def add.commute)
  next
    assume "try_push (bus_hi bus) r = Some (False, bus_hi bus)" "queue_inv n (bus_hi bus)"
      "length (queued (bus_hi bus)) = queue_cap (bus_hi bus)"
    with True lo assms show ?thesis
      using counters_match_bump [of "drops_hi bus" "abs_drops a True" "rec_priority r"]
      by (auto simp: bus_try_push_def bus_rel_def count_drop_def Let_def)
  qed
next
  case False
  have lo: "queue_inv (Suc n) (bus_lo bus)" and hi: "queue_inv n (bus_hi bus)"
    using assms mpsc.inv_mono [of "Suc n" "bus_hi bus" n] by (auto simp: bus_rel_def)
  from lo show ?thesis
  proof (rule mpsc.push_cases [of n "bus_lo bus" r])
    fix q' assume "try_push (bus_lo bus) r = Some (True, q')" "queue_inv n q'"
      "queued q' = queued (bus_lo bus) @ [r]" "queue_cap q' = queue_cap (bus_lo bus)"
      "length (queued (bus_lo bus)) < queue_cap (bus_lo bus)"
    with False hi assms show ?thesis by (auto simp: bus_try_push_def bus_rel_def Let_def add.commute)
  next
    assume "try_push (bus_lo bus) r = Some (False, bus_lo bus)" "queue_inv n (bus_lo bus)"
      "length (queued (bus_lo bus)) = queue_cap (bus_lo bus)"
    with False hi assms show ?thesis
      using counters_match_bump [of "drops_lo bus" "abs_drops a False" "rec_priority r"]
      by (auto simp: bus_try_push_def bus_rel_def count_drop_def Let_def)
  qed
qed

lemma bus_step_refines:
  assumes "bus_rel (Suc n) bus a"
  shows "\<exists>r bus' a'. bus_step c bus = Some (r, bus') \<and> abs_step c a = (r, a') \<and> bus_rel n bus' a'"
proof (cases c)
  case (OpPush r)
  with bus_push_refines [OF assms, of r] show ?thesis by force
next
  case OpPopHi
  have hi: "queue_inv n (bus_hi bus)" and lo: "queue_inv n (bus_lo bus)"
    using assms mpsc.inv_mono [of "Suc n" _ n] by (auto simp: bus_rel_def)
  from hi show ?thesis
    by (rule mpsc.pop_cases) (use OpPopHi hi lo assms in \<open>auto simp: bus_try_pop_hi_def bus_rel_def split: list.split\<close>)
next
  case OpPopLo
  have hi: "queue_inv n (bus_hi bus)" and lo: "queue_inv n (bus_lo bus)"
    using assms mpsc.inv_mono [of "Suc n" _ n] by (auto simp: bus_rel_def)
  from lo show ?thesis
    by (rule mpsc.pop_cases) (use OpPopLo hi lo assms in \<open>auto simp: bus_try_pop_lo_def bus_rel_def split: list.split\<close>)
qed

lemma bus_run_refines:
  "bus_rel (n + length cs) bus a \<Longrightarrow>
     \<exists>bus' a' rs. bus_run cs bus = Some (rs, bus') \<and> abs_run cs a = (rs, a') \<and> bus_rel n bus' a'"
proof (induction cs arbitrary: bus a)
  case (Cons c cs)
  from Cons.prems have "bus_rel (Suc (n + length cs)) bus a" by simp
  from bus_step_refines [OF this] obtain r bus1 a1 where
    1: "bus_step c bus = Some (r, bus1)" "abs_step c a = (r, a1)" "bus_rel (n + length cs) bus1 a1" by blast
  from Cons.IH [OF 1(3)] obtain bus' a' rs where
    "bus_run cs bus1 = Some (rs, bus')" "abs_run cs a1 = (rs, a')" "bus_rel n bus' a'" by blast
  with 1 show ?case by simp
qed simp

definition abs_init :: "nat \<Rightarrow> nat \<Rightarrow> AbsBus" where
  "abs_init ch cl = \<lparr>abs_hi = [], abs_lo = [], cap_hi = ch, cap_lo = cl, abs_drops = (\<lambda>_ _. 0), abs_pushed = 0\<rparr>"

lemma new_bus_rel:
  assumes "2 \<le> hi" and "hi \<le> 2 ^ 62" and "2 \<le> lo" and "lo \<le> 2 ^ 62" and "n < 2 ^ 62"
  shows "\<exists>bus ch cl. new_bus hi lo = Some bus \<and> unat hi \<le> ch \<and> unat lo \<le> cl \<and> bus_rel n bus (abs_init ch cl)"
proof -
  from new_queue_ok [OF assms(1,2,5)] new_queue_ok [OF assms(3,4,5)] obtain qh ql where
    "new_queue hi = Some qh" "queue_inv n qh" "queued qh = []" "unat hi \<le> queue_cap qh"
    "new_queue lo = Some ql" "queue_inv n ql" "queued ql = []" "unat lo \<le> queue_cap ql" by blast
  then show ?thesis
    by (auto simp: new_bus_def bus_rel_def abs_init_def counters_match_def)
qed

text \<open>
  C7. Every call of the bus returns, and any sequence of calls on a fresh bus gives the answers
  and the counters of two bounded first-in first-out lists: records of priority 0 and 1 go
  through the first, the others through the second, a full list refuses a record and counts it.
\<close>

theorem bus_refines_bounded_lists:
  assumes "2 \<le> hi" and "hi \<le> 2 ^ 62" and "2 \<le> lo" and "lo \<le> 2 ^ 62" and "length cs < 2 ^ 62"
  shows "\<exists>bus ch cl bus' a' outs. new_bus hi lo = Some bus \<and> unat hi \<le> ch \<and> unat lo \<le> cl \<and>
    bus_run cs bus = Some (outs, bus') \<and> abs_run cs (abs_init ch cl) = (outs, a') \<and>
    queued (bus_hi bus') = abs_hi a' \<and> queued (bus_lo bus') = abs_lo a' \<and>
    bus_pushed bus' = of_nat (abs_pushed a') \<and>
    (\<forall>h. \<forall>p < 4. drop_count bus' h (int p) = of_nat (abs_drops a' h p))"
proof -
  from new_bus_rel [OF assms] obtain bus ch cl where
    1: "new_bus hi lo = Some bus" "unat hi \<le> ch" "unat lo \<le> cl" "bus_rel (0 + length cs) bus (abs_init ch cl)"
    by auto
  from bus_run_refines [OF 1(4)] obtain bus' a' outs where
    2: "bus_run cs bus = Some (outs, bus')" "abs_run cs (abs_init ch cl) = (outs, a')" "bus_rel 0 bus' a'" by blast
  then have "\<forall>h. \<forall>p < 4. drop_count bus' h (int p) = of_nat (abs_drops a' h p)"
    by (auto simp: bus_rel_def counters_match_def drop_count_def)
  with 1 2 show ?thesis by (auto simp: bus_rel_def)
qed

lemma bus_refines_bounded_lists_witness:
  "\<exists>bus ch cl bus' a' outs. new_bus 8 8 = Some bus \<and> unat (8 :: u64) \<le> ch \<and> unat (8 :: u64) \<le> cl \<and>
    bus_run [OpPush (sample_record 1), OpPopLo, OpPopHi] bus = Some (outs, bus') \<and>
    abs_run [OpPush (sample_record 1), OpPopLo, OpPopHi] (abs_init ch cl) = (outs, a')"
proof -
  have "(8 :: u64) \<le> 2 ^ 62" "(2 :: u64) \<le> 8" by (simp_all add: word_le_nat_alt)
  with bus_refines_bounded_lists [of 8 8 "[OpPush (sample_record 1), OpPopLo, OpPopHi]"]
  show ?thesis by fastforce
qed

section \<open>Conservation\<close>

definition pushes :: "BusOp list \<Rightarrow> EventRecord list" where
  "pushes cs = concat (map (\<lambda>c. case c of OpPush r \<Rightarrow> [r] | _ \<Rightarrow> []) cs)"

definition popped_of :: "BusOut list \<Rightarrow> EventRecord list" where
  "popped_of outs = concat (map (\<lambda>out. case out of Popped (Some r) \<Rightarrow> [r] | _ \<Rightarrow> []) outs)"

definition abs_dropped :: "AbsBus \<Rightarrow> nat" where
  "abs_dropped a = (\<Sum>p<4. abs_drops a True p) + (\<Sum>p<4. abs_drops a False p)"

lemma sum_bump: "p < (4 :: nat) \<Longrightarrow> (\<Sum>i<4. (f(p := f p + 1)) i) = (\<Sum>i<4. f i) + (1 :: nat)"
proof -
  assume p: "p < (4 :: nat)"
  have "(\<Sum>i<4. (f(p := f p + 1)) i) = (\<Sum>i<4. f i + (if i = p then 1 else 0))"
    by (rule sum.cong) auto
  also have "\<dots> = (\<Sum>i<4. f i) + 1" using p by (simp add: sum.distrib)
  finally show ?thesis .
qed

lemma abs_dropped_count: "prio < 4 \<Longrightarrow> abs_dropped (count_drop hi prio a) = abs_dropped a + 1"
proof -
  assume "prio < 4"
  then have "unat prio < 4" by (simp add: word_less_nat_alt)
  from sum_bump [OF this] show ?thesis by (cases hi) (simp_all add: abs_dropped_def count_drop_def)
qed

lemma abs_step_conserves:
  assumes "abs_step c a = (out, a')" and "\<forall>r \<in> set (pushes [c]). rec_priority r < 4"
  shows "abs_pushed a' + abs_dropped a' = abs_pushed a + abs_dropped a + length (pushes [c])"
    and "abs_pushed a' + length (abs_hi a) + length (abs_lo a) =
      abs_pushed a + length (popped_of [out]) + length (abs_hi a') + length (abs_lo a')"
proof -
  show "abs_pushed a' + abs_dropped a' = abs_pushed a + abs_dropped a + length (pushes [c])"
    using assms
  proof (cases c)
    case (OpPush r)
    have other: "abs_dropped (a\<lparr>abs_hi := xs, abs_pushed := m\<rparr>) = abs_dropped a"
      "abs_dropped (a\<lparr>abs_lo := xs, abs_pushed := m\<rparr>) = abs_dropped a" for xs m
      by (simp_all add: abs_dropped_def)
    have "abs_pushed (count_drop hi prio a) = abs_pushed a" for hi prio by (simp add: count_drop_def)
    with OpPush assms other show ?thesis
      by (auto simp: pushes_def abs_dropped_count split: if_splits)
  qed (use assms in \<open>auto simp: pushes_def abs_dropped_def split: list.splits\<close>)
  show "abs_pushed a' + length (abs_hi a) + length (abs_lo a) =
      abs_pushed a + length (popped_of [out]) + length (abs_hi a') + length (abs_lo a')"
    using assms by (cases c) (auto simp: popped_of_def count_drop_def split: if_splits list.splits)
qed

lemma abs_run_conserves:
  assumes "abs_run cs a = (outs, a')" and "\<forall>r \<in> set (pushes cs). rec_priority r < 4"
  shows "abs_pushed a' + abs_dropped a' = abs_pushed a + abs_dropped a + length (pushes cs) \<and>
    abs_pushed a' + length (abs_hi a) + length (abs_lo a) =
      abs_pushed a + length (popped_of outs) + length (abs_hi a') + length (abs_lo a')"
  using assms
proof (induction cs arbitrary: a outs)
  case Nil
  then show ?case by (simp add: pushes_def popped_of_def)
next
  case (Cons c cs)
  from Cons.prems(1) obtain r a1 rs where step: "abs_step c a = (r, a1)" "abs_run cs a1 = (rs, a')" "outs = r # rs"
    by (auto split: prod.splits)
  have app: "pushes (c # cs) = pushes [c] @ pushes cs" "popped_of (r # rs) = popped_of [r] @ popped_of rs"
    by (simp_all add: pushes_def popped_of_def)
  with Cons.prems(2) have "\<forall>r \<in> set (pushes cs). rec_priority r < 4" "\<forall>r \<in> set (pushes [c]). rec_priority r < 4"
    by auto
  with Cons.IH [OF step(2)] abs_step_conserves [OF step(1)] show ?case
    using app step(3) by simp
qed

lemma sum_four: "(\<Sum>x<4. f x) = f 0 + f 1 + f 2 + f (3 :: nat)"
  by (simp add: numeral_eq_Suc)

lemma drop_total_match:
  assumes "counters_match (drops_hi bus) (abs_drops a True)" and "counters_match (drops_lo bus) (abs_drops a False)"
  shows "drop_count_total bus = of_nat (abs_dropped a)"
  using assms
  by (simp add: drop_count_total_def drop_count_def counters_match_def abs_dropped_def sum_four add_ac)

text \<open>
  No record disappears unaccounted: after any calls on a fresh bus whose records carry one
  of the four priorities, accepted plus counted drops is the number of pushes, and accepted is
  what was popped plus what the two queues still hold.
\<close>

theorem bus_conservation:
  assumes "2 \<le> hi" and "hi \<le> 2 ^ 62" and "2 \<le> lo" and "lo \<le> 2 ^ 62" and "length cs < 2 ^ 62"
    and "\<forall>r \<in> set (pushes cs). rec_priority r < 4"
  shows "\<exists>bus bus' outs. new_bus hi lo = Some bus \<and> bus_run cs bus = Some (outs, bus') \<and>
    bus_pushed bus' + drop_count_total bus' = of_nat (length (pushes cs)) \<and>
    bus_pushed bus' = of_nat (length (popped_of outs) + length (queued (bus_hi bus')) + length (queued (bus_lo bus')))"
proof -
  from new_bus_rel [OF assms(1-5)] obtain bus ch cl where
    1: "new_bus hi lo = Some bus" "bus_rel (0 + length cs) bus (abs_init ch cl)" by auto
  from bus_run_refines [OF 1(2)] obtain bus' a' outs where
    2: "bus_run cs bus = Some (outs, bus')" "abs_run cs (abs_init ch cl) = (outs, a')" "bus_rel 0 bus' a'" by blast
  from abs_run_conserves [OF 2(2) assms(6)]
  have cons: "abs_pushed a' + abs_dropped a' = length (pushes cs)"
    "abs_pushed a' = length (popped_of outs) + length (abs_hi a') + length (abs_lo a')"
    by (simp_all add: abs_init_def abs_dropped_def)
  have "bus_pushed bus' + drop_count_total bus' = of_nat (abs_pushed a' + abs_dropped a')"
    using 2(3) drop_total_match [of bus' a'] by (simp add: bus_rel_def)
  with cons 1 2 show ?thesis by (auto simp: bus_rel_def)
qed

lemma bus_conservation_witness:
  "\<exists>bus bus' outs. new_bus 8 8 = Some bus \<and>
    bus_run [OpPush (sample_record 1), OpPush (sample_record 2), OpPopHi] bus = Some (outs, bus') \<and>
    bus_pushed bus' + drop_count_total bus' = 2"
proof -
  have "(8 :: u64) \<le> 2 ^ 62" "(2 :: u64) \<le> 8" by (simp_all add: word_le_nat_alt)
  moreover have "rec_priority (sample_record n) < 4" for n
    by (simp add: sample_record_def zero_record_def)
  ultimately show ?thesis
    using bus_conservation [of 8 8 "[OpPush (sample_record 1), OpPush (sample_record 2), OpPopHi]"]
    by (fastforce simp: pushes_def)
qed

text \<open>
  Priorities come from categories: every category is mapped below 4, so that refused
  records are always counted, and exactly network and name-service events use the second queue.
\<close>

theorem category_priority_counted:
  "category_priority cat < 4 \<and>
   (\<not> category_priority cat \<le> PRIO_CTRL \<longleftrightarrow> cat = CAT_NETWORK \<or> cat = CAT_DNS)"
  by (auto simp: category_priority_def prio_defs cat_defs word_le_nat_alt)

end
