(* ===== verification/Proc_Fs.thy ===== *)
theory Proc_Fs
  imports Event_Record
begin

text \<open>
  What the program reads about a process under \<open>/proc\<close>: the parsers of \<open>stat\<close> and \<open>status\<close> of
  the process tree (\<open>src/src/telemetry/process_tree.cpp\<close>), the parser of \<open>stat\<close> of the
  whitelist (\<open>src/src/baseline/whitelist.cpp\<close>), and \<open>container_id_of\<close> and \<open>exe_path_of\<close>
  (\<open>src/src/common/container.cpp\<close>). The contents of the files are a parameter: \<open>None\<close> is a
  file that cannot be opened or read. The texts are C++ strings unless a C buffer is used,
  which ends at the first NUL.
\<close>

section \<open>The file system\<close>

record ProcFs =
  fs_stat :: "int \<Rightarrow> string option"
  fs_status :: "int \<Rightarrow> string list option"
  fs_cgroup :: "int \<Rightarrow> string option"
  fs_exe :: "int \<Rightarrow> string option"
  fs_hz :: int

definition clk_tck :: "ProcFs \<Rightarrow> u64" where
  "clk_tck fs = (if fs_hz fs > 0 then word_of_int (fs_hz fs) else 100)"

text \<open>\<open>static_cast<int>\<close> of an \<open>unsigned int\<close>.\<close>

definition int_of_u32 :: "u32 \<Rightarrow> int" where
  "int_of_u32 w = sint w"

section \<open>Reading numbers and words\<close>

text \<open>\<open>in >> x\<close> for a \<open>long long\<close> and for a \<open>string\<close>: the value and the text that is left, or
  \<open>None\<close> when the stream fails.\<close>

definition read_llong :: "string \<Rightarrow> (int \<times> string) option" where
  "read_llong s =
     (let s1 = dropWhile c_isspace s;
          neg = (s1 \<noteq> [] \<and> hd s1 = CHR ''-'');
          s2 = (if s1 \<noteq> [] \<and> (hd s1 = CHR ''-'' \<or> hd s1 = CHR ''+'') then tl s1 else s1);
          ds = takeWhile c_isdigit s2;
          v = (if neg then - int (nat_of_dec ds) else int (nat_of_dec ds))
      in if ds = [] \<or> \<not> in_llong v then None else Some (v, dropWhile c_isdigit s2))"

definition read_word :: "string \<Rightarrow> (string \<times> string) option" where
  "read_word s =
     (let s1 = dropWhile c_isspace s; w = takeWhile (\<lambda>c. \<not> c_isspace c) s1
      in if w = [] then None else Some (w, dropWhile (\<lambda>c. \<not> c_isspace c) s1))"

fun skip_llongs :: "nat \<Rightarrow> string \<Rightarrow> string option" where
  "skip_llongs 0 s = Some s"
| "skip_llongs (Suc n) s = (case read_llong s of None \<Rightarrow> None | Some (_, r) \<Rightarrow> skip_llongs n r)"

section \<open>The parser of the process tree\<close>

definition find_char :: "char \<Rightarrow> string \<Rightarrow> nat option" where
  "find_char c s = (if c \<in> set s then Some (length (takeWhile (\<lambda>x. x \<noteq> c) s)) else None)"

definition rfind_char :: "char \<Rightarrow> string \<Rightarrow> nat option" where
  "rfind_char c s =
     (if c \<in> set s then Some (length s - 1 - length (takeWhile (\<lambda>x. x \<noteq> c) (rev s))) else None)"

record ProcStat =
  ps_comm :: string
  ps_ppid :: u32
  ps_start_ns :: u64

definition parse_stat_text :: "u64 \<Rightarrow> string \<Rightarrow> ProcStat option" where
  "parse_stat_text hz content =
     (case find_char (CHR ''('') content of
        None \<Rightarrow> None
      | Some lparen \<Rightarrow>
     (case rfind_char (CHR '')'') content of
        None \<Rightarrow> None
      | Some rparen \<Rightarrow>
         if rparen < lparen then None
         else (case read_word (drop (rparen + 1) content) of
                 None \<Rightarrow> None
               | Some (state, r1) \<Rightarrow>
              (case read_llong r1 of
                 None \<Rightarrow> None
               | Some (ppid_raw, r2) \<Rightarrow>
              (case skip_llongs 17 r2 of
                 None \<Rightarrow> None
               | Some r3 \<Rightarrow>
              (case read_llong r3 of
                 None \<Rightarrow> None
               | Some (start_ticks, _) \<Rightarrow>
                   Some \<lparr>ps_comm = take (rparen - lparen - 1) (drop (lparen + 1) content),
                     ps_ppid = word_of_int ppid_raw,
                     ps_start_ns = word_of_int start_ticks * 1000000000 div hz\<rparr>))))))"

definition read_proc_stat :: "ProcFs \<Rightarrow> int \<Rightarrow> ProcStat option" where
  "read_proc_stat fs pid =
     (case fs_stat fs pid of None \<Rightarrow> None | Some content \<Rightarrow> parse_stat_text (clk_tck fs) content)"

text \<open>\<open>iss >> key >> value\<close> with an \<open>unsigned long\<close>: 0 when it fails, the greatest value when
  the number does not fit, and the negated value after a minus sign.\<close>

definition read_ulong :: "string \<Rightarrow> u64" where
  "read_ulong s =
     (let s1 = dropWhile c_isspace s;
          neg = (s1 \<noteq> [] \<and> hd s1 = CHR ''-'');
          s2 = (if s1 \<noteq> [] \<and> (hd s1 = CHR ''-'' \<or> hd s1 = CHR ''+'') then tl s1 else s1);
          ds = takeWhile c_isdigit s2;
          n = nat_of_dec ds
      in if ds = [] then 0 else if n \<ge> 2 ^ 64 then - 1 else if neg then - of_nat n else of_nat n)"

definition status_value :: "string \<Rightarrow> u32" where
  "status_value line = (case read_word line of None \<Rightarrow> 0 | Some (_, r) \<Rightarrow> ucast (read_ulong r))"

text \<open>The loop over the lines; the accumulators are the identities found so far.\<close>

fun scan_status :: "string list \<Rightarrow> u32 option \<Rightarrow> u32 option \<Rightarrow> u32 option \<times> u32 option" where
  "scan_status [] uid gid = (uid, gid)"
| "scan_status (l # ls) uid gid =
     (let uid = (if starts_with ''Uid:'' l then Some (status_value l) else uid);
          gid = (if \<not> starts_with ''Uid:'' l \<and> starts_with ''Gid:'' l then Some (status_value l) else gid)
      in if uid \<noteq> None \<and> gid \<noteq> None then (uid, gid) else scan_status ls uid gid)"

text \<open>The identities; a missing one stays 0. \<open>None\<close> is the result \<open>false\<close>.\<close>

definition read_proc_status_ids :: "ProcFs \<Rightarrow> int \<Rightarrow> (u32 \<times> u32) option" where
  "read_proc_status_ids fs pid =
     (case fs_status fs pid of
        None \<Rightarrow> None
      | Some ls \<Rightarrow>
         (case scan_status ls None None of
            (None, None) \<Rightarrow> None
          | (uid, gid) \<Rightarrow> Some (case_option 0 id uid, case_option 0 id gid)))"

section \<open>The parser of the whitelist\<close>

record ProcStatInfo =
  psi_ppid :: int
  psi_start_time :: u64

text \<open>\<open>strtol\<close> to a \<open>long\<close> and \<open>strtoull\<close>, base 10.\<close>

definition strtol_10 :: "string \<Rightarrow> int" where
  "strtol_10 s =
     (let s1 = dropWhile c_isspace s;
          neg = (s1 \<noteq> [] \<and> hd s1 = CHR ''-'');
          s2 = (if s1 \<noteq> [] \<and> (hd s1 = CHR ''-'' \<or> hd s1 = CHR ''+'') then tl s1 else s1);
          n = int (nat_of_dec (takeWhile c_isdigit s2))
      in if neg then max (- n) (- LLONG_MAX - 1) else min n LLONG_MAX)"

definition is_blank :: "char \<Rightarrow> bool" where
  "is_blank c \<longleftrightarrow> c = CHR '' '' \<or> c = CHR 0x09"

definition is_token_char :: "char \<Rightarrow> bool" where
  "is_token_char c \<longleftrightarrow> \<not> is_blank c \<and> c \<noteq> CHR 0x0A"

text \<open>The tokens of the rest of the line, at most \<open>n\<close> of them. The text of a token is the text
  from its first character on, as \<open>strtol\<close> gets it.\<close>

fun stat_tokens :: "nat \<Rightarrow> string \<Rightarrow> string list" where
  "stat_tokens 0 p = []"
| "stat_tokens (Suc n) p =
     (let p1 = dropWhile is_blank p
      in if p1 = [] \<or> hd p1 = CHR 0x0A then []
         else p1 # stat_tokens n (dropWhile is_token_char p1))"

definition parse_stat_buffer :: "string \<Rightarrow> ProcStatInfo option" where
  "parse_stat_buffer content =
     (let buf = c_str (take 4095 content)
      in if content = [] then None
         else (case rfind_char (CHR '')'') buf of
                 None \<Rightarrow> None
               | Some rp \<Rightarrow>
                  (let toks = stat_tokens 20 (drop (rp + 1) buf)
                   in if length toks < 20 then None
                      else Some \<lparr>psi_ppid = sint (word_of_int (strtol_10 (toks ! 1)) :: u32),
                        psi_start_time = read_ulong (toks ! 19)\<rparr>)))"

definition parse_proc_stat :: "ProcFs \<Rightarrow> int \<Rightarrow> ProcStatInfo option" where
  "parse_proc_stat fs pid =
     (case fs_stat fs pid of None \<Rightarrow> None | Some content \<Rightarrow> parse_stat_buffer content)"

section \<open>Container and executable\<close>

text \<open>\<open>fgets\<close> into a buffer of 512: at most 511 characters, up to and with a newline.\<close>

fun fgets_chunks :: "nat \<Rightarrow> string \<Rightarrow> string list" where
  "fgets_chunks 0 s = []"
| "fgets_chunks (Suc fuel) s =
     (if s = [] then []
      else (let t = take 511 s;
                n = (if CHR 0x0A \<in> set t then length (takeWhile (\<lambda>c. c \<noteq> CHR 0x0A) t) + 1 else length t)
            in take n s # fgets_chunks fuel (drop n s)))"

definition id_char :: "char \<Rightarrow> bool" where
  "id_char c \<longleftrightarrow> c_isdigit c \<or> (97 \<le> char_code c \<and> char_code c \<le> 102)"

definition container_marks :: "string list" where
  "container_marks = [''docker-'', ''cri-containerd-'', ''crio-'', ''docker/'']"

definition id_after_mark :: "string \<Rightarrow> string \<Rightarrow> string option" where
  "id_after_mark line mark =
     (case str_find mark line of
        None \<Rightarrow> None
      | Some i \<Rightarrow>
         (let p = drop (i + length mark) line; n = length (takeWhile id_char (take 64 p))
          in if n \<ge> 12 then Some (take 12 p) else None))"

fun first_some :: "('a \<Rightarrow> 'b option) \<Rightarrow> 'a list \<Rightarrow> 'b option" where
  "first_some f [] = None"
| "first_some f (x # xs) = (case f x of Some y \<Rightarrow> Some y | None \<Rightarrow> first_some f xs)"

definition id_in_line :: "string \<Rightarrow> string option" where
  "id_in_line line = first_some (id_after_mark (c_str line)) container_marks"

definition container_id_of :: "ProcFs \<Rightarrow> int \<Rightarrow> string" where
  "container_id_of fs pid =
     (if pid \<le> 0 then []
      else (case fs_cgroup fs pid of
              None \<Rightarrow> []
            | Some content \<Rightarrow>
               (case first_some id_in_line (fgets_chunks (length content) content) of
                  None \<Rightarrow> [] | Some cid \<Rightarrow> cid)))"

definition exe_path_of :: "ProcFs \<Rightarrow> int \<Rightarrow> string" where
  "exe_path_of fs pid =
     (if pid \<le> 0 then []
      else (case fs_exe fs pid of
              None \<Rightarrow> []
            | Some target \<Rightarrow> c_str (take 4095 target)))"

end
