(* ===== verification/Lru.thy ===== *)
theory Lru
  imports Prelude
begin

text \<open>
  The recency list that the process tree and the whitelist cache share: a bounded map whose
  keys are ordered by their last use, from which the least recently used keys are dropped.
  The contract is a locale; both components interpret it.
\<close>

section \<open>Recency lists\<close>

text \<open>\<open>lru.splice(lru.begin(), lru, it)\<close> for the position of \<open>k\<close>.\<close>

definition to_front :: "'k \<Rightarrow> 'k list \<Rightarrow> 'k list" where
  "to_front k ks = k # remove1 k ks"

lemma set_to_front: "distinct ks \<Longrightarrow> set (to_front k ks) = insert k (set ks)"
  by (auto simp: to_front_def)

lemma distinct_to_front: "distinct ks \<Longrightarrow> distinct (to_front k ks)"
  by (simp add: to_front_def)

lemma length_to_front: "k \<in> set ks \<Longrightarrow> length (to_front k ks) = length ks"
  using length_pos_if_in_set [of k ks] by (simp add: to_front_def length_remove1)

lemma remove1_split: "k \<noteq> j \<Longrightarrow> distinct (xs @ k # ys) \<Longrightarrow>
    remove1 j (xs @ k # ys) = (if j \<in> set xs then remove1 j xs @ k # ys else xs @ k # remove1 j ys)"
  by (auto simp: remove1_append)

section \<open>The contract\<close>

locale lru_map =
  fixes inv :: "'s \<Rightarrow> bool" and recent :: "'s \<Rightarrow> 'k list" and lookup :: "'s \<Rightarrow> 'k \<Rightarrow> 'v option"
    and put :: "'k \<Rightarrow> 'v \<Rightarrow> 's \<Rightarrow> 's" and cap :: nat
  assumes cap_pos: "0 < cap"
    and recent_distinct: "inv s \<Longrightarrow> distinct (recent s)"
    and recent_bound: "inv s \<Longrightarrow> length (recent s) \<le> cap"
    and lookup_dom: "inv s \<Longrightarrow> lookup s k \<noteq> None \<longleftrightarrow> k \<in> set (recent s)"
    and put_inv: "inv s \<Longrightarrow> inv (put k v s)"
    and put_recent: "inv s \<Longrightarrow> recent (put k v s) = take cap (to_front k (recent s))"
    and put_lookup: "inv s \<Longrightarrow> lookup (put k v s) j =
      (if j = k then Some v else if j \<in> set (recent (put k v s)) then lookup s j else None)"
begin

lemma put_get: "inv s \<Longrightarrow> lookup (put k v s) k = Some v"
  by (simp add: put_lookup)

lemma puts_inv: "inv s \<Longrightarrow> inv (fold (\<lambda>(k, v). put k v) kvs s)"
  by (induction kvs arbitrary: s) (auto simp: put_inv)

text \<open>An entry below full capacity, or already present, displaces nothing.\<close>

lemma put_keeps:
  assumes "inv s" and "length (recent s) < cap \<or> k \<in> set (recent s)" and "j \<noteq> k"
  shows "lookup (put k v s) j = lookup s j"
proof -
  have "length (to_front k (recent s)) \<le> cap"
    using assms(2) recent_bound [OF assms(1)] length_to_front [of k "recent s"]
    by (auto simp: to_front_def length_remove1)
  then have "recent (put k v s) = to_front k (recent s)" by (simp add: put_recent [OF assms(1)])
  then have "j \<in> set (recent (put k v s)) \<longleftrightarrow> j \<in> set (recent s)"
    using assms(3) set_to_front [OF recent_distinct [OF assms(1)]] by simp
  with assms lookup_dom [OF assms(1), of j] put_lookup [OF assms(1)] show ?thesis by auto
qed

text \<open>At capacity a new key displaces the least recently used one and no other.\<close>

lemma put_evicts:
  assumes "inv s" and "length (recent s) = cap" and "k \<notin> set (recent s)" and "j \<noteq> k"
  shows "lookup (put k v s) j = (if j = last (recent s) then None else lookup s j)"
proof -
  have ne: "recent s \<noteq> []" using assms(2) cap_pos by auto
  have "recent (put k v s) = k # butlast (recent s)"
    using assms ne by (cases cap) (simp_all add: put_recent to_front_def remove1_idem butlast_conv_take)
  moreover have "set (recent s) = insert (last (recent s)) (set (butlast (recent s)))"
    by (metis append_butlast_last_id ne set_append list.simps(15) Un_insert_right sup_bot.right_neutral empty_set)
  moreover have "last (recent s) \<notin> set (butlast (recent s))"
    using recent_distinct [OF assms(1)] ne by (metis append_butlast_last_id distinct_append disjoint_iff list.set_intros(1))
  ultimately show ?thesis
    using put_lookup [OF assms(1), of k v j] lookup_dom [OF assms(1), of j] assms(4) by auto
qed

lemma put_position:
  assumes inv: "inv s" and pos: "recent s = xs @ k # ys" and jk: "j \<noteq> k"
    and room: "card (insert j (set xs)) < cap"
  shows "\<exists>xs' ys'. recent (put j v s) = xs' @ k # ys' \<and> set xs' = insert j (set xs)"
proof -
  have d: "distinct (xs @ k # ys)" using recent_distinct [OF inv] pos by simp
  let ?xs = "if j \<in> set xs then j # remove1 j xs else j # xs"
  let ?ys = "if j \<in> set xs then ys else remove1 j ys"
  have xs: "set ?xs = insert j (set xs)" "distinct ?xs" using d by auto
  then have "length ?xs < cap" using room by (metis distinct_card)
  moreover have "to_front j (recent s) = ?xs @ k # ?ys"
    using remove1_split [OF jk [symmetric] d] by (simp add: to_front_def pos)
  ultimately have "recent (put j v s) = ?xs @ k # take (cap - length ?xs - 1) ?ys"
    using put_recent [OF inv] by (cases "cap - length ?xs") auto
  with xs show ?thesis by blast
qed

text \<open>An entry survives as long as fewer than \<open>cap\<close> other keys are used after it.\<close>

lemma puts_keep:
  assumes "inv s" and "recent s = xs @ k # ys" and "k \<notin> set (map fst kvs)"
    and "card (set xs \<union> set (map fst kvs)) < cap"
  shows "lookup (fold (\<lambda>(k, v). put k v) kvs s) k = lookup s k"
  using assms
proof (induction kvs arbitrary: s xs ys)
  case (Cons p kvs)
  obtain j v where p: "p = (j, v)" by fastforce
  have jk: "j \<noteq> k" using Cons.prems(3) p by auto
  have "card (insert j (set xs)) \<le> card (set xs \<union> set (map fst (p # kvs)))"
    by (intro card_mono) (auto simp: p)
  with Cons.prems(4) have "card (insert j (set xs)) < cap" by simp
  from put_position [OF Cons.prems(1,2) jk this] obtain xs' ys' where
    s': "recent (put j v s) = xs' @ k # ys'" "set xs' = insert j (set xs)" by blast
  have "card (set xs' \<union> set (map fst kvs)) < cap" using Cons.prems(4) s'(2) p by simp
  from Cons.IH [OF put_inv [OF Cons.prems(1)] s'(1) _ this] Cons.prems(3)
  have "lookup (fold (\<lambda>(k, v). put k v) kvs (put j v s)) k = lookup (put j v s) k" by simp
  also have "\<dots> = lookup s k" using put_lookup [OF Cons.prems(1), of j v k] jk s'(1) by simp
  finally show ?case by (simp add: p)
qed simp

lemma recently_used_kept:
  assumes "inv s" and "k \<notin> set (map fst kvs)" and "card (set (map fst kvs)) < cap"
  shows "lookup (fold (\<lambda>(k, v). put k v) kvs (put k v s)) k = Some v"
proof -
  have "recent (put k v s) = [] @ k # take (cap - 1) (remove1 k (recent s))"
    using put_recent [OF assms(1)] cap_pos by (cases cap) (simp_all add: to_front_def)
  from puts_keep [OF put_inv [OF assms(1)] this assms(2)] assms(3)
  show ?thesis by (simp add: put_get [OF assms(1)])
qed

end

end
