(* ===== verification/Process_Tree.thy ===== *)
theory Process_Tree
  imports Proc_Fs Lru "HOL-Library.AList"
begin

text \<open>
  The process tree (\<open>src/src/telemetry/process_tree.hpp\<close> and \<open>.cpp\<close>) and the ancestor chain
  built on it (\<open>src/src/telemetry/enricher.cpp\<close>). \<open>nodes_\<close> is an association list with
  distinct keys. An iterator of \<open>lru_pos_\<close> stands for the occurrence of its key in the list,
  so \<open>lru_pos_\<close> is kept as the list of its keys. The clock and the file system are arguments.
\<close>

section \<open>Events and nodes\<close>

definition PROC_KIND_FORK :: u8 where "PROC_KIND_FORK = 1"
definition PROC_KIND_EXEC :: u8 where "PROC_KIND_EXEC = 2"
definition PROC_KIND_EXIT :: u8 where "PROC_KIND_EXIT = 3"

lemmas proc_kind_defs = PROC_KIND_FORK_def PROC_KIND_EXEC_def PROC_KIND_EXIT_def

record proc_event =
  pe_ts_ns :: u64
  pe_pid :: u32
  pe_ppid :: u32
  pe_uid :: u32
  pe_gid :: u32
  pe_start_time :: u64
  pe_kind :: u8
  pe_comm :: string
  pe_exe :: string

record ProcNode =
  node_pid :: u32
  node_ppid :: u32
  node_start_time :: u64
  node_comm :: string
  node_exe :: string
  node_uid :: u32
  node_gid :: u32
  node_container_id :: string
  node_exited :: bool
  node_exit_time_ms :: u64

definition empty_node :: ProcNode where
  "empty_node = \<lparr>node_pid = 0, node_ppid = 0, node_start_time = 0, node_comm = replicate 16 NUL,
     node_exe = replicate 256 NUL, node_uid = 0, node_gid = 0, node_container_id = replicate 13 NUL,
     node_exited = False, node_exit_time_ms = 0\<rparr>"

text \<open>The guarded copies \<open>if (!s.empty()) record_set_str(...)\<close>; \<open>c_str()\<close> and \<open>size()\<close> pass the
  whole string.\<close>

definition set_exe :: "string \<Rightarrow> ProcNode \<Rightarrow> ProcNode" where
  "set_exe s n = n\<lparr>node_exe := record_set_str (node_exe n) s\<rparr>"

definition set_comm :: "string \<Rightarrow> ProcNode \<Rightarrow> ProcNode" where
  "set_comm s n = n\<lparr>node_comm := record_set_str (node_comm n) s\<rparr>"

definition set_cid :: "string \<Rightarrow> ProcNode \<Rightarrow> ProcNode" where
  "set_cid s n = n\<lparr>node_container_id := record_set_str (node_container_id n) s\<rparr>"

section \<open>The tree\<close>

definition kMaxNodes :: nat where "kMaxNodes = 100000"

definition kTombstoneMs :: u64 where "kTombstoneMs = 60000"

record ProcessTree =
  nodes :: "(u32 \<times> ProcNode) list"
  lru :: "u32 list"
  lru_pos :: "u32 list"

definition empty_tree :: ProcessTree where
  "empty_tree = \<lparr>nodes = [], lru = [], lru_pos = []\<rparr>"

definition find_node :: "ProcessTree \<Rightarrow> u32 \<Rightarrow> ProcNode option" where
  "find_node t pid = map_of (nodes t) pid"

definition find_version :: "ProcessTree \<Rightarrow> u32 \<Rightarrow> u64 \<Rightarrow> ProcNode option" where
  "find_version t pid start_time =
     (case find_node t pid of
        None \<Rightarrow> None
      | Some node \<Rightarrow> if start_time \<noteq> 0 \<and> node_start_time node \<noteq> start_time then None else Some node)"

definition touch_lru :: "u32 \<Rightarrow> ProcessTree \<Rightarrow> ProcessTree" where
  "touch_lru pid t = (if pid \<in> set (lru_pos t) then t\<lparr>lru := to_front pid (lru t)\<rparr> else t)"

text \<open>The loop that enforces the capacity. On an empty recency list \<open>back()\<close> is undefined
  behaviour; the model stops there, and the invariant rules it out.\<close>

function evict :: "ProcessTree \<Rightarrow> ProcessTree" where
  "evict t =
     (if length (nodes t) \<le> kMaxNodes \<or> lru t = [] then t
      else (let victim = last (lru t)
            in evict (t\<lparr>nodes := AList.delete victim (nodes t), lru := butlast (lru t),
                 lru_pos := removeAll victim (lru_pos t)\<rparr>)))"
  by pat_completeness auto
termination by (relation "measure (\<lambda>t. length (lru t))") auto

declare evict.simps [simp del]

text \<open>\<open>upsert\<close> for a node that is stored under the key \<open>pid\<close>.\<close>

definition upsert_at :: "u32 \<Rightarrow> ProcNode \<Rightarrow> ProcessTree \<Rightarrow> ProcessTree" where
  "upsert_at pid node t =
     (if map_of (nodes t) pid \<noteq> None
      then touch_lru pid (t\<lparr>nodes := AList.update pid node (nodes t)\<rparr>)
      else evict (t\<lparr>nodes := AList.update pid node (nodes t), lru := pid # lru t,
             lru_pos := List.insert pid (lru_pos t)\<rparr>))"

definition upsert :: "ProcNode \<Rightarrow> ProcessTree \<Rightarrow> ProcessTree" where
  "upsert node t = upsert_at (node_pid node) node t"

section \<open>Bootstrap and events\<close>

text \<open>One numbered directory of \<open>/proc\<close>.\<close>

definition bootstrap_node :: "ProcFs \<Rightarrow> int \<Rightarrow> ProcNode" where
  "bootstrap_node fs pid =
     (let node = empty_node\<lparr>node_pid := word_of_int pid\<rparr>;
          node = (case read_proc_stat fs pid of
                    None \<Rightarrow> node
                  | Some ps \<Rightarrow>
                     (let node = node\<lparr>node_ppid := ps_ppid ps, node_start_time := ps_start_ns ps\<rparr>
                      in if ps_comm ps \<noteq> [] then set_comm (ps_comm ps) node else node));
          exe = exe_path_of fs pid;
          node = (if exe \<noteq> [] then set_exe exe node else node);
          node = (case read_proc_status_ids fs pid of
                    None \<Rightarrow> node
                  | Some (uid, gid) \<Rightarrow> node\<lparr>node_uid := uid, node_gid := gid\<rparr>);
          cid = container_id_of fs pid
      in if cid \<noteq> [] then set_cid cid node else node)"

text \<open>The entries \<open>readdir\<close> returns are an argument, as the pids \<open>atoi\<close> reads from them.\<close>

definition bootstrap :: "ProcFs \<Rightarrow> int list \<Rightarrow> ProcessTree \<Rightarrow> ProcessTree" where
  "bootstrap fs pids t =
     fold (\<lambda>pid t. if pid \<le> 0 then t else upsert (bootstrap_node fs pid) t) pids t"

definition fork_node :: "ProcFs \<Rightarrow> proc_event \<Rightarrow> ProcNode" where
  "fork_node fs pe =
     (let node = set_comm (c_str (pe_comm pe)) (empty_node\<lparr>node_pid := pe_pid pe,
            node_ppid := pe_ppid pe, node_uid := pe_uid pe, node_gid := pe_gid pe\<rparr>);
          node = (case read_proc_stat fs (int_of_u32 (pe_pid pe)) of
                    None \<Rightarrow> node | Some ps \<Rightarrow> node\<lparr>node_start_time := ps_start_ns ps\<rparr>);
          exe = exe_path_of fs (int_of_u32 (pe_pid pe))
      in if exe \<noteq> [] then set_exe exe node else node)"

definition apply_fork :: "ProcFs \<Rightarrow> proc_event \<Rightarrow> ProcessTree \<Rightarrow> ProcessTree" where
  "apply_fork fs pe t = upsert (fork_node fs pe) t"

definition exec_new_node :: "ProcFs \<Rightarrow> proc_event \<Rightarrow> ProcNode" where
  "exec_new_node fs pe =
     (let node = set_comm (c_str (pe_comm pe)) (empty_node\<lparr>node_pid := pe_pid pe,
            node_ppid := pe_ppid pe, node_uid := pe_uid pe, node_gid := pe_gid pe,
            node_start_time := pe_start_time pe\<rparr>);
          exe = exe_path_of fs (int_of_u32 (pe_pid pe));
          node = (if exe \<noteq> [] then set_exe exe node else set_exe (c_str (pe_exe pe)) node);
          cid = container_id_of fs (int_of_u32 (pe_pid pe))
      in if cid \<noteq> [] then set_cid cid node else node)"

definition exec_known_node :: "ProcFs \<Rightarrow> proc_event \<Rightarrow> ProcNode \<Rightarrow> ProcNode" where
  "exec_known_node fs pe node =
     (let node = (if pe_start_time pe \<noteq> 0 \<and> node_start_time node \<noteq> 0 \<and>
                     pe_start_time pe \<noteq> node_start_time node
                  then node\<lparr>node_start_time := pe_start_time pe, node_exited := False, node_exit_time_ms := 0\<rparr>
                  else node);
          node = set_comm (c_str (pe_comm pe)) (node\<lparr>node_uid := pe_uid pe, node_gid := pe_gid pe\<rparr>);
          exe = exe_path_of fs (int_of_u32 (pe_pid pe));
          node = (if exe \<noteq> [] then set_exe exe node
                  else if c_str (pe_exe pe) \<noteq> [] then set_exe (c_str (pe_exe pe)) node else node);
          cid = container_id_of fs (int_of_u32 (pe_pid pe));
          node = (if cid \<noteq> [] then set_cid cid node
                  else node\<lparr>node_container_id := (node_container_id node)[0 := NUL]\<rparr>);
          node = (if pe_start_time pe \<noteq> 0 then node\<lparr>node_start_time := pe_start_time pe\<rparr> else node)
      in node\<lparr>node_exited := False\<rparr>)"

definition apply_exec :: "ProcFs \<Rightarrow> proc_event \<Rightarrow> ProcessTree \<Rightarrow> ProcessTree" where
  "apply_exec fs pe t =
     (case map_of (nodes t) (pe_pid pe) of
        None \<Rightarrow> upsert (exec_new_node fs pe) t
      | Some node \<Rightarrow>
          touch_lru (pe_pid pe)
            (t\<lparr>nodes := AList.update (pe_pid pe) (exec_known_node fs pe node) (nodes t)\<rparr>))"

definition apply_exit :: "u64 \<Rightarrow> proc_event \<Rightarrow> ProcessTree \<Rightarrow> ProcessTree" where
  "apply_exit now pe t =
     (case map_of (nodes t) (pe_pid pe) of
        Some node \<Rightarrow>
          touch_lru (pe_pid pe) (t\<lparr>nodes := AList.update (pe_pid pe)
            (node\<lparr>node_exited := True, node_exit_time_ms := now\<rparr>) (nodes t)\<rparr>)
      | None \<Rightarrow>
          upsert (set_comm (c_str (pe_comm pe)) (empty_node\<lparr>node_pid := pe_pid pe,
            node_ppid := pe_ppid pe, node_uid := pe_uid pe, node_gid := pe_gid pe,
            node_start_time := pe_start_time pe\<rparr>)\<lparr>node_exited := True, node_exit_time_ms := now\<rparr>) t)"

definition apply_event :: "ProcFs \<Rightarrow> u64 \<Rightarrow> proc_event \<Rightarrow> ProcessTree \<Rightarrow> ProcessTree" where
  "apply_event fs now pe t =
     (if pe_kind pe = PROC_KIND_FORK then apply_fork fs pe t
      else if pe_kind pe = PROC_KIND_EXEC then apply_exec fs pe t
      else if pe_kind pe = PROC_KIND_EXIT then apply_exit now pe t
      else t)"

section \<open>Tombstones\<close>

definition erase_node :: "u32 \<Rightarrow> ProcessTree \<Rightarrow> ProcessTree" where
  "erase_node pid t =
     (let t = t\<lparr>nodes := AList.delete pid (nodes t)\<rparr>
      in if pid \<in> set (lru_pos t)
         then t\<lparr>lru := remove1 pid (lru t), lru_pos := removeAll pid (lru_pos t)\<rparr>
         else t)"

definition sweep_tombstones :: "u64 \<Rightarrow> ProcessTree \<Rightarrow> ProcessTree" where
  "sweep_tombstones now t =
     (let deadline = now - kTombstoneMs;
          dead = map fst (filter (\<lambda>(pid, node). node_exited node \<and> node_exit_time_ms node \<le> deadline) (nodes t))
      in fold erase_node dead t)"

definition tombstone_count :: "ProcessTree \<Rightarrow> nat" where
  "tombstone_count t = length (filter (\<lambda>(pid, node). node_exited node) (nodes t))"

section \<open>The ancestor chain\<close>

record Ancestor =
  anc_pid :: u32
  anc_comm :: string
  anc_exe :: string

definition kMaxAncestors :: nat where "kMaxAncestors = 8"

fun climb :: "nat \<Rightarrow> ProcessTree \<Rightarrow> u32 list \<Rightarrow> u32 \<Rightarrow> Ancestor list" where
  "climb 0 t visited parent = []"
| "climb (Suc levels) t visited parent =
     (if parent = 0 then []
      else if parent \<in> set visited then []
      else (case find_node t parent of
              None \<Rightarrow> []
            | Some node \<Rightarrow>
                \<lparr>anc_pid = node_pid node, anc_comm = c_str (node_comm node), anc_exe = c_str (node_exe node)\<rparr> #
                climb levels t
                  (if length visited \<le> kMaxAncestors then visited @ [parent] else visited)
                  (node_ppid node)))"

definition ancestors_of :: "ProcessTree \<Rightarrow> u32 \<Rightarrow> u32 \<Rightarrow> Ancestor list" where
  "ancestors_of t pid fallback_ppid =
     (let parent = (case find_node t pid of None \<Rightarrow> fallback_ppid | Some self \<Rightarrow> node_ppid self)
      in climb kMaxAncestors t [pid] parent)"

end
