(* ===== verification/Process_Tree_Correct.thy ===== *)
theory Process_Tree_Correct
  imports Process_Tree "HOL-Library.Multiset"
begin

text \<open>
  The process tree and the ancestor chain: the bookkeeping invariant, the recency contract
  (the interpretation of \<open>lru_map\<close>), what events do to the node of their process, when
  tombstones go, and the shape of ancestor chains.
\<close>

section \<open>The invariant\<close>

definition tree_ok :: "ProcessTree \<Rightarrow> bool" where
  "tree_ok t \<longleftrightarrow> distinct (map fst (nodes t)) \<and> distinct (lru t) \<and>
     set (lru t) = set (map fst (nodes t)) \<and> set (lru_pos t) = set (lru t) \<and>
     length (lru t) \<le> kMaxNodes"

definition keyed :: "ProcessTree \<Rightarrow> bool" where
  "keyed t \<longleftrightarrow> (\<forall>pid node. find_node t pid = Some node \<longrightarrow> node_pid node = pid)"

lemma tree_ok_empty: "tree_ok empty_tree" "keyed empty_tree"
  by (simp_all add: tree_ok_def keyed_def empty_tree_def find_node_def)

lemma tree_ok_length: "distinct (map fst al) \<Longrightarrow> distinct ks \<Longrightarrow> set ks = set (map fst al) \<Longrightarrow> length al = length ks"
  by (metis distinct_card length_map)

lemma map_of_in_keys: "map_of al k \<noteq> None \<longleftrightarrow> k \<in> set (map fst al)"
  by (simp add: map_of_eq_None_iff)

lemma keys_update: "map fst (AList.update k v al) = (if k \<in> set (map fst al) then map fst al else map fst al @ [k])"
  by (rule AList.update_keys)

lemma keys_delete: "map fst (AList.delete k al) = removeAll k (map fst al)"
  by (rule AList.delete_keys)

text \<open>Both ways of storing a node under a key of the tree.\<close>

lemma upsert_known:
  assumes "tree_ok t" and "map_of (nodes t) pid \<noteq> None"
  shows "upsert_at pid node t = t\<lparr>nodes := AList.update pid node (nodes t), lru := to_front pid (lru t)\<rparr>"
proof -
  have "pid \<in> set (lru_pos t)" using assms unfolding map_of_in_keys tree_ok_def by blast
  then show ?thesis using assms(2) by (simp add: upsert_at_def touch_lru_def)
qed

lemma upsert_new:
  assumes ok: "tree_ok t" and new: "map_of (nodes t) pid = None"
  shows "upsert_at pid node t =
    (if length (lru t) < kMaxNodes
     then t\<lparr>nodes := AList.update pid node (nodes t), lru := pid # lru t, lru_pos := List.insert pid (lru_pos t)\<rparr>
     else t\<lparr>nodes := AList.delete (last (lru t)) (AList.update pid node (nodes t)),
        lru := pid # butlast (lru t), lru_pos := removeAll (last (lru t)) (List.insert pid (lru_pos t))\<rparr>)"
proof -
  let ?t = "t\<lparr>nodes := AList.update pid node (nodes t), lru := pid # lru t, lru_pos := List.insert pid (lru_pos t)\<rparr>"
  have pos: "0 < kMaxNodes" by (simp add: kMaxNodes_def)
  have len: "length (nodes t) = length (lru t)" using ok by (intro tree_ok_length) (auto simp: tree_ok_def)
  have notin: "pid \<notin> set (map fst (nodes t))" using new map_of_in_keys by metis
  have keys: "map fst (AList.update pid node (nodes t)) = map fst (nodes t) @ [pid]"
    using notin by (simp add: keys_update)
  then have len': "length (AList.update pid node (nodes t)) = Suc (length (lru t))"
    using len by (metis length_append_singleton length_map)
  show ?thesis
  proof (cases "length (lru t) < kMaxNodes")
    case True
    then show ?thesis using new len' by (simp add: upsert_at_def evict.simps [of ?t])
  next
    case False
    then have full: "length (lru t) = kMaxNodes" using ok by (simp add: tree_ok_def)
    then have ne: "lru t \<noteq> []" using pos by auto
    let ?v = "last (lru t)"
    let ?u = "t\<lparr>nodes := AList.delete ?v (AList.update pid node (nodes t)),
        lru := pid # butlast (lru t), lru_pos := removeAll ?v (List.insert pid (lru_pos t))\<rparr>"
    have v: "?v \<in> set (map fst (nodes t))" "distinct (map fst (nodes t))"
      using ok last_in_set [OF ne] by (auto simp: tree_ok_def)
    then have "?v \<noteq> pid" using notin by auto
    have "length (removeAll ?v (map fst (nodes t) @ [pid])) = length (map fst (nodes t))"
      using v \<open>?v \<noteq> pid\<close> length_pos_if_in_set [OF v(1)]
      by (simp add: distinct_remove1_removeAll [symmetric] length_remove1)
    then have "length (AList.delete ?v (AList.update pid node (nodes t))) = kMaxNodes"
      using keys_delete [of ?v "AList.update pid node (nodes t)"] keys full len by (metis length_map)
    then have "evict ?u = ?u" by (simp add: evict.simps [of ?u])
    moreover have "evict ?t = evict ?u"
      using len' full ne by (simp add: evict.simps [of ?t] Let_def)
    ultimately show ?thesis using False new by (simp add: upsert_at_def)
  qed
qed

lemma upsert_ok:
  assumes ok: "tree_ok t"
  shows "tree_ok (upsert_at pid node t)"
    and "lru (upsert_at pid node t) = take kMaxNodes (to_front pid (lru t))"
    and "find_node (upsert_at pid node t) j =
      (if j = pid then Some node else if j \<in> set (lru (upsert_at pid node t)) then find_node t j else None)"
proof -
  have fd: "find_node t j \<noteq> None \<longleftrightarrow> j \<in> set (lru t)" for j
    using ok map_of_in_keys [of "nodes t" j] by (simp add: tree_ok_def find_node_def)
  have bound: "length (lru t) \<le> kMaxNodes" and d: "distinct (lru t)" using ok by (auto simp: tree_ok_def)
  have pos: "0 < kMaxNodes" by (simp add: kMaxNodes_def)
  let ?u = "upsert_at pid node t"
  have "tree_ok ?u \<and> lru ?u = take kMaxNodes (to_front pid (lru t)) \<and>
    find_node ?u j = (if j = pid then Some node else if j \<in> set (lru ?u) then find_node t j else None)"
  proof (cases "map_of (nodes t) pid = None")
    case False
    then have mem: "pid \<in> set (lru t)" using fd [of pid] by (simp add: find_node_def)
    have u: "?u = t\<lparr>nodes := AList.update pid node (nodes t), lru := to_front pid (lru t)\<rparr>"
      using upsert_known [OF ok] False by simp
    have front: "set (to_front pid (lru t)) = set (lru t)" "distinct (to_front pid (lru t))"
      "length (to_front pid (lru t)) = length (lru t)"
      using set_to_front [OF d] distinct_to_front [OF d] length_to_front [OF mem] mem by auto
    have "tree_ok ?u" using ok front mem unfolding u by (auto simp: tree_ok_def keys_update)
    moreover have "lru ?u = take kMaxNodes (to_front pid (lru t))" unfolding u using front bound by simp
    moreover have "find_node ?u j = (if j = pid then Some node else if j \<in> set (lru ?u) then find_node t j else None)"
      unfolding u using front fd [of j] by (auto simp: find_node_def update_conv')
    ultimately show ?thesis by blast
  next
    case True
    then have mem: "pid \<notin> set (lru t)" using fd [of pid] by (simp add: find_node_def)
    then have front: "to_front pid (lru t) = pid # lru t" by (simp add: to_front_def remove1_idem)
    note u = upsert_new [OF ok True, of node]
    have keys: "pid \<notin> set (map fst (nodes t))" using mem ok by (simp add: tree_ok_def)
    show ?thesis
    proof (cases "length (lru t) < kMaxNodes")
      case less: True
      then have u: "?u = t\<lparr>nodes := AList.update pid node (nodes t), lru := pid # lru t,
          lru_pos := List.insert pid (lru_pos t)\<rparr>" using u by simp
      have "tree_ok ?u" using ok less mem keys unfolding u by (auto simp: tree_ok_def keys_update)
      moreover have "lru ?u = take kMaxNodes (to_front pid (lru t))" unfolding u front using less by simp
      moreover have "find_node ?u j = (if j = pid then Some node else if j \<in> set (lru ?u) then find_node t j else None)"
        unfolding u using fd [of j] by (auto simp: find_node_def update_conv')
      ultimately show ?thesis by blast
    next
      case False
      then have full: "length (lru t) = kMaxNodes" using bound by simp
      then have ne: "lru t \<noteq> []" using pos by auto
      let ?v = "last (lru t)"
      from False u have u: "?u = t\<lparr>nodes := AList.delete ?v (AList.update pid node (nodes t)),
          lru := pid # butlast (lru t), lru_pos := removeAll ?v (List.insert pid (lru_pos t))\<rparr>" by simp
      have split: "lru t = butlast (lru t) @ [?v]" using ne by simp
      have v: "?v \<notin> set (butlast (lru t))" "?v \<noteq> pid" "distinct (butlast (lru t))"
        "set (lru t) = insert ?v (set (butlast (lru t)))" "pid \<notin> set (butlast (lru t))"
      proof -
        show "?v \<notin> set (butlast (lru t))" using d split by (metis distinct_append disjoint_iff list.set_intros(1))
        show "?v \<noteq> pid" using last_in_set [OF ne] mem by auto
        show "distinct (butlast (lru t))" using d by (rule distinct_butlast)
        show "set (lru t) = insert ?v (set (butlast (lru t)))" by (subst split) simp
        show "pid \<notin> set (butlast (lru t))" using mem in_set_butlastD by metis
      qed
      have "tree_ok ?u"
        using ok keys v full pos ne unfolding u
        by (auto simp: tree_ok_def keys_update keys_delete distinct_removeAll)
      moreover have "lru ?u = take kMaxNodes (to_front pid (lru t))"
        unfolding u front using full pos by (simp add: butlast_conv_take take_Cons')
      moreover have "find_node ?u j = (if j = pid then Some node else if j \<in> set (lru ?u) then find_node t j else None)"
        unfolding u using fd [of j] v by (auto simp: find_node_def update_conv' delete_conv')
      ultimately show ?thesis by blast
    qed
  qed
  then show "tree_ok ?u" "lru ?u = take kMaxNodes (to_front pid (lru t))"
    "find_node ?u j = (if j = pid then Some node else if j \<in> set (lru ?u) then find_node t j else None)" by blast+
qed

interpretation tree_lru: lru_map tree_ok lru find_node upsert_at kMaxNodes
proof unfold_locales
  show "0 < kMaxNodes" by (simp add: kMaxNodes_def)
  show "find_node t pid \<noteq> None \<longleftrightarrow> pid \<in> set (lru t)" if "tree_ok t" for t pid
    using that map_of_in_keys [of "nodes t" pid] by (simp add: tree_ok_def find_node_def)
  show "distinct (lru t)" "length (lru t) \<le> kMaxNodes" if "tree_ok t" for t
    using that by (simp_all add: tree_ok_def)
qed (rule upsert_ok; assumption)+

section \<open>Events keep the invariant\<close>

lemma keyed_upsert: "tree_ok t \<Longrightarrow> keyed t \<Longrightarrow> node_pid node = pid \<Longrightarrow> keyed (upsert_at pid node t)"
  by (simp add: keyed_def tree_lru.put_lookup)

text \<open>Replacing a known node in place and moving its key to the front is the same update.\<close>

lemma replace_known:
  assumes "tree_ok t" and "map_of (nodes t) pid = Some old"
  shows "touch_lru pid (t\<lparr>nodes := AList.update pid node (nodes t)\<rparr>) = upsert_at pid node t"
  using assms by (simp add: upsert_at_def)

lemma setters_pid [simp]:
  "node_pid (set_exe s n) = node_pid n" "node_pid (set_comm s n) = node_pid n" "node_pid (set_cid s n) = node_pid n"
  "node_ppid (set_exe s n) = node_ppid n" "node_ppid (set_comm s n) = node_ppid n" "node_ppid (set_cid s n) = node_ppid n"
  "node_uid (set_exe s n) = node_uid n" "node_uid (set_comm s n) = node_uid n" "node_uid (set_cid s n) = node_uid n"
  "node_gid (set_exe s n) = node_gid n" "node_gid (set_comm s n) = node_gid n" "node_gid (set_cid s n) = node_gid n"
  "node_start_time (set_exe s n) = node_start_time n" "node_start_time (set_comm s n) = node_start_time n"
  "node_start_time (set_cid s n) = node_start_time n"
  "node_exited (set_exe s n) = node_exited n" "node_exited (set_comm s n) = node_exited n"
  "node_exited (set_cid s n) = node_exited n"
  "node_comm (set_exe s n) = node_comm n" "node_comm (set_cid s n) = node_comm n"
  by (simp_all add: set_exe_def set_comm_def set_cid_def)

lemma exec_known_pid [simp]:
  "node_pid (exec_known_node fs pe n) = node_pid n" "node_ppid (exec_known_node fs pe n) = node_ppid n"
  "node_uid (exec_known_node fs pe n) = pe_uid pe" "node_gid (exec_known_node fs pe n) = pe_gid pe"
  "node_exited (exec_known_node fs pe n) = False"
  "node_start_time (exec_known_node fs pe n) =
     (if pe_start_time pe \<noteq> 0 then pe_start_time pe else node_start_time n)"
  by (simp_all add: exec_known_node_def Let_def)

lemma exec_new_pid [simp]:
  "node_pid (exec_new_node fs pe) = pe_pid pe" "node_ppid (exec_new_node fs pe) = pe_ppid pe"
  "node_uid (exec_new_node fs pe) = pe_uid pe" "node_gid (exec_new_node fs pe) = pe_gid pe"
  "node_exited (exec_new_node fs pe) = False" "node_start_time (exec_new_node fs pe) = pe_start_time pe"
  by (simp_all add: exec_new_node_def Let_def empty_node_def)

lemma fork_node_fields [simp]:
  "node_pid (fork_node fs pe) = pe_pid pe" "node_ppid (fork_node fs pe) = pe_ppid pe"
  "node_uid (fork_node fs pe) = pe_uid pe" "node_gid (fork_node fs pe) = pe_gid pe"
  "node_exited (fork_node fs pe) = False"
  by (simp_all add: fork_node_def Let_def empty_node_def split: option.split)

text \<open>Every event is one update at the process it names, or nothing.\<close>

definition known_kind :: "proc_event \<Rightarrow> bool" where
  "known_kind pe \<longleftrightarrow> pe_kind pe \<in> {PROC_KIND_FORK, PROC_KIND_EXEC, PROC_KIND_EXIT}"

lemma bootstrap_node_pid [simp]: "node_pid (bootstrap_node fs pid) = word_of_int pid"
  by (simp add: bootstrap_node_def Let_def split: option.split prod.split)

lemma upsert_exI:
  "node_pid m = p \<Longrightarrow> \<exists>node. node_pid node = p \<and> upsert_at p m t = upsert_at p node t"
  by blast

lemma apply_event_upsert:
  assumes ok: "tree_ok t" and key: "keyed t" and kind: "known_kind pe"
  shows "\<exists>node. node_pid node = pe_pid pe \<and> apply_event fs now pe t = upsert_at (pe_pid pe) node t"
proof -
  have known: "node_pid n = pe_pid pe" if "map_of (nodes t) (pe_pid pe) = Some n" for n
    using key that by (simp add: keyed_def find_node_def)
  consider "pe_kind pe = PROC_KIND_FORK" | "pe_kind pe = PROC_KIND_EXEC" | "pe_kind pe = PROC_KIND_EXIT"
    using kind by (auto simp: known_kind_def)
  then show ?thesis
  proof cases
    case 1
    then show ?thesis by (intro exI [of _ "fork_node fs pe"]) (simp add: apply_event_def apply_fork_def upsert_def)
  next
    case 2
    then have "apply_event fs now pe t = apply_exec fs pe t" by (simp add: apply_event_def proc_kind_defs)
    then show ?thesis using known replace_known [OF ok]
      by (cases "map_of (nodes t) (pe_pid pe)") (auto simp: apply_exec_def upsert_def intro!: upsert_exI)
  next
    case 3
    then have e: "apply_event fs now pe t = apply_exit now pe t" by (simp add: apply_event_def proc_kind_defs)
    show ?thesis
    proof (cases "map_of (nodes t) (pe_pid pe)")
      case None
      then show ?thesis unfolding e by (auto simp: apply_exit_def upsert_def set_comm_def intro!: upsert_exI)
    next
      case (Some n)
      then show ?thesis unfolding e using known replace_known [OF ok] by (auto simp: apply_exit_def intro!: upsert_exI)
    qed
  qed
qed

lemma apply_event_inv:
  assumes "tree_ok t" and "keyed t"
  shows "tree_ok (apply_event fs now pe t)" "keyed (apply_event fs now pe t)"
proof -
  have "tree_ok (apply_event fs now pe t) \<and> keyed (apply_event fs now pe t)"
  proof (cases "known_kind pe")
    case True
    from apply_event_upsert [OF assms this, of fs now] show ?thesis
      using assms upsert_ok(1) keyed_upsert by auto
  next
    case False
    with assms show ?thesis by (simp add: apply_event_def known_kind_def)
  qed
  then show "tree_ok (apply_event fs now pe t)" "keyed (apply_event fs now pe t)" by blast+
qed

lemma bootstrap_inv:
  "tree_ok t \<Longrightarrow> keyed t \<Longrightarrow> tree_ok (bootstrap fs pids t) \<and> keyed (bootstrap fs pids t)"
proof (induction pids arbitrary: t)
  case (Cons pid pids)
  then show ?case
    using upsert_ok(1) [of t "word_of_int pid"] keyed_upsert [of t "bootstrap_node fs pid" "word_of_int pid"]
    by (simp add: bootstrap_def upsert_def)
qed (simp add: bootstrap_def)

lemma erase_node_ok:
  assumes "tree_ok t"
  shows "tree_ok (erase_node pid t)"
    and "find_node (erase_node pid t) j = (if j = pid then None else find_node t j)"
proof -
  show "tree_ok (erase_node pid t)"
  proof -
    have keys: "set (map fst (AList.delete pid (nodes t))) = set (map fst (nodes t)) - {pid}"
      "distinct (map fst (AList.delete pid (nodes t)))"
      using assms by (simp_all only: keys_delete set_removeAll tree_ok_def distinct_removeAll)
    show ?thesis
    proof (cases "pid \<in> set (lru_pos t)")
      case True
      with assms keys show ?thesis
        by (simp add: tree_ok_def erase_node_def Let_def length_remove1 le_diff_conv del: set_map)
    next
      case False
      with assms keys show ?thesis by (simp add: tree_ok_def erase_node_def Let_def del: set_map)
    qed
  qed
  show "find_node (erase_node pid t) j = (if j = pid then None else find_node t j)"
    by (simp add: find_node_def erase_node_def Let_def delete_conv')
qed

lemma erase_nodes_ok:
  "tree_ok t \<Longrightarrow> tree_ok (fold erase_node pids t) \<and>
     (\<forall>j. find_node (fold erase_node pids t) j = (if j \<in> set pids then None else find_node t j))"
proof (induction pids arbitrary: t)
  case (Cons pid pids)
  from Cons.IH [OF erase_node_ok(1) [OF Cons.prems, of pid]] show ?case
    using erase_node_ok(2) [OF Cons.prems] by auto
qed simp

lemma sweep_ok:
  assumes "tree_ok t"
  shows "tree_ok (sweep_tombstones now t)"
    and "find_node (sweep_tombstones now t) pid =
      (case find_node t pid of
         None \<Rightarrow> None
       | Some node \<Rightarrow> if node_exited node \<and> node_exit_time_ms node \<le> now - kTombstoneMs then None else Some node)"
proof -
  let ?P = "\<lambda>(pid, node). node_exited node \<and> node_exit_time_ms node \<le> now - kTombstoneMs"
  let ?dead = "map fst (filter ?P (nodes t))"
  have d: "distinct (map fst (nodes t))" using assms by (simp add: tree_ok_def)
  have dead: "pid \<in> set ?dead \<longleftrightarrow> (\<exists>node. map_of (nodes t) pid = Some node \<and>
      node_exited node \<and> node_exit_time_ms node \<le> now - kTombstoneMs)" for pid
    using map_of_eq_Some_iff [OF d] by force
  note e = erase_nodes_ok [OF assms, of ?dead]
  have s: "sweep_tombstones now t = fold erase_node ?dead t" by (simp add: sweep_tombstones_def Let_def)
  show "tree_ok (sweep_tombstones now t)" unfolding s using e by blast
  have "find_node (sweep_tombstones now t) pid = (if pid \<in> set ?dead then None else find_node t pid)"
    unfolding s using e by blast
  then show "find_node (sweep_tombstones now t) pid =
      (case find_node t pid of
         None \<Rightarrow> None
       | Some node \<Rightarrow> if node_exited node \<and> node_exit_time_ms node \<le> now - kTombstoneMs then None else Some node)"
    using dead [of pid] by (auto simp: find_node_def split: option.split)
qed

section \<open>Histories\<close>

datatype TreeOp = OpBootstrap ProcFs "int list" | OpEvent ProcFs u64 proc_event | OpSweep u64

fun tree_op :: "TreeOp \<Rightarrow> ProcessTree \<Rightarrow> ProcessTree" where
  "tree_op (OpBootstrap fs pids) t = bootstrap fs pids t"
| "tree_op (OpEvent fs now pe) t = apply_event fs now pe t"
| "tree_op (OpSweep now) t = sweep_tombstones now t"

definition tree_after :: "TreeOp list \<Rightarrow> ProcessTree" where
  "tree_after ops = fold tree_op ops empty_tree"

lemma keyed_sweep: "tree_ok t \<Longrightarrow> keyed t \<Longrightarrow> keyed (sweep_tombstones now t)"
  by (auto simp: keyed_def sweep_ok split: option.splits if_splits)

lemma tree_op_inv: "tree_ok t \<Longrightarrow> keyed t \<Longrightarrow> tree_ok (tree_op c t) \<and> keyed (tree_op c t)"
  by (cases c) (simp_all add: bootstrap_inv apply_event_inv sweep_ok(1) keyed_sweep)

lemma tree_after_inv: "tree_ok (tree_after ops)" "keyed (tree_after ops)"
proof -
  have "tree_ok t \<Longrightarrow> keyed t \<Longrightarrow> tree_ok (fold tree_op ops t) \<and> keyed (fold tree_op ops t)" for t
    by (induction ops arbitrary: t) (simp_all add: tree_op_inv)
  from this [OF tree_ok_empty] show "tree_ok (tree_after ops)" "keyed (tree_after ops)"
    by (simp_all add: tree_after_def)
qed

section \<open>Properties\<close>

definition exit_seven :: proc_event where
  "exit_seven = \<lparr>pe_ts_ns = 0, pe_pid = 7, pe_ppid = 1, pe_uid = 0, pe_gid = 0,
     pe_start_time = 3, pe_kind = PROC_KIND_EXIT, pe_comm = [], pe_exe = []\<rparr>"

definition no_fs :: ProcFs where
  "no_fs = \<lparr>fs_stat = \<lambda>_. None, fs_status = \<lambda>_. None, fs_cgroup = \<lambda>_. None, fs_exe = \<lambda>_. None, fs_hz = 100\<rparr>"

text \<open>
  C9. Whatever bootstraps, events and sweeps have happened, the tree holds at most 100000 nodes,
  the recency list is a permutation of the pids that have a node, the position map covers the
  same pids, and every node is filed under its own pid.
\<close>

theorem tree_bookkeeping:
  "length (nodes (tree_after ops)) \<le> kMaxNodes \<and>
   mset (lru (tree_after ops)) = mset (map fst (nodes (tree_after ops))) \<and>
   distinct (lru (tree_after ops)) \<and> set (lru_pos (tree_after ops)) = set (lru (tree_after ops)) \<and>
   (\<forall>pid node. find_node (tree_after ops) pid = Some node \<longrightarrow> node_pid node = pid)"
proof -
  have ok: "tree_ok (tree_after ops)" by (rule tree_after_inv)
  then have "length (nodes (tree_after ops)) = length (lru (tree_after ops))"
    by (intro tree_ok_length) (auto simp: tree_ok_def)
  moreover have "mset (lru (tree_after ops)) = mset (map fst (nodes (tree_after ops)))"
    using ok unfolding tree_ok_def by (metis set_eq_iff_mset_eq_distinct)
  ultimately show ?thesis using ok tree_after_inv(2) [of ops] by (simp add: tree_ok_def keyed_def)
qed

lemma tree_bookkeeping_witness:
  "\<exists>node. find_node (tree_after [OpEvent no_fs 5 exit_seven]) 7 = Some node \<and> node_pid node = 7"
proof -
  have "find_node (tree_after [OpEvent no_fs 5 exit_seven]) 7 \<noteq> None"
    by (simp add: tree_after_def exit_seven_def apply_event_def apply_exit_def proc_kind_defs empty_tree_def
      upsert_def upsert_at_def evict.simps kMaxNodes_def find_node_def set_comm_def empty_node_def)
  then show ?thesis using tree_bookkeeping by blast
qed

section \<open>What an event makes of its node\<close>

text \<open>The character arrays of a node keep their sizes, so what is copied into them can be read back.\<close>

definition sized_node :: "ProcNode \<Rightarrow> bool" where
  "sized_node n \<longleftrightarrow> length (node_comm n) = 16 \<and> length (node_exe n) = 256 \<and> length (node_container_id n) = 13"

definition sized :: "ProcessTree \<Rightarrow> bool" where
  "sized t \<longleftrightarrow> (\<forall>pid n. find_node t pid = Some n \<longrightarrow> sized_node n)"

lemma sized_empty [simp]: "sized_node (empty_node\<lparr>node_pid := a, node_ppid := b, node_uid := c, node_gid := d\<rparr>)"
  "sized_node (empty_node\<lparr>node_pid := a\<rparr>)"
  by (simp_all add: sized_node_def empty_node_def)

lemma sized_update [simp]:
  "sized_node (set_comm s n) = sized_node n" "sized_node (set_exe s n) = sized_node n" "sized_node (set_cid s n) = sized_node n"
  "sized_node (n\<lparr>node_start_time := a\<rparr>) = sized_node n" "sized_node (n\<lparr>node_ppid := b\<rparr>) = sized_node n"
  "sized_node (n\<lparr>node_uid := b\<rparr>) = sized_node n" "sized_node (n\<lparr>node_gid := b\<rparr>) = sized_node n"
  "sized_node (n\<lparr>node_exited := x\<rparr>) = sized_node n" "sized_node (n\<lparr>node_exit_time_ms := a\<rparr>) = sized_node n"
  "sized_node (n\<lparr>node_container_id := (node_container_id n)[0 := ch]\<rparr>) = sized_node n"
  by (simp_all add: sized_node_def set_comm_def set_exe_def set_cid_def)

lemma sized_upsert: "tree_ok t \<Longrightarrow> sized t \<Longrightarrow> sized_node n \<Longrightarrow> sized (upsert_at pid n t)"
  by (simp add: sized_def tree_lru.put_lookup)

lemma fork_node_sized: "sized_node (fork_node fs pe)"
  by (simp add: fork_node_def Let_def split: option.split)

lemma exec_new_sized: "sized_node (exec_new_node fs pe)"
  by (simp add: exec_new_node_def Let_def)

lemma exec_known_sized: "sized_node n \<Longrightarrow> sized_node (exec_known_node fs pe n)"
  by (simp add: exec_known_node_def Let_def)

lemma bootstrap_sized: "sized_node (bootstrap_node fs pid)"
  by (simp add: bootstrap_node_def Let_def split: option.split prod.split)

lemma c_str_copy: "dst \<noteq> [] \<Longrightarrow> c_str (record_set_str dst src) = c_str (take (length dst - 1) src)"
proof -
  assume dst: "dst \<noteq> []"
  define n where "n = length dst - 1"
  have "record_set_str dst src = take n src @ NUL # drop (min (length src) n + 1) dst"
    using dst by (auto simp: record_set_str_def Let_def n_def min_def)
  then have "c_str (record_set_str dst src) = takeWhile (\<lambda>c. c \<noteq> NUL) (take n src @ NUL # drop (min (length src) n + 1) dst)"
    by (simp add: c_str_def)
  also have "\<dots> = c_str (take n src)"
    using takeWhile_tail [of "\<lambda>c. c \<noteq> NUL" NUL "take n src" "drop (min (length src) n + 1) dst"] by (simp add: c_str_def)
  finally show ?thesis by (simp add: n_def)
qed

lemma sized_nonempty: "sized_node n \<Longrightarrow> node_comm n \<noteq> [] \<and> node_exe n \<noteq> [] \<and> node_container_id n \<noteq> []"
  by (auto simp: sized_node_def)

lemma exe_path_text: "NUL \<notin> set (exe_path_of fs pid)"
  by (simp add: exe_path_of_def c_str_no_NUL split: option.split)

lemma copied_texts:
  assumes "sized_node n"
  shows "c_str (node_comm (set_comm (c_str s) n)) = take 15 (c_str s)" and "NUL \<notin> set s' \<Longrightarrow> c_str (node_exe (set_exe s' n)) = take 255 s'"
    and "c_str (node_container_id (set_cid cid n)) = c_str (take 12 cid)"
  using assms sized_nonempty [OF assms] c_str_copy [of "node_container_id n" cid]
  by (simp_all add: set_comm_def set_exe_def set_cid_def c_str_record_set_str c_str_no_NUL sized_node_def)

text \<open>
  The node after an event, from the event, \<open>/proc\<close> and the node before. A fork describes the child by the
  event, with the start time and the executable from \<open>/proc\<close>. An exec takes the executable and the container
  from \<open>/proc\<close>, the executable from the event if \<open>/proc\<close> has none; of a process that is known it
  keeps the parent, and the start time and the executable if nothing newer is known. An exit keeps
  the known node as a tombstone, or makes one of the event.\<close>

definition node_after :: "ProcFs \<Rightarrow> u64 \<Rightarrow> proc_event \<Rightarrow> ProcNode option \<Rightarrow> ProcNode \<Rightarrow> bool" where
  "node_after fs now pe old n \<longleftrightarrow>
     (let pid = int_of_u32 (pe_pid pe); was = the old; new = (old = None);
          fork = (pe_kind pe = PROC_KIND_FORK); exec = (pe_kind pe = PROC_KIND_EXEC); exit = (pe_kind pe = PROC_KIND_EXIT);
          exe = exe_path_of fs pid; named = c_str (pe_exe pe)
      in node_pid n = pe_pid pe \<and>
         node_ppid n = (if fork \<or> new then pe_ppid pe else node_ppid was) \<and>
         node_uid n = (if exit \<and> \<not> new then node_uid was else pe_uid pe) \<and>
         node_gid n = (if exit \<and> \<not> new then node_gid was else pe_gid pe) \<and>
         node_start_time n =
           (if fork then (case read_proc_stat fs pid of None \<Rightarrow> 0 | Some ps \<Rightarrow> ps_start_ns ps)
            else if new \<or> (exec \<and> pe_start_time pe \<noteq> 0) then pe_start_time pe else node_start_time was) \<and>
         c_str (node_comm n) = (if exit \<and> \<not> new then c_str (node_comm was) else take 15 (c_str (pe_comm pe))) \<and>
         c_str (node_exe n) =
           (if fork then take 255 exe
            else if exec then (if exe \<noteq> [] then take 255 exe else if named \<noteq> [] \<or> new then take 255 named else c_str (node_exe was))
            else if new then [] else c_str (node_exe was)) \<and>
         c_str (node_container_id n) =
           (if exec then c_str (take 12 (container_id_of fs pid)) else if fork \<or> new then [] else c_str (node_container_id was)) \<and>
         (node_exited n \<longleftrightarrow> exit) \<and>
         node_exit_time_ms n =
           (if exit then now
            else if fork \<or> new \<or> (pe_start_time pe \<noteq> 0 \<and> node_start_time was \<noteq> 0 \<and> pe_start_time pe \<noteq> node_start_time was) then 0
            else node_exit_time_ms was))"

lemmas setter_defs = set_comm_def set_exe_def set_cid_def

lemma empty_texts [simp]: "c_str (replicate n NUL) = []" "c_str (node_comm empty_node) = []" "c_str (node_exe empty_node) = []"
  "c_str (node_container_id empty_node) = []" "c_str [] = []"
  by (cases n; simp add: c_str_def empty_node_def)+

lemma setters_keep [simp]: "node_exe (set_comm s n) = node_exe n" "node_exe (set_cid s n) = node_exe n"
  "node_container_id (set_comm s n) = node_container_id n" "node_container_id (set_exe s n) = node_container_id n"
  "node_exit_time_ms (set_comm s n) = node_exit_time_ms n" "node_exit_time_ms (set_exe s n) = node_exit_time_ms n"
  "node_exit_time_ms (set_cid s n) = node_exit_time_ms n"
  by (simp_all add: setter_defs)

lemma fork_node_after: "pe_kind pe = PROC_KIND_FORK \<Longrightarrow> node_after fs now pe old (fork_node fs pe)"
  by (simp add: node_after_def fork_node_def Let_def copied_texts exe_path_text proc_kind_defs split: option.split)
    (simp add: empty_node_def)

lemma exec_new_after: "pe_kind pe = PROC_KIND_EXEC \<Longrightarrow> node_after fs now pe None (exec_new_node fs pe)"
  by (simp add: node_after_def exec_new_node_def Let_def copied_texts exe_path_text c_str_no_NUL proc_kind_defs)
    (simp add: empty_node_def)

lemma exec_known_after:
  assumes "pe_kind pe = PROC_KIND_EXEC" and "sized_node n" and "node_pid n = pe_pid pe"
  shows "node_after fs now pe (Some n) (exec_known_node fs pe n)"
  using assms sized_nonempty [OF assms(2)]
  by (simp add: node_after_def exec_known_node_def Let_def copied_texts exe_path_text c_str_no_NUL proc_kind_defs)
    (auto simp: c_str_def neq_Nil_conv)

lemma exit_after:
  assumes "pe_kind pe = PROC_KIND_EXIT"
  shows "node_pid n = pe_pid pe \<Longrightarrow> node_after fs now pe (Some n) (n\<lparr>node_exited := True, node_exit_time_ms := now\<rparr>)"
    and "node_after fs now pe None (set_comm (c_str (pe_comm pe)) (empty_node\<lparr>node_pid := pe_pid pe, node_ppid := pe_ppid pe,
        node_uid := pe_uid pe, node_gid := pe_gid pe, node_start_time := pe_start_time pe\<rparr>)\<lparr>node_exited := True, node_exit_time_ms := now\<rparr>)"
  using assms by (simp_all add: node_after_def Let_def copied_texts proc_kind_defs)

lemma apply_event_node:
  assumes ok: "tree_ok t" and key: "keyed t" and sz: "sized t" and kind: "known_kind pe"
  shows "\<exists>n. node_after fs now pe (find_node t (pe_pid pe)) n \<and> sized_node n \<and> apply_event fs now pe t = upsert_at (pe_pid pe) n t"
proof -
  have old: "node_pid m = pe_pid pe" "sized_node m" if "map_of (nodes t) (pe_pid pe) = Some m" for m
    using key sz that by (simp_all add: keyed_def sized_def find_node_def)
  consider "pe_kind pe = PROC_KIND_FORK" | "pe_kind pe = PROC_KIND_EXEC" | "pe_kind pe = PROC_KIND_EXIT"
    using kind by (auto simp: known_kind_def)
  then show ?thesis
  proof cases
    case 1
    then show ?thesis using fork_node_after fork_node_sized
      by (intro exI [of _ "fork_node fs pe"]) (simp add: apply_event_def apply_fork_def upsert_def)
  next
    case 2
    then have e: "apply_event fs now pe t = apply_exec fs pe t" by (simp add: apply_event_def proc_kind_defs)
    show ?thesis
    proof (cases "map_of (nodes t) (pe_pid pe)")
      case None
      then show ?thesis using exec_new_after [OF 2] exec_new_sized
        by (intro exI [of _ "exec_new_node fs pe"]) (simp add: e apply_exec_def upsert_def find_node_def)
    next
      case (Some m)
      then show ?thesis using exec_known_after [OF 2] exec_known_sized old replace_known [OF ok]
        by (intro exI [of _ "exec_known_node fs pe m"]) (simp add: e apply_exec_def find_node_def)
    qed
  next
    case 3
    then have e: "apply_event fs now pe t = apply_exit now pe t" by (simp add: apply_event_def proc_kind_defs)
    show ?thesis
    proof (cases "map_of (nodes t) (pe_pid pe)")
      case None
      then have "apply_exit now pe t = upsert_at (pe_pid pe) (set_comm (c_str (pe_comm pe)) (empty_node\<lparr>node_pid := pe_pid pe,
          node_ppid := pe_ppid pe, node_uid := pe_uid pe, node_gid := pe_gid pe,
          node_start_time := pe_start_time pe\<rparr>)\<lparr>node_exited := True, node_exit_time_ms := now\<rparr>) t"
        and "find_node t (pe_pid pe) = None"
        by (simp_all add: apply_exit_def upsert_def find_node_def)
      then show ?thesis unfolding e using exit_after(2) [OF 3, of fs now] by (metis sized_update(1,4,8,9) sized_empty(1))
    next
      case (Some m)
      then show ?thesis unfolding e using exit_after(1) [OF 3] old replace_known [OF ok]
        by (intro exI [of _ "m\<lparr>node_exited := True, node_exit_time_ms := now\<rparr>"]) (simp add: apply_exit_def find_node_def)
    qed
  qed
qed

lemma tree_op_sized:
  assumes "tree_ok t" and "keyed t" and "sized t"
  shows "sized (tree_op c t)"
proof (cases c)
  case (OpBootstrap fs pids)
  have "tree_ok t \<Longrightarrow> keyed t \<Longrightarrow> sized t \<Longrightarrow> sized (bootstrap fs pids t)" for t
  proof (induction pids arbitrary: t)
    case (Cons pid pids)
    then show ?case
      using upsert_ok(1) [of t "word_of_int pid"] keyed_upsert [of t "bootstrap_node fs pid" "word_of_int pid"]
        sized_upsert [OF _ _ bootstrap_sized]
      by (simp add: bootstrap_def upsert_def)
  qed (simp add: bootstrap_def)
  with OpBootstrap assms show ?thesis by simp
next
  case (OpEvent fs now pe)
  show ?thesis
  proof (cases "known_kind pe")
    case True
    from apply_event_node [OF assms this, of fs now] show ?thesis using OpEvent sized_upsert [OF assms(1,3)] by auto
  qed (use assms OpEvent in \<open>simp add: apply_event_def known_kind_def\<close>)
next
  case (OpSweep now)
  with assms show ?thesis by (auto simp: sized_def sweep_ok split: option.splits if_splits)
qed

lemma tree_after_sized: "sized (tree_after ops)"
proof -
  have "tree_ok t \<Longrightarrow> keyed t \<Longrightarrow> sized t \<Longrightarrow> sized (fold tree_op ops t)" for t
    by (induction ops arbitrary: t) (simp_all add: tree_op_inv tree_op_sized)
  from this [OF tree_ok_empty] show ?thesis by (simp add: tree_after_def sized_def empty_tree_def find_node_def)
qed

text \<open>
  C10. After an event about a process its node is there, and every field of it is the one determined by
  the event, \<open>/proc\<close> and the node before: after a fork or an exec it runs and has the user, group,
  command, start time and executable of the event or of \<open>/proc\<close>; after an exit it is a tombstone with
  the time of the exit. The parent is that of the event after a fork and for an unknown process, but
  an exec of a known process keeps the parent of the node before, even when the start time shows
  that the pid was reused. Every other node is unchanged, or was dropped as the least recently used
  one of a full tree.
\<close>

theorem event_updates_node:
  fixes ops :: "TreeOp list" and fs :: ProcFs and now :: u64
  assumes "known_kind pe"
  defines "t \<equiv> tree_after ops" and "t' \<equiv> apply_event fs now pe (tree_after ops)"
  shows "(\<exists>n. find_node t' (pe_pid pe) = Some n \<and> node_after fs now pe (find_node t (pe_pid pe)) n) \<and>
    (\<forall>j. j \<noteq> pe_pid pe \<longrightarrow> find_node t' j = find_node t j \<or>
      (find_node t' j = None \<and> length (lru t) = kMaxNodes \<and> j = last (lru t)))"
proof -
  have ok: "tree_ok t" and "keyed t" "sized t" using tree_after_inv tree_after_sized by (simp_all add: t_def)
  from apply_event_node [OF this assms(1), of fs now] obtain n where
    n: "node_after fs now pe (find_node t (pe_pid pe)) n" "t' = upsert_at (pe_pid pe) n t" unfolding t'_def t_def by blast
  have "find_node t' j = find_node t j \<or> (find_node t' j = None \<and> length (lru t) = kMaxNodes \<and> j = last (lru t))"
    if "j \<noteq> pe_pid pe" for j
    using that tree_lru.put_keeps [OF ok, of "pe_pid pe" j n] tree_lru.put_evicts [OF ok, of "pe_pid pe" j n]
      tree_lru.recent_bound [OF ok] unfolding n(2)
    by (cases "pe_pid pe \<in> set (lru t)") (auto simp: le_less split: if_splits)
  then show ?thesis using n tree_lru.put_get [OF ok] by blast
qed

lemma event_updates_node_witness:
  "let pe = \<lparr>pe_ts_ns = 0, pe_pid = 7, pe_ppid = 1, pe_uid = 12, pe_gid = 13,
     pe_start_time = 0, pe_kind = PROC_KIND_FORK, pe_comm = ''sh'', pe_exe = []\<rparr>
   in \<exists>n. find_node (apply_event no_fs 5 pe (tree_after [])) 7 = Some n \<and> node_uid n = 12 \<and> node_ppid n = 1 \<and>
     c_str (node_comm n) = ''sh'' \<and> \<not> node_exited n"
proof -
  let ?pe = "\<lparr>pe_ts_ns = 0, pe_pid = 7, pe_ppid = 1, pe_uid = 12, pe_gid = 13,
     pe_start_time = 0, pe_kind = PROC_KIND_FORK, pe_comm = ''sh'', pe_exe = []\<rparr>"
  have "known_kind ?pe" by (simp add: known_kind_def)
  moreover have "take 15 (c_str ''sh'') = ''sh''" by (simp add: c_str_def)
  ultimately show ?thesis
    using event_updates_node [of ?pe no_fs 5 "[]"] by (auto simp: Let_def proc_kind_defs node_after_def)
qed

text \<open>
  An event keeps the node of its process as long as fewer than 100000 other processes are
  seen after it.
\<close>

theorem event_node_survives:
  assumes "known_kind pe" and "list_all known_kind pes" and "pe_pid pe \<notin> set (map pe_pid pes)"
    and "card (set (map pe_pid pes)) < kMaxNodes"
  shows "find_node (fold (apply_event fs now) pes (apply_event fs now pe (tree_after ops))) (pe_pid pe) =
    find_node (apply_event fs now pe (tree_after ops)) (pe_pid pe) \<and>
    find_node (apply_event fs now pe (tree_after ops)) (pe_pid pe) \<noteq> None"
proof -
  have puts: "tree_ok t \<Longrightarrow> keyed t \<Longrightarrow> list_all known_kind es \<Longrightarrow>
      \<exists>kvs. map fst kvs = map pe_pid es \<and> fold (apply_event fs now) es t = fold (\<lambda>(k, v). upsert_at k v) kvs t"
    for t es
  proof (induction es arbitrary: t)
    case (Cons e es)
    obtain node where n: "apply_event fs now e t = upsert_at (pe_pid e) node t"
      using apply_event_upsert [of t e fs now] Cons.prems by auto
    have "tree_ok (apply_event fs now e t)" "keyed (apply_event fs now e t)"
      using apply_event_inv Cons.prems by auto
    with Cons.IH [of "apply_event fs now e t"] Cons.prems(3) obtain kvs where "map fst kvs = map pe_pid es"
      "fold (apply_event fs now) es (apply_event fs now e t) = fold (\<lambda>(k, v). upsert_at k v) kvs (apply_event fs now e t)"
      by auto
    then show ?case by (intro exI [of _ "(pe_pid e, node) # kvs"]) (simp add: n)
  qed simp
  let ?t = "tree_after ops" and ?t1 = "apply_event fs now pe (tree_after ops)"
  have ok: "tree_ok ?t" "keyed ?t" by (rule tree_after_inv)+
  obtain node where n: "?t1 = upsert_at (pe_pid pe) node ?t"
    using apply_event_upsert [OF ok assms(1)] by blast
  obtain kvs where kvs: "map fst kvs = map pe_pid pes"
    "fold (apply_event fs now) pes ?t1 = fold (\<lambda>(k, v). upsert_at k v) kvs ?t1"
    using puts [of ?t1 pes] apply_event_inv [OF ok] assms(2) by blast
  have "find_node (fold (\<lambda>(k, v). upsert_at k v) kvs ?t1) (pe_pid pe) = Some node"
    unfolding n by (rule tree_lru.recently_used_kept [OF ok(1)]) (use assms kvs in auto)
  moreover have "find_node ?t1 (pe_pid pe) = Some node" unfolding n by (rule tree_lru.put_get [OF ok(1)])
  ultimately show ?thesis using kvs(2) by simp
qed

lemma event_node_survives_witness:
  "let pe = (\<lambda>pid. \<lparr>pe_ts_ns = 0, pe_pid = pid, pe_ppid = 1, pe_uid = 12, pe_gid = 13,
     pe_start_time = 0, pe_kind = PROC_KIND_FORK, pe_comm = ''sh'', pe_exe = []\<rparr>)
   in find_node (fold (apply_event no_fs 5) [pe 8, pe 9] (apply_event no_fs 5 (pe 7) (tree_after []))) 7 \<noteq> None"
proof -
  let ?pe = "\<lambda>pid. \<lparr>pe_ts_ns = 0, pe_pid = pid, pe_ppid = 1, pe_uid = 12, pe_gid = 13,
     pe_start_time = 0, pe_kind = PROC_KIND_FORK, pe_comm = ''sh'', pe_exe = []\<rparr>"
  have "known_kind (?pe 7)" "list_all known_kind [?pe 8, ?pe 9]" "pe_pid (?pe 7) \<notin> set (map pe_pid [?pe 8, ?pe 9])"
    "card (set (map pe_pid [?pe 8, ?pe 9])) < kMaxNodes"
    by (simp_all add: known_kind_def kMaxNodes_def)
  from event_node_survives [OF this, of no_fs 5 "[]"] show ?thesis by (simp add: Let_def)
qed

text \<open>
  C11. Once the machine has been up for a minute, a sweep removes exactly the tombstones whose
  exit lies at least 60 seconds back; all other nodes keep their values.
\<close>

theorem sweep_exact:
  assumes "kTombstoneMs \<le> now"
  shows "find_node (sweep_tombstones now (tree_after ops)) pid =
    (case find_node (tree_after ops) pid of
       None \<Rightarrow> None
     | Some n \<Rightarrow> if node_exited n \<and> unat (node_exit_time_ms n) + 60000 \<le> unat now then None else Some n)"
proof -
  have "unat (now - kTombstoneMs) = unat now - 60000" using assms by (simp add: unat_sub kTombstoneMs_def)
  moreover have "60000 \<le> unat now" using assms by (simp add: word_le_nat_alt kTombstoneMs_def)
  ultimately have "x \<le> now - kTombstoneMs \<longleftrightarrow> unat x + 60000 \<le> unat now" for x
    by (simp add: word_le_nat_alt) linarith
  then show ?thesis using sweep_ok(2) [OF tree_after_inv(1), of now ops pid] by (simp split: option.split)
qed

lemma sweep_exact_witness:
  "find_node (sweep_tombstones 70000 (tree_after [OpEvent no_fs 5 exit_seven])) 7 = None"
proof -
  have "\<exists>n. find_node (tree_after [OpEvent no_fs 5 exit_seven]) 7 = Some n \<and> node_exited n \<and> node_exit_time_ms n = 5"
    by (simp add: tree_after_def exit_seven_def apply_event_def apply_exit_def proc_kind_defs empty_tree_def
      upsert_def upsert_at_def evict.simps kMaxNodes_def find_node_def set_comm_def empty_node_def)
  moreover have "kTombstoneMs \<le> 70000" by (simp add: kTombstoneMs_def word_le_nat_alt)
  ultimately show ?thesis using sweep_exact [of 70000 "[OpEvent no_fs 5 exit_seven]" 7] by auto
qed

text \<open>
  In the first minute after boot the deadline wraps around, and a sweep removes every
  tombstone however fresh it is.
\<close>

theorem early_sweep_removes_fresh:
  assumes "now < kTombstoneMs" and "find_node (tree_after ops) pid = Some n"
    and "node_exited n" and "node_exit_time_ms n \<le> now"
  shows "find_node (sweep_tombstones now (tree_after ops)) pid = None"
proof -
  have "node_exit_time_ms n \<le> now - kTombstoneMs"
  proof -
    have "unat now < 60000" using assms(1) by (simp add: word_less_nat_alt kTombstoneMs_def)
    moreover have "unat (now - kTombstoneMs) = 2 ^ 64 - 60000 + unat now"
      using assms(1) by (simp add: unat_sub_if' kTombstoneMs_def word_less_nat_alt)
    moreover have "unat (node_exit_time_ms n) \<le> unat now" using assms(4) by (simp add: word_le_nat_alt)
    ultimately show ?thesis unfolding word_le_nat_alt by linarith
  qed
  with assms show ?thesis using sweep_ok(2) [OF tree_after_inv(1), of now ops pid] by simp
qed

lemma early_sweep_removes_fresh_witness:
  "find_node (sweep_tombstones 20 (tree_after [OpEvent no_fs 20 \<lparr>pe_ts_ns = 0, pe_pid = 7, pe_ppid = 1,
     pe_uid = 0, pe_gid = 0, pe_start_time = 0, pe_kind = PROC_KIND_EXIT, pe_comm = [], pe_exe = []\<rparr>])) 7 = None"
proof -
  let ?pe = "\<lparr>pe_ts_ns = 0, pe_pid = 7, pe_ppid = 1, pe_uid = 0, pe_gid = 0, pe_start_time = 0,
    pe_kind = PROC_KIND_EXIT, pe_comm = [], pe_exe = []\<rparr>"
  let ?n = "set_comm [] (empty_node\<lparr>node_pid := 7, node_ppid := 1\<rparr>)\<lparr>node_exited := True, node_exit_time_ms := 20\<rparr>"
  have kinds: "PROC_KIND_EXIT \<noteq> PROC_KIND_FORK" "PROC_KIND_EXIT \<noteq> PROC_KIND_EXEC" by (simp_all add: proc_kind_defs)
  have "tree_after [OpEvent no_fs 20 ?pe] = apply_exit 20 ?pe empty_tree"
    using kinds by (simp add: tree_after_def apply_event_def)
  also have "\<dots> = upsert_at 7 ?n empty_tree"
    by (simp add: apply_exit_def upsert_def empty_tree_def c_str_def set_comm_def empty_node_def)
  finally have "find_node (tree_after [OpEvent no_fs 20 ?pe]) 7 = Some ?n"
    using tree_lru.put_get [OF tree_ok_empty(1)] by simp
  then show ?thesis
    by (rule early_sweep_removes_fresh [rotated]) (simp_all add: kTombstoneMs_def word_less_nat_alt)
qed

text \<open>
  An exec never updates the parent of a process the tree knows, not even when its start
  time shows that the pid now belongs to another process: the ancestor chain of the new
  process is that of the old one.
\<close>

theorem exec_keeps_parent:
  assumes "pe_kind pe = PROC_KIND_EXEC" and "find_node (tree_after ops) (pe_pid pe) = Some old"
    and "pe_start_time pe \<noteq> 0" and "node_start_time old \<noteq> pe_start_time pe"
  shows "\<exists>new. find_node (apply_event fs now pe (tree_after ops)) (pe_pid pe) = Some new \<and>
    node_start_time new = pe_start_time pe \<and> node_ppid new = node_ppid old"
proof -
  have ok: "tree_ok (tree_after ops)" by (rule tree_after_inv)
  have old: "map_of (nodes (tree_after ops)) (pe_pid pe) = Some old" using assms(2) by (simp add: find_node_def)
  have "apply_event fs now pe (tree_after ops) = upsert_at (pe_pid pe) (exec_known_node fs pe old) (tree_after ops)"
    using assms(1) old replace_known [OF ok old] by (simp add: apply_event_def apply_exec_def proc_kind_defs)
  then show ?thesis using tree_lru.put_get [OF ok] assms(3) by simp
qed

lemma exec_keeps_parent_witness:
  "let pe = (\<lambda>kind ppid start. \<lparr>pe_ts_ns = 0, pe_pid = 7, pe_ppid = ppid, pe_uid = 0, pe_gid = 0,
     pe_start_time = start, pe_kind = kind, pe_comm = [], pe_exe = []\<rparr>)
   in \<exists>new. find_node (apply_event no_fs 6 (pe PROC_KIND_EXEC 300 900)
       (tree_after [OpEvent no_fs 5 (pe PROC_KIND_EXIT 200 800)])) 7 = Some new \<and>
     node_start_time new = 900 \<and> node_ppid new = 200"
proof -
  let ?pe = "\<lambda>kind ppid start. \<lparr>pe_ts_ns = 0, pe_pid = 7, pe_ppid = ppid, pe_uid = 0, pe_gid = 0,
     pe_start_time = start, pe_kind = kind, pe_comm = [], pe_exe = []\<rparr>"
  let ?n = "set_comm [] (empty_node\<lparr>node_pid := 7, node_ppid := 200, node_start_time := 800\<rparr>)
    \<lparr>node_exited := True, node_exit_time_ms := 5\<rparr>"
  have kinds: "PROC_KIND_EXIT \<noteq> PROC_KIND_FORK" "PROC_KIND_EXIT \<noteq> PROC_KIND_EXEC" by (simp_all add: proc_kind_defs)
  have "tree_after [OpEvent no_fs 5 (?pe PROC_KIND_EXIT 200 800)] = upsert_at 7 ?n empty_tree"
    using kinds by (simp add: tree_after_def apply_event_def apply_exit_def upsert_def empty_tree_def
        c_str_def set_comm_def empty_node_def)
  then have "find_node (tree_after [OpEvent no_fs 5 (?pe PROC_KIND_EXIT 200 800)]) 7 = Some ?n"
    using tree_lru.put_get [OF tree_ok_empty(1)] by simp
  then have "\<exists>new. find_node (apply_event no_fs 6 (?pe PROC_KIND_EXEC 300 900)
       (tree_after [OpEvent no_fs 5 (?pe PROC_KIND_EXIT 200 800)])) 7 = Some new \<and>
     node_start_time new = 900 \<and> node_ppid new = node_ppid ?n"
    using exec_keeps_parent [of "?pe PROC_KIND_EXEC 300 900" "[OpEvent no_fs 5 (?pe PROC_KIND_EXIT 200 800)]" ?n no_fs 6]
    by simp
  then show ?thesis by (simp add: Let_def)
qed

section \<open>Ancestor chains\<close>

definition ancestor_view :: "ProcNode \<Rightarrow> Ancestor" where
  "ancestor_view n = \<lparr>anc_pid = node_pid n, anc_comm = c_str (node_comm n), anc_exe = c_str (node_exe n)\<rparr>"

text \<open>\<open>chain t p as e\<close>: from \<open>p\<close> on, \<open>as\<close> are the views of the nodes that the parent links
  visit, and the link out of the last one leads to \<open>e\<close>.\<close>

fun chain :: "ProcessTree \<Rightarrow> u32 \<Rightarrow> Ancestor list \<Rightarrow> u32 \<Rightarrow> bool" where
  "chain t p [] e \<longleftrightarrow> p = e"
| "chain t p (a # as) e \<longleftrightarrow>
     (\<exists>n. find_node t p = Some n \<and> a = ancestor_view n \<and> anc_pid a = p \<and> p \<noteq> 0 \<and> chain t (node_ppid n) as e)"

lemma climb_chain:
  assumes "keyed t"
  shows "length visited + levels \<le> kMaxAncestors + 1 \<Longrightarrow>
    \<exists>e. chain t p (climb levels t visited p) e \<and> length (climb levels t visited p) \<le> levels \<and>
      (distinct visited \<longrightarrow> distinct (visited @ map anc_pid (climb levels t visited p))) \<and>
      (length (climb levels t visited p) = levels \<or> e = 0 \<or> find_node t e = None \<or>
       e \<in> set (visited @ map anc_pid (climb levels t visited p)))"
proof (induction levels arbitrary: visited p)
  case (Suc levels)
  show ?case
  proof (cases "p = 0 \<or> p \<in> set visited \<or> find_node t p = None")
    case True
    then have "climb (Suc levels) t visited p = []" by auto
    then show ?thesis using True by (intro exI [of _ p]) auto
  next
    case False
    then obtain n where n: "find_node t p = Some n" "p \<noteq> 0" "p \<notin> set visited" by auto
    have pid: "node_pid n = p" using assms n(1) by (simp add: keyed_def)
    have len: "length visited \<le> kMaxAncestors" using Suc.prems by simp
    let ?c = "climb levels t (visited @ [p]) (node_ppid n)"
    have c: "climb (Suc levels) t visited p = ancestor_view n # ?c"
      using n len by (simp add: ancestor_view_def)
    from Suc.IH [of "visited @ [p]" "node_ppid n"] Suc.prems obtain e where
      e: "chain t (node_ppid n) ?c e" "length ?c \<le> levels"
      "distinct (visited @ [p]) \<longrightarrow> distinct ((visited @ [p]) @ map anc_pid ?c)"
      "length ?c = levels \<or> e = 0 \<or> find_node t e = None \<or> e \<in> set ((visited @ [p]) @ map anc_pid ?c)"
      by auto
    have a: "anc_pid (ancestor_view n) = p" by (simp add: ancestor_view_def pid)
    show ?thesis unfolding c using n e a by (intro exI [of _ e]) auto
  qed
qed simp

text \<open>
  C12. The ancestor chain of a process follows the parent links of the tree from its parent on,
  nearest first: at most 8 ancestors, none twice and never the process itself, so that a cycle
  of links cannot trap it; it is cut short only at pid 0, at a process the tree does not know,
  or where the links close a cycle.
\<close>

theorem ancestors_follow_parents:
  fixes ops :: "TreeOp list" and pid ppid :: u32
  defines "t \<equiv> tree_after ops"
  defines "as \<equiv> ancestors_of t pid ppid"
  shows "\<exists>e. chain t (case find_node t pid of None \<Rightarrow> ppid | Some n \<Rightarrow> node_ppid n) as e \<and>
    length as \<le> 8 \<and> distinct (pid # map anc_pid as) \<and>
    (length as = 8 \<or> e = 0 \<or> find_node t e = None \<or> e \<in> set (pid # map anc_pid as))"
proof -
  have key: "keyed t" unfolding t_def by (rule tree_after_inv)
  let ?p = "case find_node t pid of None \<Rightarrow> ppid | Some n \<Rightarrow> node_ppid n"
  have as: "as = climb 8 t [pid] ?p" by (simp add: as_def ancestors_of_def kMaxAncestors_def)
  from climb_chain [OF key, of "[pid]" 8 ?p] show ?thesis
    unfolding as by (simp add: kMaxAncestors_def)
qed

end
