(* ===== verification/Proc_Fs_Correct.thy ===== *)
theory Proc_Fs_Correct
  imports Proc_Fs
begin

text \<open>
  What the two parsers of \<open>/proc/<pid>/stat\<close> make of the lines the kernel writes, and what
  \<open>container_id_of\<close> returns.
\<close>

section \<open>The kernel's line\<close>

text \<open>The fields behind the command name, each after a blank.\<close>

definition num_fields :: "int list \<Rightarrow> string" where
  "num_fields ns = concat (map (\<lambda>n. CHR '' '' # dec_of_int n) ns)"

definition stat_line :: "nat \<Rightarrow> string \<Rightarrow> char \<Rightarrow> int list \<Rightarrow> string" where
  "stat_line pid comm state ns =
     dec_of_nat pid @ CHR '' '' # CHR ''('' # comm @ CHR '')'' # CHR '' '' # state # num_fields ns @ [CHR 0x0A]"

definition state_char :: "char \<Rightarrow> bool" where
  "state_char c \<longleftrightarrow> c_isupper c \<or> c_islower c"

lemma isdigit_chars:
  "c_isdigit c \<Longrightarrow> c \<noteq> CHR ''('' \<and> c \<noteq> CHR '')'' \<and> c \<noteq> CHR ''-'' \<and> c \<noteq> CHR ''+'' \<and> c \<noteq> CHR '' '' \<and>
     c \<noteq> CHR 0x0A \<and> c \<noteq> CHR 0x09 \<and> c \<noteq> NUL"
  by (auto simp: char_class_defs)

lemma state_char_facts:
  "state_char c \<Longrightarrow> c \<noteq> CHR '')'' \<and> \<not> c_isspace c \<and> is_token_char c \<and> \<not> is_blank c \<and> c \<noteq> CHR 0x0A \<and> c \<noteq> NUL"
  by (auto simp: state_char_def is_token_char_def is_blank_def char_class_defs)

lemma dec_of_nat_hd: "\<exists>c ds. dec_of_nat n = c # ds \<and> c_isdigit c \<and> (\<forall>x \<in> set ds. c_isdigit x)"
  using dec_of_nat_digits [of n] dec_of_nat_nonempty [of n] by (cases "dec_of_nat n") auto

lemma dec_of_int_chars: "c \<in> set (dec_of_int n) \<Longrightarrow> c_isdigit c \<or> c = CHR ''-''"
  using dec_of_nat_digits by (auto simp: dec_of_int_def split: if_splits)

lemma num_fields_chars: "c \<in> set (num_fields ns) \<Longrightarrow> c_isdigit c \<or> c = CHR ''-'' \<or> c = CHR '' ''"
proof (induction ns)
  case (Cons n ns)
  then show ?case using dec_of_int_chars [of c n] by (auto simp: num_fields_def)
qed (simp add: num_fields_def)

definition no_digit_start :: "string \<Rightarrow> bool" where
  "no_digit_start t \<longleftrightarrow> t = [] \<or> \<not> c_isdigit (hd t)"

lemma digits_prefix:
  assumes "\<forall>c \<in> set ds. c_isdigit c" and "no_digit_start t"
  shows "takeWhile c_isdigit (ds @ t) = ds" "dropWhile c_isdigit (ds @ t) = t"
  using assms by (cases t; simp add: no_digit_start_def)+

lemma read_llong_dec:
  assumes "in_llong n" and "no_digit_start t"
  shows "read_llong (CHR '' '' # dec_of_int n @ t) = Some (n, t)"
proof -
  have sp: "dropWhile c_isspace (CHR '' '' # u) = dropWhile c_isspace u" for u
    by (simp add: char_class_defs)
  have dig: "dropWhile c_isspace (dec_of_nat m @ t) = dec_of_nat m @ t" for m
    using dec_of_nat_hd [of m] isalnum_not_space isdigit_isalnum by fastforce
  have blank: "c_isspace (CHR '' '')" by (simp add: char_class_defs)
  have minus: "\<not> c_isspace (CHR ''-'')" by (simp add: char_class_defs)
  note w = digits_prefix [OF dec_of_nat_digits assms(2)]
  show ?thesis
  proof (cases "n < 0")
    case True
    with assms(1) minus w blank show ?thesis by (simp add: read_llong_def sp dec_of_int_def Let_def)
  next
    case False
    have "hd (dec_of_nat m @ t) \<noteq> CHR ''-'' \<and> hd (dec_of_nat m @ t) \<noteq> CHR ''+''" for m
      using dec_of_nat_hd [of m] isdigit_chars by force
    with False assms(1) dig w blank show ?thesis by (simp add: read_llong_def sp dec_of_int_def Let_def)
  qed
qed

lemma num_fields_Cons: "num_fields (n # ns) @ t = CHR '' '' # dec_of_int n @ num_fields ns @ t"
  by (simp add: num_fields_def)

lemma no_digit_fields: "no_digit_start t \<Longrightarrow> no_digit_start (num_fields ns @ t)"
  by (cases ns) (auto simp: num_fields_def no_digit_start_def char_class_defs)

lemma skip_llongs_fields:
  "list_all in_llong ns \<Longrightarrow> n \<le> length ns \<Longrightarrow> no_digit_start t \<Longrightarrow>
     skip_llongs n (num_fields ns @ t) = Some (num_fields (drop n ns) @ t)"
proof (induction n arbitrary: ns)
  case (Suc n)
  then obtain m ms where "ns = m # ms" by (cases ns) auto
  with Suc show ?case by (simp add: num_fields_Cons read_llong_dec no_digit_fields)
qed simp

lemma rfind_char_last: "c \<notin> set b \<Longrightarrow> rfind_char c (a @ c # b) = Some (length a)"
proof -
  assume "c \<notin> set b"
  then have "\<And>x. x \<in> set (rev b) \<Longrightarrow> x \<noteq> c" by auto
  then have "takeWhile (\<lambda>x. x \<noteq> c) (rev b @ c # rev a) = rev b @ takeWhile (\<lambda>x. x \<noteq> c) (c # rev a)"
    by (rule takeWhile_append2)
  then have "takeWhile (\<lambda>x. x \<noteq> c) (rev (a @ c # b)) = rev b" by simp
  then show ?thesis by (simp add: rfind_char_def)
qed

lemma drop_behind: "drop (length a + 1) (a @ x # b) = b"
  by simp

lemma find_char_first: "c \<notin> set a \<Longrightarrow> find_char c (a @ c # b) = Some (length a)"
proof -
  assume "c \<notin> set a"
  then have "\<And>x. x \<in> set a \<Longrightarrow> x \<noteq> c" by auto
  then have "takeWhile (\<lambda>x. x \<noteq> c) (a @ c # b) = a @ takeWhile (\<lambda>x. x \<noteq> c) (c # b)"
    by (rule takeWhile_append2)
  then show ?thesis by (simp add: find_char_def)
qed

text \<open>
  C8. The command name cannot confuse the parser of the process tree: whatever blanks and
  parentheses it holds, the name, the parent and the start time of a line the kernel writes
  are read exactly, the start time converted from ticks to nanoseconds.
\<close>

theorem parse_stat_text_kernel_line:
  assumes "state_char state" and "list_all in_llong ns" and "19 \<le> length ns"
  shows "parse_stat_text hz (stat_line pid comm state ns) =
    Some \<lparr>ps_comm = comm, ps_ppid = word_of_int (ns ! 0),
      ps_start_ns = word_of_int (ns ! 18) * 1000000000 div hz\<rparr>"
proof -
  let ?l = "stat_line pid comm state ns"
  let ?pre = "dec_of_nat pid @ [CHR '' '']"
  let ?tail = "CHR '' '' # state # num_fields ns @ [CHR 0x0A]"
  have l: "?l = ?pre @ CHR ''('' # comm @ CHR '')'' # ?tail" by (simp add: stat_line_def)
  have "CHR ''('' \<notin> set ?pre" using dec_of_nat_digits isdigit_chars by fastforce
  then have 1: "find_char (CHR ''('') ?l = Some (length ?pre)" unfolding l by (rule find_char_first)
  have "CHR '')'' \<notin> set ?tail"
    using state_char_facts [OF assms(1)] num_fields_chars isdigit_chars by fastforce
  then have 2: "rfind_char (CHR '')'') ?l = Some (length (?pre @ CHR ''('' # comm))"
    unfolding l using rfind_char_last [of "CHR '')''" ?tail "?pre @ CHR ''('' # comm"] by simp
  have tl: "drop (length (?pre @ CHR ''('' # comm) + 1) ?l = ?tail"
    using drop_behind [of "?pre @ CHR ''('' # comm" "CHR '')''" ?tail] unfolding l by (simp del: drop_append)
  have nl: "no_digit_start [CHR 0x0A]" by (simp add: no_digit_start_def char_class_defs)
  obtain p ms where ns: "ns = p # ms" using assms(3) by (cases ns) auto
  have nonsp: "\<not> c_isspace state" using state_char_facts [OF assms(1)] by blast
  have sp: "c_isspace (CHR '' '')" by (simp add: char_class_defs)
  have 3: "read_word ?tail = Some ([state], num_fields ns @ [CHR 0x0A])"
    using nonsp sp by (simp add: read_word_def ns num_fields_Cons)
  have 4: "read_llong (num_fields ns @ [CHR 0x0A]) = Some (p, num_fields ms @ [CHR 0x0A])"
    using assms(2) nl by (simp add: ns num_fields_Cons read_llong_dec no_digit_fields)
  have 5: "skip_llongs 17 (num_fields ms @ [CHR 0x0A]) = Some (num_fields (drop 17 ms) @ [CHR 0x0A])"
    using assms(2,3) nl by (intro skip_llongs_fields) (auto simp: ns)
  have d: "drop 17 ms = ms ! 17 # drop 18 ms" using assms(3) by (simp add: ns Cons_nth_drop_Suc [symmetric])
  have "in_llong (ms ! 17)" using assms(2,3) unfolding ns by (simp add: list_all_iff)
  then have 6: "read_llong (num_fields (drop 17 ms) @ [CHR 0x0A]) = Some (ms ! 17, num_fields (drop 18 ms) @ [CHR 0x0A])"
    using nl by (simp add: d num_fields_Cons read_llong_dec no_digit_fields)
  have comm: "take (length (?pre @ CHR ''('' # comm) - length ?pre - 1) (drop (length ?pre + 1) ?l) = comm"
    unfolding l by simp
  show ?thesis
    unfolding parse_stat_text_def 1 2 option.case tl 3 prod.case 4 5 6 comm
    by (simp add: ns)
qed

lemma parse_stat_text_kernel_line_witness:
  "parse_stat_text 100 (stat_line 42 ''a) S 9 (b'' CHR ''S'' (map int [7..<40])) =
    Some \<lparr>ps_comm = ''a) S 9 (b'', ps_ppid = word_of_int (map int [7..<40] ! 0),
      ps_start_ns = word_of_int (map int [7..<40] ! 18) * 1000000000 div 100\<rparr>"
proof (rule parse_stat_text_kernel_line)
  show "state_char CHR ''S''" by (simp add: state_char_def char_class_defs)
  show "list_all in_llong (map int [7..<40])" by (simp add: list_all_iff in_llong_def LLONG_MAX_def)
qed simp

section \<open>The two parsers\<close>

lemma blank_facts: "is_blank (CHR '' '')" "\<not> is_token_char (CHR '' '')" "\<not> is_token_char (CHR 0x0A)"
  "\<not> is_blank (CHR 0x0A)"
  by (simp_all add: is_blank_def is_token_char_def)

lemma dec_of_int_token: "c \<in> set (dec_of_int n) \<Longrightarrow> is_token_char c \<and> \<not> is_blank c"
  using dec_of_int_chars [of c n] isdigit_chars [of c] by (auto simp: is_token_char_def is_blank_def)

lemma dec_of_int_nonempty: "dec_of_int n \<noteq> []"
  by (simp add: dec_of_int_def)

lemma token_end:
  assumes "\<forall>c \<in> set w. is_token_char c" and "t = [] \<or> \<not> is_token_char (hd t)"
  shows "dropWhile is_token_char (w @ t) = t"
  using assms by (cases t) (auto simp: dropWhile_append)

lemma fields_end: "num_fields ns @ [CHR 0x0A] = [] \<or> \<not> is_token_char (hd (num_fields ns @ [CHR 0x0A]))"
  by (cases ns) (auto simp: num_fields_def blank_facts)

lemma stat_tokens_fields:
  "n \<le> length ns \<Longrightarrow> stat_tokens n (num_fields ns @ [CHR 0x0A]) =
     map (\<lambda>i. dec_of_int (ns ! i) @ num_fields (drop (i + 1) ns) @ [CHR 0x0A]) [0..<n]"
proof (induction n arbitrary: ns)
  case (Suc n)
  then obtain m ms where ns: "ns = m # ms" by (cases ns) auto
  let ?t = "num_fields ms @ [CHR 0x0A]"
  obtain c u where cu: "dec_of_int m = c # u" using dec_of_int_nonempty by (cases "dec_of_int m") auto
  then have c: "\<not> is_blank c" "c \<noteq> CHR 0x0A" using dec_of_int_token [of c m] by (auto simp: is_token_char_def)
  have "dropWhile is_blank (num_fields ns @ [CHR 0x0A]) = dec_of_int m @ ?t"
    using c cu by (simp add: ns num_fields_Cons blank_facts)
  moreover have "dropWhile is_token_char (dec_of_int m @ ?t) = ?t"
    using dec_of_int_token fields_end by (intro token_end) auto
  ultimately have "stat_tokens (Suc n) (num_fields ns @ [CHR 0x0A]) = (dec_of_int m @ ?t) # stat_tokens n ?t"
    using c cu by simp
  then show ?case using Suc by (simp add: ns upt_conv_Cons map_Suc_upt [symmetric] del: upt_Suc)
qed simp

lemma dec_of_int_parts:
  assumes "no_digit_start t"
  shows "0 \<le> n \<Longrightarrow> dropWhile c_isspace (dec_of_int n @ t) = dec_of_int n @ t \<and>
      hd (dec_of_int n @ t) \<noteq> CHR ''-'' \<and> hd (dec_of_int n @ t) \<noteq> CHR ''+'' \<and>
      takeWhile c_isdigit (dec_of_int n @ t) = dec_of_nat (nat n)"
    and "n < 0 \<Longrightarrow> dec_of_int n @ t = CHR ''-'' # dec_of_nat (nat (- n)) @ t \<and>
      takeWhile c_isdigit (dec_of_nat (nat (- n)) @ t) = dec_of_nat (nat (- n))"
proof -
  assume "0 \<le> n"
  then have n: "dec_of_int n = dec_of_nat (nat n)" by (simp add: dec_of_int_def)
  obtain c ds where c: "dec_of_nat (nat n) = c # ds" "c_isdigit c" using dec_of_nat_hd by blast
  then have "\<not> c_isspace c" "c \<noteq> CHR ''-''" "c \<noteq> CHR ''+''"
    using isalnum_not_space isdigit_isalnum isdigit_chars by blast+
  with c digits_prefix(1) [OF dec_of_nat_digits assms] show "dropWhile c_isspace (dec_of_int n @ t) = dec_of_int n @ t \<and>
      hd (dec_of_int n @ t) \<noteq> CHR ''-'' \<and> hd (dec_of_int n @ t) \<noteq> CHR ''+'' \<and>
      takeWhile c_isdigit (dec_of_int n @ t) = dec_of_nat (nat n)"
    unfolding n by (metis append_Cons dropWhile.simps(2) list.sel(1))
next
  assume "n < 0"
  with digits_prefix(1) [OF dec_of_nat_digits assms]
  show "dec_of_int n @ t = CHR ''-'' # dec_of_nat (nat (- n)) @ t \<and>
      takeWhile c_isdigit (dec_of_nat (nat (- n)) @ t) = dec_of_nat (nat (- n))"
    by (simp add: dec_of_int_def)
qed

lemma strtol_dec: "in_llong n \<Longrightarrow> no_digit_start t \<Longrightarrow> strtol_10 (dec_of_int n @ t) = n"
proof -
  assume n: "in_llong n" and t: "no_digit_start t"
  have minus: "\<not> c_isspace (CHR ''-'')" by (simp add: char_class_defs)
  show ?thesis
  proof (cases "n < 0")
    case True
    from dec_of_int_parts(2) [OF t True] minus True n show ?thesis
      by (simp add: strtol_10_def Let_def in_llong_def)
  next
    case False
    with dec_of_int_parts(1) [OF t, of n] n dec_of_int_nonempty [of n] show ?thesis
      by (simp add: strtol_10_def Let_def in_llong_def)
  qed
qed

lemma read_ulong_dec: "0 \<le> n \<Longrightarrow> in_llong n \<Longrightarrow> no_digit_start t \<Longrightarrow> read_ulong (dec_of_int n @ t) = word_of_int n"
proof -
  assume n: "0 \<le> n" "in_llong n" and t: "no_digit_start t"
  have "\<not> 2 ^ 64 \<le> nat n" using n by (simp add: in_llong_def LLONG_MAX_def nat_le_iff)
  with dec_of_int_parts(1) [OF t n(1)] n dec_of_int_nonempty [of n] show ?thesis
    by (simp add: read_ulong_def Let_def)
qed

text \<open>
  C15. The two hand-written parsers of \<open>/proc/<pid>/stat\<close> agree: on a line the kernel writes
  that fits the buffer, the whitelist reads the parent the process tree reads, and the start
  time in ticks whose conversion is the start time of the process tree.
\<close>

theorem stat_parsers_agree:
  assumes "state_char state" and "list_all in_llong ns" and "19 \<le> length ns" and "0 \<le> ns ! 18"
    and "NUL \<notin> set comm" and "length (stat_line pid comm state ns) \<le> 4095"
  shows "\<exists>ps info. parse_stat_text hz (stat_line pid comm state ns) = Some ps \<and>
    parse_stat_buffer (stat_line pid comm state ns) = Some info \<and>
    word_of_int (psi_ppid info) = ps_ppid ps \<and>
    ps_start_ns ps = psi_start_time info * 1000000000 div hz"
proof -
  let ?l = "stat_line pid comm state ns"
  let ?a = "dec_of_nat pid @ CHR '' '' # CHR ''('' # comm"
  let ?tail = "CHR '' '' # state # num_fields ns @ [CHR 0x0A]"
  have l: "?l = ?a @ CHR '')'' # ?tail" by (simp add: stat_line_def)
  have dig: "\<forall>c \<in> set (dec_of_nat pid). c \<noteq> NUL" using dec_of_nat_digits isdigit_chars by blast
  have fields: "\<forall>c \<in> set (num_fields ns). c \<noteq> NUL" using num_fields_chars isdigit_chars by fastforce
  have "NUL \<notin> set ?l" unfolding l using dig fields assms(5) state_char_facts [OF assms(1)] by auto
  then have buf: "c_str (take 4095 ?l) = ?l" using assms(6) by (simp add: c_str_def) (metis takeWhile_eq_all_conv)
  have "CHR '')'' \<notin> set ?tail"
    using state_char_facts [OF assms(1)] num_fields_chars isdigit_chars by fastforce
  then have r: "rfind_char (CHR '')'') ?l = Some (length ?a)" unfolding l by (rule rfind_char_last)
  have tl: "drop (length ?a + 1) ?l = ?tail" unfolding l by (rule drop_behind)
  have st: "\<not> is_blank state" "is_token_char state" "state \<noteq> CHR 0x0A" using state_char_facts [OF assms(1)] by auto
  have "dropWhile is_token_char (state # num_fields ns @ [CHR 0x0A]) = num_fields ns @ [CHR 0x0A]"
    using token_end [of "[state]", OF _ fields_end] st by simp
  then have toks: "stat_tokens 20 ?tail = (state # num_fields ns @ [CHR 0x0A]) # stat_tokens 19 (num_fields ns @ [CHR 0x0A])"
    using st blank_facts by (simp add: numeral_eq_Suc)
  note fs = stat_tokens_fields [OF assms(3)]
  have nd: "no_digit_start (num_fields ms @ [CHR 0x0A])" for ms
    by (intro no_digit_fields) (simp add: no_digit_start_def char_class_defs)
  have ll: "in_llong (ns ! 0)" "in_llong (ns ! 18)" 
  proof -
    have "0 < length ns" "18 < length ns" using assms(3) by linarith+
    then show "in_llong (ns ! 0)" "in_llong (ns ! 18)" using assms(2) nth_mem unfolding list_all_iff by blast+
  qed
  have t1: "stat_tokens 20 ?tail ! 1 = dec_of_int (ns ! 0) @ num_fields (drop 1 ns) @ [CHR 0x0A]"
    unfolding toks fs by simp
  have t19: "stat_tokens 20 ?tail ! 19 = dec_of_int (ns ! 18) @ num_fields (drop 19 ns) @ [CHR 0x0A]"
    unfolding toks fs by simp
  have len: "length (stat_tokens 20 ?tail) = 20" unfolding toks fs by simp
  have "parse_stat_buffer ?l = Some \<lparr>psi_ppid = sint (word_of_int (ns ! 0) :: u32),
      psi_start_time = word_of_int (ns ! 18)\<rparr>"
    unfolding parse_stat_buffer_def buf Let_def r option.case tl t1 t19 len
    using strtol_dec [OF ll(1) nd] read_ulong_dec [OF assms(4) ll(2) nd] by (simp add: stat_line_def)
  with parse_stat_text_kernel_line [OF assms(1-3)] show ?thesis by simp
qed

lemma stat_parsers_agree_witness:
  "\<exists>ps info. parse_stat_text 100 (stat_line 42 ''sh'' CHR ''S'' (map int [7..<40])) = Some ps \<and>
    parse_stat_buffer (stat_line 42 ''sh'' CHR ''S'' (map int [7..<40])) = Some info \<and>
    word_of_int (psi_ppid info) = ps_ppid ps \<and> ps_start_ns ps = psi_start_time info * 1000000000 div 100"
proof (rule stat_parsers_agree)
  show "state_char CHR ''S''" by (simp add: state_char_def char_class_defs)
  show "list_all in_llong (map int [7..<40])" by (simp add: list_all_iff in_llong_def LLONG_MAX_def)
  show "length (stat_line 42 ''sh'' CHR ''S'' (map int [7..<40])) \<le> 4095" by code_simp
qed simp_all

section \<open>Container identifiers\<close>

lemma id_after_mark_form: "id_after_mark line mark = Some cid \<Longrightarrow> length cid = 12 \<and> list_all id_char cid"
proof -
  assume "id_after_mark line mark = Some cid"
  then obtain i where cid: "cid = take 12 (drop (i + length mark) line)"
    and n: "12 \<le> length (takeWhile id_char (take 64 (drop (i + length mark) line)))"
    by (auto simp: id_after_mark_def Let_def split: option.splits if_splits)
  let ?p = "drop (i + length mark) line"
  have "take 12 ?p = take 12 (takeWhile id_char (take 64 ?p))"
  proof -
    have "take 12 (take m (take 64 ?p)) = take 12 ?p" if "12 \<le> m" for m
      using that by (simp add: min_def)
    from this [OF n] show ?thesis by (simp only: takeWhile_eq_take [symmetric])
  qed
  moreover have "list_all id_char (takeWhile id_char (take 64 ?p))"
    by (auto simp: list_all_iff dest: set_takeWhileD)
  ultimately show ?thesis using n cid by (auto simp: list_all_iff dest: in_set_takeD)
qed

lemma first_some_in: "first_some f xs = Some y \<Longrightarrow> \<exists>x \<in> set xs. f x = Some y"
  by (induction xs) (auto split: option.splits)

lemma container_id_form: "container_id_of fs pid = [] \<or> (length (container_id_of fs pid) = 12 \<and> list_all id_char (container_id_of fs pid))"
  using id_after_mark_form by (auto simp: container_id_of_def id_in_line_def split: option.splits dest!: first_some_in)

end
