(* ===== verification/Mon_Rule.thy ===== *)
theory Mon_Rule
  imports Prelude
begin

text \<open>
  The file monitoring rules of the configuration (\<open>src/src/cli/baseline.hpp\<close>), with the
  numbers of actions, severities and file events that the kernel programs and the agent share
  (\<open>src/bpf/event.h\<close>).
\<close>

section \<open>Shared numbers\<close>

definition ACTION_LOG :: u8 where "ACTION_LOG = 0"
definition ACTION_ALERT :: u8 where "ACTION_ALERT = 1"
definition ACTION_THROTTLE :: u8 where "ACTION_THROTTLE = 2"
definition ACTION_BLOCK :: u8 where "ACTION_BLOCK = 3"
definition ACTION_KILL :: u8 where "ACTION_KILL = 4"

definition EVENT_READ :: u8 where "EVENT_READ = 1"
definition EVENT_WRITE :: u8 where "EVENT_WRITE = 2"
definition EVENT_CHMOD :: u8 where "EVENT_CHMOD = 3"
definition EVENT_CHOWN :: u8 where "EVENT_CHOWN = 4"
definition EVENT_UNLINK :: u8 where "EVENT_UNLINK = 5"
definition EVENT_RENAME :: u8 where "EVENT_RENAME = 6"
definition EVENT_MMAP :: u8 where "EVENT_MMAP = 7"

definition EVENT_MASK_BIT :: "u8 \<Rightarrow> u8" where
  "EVENT_MASK_BIT e = (if e \<le> 2 then e else push_bit (unat e) 1)"

definition SEVERITY_LOW :: u8 where "SEVERITY_LOW = 0"
definition SEVERITY_MEDIUM :: u8 where "SEVERITY_MEDIUM = 1"
definition SEVERITY_HIGH :: u8 where "SEVERITY_HIGH = 2"
definition SEVERITY_CRITICAL :: u8 where "SEVERITY_CRITICAL = 3"
definition SEVERITY_UNKNOWN :: u8 where "SEVERITY_UNKNOWN = - 1"

lemmas action_defs = ACTION_LOG_def ACTION_ALERT_def ACTION_THROTTLE_def ACTION_BLOCK_def ACTION_KILL_def
lemmas event_defs = EVENT_READ_def EVENT_WRITE_def EVENT_CHMOD_def EVENT_CHOWN_def EVENT_UNLINK_def
  EVENT_RENAME_def EVENT_MMAP_def
lemmas severity_defs = SEVERITY_LOW_def SEVERITY_MEDIUM_def SEVERITY_HIGH_def SEVERITY_CRITICAL_def
  SEVERITY_UNKNOWN_def

section \<open>Monitoring rules\<close>

datatype Action = ACT_LOG | ACT_ALERT | ACT_THROTTLE | ACT_BLOCK | ACT_KILL | ACT_UNKNOWN

record WhitelistEntry =
  we_exe :: string
  we_parent_chain :: "string list"

record MonRule =
  mr_id :: string
  mr_severity :: u8
  mr_name :: string
  mr_ino :: u64
  has_check :: bool
  check_types :: "string list"
  check_path :: string
  check_expected :: u32
  check_hash :: string
  check_on_failure :: string
  has_check_hash :: bool
  check_param :: string
  check_operator :: string
  check_expected_value :: int
  has_monitor :: bool
  monitor_path :: string
  monitor_events :: "string list"
  monitor_action :: Action
  monitor_read :: bool
  monitor_write :: bool
  monitor_delete :: bool
  monitor_chmod :: bool
  monitor_chown :: bool
  mr_whitelist :: "WhitelistEntry list"

definition empty_rule :: MonRule where
  "empty_rule = \<lparr>mr_id = [], mr_severity = SEVERITY_MEDIUM, mr_name = [], mr_ino = 0, has_check = False,
     check_types = [], check_path = [], check_expected = 0, check_hash = [],
     check_on_failure = ''report_only'', has_check_hash = False, check_param = [],
     check_operator = [], check_expected_value = 0, has_monitor = False, monitor_path = [],
     monitor_events = [], monitor_action = ACT_UNKNOWN, monitor_read = False,
     monitor_write = False, monitor_delete = False, monitor_chmod = False,
     monitor_chown = False, mr_whitelist = []\<rparr>"

end
