(* ===== verification/Whitelist.thy ===== *)
theory Whitelist
  imports Mon_Rule Proc_Fs Lru "HOL-Library.AList"
begin

text \<open>
  Process whitelists (\<open>src/src/baseline/whitelist.hpp\<close> and \<open>.cpp\<close>). The table is an association list keyed by
  rule id. The cache is the recency list of keys with their answers, and the keys of the
  index; an index entry stands for the occurrence of its key in the list. A call is modelled
  as one step: its two critical sections are not interleaved with other calls.
\<close>

section \<open>The table\<close>

type_synonym WhitelistTable = "(string \<times> WhitelistEntry list) list"

definition table_entries :: "WhitelistTable \<Rightarrow> string \<Rightarrow> WhitelistEntry list" where
  "table_entries t rid = (case map_of t rid of None \<Rightarrow> [] | Some es \<Rightarrow> es)"

definition build_table :: "MonRule list \<Rightarrow> WhitelistTable" where
  "build_table rules =
     fold (\<lambda>rule t. if mr_whitelist rule = [] then t
                    else AList.update (mr_id rule)
                      (fold (\<lambda>we es. es @ [we]) (mr_whitelist rule) (table_entries t (mr_id rule))) t)
       rules []"

definition entry_matches :: "WhitelistEntry \<Rightarrow> string \<Rightarrow> string list \<Rightarrow> bool" where
  "entry_matches e exe ancestors \<longleftrightarrow>
     we_exe e = exe \<and>
     (we_parent_chain e = [] \<or>
      list_ex (\<lambda>anc. list_ex (\<lambda>pc. anc = pc) (we_parent_chain e)) ancestors)"

definition table_match :: "WhitelistTable \<Rightarrow> MonRule \<Rightarrow> string \<Rightarrow> string list \<Rightarrow> bool" where
  "table_match t rule exe ancestors =
     (case map_of t (mr_id rule) of
        None \<Rightarrow> False
      | Some es \<Rightarrow> list_ex (\<lambda>e. entry_matches e exe ancestors) es)"

section \<open>The matcher\<close>

type_synonym CacheKey = "int \<times> u64"

definition kMaxCacheSize :: nat where "kMaxCacheSize = 1024"

record WhitelistMatcher =
  wl_lru :: "(CacheKey \<times> bool) list"
  wl_cache :: "CacheKey list"
  suppressed :: "(string \<times> u64) list"

definition new_matcher :: WhitelistMatcher where
  "new_matcher = \<lparr>wl_lru = [], wl_cache = [], suppressed = []\<rparr>"

definition count_suppressed :: "string \<Rightarrow> WhitelistMatcher \<Rightarrow> WhitelistMatcher" where
  "count_suppressed rid m =
     m\<lparr>suppressed := AList.update rid ((case map_of (suppressed m) rid of None \<Rightarrow> 0 | Some n \<Rightarrow> n) + 1) (suppressed m)\<rparr>"

text \<open>\<open>cache_.find(key)\<close> and the answer its iterator leads to.\<close>

definition cache_find :: "WhitelistMatcher \<Rightarrow> CacheKey \<Rightarrow> bool option" where
  "cache_find m key = (if key \<in> set (wl_cache m) then map_of (wl_lru m) key else None)"

definition splice_front :: "CacheKey \<Rightarrow> bool \<Rightarrow> WhitelistMatcher \<Rightarrow> WhitelistMatcher" where
  "splice_front key hit m = m\<lparr>wl_lru := (key, hit) # AList.delete key (wl_lru m)\<rparr>"

function trim_cache :: "WhitelistMatcher \<Rightarrow> WhitelistMatcher" where
  "trim_cache m =
     (if length (wl_cache m) \<le> kMaxCacheSize \<or> wl_lru m = [] then m
      else trim_cache (m\<lparr>wl_lru := butlast (wl_lru m),
             wl_cache := removeAll (fst (last (wl_lru m))) (wl_cache m)\<rparr>))"
  by pat_completeness auto
termination by (relation "measure (\<lambda>m. length (wl_lru m))") auto

declare trim_cache.simps [simp del]

definition cache_put :: "CacheKey \<Rightarrow> bool \<Rightarrow> WhitelistMatcher \<Rightarrow> WhitelistMatcher" where
  "cache_put key hit m =
     (if cache_find m key \<noteq> None then splice_front key hit m
      else trim_cache (m\<lparr>wl_lru := (key, hit) # wl_lru m, wl_cache := List.insert key (wl_cache m)\<rparr>))"

text \<open>\<open>match_resolved\<close>: the answer and the matcher afterwards; \<open>out_exe\<close> is always set to
  \<open>exe\<close>.\<close>

definition match_resolved ::
  "WhitelistTable \<Rightarrow> MonRule \<Rightarrow> int \<Rightarrow> u64 \<Rightarrow> string \<Rightarrow> string list \<Rightarrow> bool \<Rightarrow> WhitelistMatcher \<Rightarrow>
     bool \<times> WhitelistMatcher" where
  "match_resolved table rule pid start_time exe ancestors cacheable m =
     (let key = (pid, start_time)
      in case (if cacheable then cache_find m key else None) of
           Some hit \<Rightarrow>
             (let m = splice_front key hit m
              in (hit, if hit then count_suppressed (mr_id rule) m else m))
         | None \<Rightarrow>
             (let hit = table_match table rule exe ancestors;
                  m = (if cacheable then cache_put key hit m else m)
              in (hit, if hit then count_suppressed (mr_id rule) m else m)))"

fun collect_ancestors :: "nat \<Rightarrow> ProcFs \<Rightarrow> int list \<Rightarrow> int \<Rightarrow> string list" where
  "collect_ancestors 0 fs visited cur = []"
| "collect_ancestors (Suc depth) fs visited cur =
     (if cur \<le> 0 then []
      else if cur \<in> set visited then []
      else (let aexe = exe_path_of fs cur
            in if aexe = [] then []
               else aexe # (case parse_proc_stat fs cur of
                              None \<Rightarrow> []
                            | Some psi \<Rightarrow> collect_ancestors depth fs (cur # visited) (psi_ppid psi))))"

definition match_proc :: "ProcFs \<Rightarrow> WhitelistTable \<Rightarrow> MonRule \<Rightarrow> int \<Rightarrow> WhitelistMatcher \<Rightarrow> bool \<times> WhitelistMatcher" where
  "match_proc fs table rule pid m =
     (if pid \<le> 0 then (False, m)
      else (case parse_proc_stat fs pid of
              None \<Rightarrow> (False, m)
            | Some psi \<Rightarrow>
               (let exe = exe_path_of fs pid
                in if exe = [] then (False, m)
                   else match_resolved table rule pid (psi_start_time psi) exe
                          (collect_ancestors 8 fs [pid] (psi_ppid psi)) True m)))"

definition match_known ::
  "WhitelistTable \<Rightarrow> MonRule \<Rightarrow> int \<Rightarrow> u64 \<Rightarrow> string \<Rightarrow> string list \<Rightarrow> WhitelistMatcher \<Rightarrow> bool \<times> WhitelistMatcher" where
  "match_known table rule pid start_time known_exe known_ancestors m =
     (if pid \<le> 0 \<or> known_exe = [] then (False, m)
      else match_resolved table rule pid start_time known_exe known_ancestors (start_time \<noteq> 0) m)"

definition clear_cache :: "WhitelistMatcher \<Rightarrow> WhitelistMatcher" where
  "clear_cache m = m\<lparr>wl_lru := [], wl_cache := []\<rparr>"

definition get_and_reset_suppressed :: "WhitelistMatcher \<Rightarrow> (string \<times> u64) list \<times> WhitelistMatcher" where
  "get_and_reset_suppressed m = (suppressed m, m\<lparr>suppressed := []\<rparr>)"

definition cache_size :: "WhitelistMatcher \<Rightarrow> nat" where
  "cache_size m = length (wl_cache m)"

end
