(* ===== verification/Whitelist_Correct.thy ===== *)
theory Whitelist_Correct
  imports Whitelist
begin

text \<open>
  Correctness of the process whitelists: the meaning of the table, the cache as a bounded
  recency map (the interpretation \<open>wl_cache\<close> of \<open>lru_map\<close>), the account of suppressed alerts
  over sequences of calls, and what an answer depends on.
\<close>

section \<open>The table\<close>

lemma table_entries_build:
  "table_entries (build_table rules) rid = concat (map mr_whitelist (filter (\<lambda>r. mr_id r = rid) rules))"
proof -
  have push: "fold (\<lambda>we es. es @ [we]) ws es = es @ ws" for ws es :: "WhitelistEntry list"
    by (induction ws arbitrary: es) auto
  have "table_entries (fold (\<lambda>rule t. if mr_whitelist rule = [] then t
                    else AList.update (mr_id rule)
                      (fold (\<lambda>we es. es @ [we]) (mr_whitelist rule) (table_entries t (mr_id rule))) t) rules t) rid
      = table_entries t rid @ concat (map mr_whitelist (filter (\<lambda>r. mr_id r = rid) rules))" for t
    by (induction rules arbitrary: t) (auto simp: push, auto simp: table_entries_def update_conv')
  from this [of "[]"] show ?thesis by (simp add: build_table_def table_entries_def)
qed

lemma table_match_entries: "table_match t rule exe ancestors =
    list_ex (\<lambda>e. entry_matches e exe ancestors) (table_entries t (mr_id rule))"
  by (simp add: table_match_def table_entries_def split: option.splits)

section \<open>The cache\<close>

definition cache_ok :: "WhitelistMatcher \<Rightarrow> bool" where
  "cache_ok m \<longleftrightarrow> distinct (map fst (wl_lru m)) \<and> distinct (wl_cache m) \<and>
     set (wl_cache m) = fst ` set (wl_lru m) \<and> length (wl_lru m) \<le> kMaxCacheSize"

lemma cache_ok_lengths: "cache_ok m \<Longrightarrow> length (wl_cache m) = length (wl_lru m)"
  unfolding cache_ok_def by (metis distinct_card length_map list.set_map)

lemma cache_find_ok: "cache_ok m \<Longrightarrow> cache_find m key = map_of (wl_lru m) key"
  using map_of_eq_None_iff [of "wl_lru m" key] by (auto simp: cache_find_def cache_ok_def)

lemma map_fst_delete: "distinct (map fst xs) \<Longrightarrow> map fst (AList.delete k xs) = remove1 k (map fst xs)"
  by (simp add: AList.delete_keys distinct_remove1_removeAll)

lemma cache_ok_splice:
  assumes "cache_ok m" and "cache_find m key \<noteq> None"
  shows "cache_ok (splice_front key hit m)"
proof -
  have d: "distinct (map fst (wl_lru m))" using assms(1) by (simp add: cache_ok_def)
  have k: "key \<in> set (map fst (wl_lru m))"
    using assms by (metis cache_find_ok map_of_eq_None_iff set_map)
  have keys: "map fst (wl_lru (splice_front key hit m)) = to_front key (map fst (wl_lru m))"
    by (simp add: splice_front_def to_front_def map_fst_delete [OF d])
  then have "set (map fst (wl_lru (splice_front key hit m))) = set (map fst (wl_lru m))"
    and "distinct (map fst (wl_lru (splice_front key hit m)))"
    using k by (simp_all only: set_to_front [OF d] distinct_to_front [OF d] insert_absorb)
  moreover have "length (map fst (wl_lru (splice_front key hit m))) = length (map fst (wl_lru m))"
    by (simp only: keys length_to_front [OF k])
  ultimately show ?thesis using assms(1) by (simp add: cache_ok_def splice_front_def)
qed

text \<open>Trimming after one insertion drops at most the last entry.\<close>

lemma trim_cache_small: "length (wl_cache m) \<le> kMaxCacheSize \<Longrightarrow> trim_cache m = m"
  by (simp add: trim_cache.simps)

lemma trim_cache_one:
  assumes "distinct (map fst (wl_lru m))" and "distinct (wl_cache m)"
    and "set (wl_cache m) = fst ` set (wl_lru m)" and "length (wl_lru m) \<le> Suc kMaxCacheSize"
  shows "cache_ok (trim_cache m) \<and> wl_lru (trim_cache m) = take kMaxCacheSize (wl_lru m)"
proof -
  have len: "length (wl_cache m) = length (wl_lru m)"
    using assms(1-3) by (metis distinct_card length_map list.set_map)
  show ?thesis
  proof (cases "length (wl_lru m) \<le> kMaxCacheSize")
    case True
    with len assms show ?thesis by (simp add: trim_cache_small cache_ok_def)
  next
    case False
    with assms(4) have full: "length (wl_lru m) = Suc kMaxCacheSize" by simp
    obtain xs p where split: "wl_lru m = xs @ [p]" using full by (metis length_Suc_conv_rev)
    let ?m = "m\<lparr>wl_lru := xs, wl_cache := removeAll (fst p) (wl_cache m)\<rparr>"
    have p: "fst p \<in> set (wl_cache m)" "fst p \<notin> fst ` set xs" "distinct (map fst xs)"
      using assms(1,3) split by auto
    have lens: "length xs = kMaxCacheSize" "length (wl_cache ?m) = kMaxCacheSize"
      using full split len p(1) assms(2)
      by (simp_all add: distinct_remove1_removeAll [symmetric] length_remove1)
    have "trim_cache m = ?m"
      using len full split lens(2) by (subst trim_cache.simps) (simp add: trim_cache_small)
    moreover have "cache_ok ?m"
      using assms(2,3) split p lens by (auto simp: cache_ok_def distinct_removeAll)
    ultimately show ?thesis using split lens(1) by simp
  qed
qed

lemma cache_put_lru:
  assumes ok: "cache_ok m"
  shows "cache_ok (cache_put key hit m) \<and> wl_lru (cache_put key hit m) =
    take kMaxCacheSize ((key, hit) # AList.delete key (wl_lru m))"
proof (cases "cache_find m key = None")
  case True
  then have nk: "key \<notin> fst ` set (wl_lru m)" using ok by (simp add: cache_find_ok map_of_eq_None_iff)
  then have "AList.delete key (wl_lru m) = wl_lru m"
    by (force simp: AList.delete_eq filter_id_conv)
  moreover have "cache_put key hit m = trim_cache (m\<lparr>wl_lru := (key, hit) # wl_lru m, wl_cache := key # wl_cache m\<rparr>)"
    using True nk ok by (simp add: cache_put_def cache_ok_def)
  moreover have "cache_ok (trim_cache (m\<lparr>wl_lru := (key, hit) # wl_lru m, wl_cache := key # wl_cache m\<rparr>))
      \<and> wl_lru (trim_cache (m\<lparr>wl_lru := (key, hit) # wl_lru m, wl_cache := key # wl_cache m\<rparr>))
        = take kMaxCacheSize ((key, hit) # wl_lru m)"
    using trim_cache_one [of "m\<lparr>wl_lru := (key, hit) # wl_lru m, wl_cache := key # wl_cache m\<rparr>"] nk
      ok [unfolded cache_ok_def] by simp
  ultimately show ?thesis by simp
next
  case False
  have "length (wl_lru (splice_front key hit m)) \<le> kMaxCacheSize"
    using cache_ok_splice [OF ok False] by (simp add: cache_ok_def)
  with False cache_ok_splice [OF ok False] show ?thesis
    by (simp add: cache_put_def) (simp add: splice_front_def)
qed

lemma map_of_take_distinct: "distinct (map fst xs) \<Longrightarrow>
    map_of (take n xs) k = (if k \<in> set (take n (map fst xs)) then map_of xs k else None)"
proof (induction xs arbitrary: n)
  case (Cons p xs)
  then show ?case by (cases n) (auto simp: take_map dest: in_set_takeD)
qed simp

interpretation wl_cache: lru_map cache_ok "\<lambda>m. map fst (wl_lru m)" cache_find cache_put kMaxCacheSize
proof
  show "0 < kMaxCacheSize" by (simp add: kMaxCacheSize_def)
next
  fix m k assume ok: "cache_ok m"
  show "cache_find m k \<noteq> None \<longleftrightarrow> k \<in> set (map fst (wl_lru m))"
    by (simp add: cache_find_ok [OF ok] map_of_eq_None_iff)
next
  fix m k v j assume ok: "cache_ok m"
  let ?xs = "(k, v) # AList.delete k (wl_lru m)"
  have d: "distinct (map fst (wl_lru m))" using ok by (simp add: cache_ok_def)
  have keys: "map fst ?xs = to_front k (map fst (wl_lru m))"
    by (simp add: to_front_def map_fst_delete [OF d])
  then have dx: "distinct (map fst ?xs)" by (simp only: distinct_to_front [OF d])
  show "cache_ok (cache_put k v m)" using cache_put_lru [OF ok] by blast
  have "wl_lru (cache_put k v m) = take kMaxCacheSize ?xs" using cache_put_lru [OF ok] by blast
  then show "map fst (wl_lru (cache_put k v m)) = take kMaxCacheSize (to_front k (map fst (wl_lru m)))"
    by (metis keys take_map)
  show "cache_find (cache_put k v m) j =
      (if j = k then Some v else if j \<in> set (map fst (wl_lru (cache_put k v m))) then cache_find m j else None)"
  proof -
    have "cache_find (cache_put k v m) j = map_of (take kMaxCacheSize ?xs) j"
      using cache_put_lru [OF ok, of k v] cache_find_ok by metis
    moreover have "map fst (wl_lru (cache_put k v m)) = take kMaxCacheSize (map fst ?xs)"
      using cache_put_lru [OF ok] by (metis take_map)
    moreover have "k \<in> set (take kMaxCacheSize (map fst ?xs))"
      by (simp add: kMaxCacheSize_def)
    ultimately show ?thesis
      using map_of_take_distinct [OF dx, of kMaxCacheSize j]
      by (simp add: cache_find_ok [OF ok] AList.delete_conv')
  qed
qed (simp_all add: cache_ok_def)


section \<open>One call\<close>

text \<open>The cache part of a matcher: counting leaves it alone.\<close>

definition strip :: "WhitelistMatcher \<Rightarrow> WhitelistMatcher" where
  "strip m = m\<lparr>suppressed := []\<rparr>"

definition granted_count :: "WhitelistMatcher \<Rightarrow> string \<Rightarrow> u64" where
  "granted_count m rid = (case map_of (suppressed m) rid of None \<Rightarrow> 0 | Some n \<Rightarrow> n)"

lemma strip_simps [simp]: "cache_ok (strip m) = cache_ok m" "cache_find (strip m) k = cache_find m k"
  "strip (count_suppressed rid m) = strip m" "wl_lru (strip m) = wl_lru m" "strip (strip m) = strip m"
  by (simp_all add: strip_def cache_ok_def cache_find_def count_suppressed_def)

lemma update_order: "m\<lparr>suppressed := s, wl_lru := l, wl_cache := c\<rparr> = m\<lparr>wl_lru := l, wl_cache := c, suppressed := s\<rparr>"
  for m :: WhitelistMatcher
  by (cases m) simp

lemma update_order2: "m\<lparr>suppressed := s, wl_lru := l\<rparr> = m\<lparr>wl_lru := l, suppressed := s\<rparr>"
  for m :: WhitelistMatcher
  by (cases m) simp

lemma trim_cache_suppressed: "trim_cache (m\<lparr>suppressed := s\<rparr>) = (trim_cache m)\<lparr>suppressed := s\<rparr>"
proof (induction m rule: trim_cache.induct)
  case (1 m)
  then show ?case
    by (cases "length (wl_cache m) \<le> kMaxCacheSize \<or> wl_lru m = []")
       (simp_all add: trim_cache.simps [of m] trim_cache.simps [of "m\<lparr>suppressed := s\<rparr>"] update_order)
qed

lemma trim_cache_keeps_suppressed: "suppressed (trim_cache m) = suppressed m"
proof (induction m rule: trim_cache.induct)
  case (1 m)
  then show ?case by (subst trim_cache.simps) simp
qed

lemma strip_put: "strip (cache_put key hit m) = cache_put key hit (strip m)"
proof (cases "cache_find m key")
  case None
  then have "cache_find (strip m) key = None" by simp
  then have "cache_put key hit (strip m) = trim_cache (m\<lparr>wl_lru := (key, hit) # wl_lru m,
      wl_cache := List.insert key (wl_cache m), suppressed := []\<rparr>)"
    by (simp add: cache_put_def del: strip_simps) (simp add: strip_def update_order)
  with None show ?thesis by (simp add: cache_put_def strip_def trim_cache_suppressed)
next
  case (Some h)
  then have "cache_find (strip m) key = Some h" by simp
  with Some show ?thesis
    by (simp add: cache_put_def del: strip_simps) (simp add: strip_def splice_front_def update_order2)
qed

lemma suppressed_put [simp]: "suppressed (cache_put key hit m) = suppressed m"
  "suppressed (splice_front key hit m) = suppressed m"
  by (simp_all add: cache_put_def splice_front_def trim_cache_keeps_suppressed)

lemma granted_count_simps [simp]:
  "granted_count (count_suppressed rid m) r = granted_count m r + (if r = rid then 1 else 0)"
  "granted_count (cache_put key hit m) r = granted_count m r"
  "granted_count (splice_front key hit m) r = granted_count m r"
  by (simp_all add: granted_count_def count_suppressed_def AList.update_conv')

definition answer_of :: "WhitelistTable \<Rightarrow> MonRule \<Rightarrow> CacheKey \<Rightarrow> string \<Rightarrow> string list \<Rightarrow> bool \<Rightarrow> WhitelistMatcher \<Rightarrow> bool" where
  "answer_of table rule key exe ancestors cacheable m =
     (case (if cacheable then cache_find m key else None) of
        Some hit \<Rightarrow> hit | None \<Rightarrow> table_match table rule exe ancestors)"

text \<open>A resolved call answers from the cache or else from the table, stores the answer under
  the key when the call is cacheable, and counts a positive answer.\<close>

lemma match_resolved_answer:
  "fst (match_resolved table rule pid st exe anc c m) = answer_of table rule (pid, st) exe anc c m"
  by (simp add: match_resolved_def answer_of_def Let_def split: option.splits)

lemma match_resolved_cache:
  "strip (snd (match_resolved table rule pid st exe anc c m)) =
     (if c then cache_put (pid, st) (answer_of table rule (pid, st) exe anc c m) (strip m) else strip m)"
proof (cases "cache_find m (pid, st)")
  case (Some h)
  then have "splice_front (pid, st) h m = cache_put (pid, st) h m" by (simp add: cache_put_def)
  with Some show ?thesis by (simp add: match_resolved_def answer_of_def Let_def strip_put)
qed (simp add: match_resolved_def answer_of_def Let_def strip_put)

lemma match_resolved_count:
  "granted_count (snd (match_resolved table rule pid st exe anc c m)) r =
     granted_count m r + (if r = mr_id rule \<and> fst (match_resolved table rule pid st exe anc c m) then 1 else 0)"
  by (simp add: match_resolved_def Let_def split: option.splits)


section \<open>Sequences of calls\<close>

datatype MatchOp =
    MatchPid WhitelistTable ProcFs MonRule int
  | MatchKnown WhitelistTable MonRule int u64 string "string list"
  | DropCache
  | TakeSuppressed

text \<open>An operation yields the rule ids whose alert it suppresses, the counts it reports and the
  matcher afterwards.\<close>

fun match_step :: "MatchOp \<Rightarrow> WhitelistMatcher \<Rightarrow> string list \<times> (string \<times> u64) list \<times> WhitelistMatcher" where
  "match_step (MatchPid table fs rule pid) m =
     (case match_proc fs table rule pid m of (hit, m') \<Rightarrow> (if hit then [mr_id rule] else [], [], m'))"
| "match_step (MatchKnown table rule pid st exe anc) m =
     (case match_known table rule pid st exe anc m of (hit, m') \<Rightarrow> (if hit then [mr_id rule] else [], [], m'))"
| "match_step DropCache m = ([], [], clear_cache m)"
| "match_step TakeSuppressed m = (case get_and_reset_suppressed m of (counts, m') \<Rightarrow> ([], counts, m'))"

fun match_run :: "MatchOp list \<Rightarrow> WhitelistMatcher \<Rightarrow> string list \<times> (string \<times> u64) list \<times> WhitelistMatcher" where
  "match_run [] m = ([], [], m)"
| "match_run (op # ops) m =
     (case match_step op m of (g, r, m') \<Rightarrow> case match_run ops m' of (g', r', m'') \<Rightarrow> (g @ g', r @ r', m''))"

definition reported :: "string \<Rightarrow> (string \<times> u64) list \<Rightarrow> u64" where
  "reported rid counts = sum_list (map snd (filter (\<lambda>(r, n). r = rid) counts))"

lemma reported_append [simp]: "reported rid (a @ b) = reported rid a + reported rid b"
  by (simp add: reported_def)

lemma reported_Nil [simp]: "reported rid [] = 0"
  by (simp add: reported_def)

lemma reported_counts: "distinct (map fst s) \<Longrightarrow>
    reported rid s = (case map_of s rid of None \<Rightarrow> 0 | Some n \<Rightarrow> n)"
proof (induction s)
  case (Cons p s)
  have "filter (\<lambda>(r, n). r = rid) s = []" if "rid \<notin> fst ` set s"
    using that by (force simp: filter_empty_conv)
  with Cons show ?case by (cases p) (auto simp: reported_def)
qed simp

lemma match_resolved_ok: "cache_ok m \<Longrightarrow> cache_ok (snd (match_resolved table rule pid st exe anc c m))"
  using match_resolved_cache [of table rule pid st exe anc c m] wl_cache.put_inv [of "strip m"]
  by (metis strip_simps(1))

lemma match_resolved_distinct: "distinct (map fst (suppressed m)) \<Longrightarrow>
    distinct (map fst (suppressed (snd (match_resolved table rule pid st exe anc c m))))"
  by (simp add: match_resolved_def Let_def count_suppressed_def distinct_update split: option.splits)

text \<open>Every call either leaves the matcher alone with a negative answer or is a resolved call.\<close>

lemma match_proc_cases: "match_proc fs table rule pid m = (False, m) \<or>
    (\<exists>st exe anc c. match_proc fs table rule pid m = match_resolved table rule pid st exe anc c m)"
  by (simp add: match_proc_def Let_def split: option.split) blast

lemma match_known_cases: "match_known table rule pid st exe anc m = (False, m) \<or>
    (\<exists>c. match_known table rule pid st exe anc m = match_resolved table rule pid st exe anc c m)"
  by (simp add: match_known_def) blast

definition matcher_ok :: "WhitelistMatcher \<Rightarrow> bool" where
  "matcher_ok m \<longleftrightarrow> cache_ok m \<and> distinct (map fst (suppressed m))"

lemma call_accounts:
  assumes "matcher_ok m" and "c = (False, m) \<or> (\<exists>table rule' pid st exe anc c'. mr_id rule' = rid
      \<and> c = match_resolved table rule' pid st exe anc c' m)"
  shows "matcher_ok (snd c) \<and> granted_count (snd c) r =
    granted_count m r + of_nat (count_list (if fst c then [rid] else []) r)"
  using assms by (auto simp: matcher_ok_def match_resolved_ok match_resolved_distinct match_resolved_count)

lemma match_step_accounts:
  assumes "matcher_ok m" and "match_step op m = (g, r, m')"
  shows "matcher_ok m' \<and> reported rid r + granted_count m' rid = granted_count m rid + of_nat (count_list g rid)"
proof (cases op)
  case (MatchPid table fs rule pid)
  obtain hit m1 where c: "match_proc fs table rule pid m = (hit, m1)" by fastforce
  then show ?thesis
    using assms MatchPid call_accounts [OF assms(1), of "(hit, m1)" "mr_id rule" rid]
      match_proc_cases [of fs table rule pid m] by auto metis+
next
  case (MatchKnown table rule pid st exe anc)
  obtain hit m1 where c: "match_known table rule pid st exe anc m = (hit, m1)" by fastforce
  then show ?thesis
    using assms MatchKnown call_accounts [OF assms(1), of "(hit, m1)" "mr_id rule" rid]
      match_known_cases [of table rule pid st exe anc m] by auto metis+
next
  case DropCache
  then show ?thesis using assms
    by (auto simp: matcher_ok_def clear_cache_def cache_ok_def granted_count_def kMaxCacheSize_def)
next
  case TakeSuppressed
  moreover have "matcher_ok (m\<lparr>suppressed := []\<rparr>)" using assms(1) by (simp add: matcher_ok_def cache_ok_def)
  ultimately show ?thesis using assms
    by (auto simp: matcher_ok_def get_and_reset_suppressed_def granted_count_def reported_counts)
qed

lemma match_run_accounts:
  assumes "matcher_ok m" and "match_run ops m = (g, r, m')"
  shows "matcher_ok m' \<and> reported rid r + granted_count m' rid = granted_count m rid + of_nat (count_list g rid)"
  using assms
proof (induction ops arbitrary: m g r)
  case (Cons op ops)
  obtain g1 r1 m1 g2 r2 where s: "match_step op m = (g1, r1, m1)" "match_run ops m1 = (g2, r2, m')"
      "g = g1 @ g2" "r = r1 @ r2"
    using Cons.prems(2) by (auto split: prod.splits)
  have a: "matcher_ok m1 \<and> reported rid r1 + granted_count m1 rid = granted_count m rid + of_nat (count_list g1 rid)"
    by (rule match_step_accounts [OF Cons.prems(1) s(1)])
  have b: "matcher_ok m' \<and> reported rid r2 + granted_count m' rid = granted_count m1 rid + of_nat (count_list g2 rid)"
    using Cons.IH [OF _ s(2)] a by blast
  have "reported rid r + granted_count m' rid = reported rid r1 + (granted_count m1 rid + of_nat (count_list g2 rid))"
    using b s(4) by (simp add: add.assoc)
  also have "\<dots> = granted_count m rid + of_nat (count_list g rid)"
    using a s(3) by (simp add: add.assoc [symmetric])
  finally show ?case using b by blast
qed simp


section \<open>Cached answers\<close>

text \<open>The cacheable calls of a sequence, each with its key.\<close>

type_synonym KnownCall = "WhitelistTable \<times> MonRule \<times> int \<times> u64 \<times> string \<times> string list"

fun cacheable_call :: "KnownCall \<Rightarrow> bool" where
  "cacheable_call (table, rule, pid, st, exe, anc) \<longleftrightarrow> 0 < pid \<and> st \<noteq> 0 \<and> exe \<noteq> []"

fun call_key :: "KnownCall \<Rightarrow> CacheKey" where
  "call_key (table, rule, pid, st, exe, anc) = (pid, st)"

fun do_call :: "KnownCall \<Rightarrow> WhitelistMatcher \<Rightarrow> bool \<times> WhitelistMatcher" where
  "do_call (table, rule, pid, st, exe, anc) m = match_known table rule pid st exe anc m"

lemma do_call_resolved: "cacheable_call c \<Longrightarrow>
    strip (snd (do_call c m)) = cache_put (call_key c) (fst (do_call c m)) (strip m) \<and>
    (\<forall>h. cache_find m (call_key c) = Some h \<longrightarrow> fst (do_call c m) = h)"
  by (cases c) (auto simp: match_known_def match_resolved_cache match_resolved_answer answer_of_def)

lemma do_calls_put:
  assumes "\<forall>c\<in>set cs. cacheable_call c"
  shows "\<exists>kvs. map fst kvs = map call_key cs \<and>
    strip (fold (\<lambda>c. snd \<circ> do_call c) cs m) = fold (\<lambda>(k, v). cache_put k v) kvs (strip m)"
  using assms
proof (induction cs arbitrary: m)
  case (Cons c cs)
  obtain kvs where kvs: "map fst kvs = map call_key cs"
    "strip (fold (\<lambda>c. snd \<circ> do_call c) cs (snd (do_call c m))) =
       fold (\<lambda>(k, v). cache_put k v) kvs (strip (snd (do_call c m)))"
    using Cons.IH [of "snd (do_call c m)"] Cons.prems by (meson list.set_intros(2))
  show ?case
    using kvs do_call_resolved [of c m] Cons.prems
    by (intro exI [of _ "(call_key c, fst (do_call c m)) # kvs"]) (simp add: comp_def case_prod_unfold)
qed simp

lemma cached_answer_kept:
  assumes "matcher_ok m" and c: "cacheable_call c" and c': "cacheable_call c'"
    and "call_key c' = call_key c" and "\<forall>d\<in>set cs. cacheable_call d"
    and "call_key c \<notin> call_key ` set cs" and "card (call_key ` set cs) < kMaxCacheSize"
  shows "fst (do_call c' (fold (\<lambda>d. snd \<circ> do_call d) cs (snd (do_call c m)))) = fst (do_call c m)"
proof -
  obtain kvs where kvs: "map fst kvs = map call_key cs"
    "strip (fold (\<lambda>d. snd \<circ> do_call d) cs (snd (do_call c m))) =
       fold (\<lambda>(k, v). cache_put k v) kvs (strip (snd (do_call c m)))"
    using do_calls_put [OF assms(5)] by blast
  have "cache_find (fold (\<lambda>(k, v). cache_put k v) kvs (cache_put (call_key c) (fst (do_call c m)) (strip m)))
      (call_key c) = Some (fst (do_call c m))"
    using assms by (intro wl_cache.recently_used_kept) (simp_all add: matcher_ok_def kvs(1))
  then have "cache_find (fold (\<lambda>d. snd \<circ> do_call d) cs (snd (do_call c m))) (call_key c') = Some (fst (do_call c m))"
    using kvs(2) do_call_resolved [OF c] assms(4) by (metis strip_simps(2))
  then show ?thesis using do_call_resolved [OF c'] by blast
qed


section \<open>The properties\<close>

text \<open>
  C13. The table built from the configured rules matches a process for a rule exactly when some
  rule with the same id has an entry for that very executable whose parent chain is empty or
  contains the executable of one of the ancestors.
\<close>

theorem whitelist_table_semantics:
  "table_match (build_table rules) rule exe ancestors \<longleftrightarrow>
     (\<exists>r \<in> set rules. mr_id r = mr_id rule \<and>
       (\<exists>e \<in> set (mr_whitelist r). we_exe e = exe \<and>
         (we_parent_chain e = [] \<or> (\<exists>a \<in> set ancestors. a \<in> set (we_parent_chain e)))))"
proof -
  have "entry_matches e exe ancestors \<longleftrightarrow>
      we_exe e = exe \<and> (we_parent_chain e = [] \<or> (\<exists>a \<in> set ancestors. a \<in> set (we_parent_chain e)))" for e
    by (auto simp: entry_matches_def list_ex_iff)
  then show ?thesis
    by (auto simp: table_match_entries table_entries_build list_ex_iff)
qed

text \<open>
  Matching fails closed: the answer for a live process is positive exactly when the process id
  is positive, the stat file parses, the executable link is readable, and either a positive answer
  is cached for the process (its id and start time) or nothing is and the table lists the
  executable with the ancestors found through the file system.
\<close>

theorem match_fails_closed:
  "fst (match_proc fs table rule pid m) \<longleftrightarrow>
    0 < pid \<and> exe_path_of fs pid \<noteq> [] \<and>
    (\<exists>psi. parse_proc_stat fs pid = Some psi \<and>
      (cache_find m (pid, psi_start_time psi) = Some True \<or>
       cache_find m (pid, psi_start_time psi) = None \<and>
       table_match table rule (exe_path_of fs pid) (collect_ancestors 8 fs [pid] (psi_ppid psi))))"
  by (auto simp: match_proc_def Let_def match_resolved_answer answer_of_def split: option.splits)

text \<open>
  C14. No suppressed alert goes uncounted and none is counted twice: over every sequence of
  checks, cache drops and counter read-outs that starts with a fresh matcher, for every rule id,
  the counts read out plus the count still held equal the number of checks for that rule that
  answered yes (modulo 2 to the 64, the width of the counter). The matcher also stays well
  formed: the cache holds at most 1024 processes, each once, and its index and list agree.
\<close>

theorem suppressions_all_counted:
  assumes "match_run ops new_matcher = (suppressed_ids, counts, m)"
  shows "reported rid counts + (case map_of (suppressed m) rid of None \<Rightarrow> 0 | Some n \<Rightarrow> n)
      = of_nat (count_list suppressed_ids rid)
    \<and> cache_size m \<le> kMaxCacheSize \<and> distinct (wl_cache m) \<and> set (wl_cache m) = fst ` set (wl_lru m)"
proof -
  have "matcher_ok new_matcher" by (simp add: matcher_ok_def cache_ok_def new_matcher_def)
  from match_run_accounts [OF this assms, of rid] cache_ok_lengths [of m] show ?thesis
    by (simp add: granted_count_def new_matcher_def matcher_ok_def cache_ok_def cache_size_def)
qed

definition bash_rule :: MonRule where
  "bash_rule = empty_rule\<lparr>mr_id := ''r1'',
     mr_whitelist := [\<lparr>we_exe = ''/bin/bash'', we_parent_chain = []\<rparr>]\<rparr>"

definition check_bash :: MatchOp where
  "check_bash = MatchKnown (build_table [bash_rule]) bash_rule 7 9 ''/bin/bash'' []"

lemma match_run_sample: "match_run [check_bash, check_bash, TakeSuppressed, check_bash] new_matcher =
   ([''r1'', ''r1'', ''r1''], [(''r1'', 2)],
    \<lparr>wl_lru = [((7, 9), True)], wl_cache = [(7, 9)], suppressed = [(''r1'', 1)]\<rparr>)"
  by (simp add: check_bash_def bash_rule_def empty_rule_def match_known_def match_resolved_def Let_def
      new_matcher_def cache_find_def build_table_def table_entries_def table_match_def entry_matches_def
      cache_put_def trim_cache.simps kMaxCacheSize_def splice_front_def count_suppressed_def
      get_and_reset_suppressed_def)

lemma suppressions_all_counted_witness:
  "reported ''r1'' [(''r1'', 2)] + (case map_of (suppressed \<lparr>wl_lru = [((7, 9), True)], wl_cache = [(7, 9)],
       suppressed = [(''r1'', 1)]\<rparr>) ''r1'' of None \<Rightarrow> 0 | Some n \<Rightarrow> n)
     = of_nat (count_list [''r1'', ''r1'', ''r1''] ''r1'')"
  using suppressions_all_counted [OF match_run_sample, of "''r1''"] by simp

text \<open>
  A cached answer is reused for the process whatever is asked: after a cacheable check of a
  process (positive id, start time known, executable known), every later check of that id and
  start time gives the same answer, as long as fewer than 1024 other processes are checked in
  between, even when it is about another rule, another executable or other ancestors.
\<close>

theorem cached_answer_is_reused:
  assumes "match_run ops new_matcher = (gs, rs, m)"
    and "0 < pid" and "st \<noteq> 0" and "exe \<noteq> []" and "exe' \<noteq> []"
    and "match_known table rule pid st exe anc m = (hit, m1)"
    and "\<forall>d\<in>set calls. cacheable_call d"
    and "(pid, st) \<notin> call_key ` set calls" and "card (call_key ` set calls) < kMaxCacheSize"
  shows "fst (match_known table' rule' pid st exe' anc' (fold (\<lambda>d. snd \<circ> do_call d) calls m1)) = hit"
proof -
  have "matcher_ok new_matcher" by (simp add: matcher_ok_def cache_ok_def new_matcher_def)
  then have "matcher_ok m" using match_run_accounts [OF _ assms(1)] by blast
  from cached_answer_kept [OF this, of "(table, rule, pid, st, exe, anc)"
      "(table', rule', pid, st, exe', anc')" calls] assms(2-)
  show ?thesis by simp
qed

definition ssh_rule :: MonRule where
  "ssh_rule = empty_rule\<lparr>mr_id := ''r2''\<rparr>"

lemma cached_answer_is_reused_witness:
  "fst (match_known [] ssh_rule 7 9 ''/usr/sbin/sshd'' [] (fold (\<lambda>d. snd \<circ> do_call d)
      [([], ssh_rule, 8, 9, ''/bin/ls'', [])]
      \<lparr>wl_lru = [((7, 9), True)], wl_cache = [(7, 9)], suppressed = [(''r1'', 1)]\<rparr>)) = True"
proof (rule cached_answer_is_reused [where ops = "[]" and table = "build_table [bash_rule]"
      and rule = bash_rule and exe = "''/bin/bash''" and anc = "[]"])
  show "match_run [] new_matcher = ([], [], new_matcher)" by simp
  show "match_known (build_table [bash_rule]) bash_rule 7 9 ''/bin/bash'' [] new_matcher =
      (True, \<lparr>wl_lru = [((7, 9), True)], wl_cache = [(7, 9)], suppressed = [(''r1'', 1)]\<rparr>)"
    by (simp add: bash_rule_def empty_rule_def match_known_def match_resolved_def Let_def
      new_matcher_def cache_find_def build_table_def table_entries_def table_match_def entry_matches_def
      cache_put_def trim_cache.simps kMaxCacheSize_def count_suppressed_def)
qed (simp_all add: kMaxCacheSize_def)

end
