(* ===== verification/Bpf_Core.thy ===== *)
theory Bpf_Core
  imports Event_Record
begin

text \<open>
  What the kernel programs share: the facts the kernel helpers report in the context of a hook,
  the output channel with its per-CPU statistics (\<open>src/bpf/stats_slots.h\<close>), and the reserve,
  submit and discard pattern. Whether a buffer has room is the kernel's decision and part of
  the context. A channel counts the events of one CPU in the order they are submitted.
\<close>

section \<open>Kernel context\<close>

record KernelCtx =
  k_pid_tgid :: u64
  k_uid_gid :: u64
  k_ppid :: u32
  k_start_time :: u64
  k_now :: u64
  k_cgroup :: u64
  k_comm :: string
  k_room :: bool
  k_output_ok :: bool

definition cur_pid :: "KernelCtx \<Rightarrow> u32" where
  "cur_pid k = ucast (drop_bit 32 (k_pid_tgid k))"

definition cur_uid :: "KernelCtx \<Rightarrow> u32" where
  "cur_uid k = ucast (and (k_uid_gid k) 0xffffffff)"

definition cur_gid :: "KernelCtx \<Rightarrow> u32" where
  "cur_gid k = ucast (drop_bit 32 (k_uid_gid k))"

text \<open>\<open>bpf_get_current_comm\<close> and the string reading helpers write a terminated string into
  the destination.\<close>

definition read_str :: "nat \<Rightarrow> string \<Rightarrow> string" where
  "read_str n s = record_set_str (replicate n NUL) (c_str s)"

section \<open>Channels\<close>

definition DROP_SLOT_BACKPRESSURE :: nat where "DROP_SLOT_BACKPRESSURE = 0"
definition DROP_SLOT_RESERVE_FAIL :: nat where "DROP_SLOT_RESERVE_FAIL = 1"
definition DROP_SLOT_EMITTED :: nat where "DROP_SLOT_EMITTED = 2"
definition DROP_SLOT_DISCARDED :: nat where "DROP_SLOT_DISCARDED = 3"
definition DROP_STATS_SLOTS :: nat where "DROP_STATS_SLOTS = 4"

lemmas slot_defs = DROP_SLOT_BACKPRESSURE_def DROP_SLOT_RESERVE_FAIL_def DROP_SLOT_EMITTED_def
  DROP_SLOT_DISCARDED_def DROP_STATS_SLOTS_def

record 'e Channel =
  ch_events :: "'e list"
  ch_stats :: "u64 list"

definition new_channel :: "'e Channel" where
  "new_channel = \<lparr>ch_events = [], ch_stats = replicate DROP_STATS_SLOTS 0\<rparr>"

text \<open>A lookup outside the array fails and nothing is counted.\<close>

definition inc_slot :: "nat \<Rightarrow> 'e Channel \<Rightarrow> 'e Channel" where
  "inc_slot slot c = c\<lparr>ch_stats := (ch_stats c)[slot := ch_stats c ! slot + 1]\<rparr>"

definition submit :: "'e \<Rightarrow> 'e Channel \<Rightarrow> 'e Channel" where
  "submit e c = inc_slot DROP_SLOT_EMITTED (c\<lparr>ch_events := ch_events c @ [e]\<rparr>)"

definition discard :: "'e Channel \<Rightarrow> 'e Channel" where
  "discard c = inc_slot DROP_SLOT_DISCARDED c"

text \<open>Reserve, fill and submit.\<close>

definition emit :: "KernelCtx \<Rightarrow> 'e \<Rightarrow> 'e Channel \<Rightarrow> 'e Channel" where
  "emit k e c = (if \<not> k_room k then inc_slot DROP_SLOT_RESERVE_FAIL c else submit e c)"

section \<open>Accounting\<close>

text \<open>What one attempt to report an event comes to: it is sent, or lost in one of the slots.\<close>

datatype 'e Outcome = Sent 'e | Lost nat

fun record_outcome :: "'e Outcome \<Rightarrow> 'e Channel \<Rightarrow> 'e Channel" where
  "record_outcome (Sent e) c = submit e c"
| "record_outcome (Lost slot) c = inc_slot slot c"

fun outcome_slot :: "'e Outcome \<Rightarrow> nat" where
  "outcome_slot (Sent e) = DROP_SLOT_EMITTED"
| "outcome_slot (Lost slot) = slot"

fun sent_events :: "'e Outcome list \<Rightarrow> 'e list" where
  "sent_events [] = []"
| "sent_events (Sent e # os) = e # sent_events os"
| "sent_events (Lost _ # os) = sent_events os"

lemma sent_events_append [simp]: "sent_events (a @ b) = sent_events a @ sent_events b"
  by (induction a rule: sent_events.induct) auto

definition attempt :: "KernelCtx \<Rightarrow> 'e \<Rightarrow> 'e Outcome" where
  "attempt k e = (if k_room k then Sent e else Lost DROP_SLOT_RESERVE_FAIL)"

lemma emit_outcome: "emit k e c = record_outcome (attempt k e) c"
  by (simp add: emit_def attempt_def)

lemma attempt_lost: "Lost slot = attempt k e \<Longrightarrow> slot < DROP_STATS_SLOTS \<and> slot \<noteq> DROP_SLOT_EMITTED"
  by (simp add: attempt_def slot_defs split: if_splits)

lemma record_outcome_stats: "length (ch_stats c) = DROP_STATS_SLOTS \<Longrightarrow> s < DROP_STATS_SLOTS \<Longrightarrow>
    length (ch_stats (record_outcome out c)) = DROP_STATS_SLOTS \<and>
    ch_stats (record_outcome out c) ! s = ch_stats c ! s + (if outcome_slot out = s then 1 else 0) \<and>
    ch_events (record_outcome out c) = ch_events c @ sent_events [out]"
  by (cases out) (auto simp: submit_def inc_slot_def nth_list_update)

text \<open>The contract of a program that reports through a channel: an operation records the
  outcomes of its attempts, one after the other, and touches nothing else.\<close>

locale accounted_channel =
  fixes step :: "'op \<Rightarrow> 'e Channel \<Rightarrow> 'e Channel" and outcomes :: "'op \<Rightarrow> 'e Outcome list"
  assumes step_records: "step op c = fold record_outcome (outcomes op) c"
    and lost_slots: "Lost slot \<in> set (outcomes op) \<Longrightarrow> slot < DROP_STATS_SLOTS \<and> slot \<noteq> DROP_SLOT_EMITTED"
begin

lemma known_slots: "out \<in> set (outcomes op) \<Longrightarrow> outcome_slot out < DROP_STATS_SLOTS"
  using lost_slots by (cases out) (auto simp: slot_defs)

abbreviation all_outcomes :: "'op list \<Rightarrow> 'e Outcome list" where
  "all_outcomes ops \<equiv> concat (map outcomes ops)"

lemma run_records: "fold step ops c = fold record_outcome (all_outcomes ops) c"
  by (induction ops arbitrary: c) (auto simp: step_records)

lemma records_account:
  assumes "length (ch_stats c) = DROP_STATS_SLOTS"
  shows "length (ch_stats (fold record_outcome os c)) = DROP_STATS_SLOTS \<and>
    ch_events (fold record_outcome os c) = ch_events c @ sent_events os \<and>
    (\<forall>s < DROP_STATS_SLOTS. ch_stats (fold record_outcome os c) ! s =
       ch_stats c ! s + of_nat (length (filter (\<lambda>out. outcome_slot out = s) os)))"
  using assms
proof (induction os arbitrary: c)
  case (Cons out os)
  have len: "length (ch_stats (record_outcome out c)) = DROP_STATS_SLOTS"
    using record_outcome_stats [OF Cons.prems, of 0 out] by (simp add: slot_defs)
  have ev: "ch_events (record_outcome out c) = ch_events c @ sent_events [out]"
    using record_outcome_stats [OF Cons.prems, of 0 out] by (simp add: slot_defs)
  show ?case
    using Cons.IH [OF len] record_outcome_stats [OF Cons.prems, of _ out] ev
    by (cases out) (auto simp: algebra_simps)
qed simp

lemma count_slots: "list_all (\<lambda>out. outcome_slot out < DROP_STATS_SLOTS) os \<Longrightarrow>
    (\<Sum>s < DROP_STATS_SLOTS. length (filter (\<lambda>out. outcome_slot out = s) os)) = length os"
proof (induction os)
  case (Cons out os)
  have "length (filter (\<lambda>out. outcome_slot out = s) (out # os)) =
      (if s = outcome_slot out then 1 else 0) + length (filter (\<lambda>out. outcome_slot out = s) os)" for s
    by simp
  with Cons show ?case by (simp only: sum.distrib) simp
qed simp

lemma count_sent: "\<forall>slot. Lost slot \<in> set os \<longrightarrow> slot \<noteq> DROP_SLOT_EMITTED \<Longrightarrow>
    length (filter (\<lambda>out. outcome_slot out = DROP_SLOT_EMITTED) os) = length (sent_events os)"
  by (induction os rule: sent_events.induct) auto

text \<open>The statistics of a run that starts empty: the events are the sent ones in order, the
  emitted slot counts them, and the slots add up to the number of attempts.\<close>

lemma run_accounts:
  shows "ch_events (fold step ops new_channel) = sent_events (all_outcomes ops)"
    and "s < DROP_STATS_SLOTS \<Longrightarrow> ch_stats (fold step ops new_channel) ! s =
      of_nat (length (filter (\<lambda>out. outcome_slot out = s) (all_outcomes ops)))"
    and "ch_stats (fold step ops new_channel) ! DROP_SLOT_EMITTED = of_nat (length (ch_events (fold step ops new_channel)))"
    and "sum_list (ch_stats (fold step ops new_channel)) = of_nat (length (all_outcomes ops))"
proof -
  have acc: "length (ch_stats (fold step ops new_channel)) = DROP_STATS_SLOTS \<and>
    ch_events (fold step ops new_channel) = sent_events (all_outcomes ops) \<and>
    (\<forall>s < DROP_STATS_SLOTS. ch_stats (fold step ops new_channel) ! s =
       of_nat (length (filter (\<lambda>out. outcome_slot out = s) (all_outcomes ops))))"
    using records_account [of new_channel "all_outcomes ops"] by (simp add: run_records new_channel_def)
  show "ch_events (fold step ops new_channel) = sent_events (all_outcomes ops)" using acc by blast
  show "s < DROP_STATS_SLOTS \<Longrightarrow> ch_stats (fold step ops new_channel) ! s =
      of_nat (length (filter (\<lambda>out. outcome_slot out = s) (all_outcomes ops)))" using acc by blast
  have "\<forall>slot. Lost slot \<in> set (all_outcomes ops) \<longrightarrow> slot \<noteq> DROP_SLOT_EMITTED"
    using lost_slots by auto
  from count_sent [OF this] acc
  show "ch_stats (fold step ops new_channel) ! DROP_SLOT_EMITTED = of_nat (length (ch_events (fold step ops new_channel)))"
    by (simp add: slot_defs)
  have "list_all (\<lambda>out. outcome_slot out < DROP_STATS_SLOTS) (all_outcomes ops)"
    by (auto simp: list_all_iff known_slots)
  from count_slots [OF this] acc
  show "sum_list (ch_stats (fold step ops new_channel)) = of_nat (length (all_outcomes ops))"
    by (simp add: sum_list_sum_nth atLeast0LessThan flip: of_nat_sum)
qed

lemma run_stats: "ch_stats (fold step ops new_channel) =
    map (\<lambda>s. of_nat (length (filter (\<lambda>out. outcome_slot out = s) (all_outcomes ops)))) [0..<DROP_STATS_SLOTS]"
  using records_account [of new_channel "all_outcomes ops"]
  by (intro nth_equalityI) (auto simp: run_records new_channel_def)

end

section \<open>Programs whose every hook makes one attempt\<close>

text \<open>The outcome of a hook that ends in \<open>emit\<close>, read off from its effect on an empty channel.\<close>

definition observed :: "('e Channel \<Rightarrow> 'e Channel) \<Rightarrow> 'e Outcome" where
  "observed f = (case ch_events (f new_channel) of [] \<Rightarrow> Lost DROP_SLOT_RESERVE_FAIL | e # _ \<Rightarrow> Sent e)"

lemma observed_emit: "observed (emit k e) = attempt k e"
  by (simp add: observed_def emit_def attempt_def submit_def inc_slot_def new_channel_def)

definition attempts_once :: "('e Channel \<Rightarrow> 'e Channel) \<Rightarrow> bool" where
  "attempts_once f \<longleftrightarrow> (\<exists>k e. f = emit k e)"

lemma attempts_onceI: "(\<And>c. f c = emit k e c) \<Longrightarrow> attempts_once f"
  unfolding attempts_once_def by blast

lemma attempts_once_records: "attempts_once f \<Longrightarrow> f c = record_outcome (observed f) c"
  by (auto simp: attempts_once_def observed_emit emit_outcome)

lemma observed_lost: "attempts_once f \<Longrightarrow> Lost slot = observed f \<Longrightarrow> slot = DROP_SLOT_RESERVE_FAIL"
  by (auto simp: attempts_once_def observed_emit attempt_def split: if_splits)

lemma observed_slot: "attempts_once f \<Longrightarrow> outcome_slot (observed f) \<in> {DROP_SLOT_EMITTED, DROP_SLOT_RESERVE_FAIL}"
  by (auto simp: attempts_once_def observed_emit attempt_def)

locale once_channel =
  fixes step :: "'op \<Rightarrow> 'e Channel \<Rightarrow> 'e Channel"
  assumes once: "attempts_once (step op)"

sublocale once_channel \<subseteq> accounted_channel step "\<lambda>op. [observed (step op)]"
proof
  show "step op c = fold record_outcome [observed (step op)] c" for op c
    using attempts_once_records [OF once] by simp
  show "slot < DROP_STATS_SLOTS \<and> slot \<noteq> DROP_SLOT_EMITTED" if "Lost slot \<in> set [observed (step op)]" for slot op
    using that observed_lost [OF once, of slot op] by (simp add: slot_defs)
qed

context once_channel
begin

text \<open>A run: as many attempts as operations, and the unsent ones in the slot of failed
  reservations.\<close>

lemma once_accounts:
  shows "ch_stats (fold step ops new_channel) ! DROP_SLOT_EMITTED = of_nat (length (ch_events (fold step ops new_channel)))"
    and "ch_stats (fold step ops new_channel) ! DROP_SLOT_EMITTED +
      ch_stats (fold step ops new_channel) ! DROP_SLOT_RESERVE_FAIL = of_nat (length ops)"
proof -
  let ?outs = "concat (map (\<lambda>op. [observed (step op)]) ops)"
  have "length (filter (\<lambda>out. outcome_slot out = DROP_SLOT_EMITTED) ?outs) +
      length (filter (\<lambda>out. outcome_slot out = DROP_SLOT_RESERVE_FAIL) ?outs) = length ops"
  proof (induction ops)
    case (Cons op ops)
    with observed_slot [OF once, of op] show ?case by (auto simp: slot_defs)
  qed simp
  from arg_cong [OF this, where f = "of_nat :: nat \<Rightarrow> u64"]
  have "(of_nat (length (filter (\<lambda>out. outcome_slot out = DROP_SLOT_EMITTED) ?outs)) :: u64) +
      of_nat (length (filter (\<lambda>out. outcome_slot out = DROP_SLOT_RESERVE_FAIL) ?outs)) = of_nat (length ops)"
    by (simp only: of_nat_add)
  moreover have "DROP_SLOT_EMITTED < DROP_STATS_SLOTS" "DROP_SLOT_RESERVE_FAIL < DROP_STATS_SLOTS"
    by (simp_all add: slot_defs)
  ultimately show "ch_stats (fold step ops new_channel) ! DROP_SLOT_EMITTED +
      ch_stats (fold step ops new_channel) ! DROP_SLOT_RESERVE_FAIL = of_nat (length ops)"
    by (simp only: run_accounts(2))
qed (rule run_accounts(3))

end

end
