(* ===== verification/Bpf_File.thy ===== *)
theory Bpf_File
  imports Mon_Rule Bpf_Core
begin

text \<open>
  The file monitoring programs of the kernel: the shared part (\<open>src/bpf/bpf_common.h\<close>), the
  LSM program that can deny an access (\<open>src/bpf/lsm_file.bpf.c\<close>) and the kprobe program for
  older kernels (\<open>src/bpf/lsm_kprobe.bpf.c\<close>). The compile-time choice of the transport is the
  argument \<open>Mode\<close>; the kprobe program is always built for perf buffers. The maps the agent
  writes are a record; an inode pointer that is null is \<open>None\<close> and reads as inode 0.
\<close>

section \<open>Rules and maps\<close>

record monitor_rule =
  r_action :: u8
  r_events_mask :: u8
  r_severity :: u8

definition MAX_RULES_PER_INO :: nat where "MAX_RULES_PER_INO = 4"

record monitor_rule_set =
  rs_count :: u8
  rs_rules :: "monitor_rule list"

record rule_match_result =
  m_action :: u8
  m_severity :: u8
  m_matched :: bool

record FileMaps =
  monitor_actions :: "u64 \<Rightarrow> monitor_rule_set option"
  watermark_level :: "u32 option"

definition rule_hit :: "bool \<Rightarrow> bool \<Rightarrow> u8 \<Rightarrow> monitor_rule \<Rightarrow> bool" where
  "rule_hit read_hit write_hit single_bit r \<longleftrightarrow>
     (if single_bit \<noteq> 0 then and (r_events_mask r) single_bit \<noteq> 0
      else (read_hit \<and> and (r_events_mask r) EVENT_READ \<noteq> 0) \<or>
           (write_hit \<and> and (r_events_mask r) EVENT_WRITE \<noteq> 0))"

text \<open>The unrolled loop, entered with the index \<open>i\<close> and the result so far.\<close>

function match_loop :: "monitor_rule_set \<Rightarrow> bool \<Rightarrow> bool \<Rightarrow> u8 \<Rightarrow> nat \<Rightarrow> rule_match_result \<Rightarrow> rule_match_result" where
  "match_loop rset read_hit write_hit single_bit i m =
     (if i \<ge> MAX_RULES_PER_INO then m
      else if i \<ge> unat (rs_count rset) then m
      else (let r = rs_rules rset ! i
            in if \<not> rule_hit read_hit write_hit single_bit r
               then match_loop rset read_hit write_hit single_bit (i + 1) m
               else match_loop rset read_hit write_hit single_bit (i + 1)
                      \<lparr>m_action = (if r_action r > m_action m then r_action r else m_action m),
                       m_severity = (if r_severity r > m_severity m then r_severity r else m_severity m),
                       m_matched = True\<rparr>))"
  by pat_completeness auto
termination by (relation "measure (\<lambda>(_, _, _, _, i, _). MAX_RULES_PER_INO - i)") auto

declare match_loop.simps [simp del]

definition match_rule_set :: "monitor_rule_set option \<Rightarrow> bool \<Rightarrow> bool \<Rightarrow> u8 \<Rightarrow> rule_match_result" where
  "match_rule_set set_ptr read_hit write_hit single_bit =
     (let m = \<lparr>m_action = ACTION_LOG, m_severity = SEVERITY_LOW, m_matched = False\<rparr>
      in case set_ptr of
           None \<Rightarrow> m
         | Some rset \<Rightarrow> match_loop rset read_hit write_hit single_bit 0 m)"

section \<open>Back pressure\<close>

definition WATERMARK_NORMAL :: u32 where "WATERMARK_NORMAL = 0"
definition WATERMARK_WARNING :: u32 where "WATERMARK_WARNING = 1"
definition WATERMARK_HIGH :: u32 where "WATERMARK_HIGH = 2"
definition WATERMARK_OVERLOAD :: u32 where "WATERMARK_OVERLOAD = 3"

datatype Backpressure = BACKPRESSURE_REALTIME | BACKPRESSURE_BATCH | BACKPRESSURE_DROP

lemmas watermark_defs = WATERMARK_NORMAL_def WATERMARK_WARNING_def WATERMARK_HIGH_def WATERMARK_OVERLOAD_def

definition check_backpressure :: "u32 option \<Rightarrow> u8 \<Rightarrow> Backpressure" where
  "check_backpressure level_ptr severity =
     (case level_ptr of
        None \<Rightarrow> BACKPRESSURE_REALTIME
      | Some level \<Rightarrow>
         if level = WATERMARK_NORMAL then BACKPRESSURE_REALTIME
         else if level = WATERMARK_WARNING then
           (if severity = SEVERITY_LOW then BACKPRESSURE_BATCH else BACKPRESSURE_REALTIME)
         else if level = WATERMARK_HIGH then
           (if severity = SEVERITY_LOW then BACKPRESSURE_DROP
            else if severity = SEVERITY_MEDIUM then BACKPRESSURE_BATCH
            else BACKPRESSURE_REALTIME)
         else if level = WATERMARK_OVERLOAD then
           (if severity = SEVERITY_LOW \<or> severity = SEVERITY_MEDIUM then BACKPRESSURE_DROP
            else if severity = SEVERITY_HIGH then BACKPRESSURE_BATCH
            else BACKPRESSURE_REALTIME)
         else BACKPRESSURE_REALTIME)"

section \<open>Events\<close>

datatype Mode = USE_RINGBUF | USE_PERF_BUFFER

record FileEvent =
  ev_pid :: u32
  ev_comm :: string
  ev_path :: string
  ev_ino :: u64
  ev_mask :: u32
  ev_action :: u8
  ev_event_type :: u8
  ev_new_mode :: u32
  ev_new_uid :: u32
  ev_new_gid :: u32
  ev_uid :: u32
  ev_gid :: u32
  ev_start_time :: u64

text \<open>A submitted event with its flag \<open>BPF_RB_NO_WAKEUP\<close>.\<close>

type_synonym FileChannel = "(FileEvent \<times> bool) Channel"

record Dentry =
  d_ino :: "u64 option"
  d_name :: "string option"

record File =
  f_dentry :: "Dentry option"
  f_ino :: u64

definition ino_of :: "Dentry \<Rightarrow> u64" where
  "ino_of d = (case d_ino d of None \<Rightarrow> 0 | Some ino \<Rightarrow> ino)"

definition file_event :: "KernelCtx \<Rightarrow> u64 \<Rightarrow> Dentry \<Rightarrow> u8 \<Rightarrow> u32 \<Rightarrow> u32 \<Rightarrow> u32 \<Rightarrow> u32 \<Rightarrow> u8 \<Rightarrow> FileEvent" where
  "file_event k ino dentry event_type amask new_mode new_uid new_gid action =
     \<lparr>ev_pid = cur_pid k, ev_comm = read_str 16 (k_comm k),
      ev_path = (case d_name dentry of None \<Rightarrow> replicate 256 NUL | Some name \<Rightarrow> read_str 256 name),
      ev_ino = ino, ev_mask = amask, ev_action = action, ev_event_type = event_type,
      ev_new_mode = new_mode, ev_new_uid = new_uid, ev_new_gid = new_gid,
      ev_uid = cur_uid k, ev_gid = cur_gid k, ev_start_time = k_start_time k\<rparr>"

definition emit_attr_event ::
  "Mode \<Rightarrow> KernelCtx \<Rightarrow> u64 \<Rightarrow> Dentry \<Rightarrow> u8 \<Rightarrow> u32 \<Rightarrow> u32 \<Rightarrow> u32 \<Rightarrow> u32 \<Rightarrow> u8 \<Rightarrow> Backpressure \<Rightarrow>
     FileChannel \<Rightarrow> FileChannel" where
  "emit_attr_event mode k ino dentry event_type amask new_mode new_uid new_gid action bp_decision c =
     (let e = file_event k ino dentry event_type amask new_mode new_uid new_gid action
      in if \<not> k_room k then inc_slot DROP_SLOT_RESERVE_FAIL c
         else (case mode of
                 USE_PERF_BUFFER \<Rightarrow>
                   (if k_output_ok k then submit (e, False) c else inc_slot DROP_SLOT_RESERVE_FAIL c)
               | USE_RINGBUF \<Rightarrow> submit (e, bp_decision = BACKPRESSURE_BATCH) c))"

section \<open>The LSM program\<close>

definition EPERM :: int where "EPERM = 1"

definition decide_backpressure :: "Mode \<Rightarrow> FileMaps \<Rightarrow> u8 \<Rightarrow> Backpressure" where
  "decide_backpressure mode maps severity =
     (case mode of USE_PERF_BUFFER \<Rightarrow> BACKPRESSURE_REALTIME
                 | USE_RINGBUF \<Rightarrow> check_backpressure (watermark_level maps) severity)"

text \<open>The part behind the match that all hooks repeat: back pressure, event, verdict.\<close>

definition report_and_judge ::
  "Mode \<Rightarrow> FileMaps \<Rightarrow> KernelCtx \<Rightarrow> u64 \<Rightarrow> Dentry \<Rightarrow> u8 \<Rightarrow> u32 \<Rightarrow> u32 \<Rightarrow> u32 \<Rightarrow> u32 \<Rightarrow> rule_match_result \<Rightarrow>
     FileChannel \<Rightarrow> int \<times> FileChannel" where
  "report_and_judge mode maps k ino dentry event_type amask new_mode new_uid new_gid m c =
     (if \<not> m_matched m then (0, c)
      else (let bp = decide_backpressure mode maps (m_severity m)
            in if bp = BACKPRESSURE_DROP then (0, inc_slot DROP_SLOT_BACKPRESSURE c)
               else (if m_action m = ACTION_BLOCK then - EPERM else 0,
                     emit_attr_event mode k ino dentry event_type amask new_mode new_uid new_gid (m_action m) bp c)))"

definition norm_mask :: "u32 \<Rightarrow> u32" where
  "norm_mask amask = or (if and amask 4 \<noteq> 0 then 1 else 0) (if and amask 2 \<noteq> 0 then 2 else 0)"

definition file_permission_hook :: "Mode \<Rightarrow> FileMaps \<Rightarrow> KernelCtx \<Rightarrow> File \<Rightarrow> u32 \<Rightarrow> FileChannel \<Rightarrow> int \<times> FileChannel" where
  "file_permission_hook mode maps k file amask c =
     (case f_dentry file of
        None \<Rightarrow> (0, c)
      | Some dentry \<Rightarrow>
         (let m = match_rule_set (monitor_actions maps (f_ino file)) (and amask 4 \<noteq> 0) (and amask 2 \<noteq> 0) 0
          in report_and_judge mode maps k (f_ino file) dentry 0 (norm_mask amask) 0 0 0 m c))"

definition file_chmod_hook :: "Mode \<Rightarrow> FileMaps \<Rightarrow> KernelCtx \<Rightarrow> Dentry option \<Rightarrow> u32 \<Rightarrow> FileChannel \<Rightarrow> int \<times> FileChannel" where
  "file_chmod_hook mode maps k path_dentry mode_arg c =
     (case path_dentry of
        None \<Rightarrow> (0, c)
      | Some dentry \<Rightarrow>
         (let m = match_rule_set (monitor_actions maps (ino_of dentry)) False False (EVENT_MASK_BIT EVENT_CHMOD)
          in report_and_judge mode maps k (ino_of dentry) dentry EVENT_CHMOD 0 mode_arg 0 0 m c))"

definition file_chown_hook :: "Mode \<Rightarrow> FileMaps \<Rightarrow> KernelCtx \<Rightarrow> Dentry option \<Rightarrow> u32 \<Rightarrow> u32 \<Rightarrow> FileChannel \<Rightarrow> int \<times> FileChannel" where
  "file_chown_hook mode maps k path_dentry uid gid c =
     (case path_dentry of
        None \<Rightarrow> (0, c)
      | Some dentry \<Rightarrow>
         (let m = match_rule_set (monitor_actions maps (ino_of dentry)) False False (EVENT_MASK_BIT EVENT_CHOWN)
          in report_and_judge mode maps k (ino_of dentry) dentry EVENT_CHOWN 0 0 uid gid m c))"

definition file_unlink_hook :: "Mode \<Rightarrow> FileMaps \<Rightarrow> KernelCtx \<Rightarrow> Dentry option \<Rightarrow> FileChannel \<Rightarrow> int \<times> FileChannel" where
  "file_unlink_hook mode maps k dentry_ptr c =
     (case dentry_ptr of
        None \<Rightarrow> (0, c)
      | Some dentry \<Rightarrow>
         (let m = match_rule_set (monitor_actions maps (ino_of dentry)) False False (EVENT_MASK_BIT EVENT_UNLINK)
          in report_and_judge mode maps k (ino_of dentry) dentry EVENT_UNLINK 0 0 0 0 m c))"

definition check_rename_target :: "Mode \<Rightarrow> FileMaps \<Rightarrow> KernelCtx \<Rightarrow> Dentry option \<Rightarrow> FileChannel \<Rightarrow> int \<times> FileChannel" where
  "check_rename_target mode maps k dentry_ptr c =
     (case dentry_ptr of
        None \<Rightarrow> (0, c)
      | Some dentry \<Rightarrow>
         (case d_ino dentry of
            None \<Rightarrow> (0, c)
          | Some ino \<Rightarrow>
             (let m = match_rule_set (monitor_actions maps ino) False True 0
              in report_and_judge mode maps k ino dentry EVENT_RENAME 0 0 0 0 m c)))"

text \<open>The two checks of a rename run in the same task one after the other; each has its own
  answer of the transport.\<close>

definition inode_rename_hook ::
  "Mode \<Rightarrow> FileMaps \<Rightarrow> KernelCtx \<Rightarrow> KernelCtx \<Rightarrow> Dentry option \<Rightarrow> Dentry option \<Rightarrow> FileChannel \<Rightarrow> int \<times> FileChannel" where
  "inode_rename_hook mode maps k k' old_dentry new_dentry c =
     (case check_rename_target mode maps k old_dentry c of
        (ret, c') \<Rightarrow> if ret \<noteq> 0 then (ret, c') else check_rename_target mode maps k' new_dentry c')"

definition file_mmap_hook :: "Mode \<Rightarrow> FileMaps \<Rightarrow> KernelCtx \<Rightarrow> File \<Rightarrow> u64 \<Rightarrow> FileChannel \<Rightarrow> int \<times> FileChannel" where
  "file_mmap_hook mode maps k file reqprot c =
     (case f_dentry file of
        None \<Rightarrow> (0, c)
      | Some dentry \<Rightarrow>
         (let m = match_rule_set (monitor_actions maps (f_ino file)) (and reqprot 1 \<noteq> 0) (and reqprot 2 \<noteq> 0) 0
          in report_and_judge mode maps k (f_ino file) dentry EVENT_MMAP 0 0 (ucast reqprot) 0 m c))"

section \<open>The kprobe program\<close>

definition effective_action :: "u8 \<Rightarrow> u8" where
  "effective_action action = (if action = ACTION_BLOCK then ACTION_ALERT else action)"

text \<open>The part behind the match that the kprobes repeat.\<close>

definition report_only ::
  "KernelCtx \<Rightarrow> u64 \<Rightarrow> Dentry \<Rightarrow> u8 \<Rightarrow> u32 \<Rightarrow> u32 \<Rightarrow> u32 \<Rightarrow> u32 \<Rightarrow> rule_match_result \<Rightarrow> FileChannel \<Rightarrow> FileChannel" where
  "report_only k ino dentry event_type amask new_mode new_uid new_gid m c =
     (if \<not> m_matched m then c
      else emit_attr_event USE_PERF_BUFFER k ino dentry event_type amask new_mode new_uid new_gid
             (effective_action (m_action m)) BACKPRESSURE_REALTIME c)"

definition kprobe_file_permission :: "FileMaps \<Rightarrow> KernelCtx \<Rightarrow> File \<Rightarrow> u32 \<Rightarrow> FileChannel \<Rightarrow> int \<times> FileChannel" where
  "kprobe_file_permission maps k file amask c =
     (case f_dentry file of
        None \<Rightarrow> (0, c)
      | Some dentry \<Rightarrow>
         (let m = match_rule_set (monitor_actions maps (f_ino file)) (and amask 4 \<noteq> 0) (and amask 2 \<noteq> 0) 0
          in (0, report_only k (f_ino file) dentry 0 (norm_mask amask) 0 0 0 m c)))"

definition kprobe_path_chmod :: "FileMaps \<Rightarrow> KernelCtx \<Rightarrow> Dentry option \<Rightarrow> u32 \<Rightarrow> FileChannel \<Rightarrow> int \<times> FileChannel" where
  "kprobe_path_chmod maps k path_dentry mode_arg c =
     (case path_dentry of
        None \<Rightarrow> (0, c)
      | Some dentry \<Rightarrow>
         (let m = match_rule_set (monitor_actions maps (ino_of dentry)) False False (EVENT_MASK_BIT EVENT_CHMOD)
          in (0, report_only k (ino_of dentry) dentry EVENT_CHMOD 0 mode_arg 0 0 m c)))"

definition kprobe_path_chown :: "FileMaps \<Rightarrow> KernelCtx \<Rightarrow> Dentry option \<Rightarrow> u32 \<Rightarrow> u32 \<Rightarrow> FileChannel \<Rightarrow> int \<times> FileChannel" where
  "kprobe_path_chown maps k path_dentry uid gid c =
     (case path_dentry of
        None \<Rightarrow> (0, c)
      | Some dentry \<Rightarrow>
         (let m = match_rule_set (monitor_actions maps (ino_of dentry)) False False (EVENT_MASK_BIT EVENT_CHOWN)
          in (0, report_only k (ino_of dentry) dentry EVENT_CHOWN 0 0 uid gid m c)))"

definition kprobe_inode_unlink :: "FileMaps \<Rightarrow> KernelCtx \<Rightarrow> Dentry option \<Rightarrow> FileChannel \<Rightarrow> int \<times> FileChannel" where
  "kprobe_inode_unlink maps k dentry_ptr c =
     (case dentry_ptr of
        None \<Rightarrow> (0, c)
      | Some dentry \<Rightarrow>
         (let m = match_rule_set (monitor_actions maps (ino_of dentry)) False False (EVENT_MASK_BIT EVENT_UNLINK)
          in (0, report_only k (ino_of dentry) dentry EVENT_UNLINK 0 0 0 0 m c)))"

definition kprobe_rename_target :: "FileMaps \<Rightarrow> KernelCtx \<Rightarrow> Dentry option \<Rightarrow> FileChannel \<Rightarrow> FileChannel" where
  "kprobe_rename_target maps k dentry_ptr c =
     (case dentry_ptr of
        None \<Rightarrow> c
      | Some dentry \<Rightarrow>
         (let m = match_rule_set (monitor_actions maps (ino_of dentry)) False True 0
          in report_only k (ino_of dentry) dentry EVENT_RENAME 0 0 0 0 m c))"

definition kprobe_inode_rename ::
  "FileMaps \<Rightarrow> KernelCtx \<Rightarrow> KernelCtx \<Rightarrow> Dentry option \<Rightarrow> Dentry option \<Rightarrow> FileChannel \<Rightarrow> int \<times> FileChannel" where
  "kprobe_inode_rename maps k k' old_dentry new_dentry c =
     (0, kprobe_rename_target maps k' new_dentry (kprobe_rename_target maps k old_dentry c))"

end
