(* ===== verification/Bpf_File_Correct.thy ===== *)
theory Bpf_File_Correct
  imports Bpf_File
begin

text \<open>
  Correctness of the file monitoring programs. The matching loop is characterised by the rules
  an access hits, every hook by the targets it checks; the verdict, the event and the statistics
  follow from the hits. The three builds interpret the contract \<open>accounted_channel\<close>.
\<close>

section \<open>Matching\<close>

text \<open>The rules of a set that an access hits.\<close>

definition hits :: "monitor_rule_set \<Rightarrow> bool \<Rightarrow> bool \<Rightarrow> u8 \<Rightarrow> monitor_rule list" where
  "hits rset rd wr sb = filter (rule_hit rd wr sb) (take (unat (rs_count rset)) (rs_rules rset))"

definition set_ok :: "monitor_rule_set \<Rightarrow> bool" where
  "set_ok rset \<longleftrightarrow> length (rs_rules rset) = MAX_RULES_PER_INO"

definition absorb :: "monitor_rule \<Rightarrow> rule_match_result \<Rightarrow> rule_match_result" where
  "absorb r m = \<lparr>m_action = max (m_action m) (r_action r), m_severity = max (m_severity m) (r_severity r),
     m_matched = True\<rparr>"

lemma absorb_step: "\<lparr>m_action = (if r_action r > m_action m then r_action r else m_action m),
    m_severity = (if r_severity r > m_severity m then r_severity r else m_severity m), m_matched = True\<rparr> = absorb r m"
  by (auto simp: absorb_def max_def)

lemma match_loop_step:
  assumes "i < MAX_RULES_PER_INO" and "i < unat (rs_count rset)"
  shows "match_loop rset rd wr sb i m = match_loop rset rd wr sb (i + 1)
    (if rule_hit rd wr sb (rs_rules rset ! i) then absorb (rs_rules rset ! i) m else m)"
  using assms by (cases "rule_hit rd wr sb (rs_rules rset ! i)"; subst match_loop.simps) (simp_all add: Let_def absorb_step)

lemma match_loop_hits:
  assumes "set_ok rset"
  shows "match_loop rset rd wr sb i m =
    fold absorb (filter (rule_hit rd wr sb) (drop i (take (unat (rs_count rset)) (rs_rules rset)))) m"
proof (induction "MAX_RULES_PER_INO - i" arbitrary: i m rule: less_induct)
  case less
  let ?live = "take (unat (rs_count rset)) (rs_rules rset)"
  show ?case
  proof (cases "i < MAX_RULES_PER_INO \<and> i < unat (rs_count rset)")
    case False
    then have "drop i ?live = []" using assms by (auto simp: set_ok_def)
    with False show ?thesis by (auto simp: match_loop.simps)
  next
    case True
    then have "drop i ?live = rs_rules rset ! i # drop (i + 1) ?live"
      using assms by (simp add: Cons_nth_drop_Suc [symmetric] set_ok_def)
    moreover have "MAX_RULES_PER_INO - (i + 1) < MAX_RULES_PER_INO - i" using True by arith
    ultimately show ?thesis using True match_loop_step [of i rset rd wr sb m] less [of "i + 1"] by simp
  qed
qed

text \<open>The strongest action and the greatest severity among the hits.\<close>

definition strongest :: "monitor_rule list \<Rightarrow> u8" where
  "strongest rs = fold max (map r_action rs) ACTION_LOG"

definition severest :: "monitor_rule list \<Rightarrow> u8" where
  "severest rs = fold max (map r_severity rs) SEVERITY_LOW"

lemma fold_absorb: "fold absorb rs m =
    (if rs = [] then m
     else \<lparr>m_action = fold max (map r_action rs) (m_action m),
           m_severity = fold max (map r_severity rs) (m_severity m), m_matched = True\<rparr>)"
  by (induction rs arbitrary: m) (simp_all add: absorb_def max.commute)

lemma match_rule_set_hits:
  assumes "set_ok rset"
  shows "match_rule_set (Some rset) rd wr sb =
    \<lparr>m_action = strongest (hits rset rd wr sb), m_severity = severest (hits rset rd wr sb),
     m_matched = (hits rset rd wr sb \<noteq> [])\<rparr>"
  using match_loop_hits [OF assms]
  by (simp add: match_rule_set_def fold_absorb strongest_def severest_def hits_def Let_def)

lemma fold_max_eq: "fold max xs (z::u8) = Max (insert z (set xs))"
  by (metis Max.set_eq_fold list.set(2))

lemma strongest_ge: "r \<in> set rs \<Longrightarrow> r_action r \<le> strongest rs"
  by (simp add: strongest_def fold_max_eq)

lemma strongest_block: "strongest rs = ACTION_BLOCK \<longleftrightarrow>
    (\<exists>r \<in> set rs. r_action r = ACTION_BLOCK) \<and> (\<forall>r \<in> set rs. r_action r \<le> ACTION_BLOCK)"
proof -
  have "ACTION_LOG < ACTION_BLOCK" by (simp add: action_defs word_less_nat_alt)
  moreover have "(\<exists>r \<in> set rs. r_action r = ACTION_BLOCK) \<longleftrightarrow> ACTION_BLOCK \<in> r_action ` set rs" by force
  ultimately show ?thesis by (auto simp: strongest_def fold_max_eq Max_eq_iff)
qed

lemma severest_le: "severest rs \<le> s \<longleftrightarrow> (\<forall>r \<in> set rs. r_severity r \<le> s)"
  by (auto simp: severest_def fold_max_eq severity_defs)

section \<open>Accesses and their targets\<close>

text \<open>The access a hook is called for, with the context of the kernel, and the inodes it is
  checked against.\<close>

datatype FileOp =
    Permission KernelCtx File u32
  | Chmod KernelCtx "Dentry option" u32
  | Chown KernelCtx "Dentry option" u32 u32
  | Unlink KernelCtx "Dentry option"
  | Rename KernelCtx KernelCtx "Dentry option" "Dentry option"
  | Mmap KernelCtx File u64

record Target =
  tg_ctx :: KernelCtx
  tg_ino :: u64
  tg_dentry :: Dentry
  tg_read :: bool
  tg_write :: bool
  tg_bit :: u8
  tg_type :: u8
  tg_mask :: u32
  tg_mode :: u32
  tg_uid :: u32
  tg_gid :: u32

definition dentry_target :: "KernelCtx \<Rightarrow> Dentry option \<Rightarrow> u8 \<Rightarrow> u32 \<Rightarrow> u32 \<Rightarrow> u32 \<Rightarrow> Target list" where
  "dentry_target k d ty mo uid gid = (case d of None \<Rightarrow> []
     | Some d \<Rightarrow> [\<lparr>tg_ctx = k, tg_ino = ino_of d, tg_dentry = d, tg_read = False, tg_write = False,
         tg_bit = EVENT_MASK_BIT ty, tg_type = ty, tg_mask = 0, tg_mode = mo, tg_uid = uid, tg_gid = gid\<rparr>])"

definition rename_target :: "KernelCtx \<Rightarrow> Dentry option \<Rightarrow> Target list" where
  "rename_target k d = (case d of None \<Rightarrow> []
     | Some d \<Rightarrow> (case d_ino d of None \<Rightarrow> []
     | Some ino \<Rightarrow> [\<lparr>tg_ctx = k, tg_ino = ino, tg_dentry = d, tg_read = False, tg_write = True,
         tg_bit = 0, tg_type = EVENT_RENAME, tg_mask = 0, tg_mode = 0, tg_uid = 0, tg_gid = 0\<rparr>]))"

fun targets :: "FileOp \<Rightarrow> Target list" where
  "targets (Permission k f am) = (case f_dentry f of None \<Rightarrow> []
     | Some d \<Rightarrow> [\<lparr>tg_ctx = k, tg_ino = f_ino f, tg_dentry = d, tg_read = and am 4 \<noteq> 0, tg_write = and am 2 \<noteq> 0,
         tg_bit = 0, tg_type = 0, tg_mask = norm_mask am, tg_mode = 0, tg_uid = 0, tg_gid = 0\<rparr>])"
| "targets (Chmod k d mo) = dentry_target k d EVENT_CHMOD mo 0 0"
| "targets (Chown k d uid gid) = dentry_target k d EVENT_CHOWN 0 uid gid"
| "targets (Unlink k d) = dentry_target k d EVENT_UNLINK 0 0 0"
| "targets (Rename k k' d d') = rename_target k d @ rename_target k' d'"
| "targets (Mmap k f prot) = (case f_dentry f of None \<Rightarrow> []
     | Some d \<Rightarrow> [\<lparr>tg_ctx = k, tg_ino = f_ino f, tg_dentry = d, tg_read = and prot 1 \<noteq> 0, tg_write = and prot 2 \<noteq> 0,
         tg_bit = 0, tg_type = EVENT_MMAP, tg_mask = 0, tg_mode = 0, tg_uid = ucast prot, tg_gid = 0\<rparr>])"

fun lsm_hook :: "Mode \<Rightarrow> FileMaps \<Rightarrow> FileOp \<Rightarrow> FileChannel \<Rightarrow> int \<times> FileChannel" where
  "lsm_hook mo maps (Permission k f am) c = file_permission_hook mo maps k f am c"
| "lsm_hook mo maps (Chmod k d m) c = file_chmod_hook mo maps k d m c"
| "lsm_hook mo maps (Chown k d uid gid) c = file_chown_hook mo maps k d uid gid c"
| "lsm_hook mo maps (Unlink k d) c = file_unlink_hook mo maps k d c"
| "lsm_hook mo maps (Rename k k' d d') c = inode_rename_hook mo maps k k' d d' c"
| "lsm_hook mo maps (Mmap k f prot) c = file_mmap_hook mo maps k f prot c"

text \<open>There is no kprobe for memory mappings.\<close>

fun kprobe_hook :: "FileMaps \<Rightarrow> FileOp \<Rightarrow> FileChannel \<Rightarrow> int \<times> FileChannel" where
  "kprobe_hook maps (Permission k f am) c = kprobe_file_permission maps k f am c"
| "kprobe_hook maps (Chmod k d m) c = kprobe_path_chmod maps k d m c"
| "kprobe_hook maps (Chown k d uid gid) c = kprobe_path_chown maps k d uid gid c"
| "kprobe_hook maps (Unlink k d) c = kprobe_inode_unlink maps k d c"
| "kprobe_hook maps (Rename k k' d d') c = kprobe_inode_rename maps k k' d d' c"
| "kprobe_hook maps (Mmap k f prot) c = (0, c)"

section \<open>What a target comes to\<close>

definition target_hits :: "FileMaps \<Rightarrow> Target \<Rightarrow> monitor_rule list" where
  "target_hits maps t = (case monitor_actions maps (tg_ino t) of None \<Rightarrow> []
     | Some rset \<Rightarrow> hits rset (tg_read t) (tg_write t) (tg_bit t))"

text \<open>The event that is reported for a target: the task and the file, what was accessed or is to be
  changed, and the strongest action.\<close>

definition target_event :: "Target \<Rightarrow> u8 \<Rightarrow> FileEvent" where
  "target_event t act =
     \<lparr>ev_pid = cur_pid (tg_ctx t), ev_comm = read_str 16 (k_comm (tg_ctx t)),
      ev_path = (case d_name (tg_dentry t) of None \<Rightarrow> replicate 256 NUL | Some name \<Rightarrow> read_str 256 name),
      ev_ino = tg_ino t, ev_mask = tg_mask t, ev_action = act, ev_event_type = tg_type t,
      ev_new_mode = tg_mode t, ev_new_uid = tg_uid t, ev_new_gid = tg_gid t,
      ev_uid = cur_uid (tg_ctx t), ev_gid = cur_gid (tg_ctx t), ev_start_time = k_start_time (tg_ctx t)\<rparr>"

lemma target_event_file: "target_event t act = file_event (tg_ctx t) (tg_ino t) (tg_dentry t) (tg_type t) (tg_mask t)
     (tg_mode t) (tg_uid t) (tg_gid t) act"
  by (simp add: target_event_def file_event_def)

definition maps_ok :: "FileMaps \<Rightarrow> bool" where
  "maps_ok maps \<longleftrightarrow> (\<forall>ino rset. monitor_actions maps ino = Some rset \<longrightarrow> set_ok rset) \<and> monitor_actions maps 0 = None"

definition transport :: "Mode \<Rightarrow> KernelCtx \<Rightarrow> FileEvent \<times> bool \<Rightarrow> (FileEvent \<times> bool) Outcome" where
  "transport mo k e = (if k_room k \<and> (mo = USE_PERF_BUFFER \<longrightarrow> k_output_ok k) then Sent e
     else Lost DROP_SLOT_RESERVE_FAIL)"

definition lsm_outcomes1 :: "Mode \<Rightarrow> FileMaps \<Rightarrow> Target \<Rightarrow> (FileEvent \<times> bool) Outcome list" where
  "lsm_outcomes1 mo maps t =
     (let hs = target_hits maps t; bp = decide_backpressure mo maps (severest hs)
      in if hs = [] then []
         else if bp = BACKPRESSURE_DROP then [Lost DROP_SLOT_BACKPRESSURE]
         else [transport mo (tg_ctx t) (target_event t (strongest hs), bp = BACKPRESSURE_BATCH)])"

definition denied :: "Mode \<Rightarrow> FileMaps \<Rightarrow> Target \<Rightarrow> bool" where
  "denied mo maps t \<longleftrightarrow> (let hs = target_hits maps t
     in hs \<noteq> [] \<and> strongest hs = ACTION_BLOCK \<and> decide_backpressure mo maps (severest hs) \<noteq> BACKPRESSURE_DROP)"

fun lsm_outcomes :: "Mode \<Rightarrow> FileMaps \<Rightarrow> Target list \<Rightarrow> (FileEvent \<times> bool) Outcome list" where
  "lsm_outcomes mo maps [] = []"
| "lsm_outcomes mo maps (t # ts) =
     lsm_outcomes1 mo maps t @ (if denied mo maps t then [] else lsm_outcomes mo maps ts)"

definition kprobe_outcomes1 :: "FileMaps \<Rightarrow> Target \<Rightarrow> (FileEvent \<times> bool) Outcome list" where
  "kprobe_outcomes1 maps t =
     (let hs = target_hits maps t
      in if hs = [] then []
         else [transport USE_PERF_BUFFER (tg_ctx t) (target_event t (effective_action (strongest hs)), False)])"

lemma target_match:
  assumes "maps_ok maps"
  shows "match_rule_set (monitor_actions maps (tg_ino t)) (tg_read t) (tg_write t) (tg_bit t) =
    \<lparr>m_action = strongest (target_hits maps t), m_severity = severest (target_hits maps t),
     m_matched = (target_hits maps t \<noteq> [])\<rparr>"
proof (cases "monitor_actions maps (tg_ino t)")
  case None
  then show ?thesis by (simp add: match_rule_set_def target_hits_def strongest_def severest_def)
next
  case (Some rset)
  then have "set_ok rset" using assms by (simp add: maps_ok_def)
  from match_rule_set_hits [OF this] Some show ?thesis by (simp add: target_hits_def)
qed

lemma emit_attr_transport: "emit_attr_event mo k ino d ty am m u g act bp c =
    record_outcome (transport mo k (file_event k ino d ty am m u g act, mo = USE_RINGBUF \<and> bp = BACKPRESSURE_BATCH)) c"
  by (simp add: emit_attr_event_def transport_def Let_def split: Mode.splits)

lemma judge_target:
  assumes "maps_ok maps"
  shows "report_and_judge mo maps (tg_ctx t) (tg_ino t) (tg_dentry t) (tg_type t) (tg_mask t) (tg_mode t)
      (tg_uid t) (tg_gid t) (match_rule_set (monitor_actions maps (tg_ino t)) (tg_read t) (tg_write t) (tg_bit t)) c
    = (if denied mo maps t then - EPERM else 0, fold record_outcome (lsm_outcomes1 mo maps t) c)"
proof (cases "target_hits maps t = []")
  case True
  then show ?thesis
    unfolding target_match [OF assms] report_and_judge_def by (simp add: denied_def lsm_outcomes1_def)
next
  case False
  have bp: "mo = USE_RINGBUF" if "decide_backpressure mo maps s = BACKPRESSURE_BATCH" for s
    using that by (cases mo) (simp_all add: decide_backpressure_def)
  show ?thesis
  proof (cases "decide_backpressure mo maps (severest (target_hits maps t)) = BACKPRESSURE_DROP")
    case True
    with False show ?thesis
      unfolding target_match [OF assms] report_and_judge_def by (simp add: denied_def lsm_outcomes1_def)
  next
    case no_drop: False
    have "(mo = USE_RINGBUF \<and> decide_backpressure mo maps (severest (target_hits maps t)) = BACKPRESSURE_BATCH) =
        (decide_backpressure mo maps (severest (target_hits maps t)) = BACKPRESSURE_BATCH)"
      using bp by blast
    with False no_drop show ?thesis
      unfolding target_match [OF assms] report_and_judge_def
      by (simp add: denied_def lsm_outcomes1_def Let_def emit_attr_transport target_event_file)
  qed
qed

lemma report_target:
  assumes "maps_ok maps"
  shows "report_only (tg_ctx t) (tg_ino t) (tg_dentry t) (tg_type t) (tg_mask t) (tg_mode t)
      (tg_uid t) (tg_gid t) (match_rule_set (monitor_actions maps (tg_ino t)) (tg_read t) (tg_write t) (tg_bit t)) c
    = fold record_outcome (kprobe_outcomes1 maps t) c"
  unfolding target_match [OF assms] report_only_def
  by (simp add: kprobe_outcomes1_def Let_def emit_attr_transport target_event_file)


section \<open>The hooks against their specification\<close>

lemma check_rename_spec:
  assumes "maps_ok maps"
  shows "check_rename_target mo maps k d c =
    (if \<exists>t \<in> set (rename_target k d). denied mo maps t then - EPERM else 0,
     fold record_outcome (lsm_outcomes mo maps (rename_target k d)) c)"
proof (cases d)
  case (Some x)
  then show ?thesis
    using judge_target [OF assms(1), of mo "hd (rename_target k d)" c]
    by (cases "d_ino x") (simp_all add: check_rename_target_def rename_target_def Let_def)
qed (simp add: check_rename_target_def rename_target_def)

lemma lsm_outcomes_append: "lsm_outcomes mo maps (ts @ us) = lsm_outcomes mo maps ts @
    (if \<exists>t \<in> set ts. denied mo maps t then [] else lsm_outcomes mo maps us)"
  by (induction ts) auto

lemma lsm_hook_spec:
  assumes "maps_ok maps"
  shows "lsm_hook mo maps op c =
    (if \<exists>t \<in> set (targets op). denied mo maps t then - EPERM else 0,
     fold record_outcome (lsm_outcomes mo maps (targets op)) c)"
proof (cases op)
  case (Permission k f am)
  then show ?thesis using judge_target [OF assms(1), of mo "hd (targets op)" c]
    by (cases "f_dentry f") (simp_all add: file_permission_hook_def Let_def)
next
  case (Chmod k d m)
  then show ?thesis using judge_target [OF assms(1), of mo "hd (targets op)" c]
    by (cases d) (simp_all add: file_chmod_hook_def dentry_target_def Let_def)
next
  case (Chown k d u g)
  then show ?thesis using judge_target [OF assms(1), of mo "hd (targets op)" c]
    by (cases d) (simp_all add: file_chown_hook_def dentry_target_def Let_def)
next
  case (Unlink k d)
  then show ?thesis using judge_target [OF assms(1), of mo "hd (targets op)" c]
    by (cases d) (simp_all add: file_unlink_hook_def dentry_target_def Let_def)
next
  case (Rename k k' d d')
  then show ?thesis
    by (auto simp: inode_rename_hook_def check_rename_spec [OF assms] lsm_outcomes_append EPERM_def)
next
  case (Mmap k f prot)
  then show ?thesis using judge_target [OF assms(1), of mo "hd (targets op)" c]
    by (cases "f_dentry f") (simp_all add: file_mmap_hook_def Let_def)
qed


fun monitored_by_kprobe :: "FileOp \<Rightarrow> bool" where
  "monitored_by_kprobe (Mmap k f prot) \<longleftrightarrow> False"
| "monitored_by_kprobe _ \<longleftrightarrow> True"

definition kprobe_outcomes :: "FileMaps \<Rightarrow> FileOp \<Rightarrow> (FileEvent \<times> bool) Outcome list" where
  "kprobe_outcomes maps op = (if monitored_by_kprobe op then concat (map (kprobe_outcomes1 maps) (targets op)) else [])"

lemma kprobe_rename_spec:
  assumes "maps_ok maps"
  shows "kprobe_rename_target maps k d c = fold record_outcome (concat (map (kprobe_outcomes1 maps) (rename_target k d))) c"
proof (cases d)
  case (Some x)
  have "monitor_actions maps 0 = None" using assms by (simp add: maps_ok_def)
  then have "match_rule_set (monitor_actions maps 0) rd wr sb = \<lparr>m_action = ACTION_LOG,
      m_severity = SEVERITY_LOW, m_matched = False\<rparr>" for rd wr sb
    by (simp add: match_rule_set_def)
  with Some show ?thesis
    using report_target [OF assms, of "hd (rename_target k d)" c]
    by (cases "d_ino x") (simp_all add: kprobe_rename_target_def rename_target_def ino_of_def report_only_def Let_def)
qed (simp add: kprobe_rename_target_def rename_target_def)

lemma kprobe_hook_spec:
  assumes "maps_ok maps"
  shows "kprobe_hook maps op c = (0, fold record_outcome (kprobe_outcomes maps op) c)"
proof (cases op)
  case (Permission k f am)
  then show ?thesis using report_target [OF assms(1), of "hd (targets op)" c]
    by (cases "f_dentry f") (simp_all add: kprobe_file_permission_def kprobe_outcomes_def Let_def)
next
  case (Chmod k d m)
  then show ?thesis using report_target [OF assms(1), of "hd (targets op)" c]
    by (cases d) (simp_all add: kprobe_path_chmod_def dentry_target_def kprobe_outcomes_def Let_def)
next
  case (Chown k d u g)
  then show ?thesis using report_target [OF assms(1), of "hd (targets op)" c]
    by (cases d) (simp_all add: kprobe_path_chown_def dentry_target_def kprobe_outcomes_def Let_def)
next
  case (Unlink k d)
  then show ?thesis using report_target [OF assms(1), of "hd (targets op)" c]
    by (cases d) (simp_all add: kprobe_inode_unlink_def dentry_target_def kprobe_outcomes_def Let_def)
next
  case (Rename k k' d d')
  then show ?thesis
    by (simp add: kprobe_inode_rename_def kprobe_rename_spec [OF assms] kprobe_outcomes_def)
qed (simp add: kprobe_outcomes_def)

lemma transport_lost: "Lost slot = transport mo k e \<Longrightarrow> slot < DROP_STATS_SLOTS \<and> slot \<noteq> DROP_SLOT_EMITTED"
  by (simp add: transport_def slot_defs split: if_splits)

lemma backpressure_slot: "DROP_SLOT_BACKPRESSURE < DROP_STATS_SLOTS \<and> DROP_SLOT_BACKPRESSURE \<noteq> DROP_SLOT_EMITTED"
  by (simp add: slot_defs)

lemma lsm_lost: "Lost slot \<in> set (lsm_outcomes mo maps ts) \<Longrightarrow> slot < DROP_STATS_SLOTS \<and> slot \<noteq> DROP_SLOT_EMITTED"
proof (induction ts)
  case (Cons t ts)
  have "Lost slot \<in> set (lsm_outcomes1 mo maps t) \<Longrightarrow> slot < DROP_STATS_SLOTS \<and> slot \<noteq> DROP_SLOT_EMITTED"
    using backpressure_slot by (auto simp: lsm_outcomes1_def Let_def dest: transport_lost split: if_splits)
  with Cons show ?case by (auto split: if_splits)
qed simp

lemma kprobe_lost: "Lost slot \<in> set (kprobe_outcomes maps op) \<Longrightarrow> slot < DROP_STATS_SLOTS \<and> slot \<noteq> DROP_SLOT_EMITTED"
  by (auto simp: kprobe_outcomes_def kprobe_outcomes1_def Let_def dest: transport_lost split: if_splits)

text \<open>A call of a hook together with the maps at that moment; malformed maps, which the agent
  never writes, are left out of the runs.\<close>

type_synonym HookCall = "FileMaps \<times> FileOp"

abbreviation good_call :: "HookCall \<Rightarrow> bool" where
  "good_call call \<equiv> maps_ok (fst call)"

definition lsm_step :: "Mode \<Rightarrow> HookCall \<Rightarrow> FileChannel \<Rightarrow> FileChannel" where
  "lsm_step mo call c = (if good_call call then snd (lsm_hook mo (fst call) (snd call) c) else c)"

definition kprobe_step :: "HookCall \<Rightarrow> FileChannel \<Rightarrow> FileChannel" where
  "kprobe_step call c = (if good_call call then snd (kprobe_hook (fst call) (snd call) c) else c)"

interpretation lsm_ring: accounted_channel "lsm_step USE_RINGBUF"
  "\<lambda>call. if good_call call then lsm_outcomes USE_RINGBUF (fst call) (targets (snd call)) else []"
  by unfold_locales (simp add: lsm_step_def lsm_hook_spec, metis empty_iff empty_set lsm_lost)

interpretation lsm_perf: accounted_channel "lsm_step USE_PERF_BUFFER"
  "\<lambda>call. if good_call call then lsm_outcomes USE_PERF_BUFFER (fst call) (targets (snd call)) else []"
  by unfold_locales (simp add: lsm_step_def lsm_hook_spec, metis empty_iff empty_set lsm_lost)

interpretation kprobes: accounted_channel kprobe_step
  "\<lambda>call. if good_call call then kprobe_outcomes (fst call) (snd call) else []"
  by unfold_locales (simp add: kprobe_step_def kprobe_hook_spec, metis empty_iff empty_set kprobe_lost)

section \<open>Back pressure\<close>

lemma word_of_unat: "unat w = n \<Longrightarrow> w = of_nat n" for w :: "'a::len word"
  by (erule subst) simp

lemma word_small_cases:
  fixes s :: u8 and lv :: u32
  shows "s \<le> 1 \<Longrightarrow> s = 0 \<or> s = 1"
    and "s = 0 \<or> s = 1 \<or> s = 2 \<or> 3 \<le> unat s"
    and "lv \<le> 3 \<Longrightarrow> lv = 0 \<or> lv = 1 \<or> lv = 2 \<or> lv = 3"
proof -
  show "s \<le> 1 \<Longrightarrow> s = 0 \<or> s = 1"
  proof -
    assume "s \<le> 1"
    then have "unat s \<le> 1" by (simp add: word_le_nat_alt)
    then have "unat s = 0 \<or> unat s = 1" by arith
    then show ?thesis using word_of_unat [of s 0] word_of_unat [of s 1] by auto
  qed
  show "s = 0 \<or> s = 1 \<or> s = 2 \<or> 3 \<le> unat s"
  proof (cases "3 \<le> unat s")
    case False
    then have "unat s = 0 \<or> unat s = 1 \<or> unat s = 2" by arith
    then show ?thesis using word_of_unat [of s 0] word_of_unat [of s 1] word_of_unat [of s 2] by auto
  qed simp
  show "lv \<le> 3 \<Longrightarrow> lv = 0 \<or> lv = 1 \<or> lv = 2 \<or> lv = 3"
  proof -
    assume "lv \<le> 3"
    then have "unat lv \<le> 3" by (simp add: word_le_nat_alt)
    then have "unat lv = 0 \<or> unat lv = 1 \<or> unat lv = 2 \<or> unat lv = 3" by arith
    then show ?thesis using word_of_unat [of lv 0] word_of_unat [of lv 1] word_of_unat [of lv 2]
      word_of_unat [of lv 3] by auto
  qed
qed


definition pressure_rank :: "Backpressure \<Rightarrow> nat" where
  "pressure_rank bp = (case bp of BACKPRESSURE_REALTIME \<Rightarrow> 0 | BACKPRESSURE_BATCH \<Rightarrow> 1 | BACKPRESSURE_DROP \<Rightarrow> 2)"

lemma pressure_rank_eq:
  assumes "lv \<le> WATERMARK_OVERLOAD"
  shows "pressure_rank (check_backpressure (Some lv) s) = min 2 (unat lv - unat s)"
proof -
  have "lv = 0 \<or> lv = 1 \<or> lv = 2 \<or> lv = 3"
    using assms word_small_cases(3) by (simp add: watermark_defs)
  moreover have "unat (0::u32) = 0" "unat (1::u32) = 1" "unat (2::u32) = 2" "unat (3::u32) = 3" by simp_all
  moreover consider "s = 0" | "s = 1" | "s = 2" | "3 \<le> unat s" using word_small_cases(2) by blast
  then have "s = 0 \<and> unat s = 0 \<or> s = 1 \<and> unat s = 1 \<or> s = 2 \<and> unat s = 2 \<or>
      s \<noteq> 0 \<and> s \<noteq> 1 \<and> s \<noteq> 2 \<and> 3 \<le> unat s"
    by cases auto
  ultimately show ?thesis
    by (elim disjE) (simp_all add: check_backpressure_def pressure_rank_def watermark_defs severity_defs)
qed

definition downgrade :: "FileEvent \<times> bool \<Rightarrow> FileEvent \<times> bool" where
  "downgrade ew = ((fst ew)\<lparr>ev_action := effective_action (ev_action (fst ew))\<rparr>, snd ew)"

fun downgrade_outcome :: "(FileEvent \<times> bool) Outcome \<Rightarrow> (FileEvent \<times> bool) Outcome" where
  "downgrade_outcome (Sent e) = Sent (downgrade e)"
| "downgrade_outcome (Lost slot) = Lost slot"

lemma downgrade_transport: "downgrade_outcome (transport mo k e) = transport mo k (downgrade e)"
  by (simp add: transport_def)

lemma kprobe_outcomes1_downgrade: "kprobe_outcomes1 maps t = map downgrade_outcome (lsm_outcomes1 USE_PERF_BUFFER maps t)"
  by (simp add: kprobe_outcomes1_def lsm_outcomes1_def Let_def decide_backpressure_def downgrade_transport)
     (simp add: downgrade_def target_event_def file_event_def)

lemma lsm_outcomes_all: "\<forall>t \<in> set (butlast ts). \<not> denied mo maps t \<Longrightarrow>
    lsm_outcomes mo maps ts = concat (map (lsm_outcomes1 mo maps) ts)"
  by (induction ts) (auto split: if_splits)

lemma downgraded_fold: "snd (0 :: int, fold record_outcome (map downgrade_outcome os) c) =
    (fold record_outcome os c)\<lparr>ch_events := ch_events c @ map downgrade (sent_events os)\<rparr>"
proof -
  have "fold record_outcome (map downgrade_outcome os) (c\<lparr>ch_events := es\<rparr>) =
      (fold record_outcome os c)\<lparr>ch_events := es @ map downgrade (sent_events os)\<rparr>" for es
  proof (induction os arbitrary: c es)
    case (Cons out os)
    have "record_outcome (downgrade_outcome out) (c\<lparr>ch_events := es\<rparr>) =
        (record_outcome out c)\<lparr>ch_events := es @ map downgrade (sent_events [out])\<rparr>"
      by (cases out) (simp_all add: submit_def inc_slot_def)
    with Cons show ?case by (cases out) simp_all
  qed simp
  from this [of "ch_events c"] show ?thesis by simp
qed

lemma fold_outcomes_events: "ch_events (fold record_outcome os c) = ch_events c @ sent_events os"
proof (induction os arbitrary: c)
  case (Cons out os)
  then show ?case by (cases out) (simp_all add: submit_def inc_slot_def)
qed simp

text \<open>The targets a hook really checks: up to and with the first one that is denied.\<close>

fun checked :: "Mode \<Rightarrow> FileMaps \<Rightarrow> Target list \<Rightarrow> Target list" where
  "checked mo maps [] = []"
| "checked mo maps (t # ts) = t # (if denied mo maps t then [] else checked mo maps ts)"

lemma lsm_attempts: "length (lsm_outcomes mo maps ts) =
    length (filter (\<lambda>t. target_hits maps t \<noteq> []) (checked mo maps ts))"
  by (induction ts) (simp_all add: lsm_outcomes1_def Let_def denied_def)

text \<open>A file with a blocking rule of the given severity, for the examples.\<close>

definition sample_ctx :: KernelCtx where
  "sample_ctx = \<lparr>k_pid_tgid = 7, k_uid_gid = 0, k_ppid = 1, k_start_time = 9, k_now = 5, k_cgroup = 0,
     k_comm = ''cat'', k_room = True, k_output_ok = True\<rparr>"

definition block_maps :: "u8 \<Rightarrow> u32 \<Rightarrow> FileMaps" where
  "block_maps severity lv = \<lparr>monitor_actions = (\<lambda>ino. if ino = 5 then Some \<lparr>rs_count = 1,
     rs_rules = \<lparr>r_action = ACTION_BLOCK, r_events_mask = 3, r_severity = severity\<rparr> #
       replicate 3 \<lparr>r_action = 0, r_events_mask = 0, r_severity = 0\<rparr>\<rparr> else None), watermark_level = Some lv\<rparr>"

definition read_five :: FileOp where
  "read_five = Permission sample_ctx \<lparr>f_dentry = Some \<lparr>d_ino = Some 5, d_name = None\<rparr>, f_ino = 5\<rparr> 4"

lemma block_maps_ok: "maps_ok (block_maps severity lv)"
  by (auto simp: maps_ok_def block_maps_def set_ok_def MAX_RULES_PER_INO_def)

definition five :: Target where
  "five = \<lparr>tg_ctx = sample_ctx, tg_ino = 5,
    tg_dentry = \<lparr>d_ino = Some 5, d_name = None\<rparr>, tg_read = True, tg_write = False, tg_bit = 0, tg_type = 0,
    tg_mask = 1, tg_mode = 0, tg_uid = 0, tg_gid = 0\<rparr>"

lemma sample_facts: "targets read_five = [five]"
  "target_hits (block_maps severity lv) five = [\<lparr>r_action = ACTION_BLOCK, r_events_mask = 3, r_severity = severity\<rparr>]"
  "watermark_level (block_maps severity lv) = Some lv" "monitored_by_kprobe read_five"
  by (simp_all add: five_def read_five_def norm_mask_def target_hits_def block_maps_def hits_def rule_hit_def event_defs)

text \<open>
  C15. A hook of the LSM program denies an access exactly when, for one of the inodes the access
  concerns, a rule that covers the access has the action to block, none has a stronger one, and
  back pressure does not drop the event at the greatest severity among the covering rules.
\<close>

theorem lsm_denies_exactly:
  assumes "maps_ok maps"
  shows "fst (lsm_hook mo maps op c) =
    (if \<exists>t \<in> set (targets op).
          (\<exists>r \<in> set (target_hits maps t). r_action r = ACTION_BLOCK) \<and>
          (\<forall>r \<in> set (target_hits maps t). r_action r \<le> ACTION_BLOCK) \<and>
          decide_backpressure mo maps (severest (target_hits maps t)) \<noteq> BACKPRESSURE_DROP
     then - EPERM else 0)"
proof -
  have "denied mo maps t \<longleftrightarrow> (\<exists>r \<in> set (target_hits maps t). r_action r = ACTION_BLOCK) \<and>
          (\<forall>r \<in> set (target_hits maps t). r_action r \<le> ACTION_BLOCK) \<and>
          decide_backpressure mo maps (severest (target_hits maps t)) \<noteq> BACKPRESSURE_DROP" for t
    by (auto simp: denied_def Let_def strongest_block)
  then show ?thesis by (simp add: lsm_hook_spec [OF assms])
qed

lemma lsm_denies_exactly_witness:
  "fst (lsm_hook USE_RINGBUF (block_maps SEVERITY_HIGH WATERMARK_NORMAL) read_five new_channel) = - EPERM"
  using lsm_denies_exactly [OF block_maps_ok, of USE_RINGBUF SEVERITY_HIGH WATERMARK_NORMAL read_five new_channel]
  by (simp add: sample_facts decide_backpressure_def check_backpressure_def watermark_defs)

text \<open>
  C16. The channel of the LSM program is exact: over any calls on an empty channel it holds, in order,
  the event of every inode that was checked and hit by a rule, shed by no back pressure and for which
  the buffer had room, with the strongest action of the rules and the flag of a delayed wake-up when
  the pressure asks for batches. The slot of back pressure counts the events shed, the slot of failed
  reservations those without room, the emitted slot those sent, none is booked as discarded, and
  together they count the hits, each of which is reported or counted once.
\<close>

theorem lsm_statistics_exact:
  fixes mo :: Mode
  defines "c calls \<equiv> fold (lsm_step mo) calls new_channel"
    and "outs calls \<equiv> concat (map (\<lambda>(maps, op). lsm_outcomes mo maps (targets op)) calls)"
  assumes "\<forall>call \<in> set calls. maps_ok (fst call)"
  shows "ch_events (c calls) = sent_events (outs calls) \<and>
    ch_stats (c calls) = map (\<lambda>s. of_nat (length (filter (\<lambda>out. outcome_slot out = s) (outs calls)))) [0..<DROP_STATS_SLOTS] \<and>
    ch_stats (c calls) ! DROP_SLOT_EMITTED = of_nat (length (ch_events (c calls))) \<and>
    ch_stats (c calls) ! DROP_SLOT_DISCARDED = 0 \<and>
    sum_list (ch_stats (c calls)) = of_nat (length (filter (\<lambda>(maps, t). target_hits maps t \<noteq> [])
      (concat (map (\<lambda>(maps, op). map (Pair maps) (checked mo maps (targets op))) calls))))"
proof -
  let ?outs = "\<lambda>call. if maps_ok (fst call) then lsm_outcomes mo (fst call) (targets (snd call)) else []"
  have outs: "concat (map ?outs calls) = outs calls"
    using assms(3) by (auto simp: outs_def intro!: arg_cong [where f = concat])
  have hits: "length (concat (map ?outs calls)) = length (filter (\<lambda>(maps, t). target_hits maps t \<noteq> [])
      (concat (map (\<lambda>(maps, op). map (Pair maps) (checked mo maps (targets op))) calls)))"
    using assms(3) by (induction calls) (auto simp: lsm_attempts filter_map comp_def)
  have "outcome_slot out \<noteq> DROP_SLOT_DISCARDED" if "out \<in> set (lsm_outcomes mo maps ts)" for out maps ts
    using that by (induction ts) (auto simp: lsm_outcomes1_def Let_def transport_def slot_defs split: if_splits)
  then have kept: "filter (\<lambda>out. outcome_slot out = DROP_SLOT_DISCARDED) (concat (map ?outs calls)) = []"
    by (auto simp: filter_empty_conv)
  have d: "DROP_SLOT_DISCARDED < DROP_STATS_SLOTS" by (simp add: slot_defs)
  have "ch_events (c calls) = sent_events (concat (map ?outs calls)) \<and>
    ch_stats (c calls) = map (\<lambda>s. of_nat (length (filter (\<lambda>out. outcome_slot out = s) (concat (map ?outs calls))))) [0..<DROP_STATS_SLOTS] \<and>
    ch_stats (c calls) ! DROP_SLOT_EMITTED = of_nat (length (ch_events (c calls))) \<and>
    ch_stats (c calls) ! DROP_SLOT_DISCARDED =
      of_nat (length (filter (\<lambda>out. outcome_slot out = DROP_SLOT_DISCARDED) (concat (map ?outs calls)))) \<and>
    sum_list (ch_stats (c calls)) = of_nat (length (concat (map ?outs calls)))"
  proof (cases mo)
    case USE_RINGBUF
    show ?thesis unfolding c_def USE_RINGBUF
      by (intro conjI lsm_ring.run_accounts(1,3,4) lsm_ring.run_stats lsm_ring.run_accounts(2) [OF d])
  next
    case USE_PERF_BUFFER
    show ?thesis unfolding c_def USE_PERF_BUFFER
      by (intro conjI lsm_perf.run_accounts(1,3,4) lsm_perf.run_stats lsm_perf.run_accounts(2) [OF d])
  qed
  then show ?thesis unfolding hits kept list.size(3) semiring_1_class.of_nat_0 unfolding outs .
qed

text \<open>Two reads of a file with a blocking rule of low severity: one is shed under overload, one reported.\<close>

definition two_reads :: "HookCall list" where
  "two_reads = [(block_maps SEVERITY_LOW WATERMARK_OVERLOAD, read_five), (block_maps SEVERITY_LOW WATERMARK_NORMAL, read_five)]"

lemma lsm_statistics_exact_witness:
  "ch_stats (fold (lsm_step USE_RINGBUF) two_reads new_channel) = [1, 0, 1, 0] \<and>
   ch_events (fold (lsm_step USE_RINGBUF) two_reads new_channel) = [(target_event five ACTION_BLOCK, False)]"
proof -
  have "concat (map (\<lambda>(maps, op). lsm_outcomes USE_RINGBUF maps (targets op)) two_reads) =
      [Lost DROP_SLOT_BACKPRESSURE, Sent (target_event five ACTION_BLOCK, False)]"
    by (simp add: two_reads_def sample_facts lsm_outcomes1_def denied_def Let_def decide_backpressure_def check_backpressure_def
      severest_def strongest_def severity_defs watermark_defs transport_def action_defs)
      (simp add: five_def sample_ctx_def)
  moreover have "\<forall>call \<in> set two_reads. maps_ok (fst call)" by (simp add: two_reads_def block_maps_ok)
  ultimately show ?thesis
    using lsm_statistics_exact [of two_reads USE_RINGBUF] by (simp add: slot_defs upt_rec)
qed

text \<open>
  C17. For every access but the mapping of a file, which only the LSM program watches, the kprobe program
  reports what the LSM program reports on the same transport: the same events, except that the action
  to block is reported as an alert, and the same statistics, and it never denies. The LSM program
  stops at a rename whose source it denies; for such a rename the two are not compared.
\<close>

theorem kprobe_reports_as_lsm:
  assumes "maps_ok maps" and "\<nexists>k f prot. op = Mmap k f prot"
    and "\<forall>t \<in> set (butlast (targets op)). \<not> denied USE_PERF_BUFFER maps t"
    and "lsm_hook USE_PERF_BUFFER maps op c = (verdict, c\<^sub>1)"
  shows "\<exists>new. ch_events c\<^sub>1 = ch_events c @ new \<and>
    kprobe_hook maps op c = (0, c\<^sub>1\<lparr>ch_events := ch_events c @ map downgrade new\<rparr>)"
proof (intro exI conjI)
  let ?os = "lsm_outcomes USE_PERF_BUFFER maps (targets op)"
  have c1: "c\<^sub>1 = fold record_outcome ?os c"
    using assms(4) by (simp add: lsm_hook_spec [OF assms(1)])
  show "ch_events c\<^sub>1 = ch_events c @ sent_events ?os" by (simp add: c1 fold_outcomes_events)
  have monitored: "monitored_by_kprobe op" using assms(2) by (cases op) auto
  have "kprobe_outcomes maps op = map downgrade_outcome ?os"
    using monitored by (simp add: kprobe_outcomes_def lsm_outcomes_all [OF assms(3)] map_concat comp_def
        kprobe_outcomes1_downgrade [abs_def])
  then show "kprobe_hook maps op c = (0, c\<^sub>1\<lparr>ch_events := ch_events c @ map downgrade (sent_events ?os)\<rparr>)"
    using downgraded_fold [of ?os c] by (simp add: kprobe_hook_spec [OF assms(1)] c1)
qed

lemma kprobe_reports_as_lsm_witness:
  "\<exists>new. ch_events (snd (lsm_hook USE_PERF_BUFFER (block_maps 0 0) read_five new_channel)) = ch_events new_channel @ new \<and>
    kprobe_hook (block_maps 0 0) read_five new_channel =
      (0, (snd (lsm_hook USE_PERF_BUFFER (block_maps 0 0) read_five new_channel))
            \<lparr>ch_events := ch_events new_channel @ map downgrade new\<rparr>)"
  by (rule kprobe_reports_as_lsm [OF block_maps_ok, where verdict = "fst (lsm_hook USE_PERF_BUFFER (block_maps 0 0) read_five new_channel)"])
    (simp_all add: sample_facts read_five_def)

text \<open>
  Back pressure respects severity: a more severe event is never treated worse, a critical
  one is always reported at once, and a fuller buffer never treats an event better.
\<close>

theorem backpressure_monotone:
  assumes "s \<le> s'" and "lv \<le> lv'" and "lv' \<le> WATERMARK_OVERLOAD"
  shows "pressure_rank (check_backpressure (Some lv) s') \<le> pressure_rank (check_backpressure (Some lv) s) \<and>
    pressure_rank (check_backpressure (Some lv) s) \<le> pressure_rank (check_backpressure (Some lv') s) \<and>
    check_backpressure (Some lv) SEVERITY_CRITICAL = BACKPRESSURE_REALTIME"
proof -
  have lv: "lv \<le> WATERMARK_OVERLOAD" using assms(2,3) by (rule order_trans)
  have "unat s \<le> unat s'" "unat lv \<le> unat lv'" using assms by (simp_all add: word_le_nat_alt)
  moreover have "check_backpressure (Some lv) SEVERITY_CRITICAL = BACKPRESSURE_REALTIME"
    by (simp add: check_backpressure_def severity_defs)
  ultimately show ?thesis by (auto simp: pressure_rank_eq [OF lv] pressure_rank_eq [OF assms(3)])
qed

lemma backpressure_monotone_witness:
  "pressure_rank (check_backpressure (Some WATERMARK_WARNING) SEVERITY_HIGH) \<le>
     pressure_rank (check_backpressure (Some WATERMARK_WARNING) SEVERITY_LOW)"
  by (rule conjunct1 [OF backpressure_monotone [of SEVERITY_LOW SEVERITY_HIGH WATERMARK_WARNING WATERMARK_WARNING]])
    (simp_all add: severity_defs watermark_defs word_le_nat_alt)

text \<open>
  Under overload a blocking rule of low or medium severity is not enforced: when every rule
  that covers the access has at most medium severity, the access is allowed and not reported.
\<close>

theorem overload_lifts_block:
  assumes "maps_ok maps" and "watermark_level maps = Some WATERMARK_OVERLOAD"
    and "\<forall>t \<in> set (targets op). \<forall>r \<in> set (target_hits maps t). r_severity r \<le> SEVERITY_MEDIUM"
  shows "fst (lsm_hook USE_RINGBUF maps op c) = 0 \<and> ch_events (snd (lsm_hook USE_RINGBUF maps op c)) = ch_events c"
proof -
  have drop: "decide_backpressure USE_RINGBUF maps s = BACKPRESSURE_DROP" if "s \<le> SEVERITY_MEDIUM" for s
  proof -
    have "s = SEVERITY_LOW \<or> s = SEVERITY_MEDIUM"
      using that word_small_cases(1) by (simp add: severity_defs)
    then show ?thesis by (auto simp: decide_backpressure_def check_backpressure_def assms(2) watermark_defs)
  qed
  have sev: "decide_backpressure USE_RINGBUF maps (severest (target_hits maps t)) = BACKPRESSURE_DROP"
    if "t \<in> set (targets op)" for t
    using assms(3) that by (intro drop) (simp add: severest_le)
  then have none: "\<forall>t \<in> set (targets op). \<not> denied USE_RINGBUF maps t" by (auto simp: denied_def Let_def)
  have "sent_events (lsm_outcomes USE_RINGBUF maps ts) = []" if "set ts \<subseteq> set (targets op)" for ts
    using that by (induction ts) (auto simp: lsm_outcomes1_def Let_def sev)
  then show ?thesis using none by (simp add: lsm_hook_spec [OF assms(1)] fold_outcomes_events)
qed

lemma overload_lifts_block_witness:
  "fst (lsm_hook USE_RINGBUF (block_maps SEVERITY_MEDIUM WATERMARK_OVERLOAD) read_five new_channel) = 0"
  by (rule conjunct1 [OF overload_lifts_block [OF block_maps_ok]]) (simp_all add: sample_facts)

end
