(* ===== verification/Rule_Sets.thy ===== *)
theory Rule_Sets
  imports Mon_Rule Bpf_File "HOL-Library.AList"
begin

text \<open>
  What the agent makes of the configured rules at startup (\<open>src/src/baseline/monitor.cpp\<close>): the
  rule table that the event handlers consult (\<open>FileRuleTable::Build\<close>) and the rule sets it
  writes into the kernel map (\<open>common_monitor_init\<close>), with the inodes of the baseline database.
  The maps are association lists; the writes into the kernel map are assumed to succeed for the
  inodes of the argument \<open>accepted\<close>, since the map is bounded and the agent ignores failures.
\<close>

section \<open>The rule table\<close>

record FileRuleTable =
  inode_to_rules :: "(u64 \<times> MonRule list) list"
  inode_to_path :: "(u64 \<times> string) list"
  inode_to_hashes :: "(u64 \<times> string list) list"

definition entry_list :: "(u64 \<times> 'a list) list \<Rightarrow> u64 \<Rightarrow> 'a list" where
  "entry_list t ino = (case map_of t ino of None \<Rightarrow> [] | Some xs \<Rightarrow> xs)"

definition monitored :: "MonRule \<Rightarrow> bool" where
  "monitored rule \<longleftrightarrow> has_monitor rule \<and> monitor_path rule \<noteq> [] \<and> mr_ino rule \<noteq> 0"

definition add_file_rule :: "MonRule \<Rightarrow> FileRuleTable \<Rightarrow> FileRuleTable" where
  "add_file_rule rule t =
     (if \<not> monitored rule then t
      else (let ino = mr_ino rule
            in \<lparr>inode_to_rules = AList.update ino (entry_list (inode_to_rules t) ino @ [rule]) (inode_to_rules t),
                inode_to_path = AList.update ino (monitor_path rule) (inode_to_path t),
                inode_to_hashes = (if check_hash rule \<noteq> []
                   then AList.update ino (entry_list (inode_to_hashes t) ino @ [check_hash rule]) (inode_to_hashes t)
                   else inode_to_hashes t)\<rparr>))"

definition build_file_rules :: "MonRule list \<Rightarrow> FileRuleTable" where
  "build_file_rules rules =
     fold add_file_rule rules \<lparr>inode_to_rules = [], inode_to_path = [], inode_to_hashes = []\<rparr>"

section \<open>Merging rules into kernel rule sets\<close>

definition zero_monitor_rule :: monitor_rule where
  "zero_monitor_rule = \<lparr>r_action = 0, r_events_mask = 0, r_severity = 0\<rparr>"

definition zero_rule_set :: monitor_rule_set where
  "zero_rule_set = \<lparr>rs_count = 0, rs_rules = replicate MAX_RULES_PER_INO zero_monitor_rule\<rparr>"

definition kernel_rule :: "MonRule \<Rightarrow> monitor_rule" where
  "kernel_rule rule =
     (let emask = 0;
          emask = (if monitor_read rule then or emask EVENT_READ else emask);
          emask = (if monitor_write rule then or emask EVENT_WRITE else emask);
          emask = (if monitor_delete rule then or emask (EVENT_MASK_BIT EVENT_UNLINK) else emask);
          emask = (if monitor_chmod rule then or emask (EVENT_MASK_BIT EVENT_CHMOD) else emask);
          emask = (if monitor_chown rule then or emask (EVENT_MASK_BIT EVENT_CHOWN) else emask)
      in \<lparr>r_action = (if monitor_action rule = ACT_BLOCK then ACTION_BLOCK else ACTION_ALERT),
          r_events_mask = emask, r_severity = mr_severity rule\<rparr>)"

definition weaker :: "monitor_rule \<Rightarrow> monitor_rule \<Rightarrow> bool" where
  "weaker a b \<longleftrightarrow> r_action a < r_action b \<or> (r_action a = r_action b \<and> r_severity a < r_severity b)"

text \<open>The index of the first weakest entry.\<close>

definition weakest_index :: "monitor_rule list \<Rightarrow> nat" where
  "weakest_index rs = fold (\<lambda>i weakest. if weaker (rs ! i) (rs ! weakest) then i else weakest) [1..<MAX_RULES_PER_INO] 0"

definition add_to_set :: "monitor_rule \<Rightarrow> monitor_rule_set \<Rightarrow> monitor_rule_set" where
  "add_to_set r rset =
     (if unat (rs_count rset) < MAX_RULES_PER_INO
      then \<lparr>rs_count = rs_count rset + 1, rs_rules = (rs_rules rset)[unat (rs_count rset) := r]\<rparr>
      else (let w = weakest_index (rs_rules rset)
            in if weaker (rs_rules rset ! w) r then rset\<lparr>rs_rules := (rs_rules rset)[w := r]\<rparr> else rset))"

type_synonym RuleSets = "(u64 \<times> monitor_rule_set) list"

definition set_of :: "RuleSets \<Rightarrow> u64 \<Rightarrow> monitor_rule_set" where
  "set_of sets ino = (case map_of sets ino of None \<Rightarrow> zero_rule_set | Some rset \<Rightarrow> rset)"

definition merge_rule :: "MonRule \<Rightarrow> RuleSets \<Rightarrow> RuleSets" where
  "merge_rule rule sets =
     (if \<not> monitored rule then sets
      else AList.update (mr_ino rule) (add_to_set (kernel_rule rule) (set_of sets (mr_ino rule))) sets)"

definition merge_rules :: "MonRule list \<Rightarrow> RuleSets" where
  "merge_rules rules = fold merge_rule rules []"

definition baseline_rule :: monitor_rule where
  "baseline_rule = \<lparr>r_action = ACTION_ALERT,
     r_events_mask = or (or (or EVENT_READ EVENT_WRITE) (EVENT_MASK_BIT EVENT_CHMOD)) (EVENT_MASK_BIT EVENT_CHOWN),
     r_severity = SEVERITY_HIGH\<rparr>"

text \<open>The inodes of the baseline entries; \<open>lstat\<close> is done before and yields no inode 0.\<close>

definition register_baseline :: "u64 list \<Rightarrow> RuleSets \<Rightarrow> RuleSets" where
  "register_baseline inos sets =
     fold (\<lambda>ino sets. if map_of sets ino \<noteq> None then sets
                      else AList.update ino (add_to_set baseline_rule zero_rule_set) sets) inos sets"

definition kernel_map :: "(u64 \<Rightarrow> bool) \<Rightarrow> RuleSets \<Rightarrow> u64 \<Rightarrow> monitor_rule_set option" where
  "kernel_map accepted sets ino = (if accepted ino then map_of sets ino else None)"

definition monitor_init :: "(u64 \<Rightarrow> bool) \<Rightarrow> MonRule list \<Rightarrow> u64 list \<Rightarrow> u64 \<Rightarrow> monitor_rule_set option" where
  "monitor_init accepted rules baseline_inos = kernel_map accepted (register_baseline baseline_inos (merge_rules rules))"

end
