(* ===== verification/Rule_Sets_Correct.thy ===== *)
theory Rule_Sets_Correct
  imports Rule_Sets Bpf_File_Correct "HOL-Library.Multiset"
begin

text \<open>
  From the configured rules to the verdict of the kernel: the rule sets keep the strongest rules
  of each inode, so that the accesses the LSM program denies are those a blocking rule of the
  configuration covers.
\<close>

section \<open>Strength of rules\<close>

lemma not_weaker_trans: "\<not> weaker b a \<Longrightarrow> \<not> weaker c b \<Longrightarrow> \<not> weaker c a"
  by (auto simp: weaker_def)

lemma weaker_asym: "weaker a b \<Longrightarrow> \<not> weaker b a"
  by (auto simp: weaker_def)

text \<open>The loop finds an entry that no other one undercuts.\<close>

lemma weakest_among:
  fixes rs :: "monitor_rule list"
  shows "\<exists>w \<le> n. fold (\<lambda>i weakest. if weaker (rs ! i) (rs ! weakest) then i else weakest) [1..<Suc n] 0 = w \<and>
    (\<forall>i \<le> n. \<not> weaker (rs ! i) (rs ! w))"
proof (induction n)
  case 0
  show ?case by (simp add: weaker_def)
next
  case (Suc n)
  let ?f = "\<lambda>i weakest. if weaker (rs ! i) (rs ! weakest) then i else weakest"
  obtain w where w: "w \<le> n" "fold ?f [1..<Suc n] 0 = w" "\<forall>i \<le> n. \<not> weaker (rs ! i) (rs ! w)"
    using Suc by blast
  have step: "fold ?f [1..<Suc (Suc n)] 0 = ?f (Suc n) w" using w(2) by simp
  show ?case
  proof (cases "weaker (rs ! Suc n) (rs ! w)")
    case True
    have "\<not> weaker (rs ! i) (rs ! Suc n)" if "i \<le> Suc n" for i
    proof (cases "i = Suc n")
      case True
      then show ?thesis by (simp add: weaker_def)
    next
      case False
      then have "\<not> weaker (rs ! i) (rs ! w)" using that w(3) by simp
      with weaker_asym [OF True] show ?thesis by (rule not_weaker_trans)
    qed
    with True step show ?thesis by (intro exI [of _ "Suc n"]) simp
  next
    case False
    with w step show ?thesis by (intro exI [of _ w]) (auto simp: le_Suc_eq)
  qed
qed

lemma weakest_index_least:
  "weakest_index rs < MAX_RULES_PER_INO \<and> (\<forall>i < MAX_RULES_PER_INO. \<not> weaker (rs ! i) (rs ! weakest_index rs))"
  using weakest_among [of 3 rs] by (force simp: weakest_index_def MAX_RULES_PER_INO_def)

section \<open>The rules a set keeps\<close>

definition live :: "monitor_rule_set \<Rightarrow> monitor_rule list" where
  "live rset = take (unat (rs_count rset)) (rs_rules rset)"

text \<open>A set stands for the rules added to it, in order: it is a C array, it keeps all of them as
  long as they fit, and of more than it can hold it keeps the strongest.\<close>

definition keeps_strongest :: "monitor_rule list \<Rightarrow> monitor_rule_set \<Rightarrow> bool" where
  "keeps_strongest rs rset \<longleftrightarrow> set_ok rset \<and>
     unat (rs_count rset) = min (length rs) MAX_RULES_PER_INO \<and>
     (length rs \<le> MAX_RULES_PER_INO \<longrightarrow> live rset = rs) \<and>
     (\<exists>dropped. mset rs = mset (live rset) + dropped \<and>
        (\<forall>d. d \<in># dropped \<longrightarrow> (\<forall>r \<in> set (live rset). \<not> weaker r d)))"

lemma keeps_zero: "keeps_strongest [] zero_rule_set"
  by (simp add: keeps_strongest_def zero_rule_set_def set_ok_def live_def)

lemma set_take_nth: "r \<in> set (take n xs) \<Longrightarrow> n \<le> length xs \<Longrightarrow> \<exists>i < n. r = xs ! i"
  by (auto simp: in_set_conv_nth)

lemma keeps_add:
  assumes k: "keeps_strongest rs rset"
  shows "keeps_strongest (rs @ [r]) (add_to_set r rset)"
proof -
  have ok: "length (rs_rules rset) = 4" using k by (simp add: keeps_strongest_def set_ok_def MAX_RULES_PER_INO_def)
  obtain dropped where d: "mset rs = mset (live rset) + dropped"
    "\<And>x y. x \<in># dropped \<Longrightarrow> y \<in> set (live rset) \<Longrightarrow> \<not> weaker y x"
    using k by (auto simp: keeps_strongest_def)
  show ?thesis
  proof (cases "length rs < 4")
    case True
    then have c: "unat (rs_count rset) = length rs" and l: "live rset = rs"
      using k by (auto simp: keeps_strongest_def MAX_RULES_PER_INO_def)
    have c': "unat (rs_count rset + 1) = Suc (length rs)"
      using True c by (simp add: unat_word_ariths)
    have "take (Suc (length rs)) ((rs_rules rset)[length rs := r]) = rs @ [r]"
      using True ok l c by (simp add: live_def take_Suc_conv_app_nth)
    then have "live (add_to_set r rset) = rs @ [r]"
      using True c c' by (simp add: live_def add_to_set_def MAX_RULES_PER_INO_def)
    with True c c' ok show ?thesis
      by (auto simp: keeps_strongest_def add_to_set_def MAX_RULES_PER_INO_def set_ok_def)
  next
    case False
    then have c: "unat (rs_count rset) = 4" using k by (simp add: keeps_strongest_def MAX_RULES_PER_INO_def)
    have l: "live rset = rs_rules rset" using c ok by (simp add: live_def)
    let ?w = "weakest_index (rs_rules rset)"
    have w: "?w < 4" "\<And>y. y \<in> set (rs_rules rset) \<Longrightarrow> \<not> weaker y (rs_rules rset ! ?w)"
      using weakest_index_least [of "rs_rules rset"] ok by (auto simp: MAX_RULES_PER_INO_def in_set_conv_nth)
    show ?thesis
    proof (cases "weaker (rs_rules rset ! ?w) r")
      case True
      let ?new = "(rs_rules rset)[?w := r]"
      have l': "live (add_to_set r rset) = ?new"
        using c True ok by (simp add: live_def add_to_set_def MAX_RULES_PER_INO_def Let_def)
      have "mset ?new = add_mset r (mset (rs_rules rset) - {#rs_rules rset ! ?w#})"
        using w(1) ok by (simp add: mset_update)
      then have m: "mset (rs @ [r]) = mset ?new + add_mset (rs_rules rset ! ?w) dropped"
        using d(1) l w(1) ok by (simp add: multiset_eq_iff)
      have "\<not> weaker y x" if x: "x \<in># add_mset (rs_rules rset ! ?w) dropped" and y: "y \<in> set ?new" for x y
      proof -
        have yw: "\<not> weaker y (rs_rules rset ! ?w)"
          using y w set_update_subset_insert [of "rs_rules rset" ?w r] weaker_asym [OF True] by auto
        have "\<not> weaker (rs_rules rset ! ?w) x"
          using x d(2) [of x "rs_rules rset ! ?w"] l w(1) ok by (auto simp: weaker_def)
        from not_weaker_trans [OF this yw] show ?thesis .
      qed
      with m l' c ok False True show ?thesis
        by (auto simp: keeps_strongest_def add_to_set_def MAX_RULES_PER_INO_def set_ok_def Let_def)
    next
      case weak: False
      have same: "add_to_set r rset = rset"
        using c weak by (simp add: add_to_set_def MAX_RULES_PER_INO_def Let_def)
      have "\<not> weaker y x" if x: "x \<in># add_mset r dropped" and y: "y \<in> set (live rset)" for x y
        using x y d(2) w(2) l not_weaker_trans [OF weak] by auto
      moreover have "mset (rs @ [r]) = mset (live rset) + add_mset r dropped" using d(1) by simp
      ultimately show ?thesis using c ok False
        unfolding keeps_strongest_def same by (auto simp: MAX_RULES_PER_INO_def set_ok_def)
    qed
  qed
qed


section \<open>Merging\<close>

definition rules_for :: "MonRule list \<Rightarrow> u64 \<Rightarrow> MonRule list" where
  "rules_for rules ino = filter (\<lambda>rule. monitored rule \<and> mr_ino rule = ino) rules"

definition merged_to :: "MonRule list \<Rightarrow> monitor_rule_set option \<Rightarrow> bool" where
  "merged_to rs x = (case x of None \<Rightarrow> rs = []
     | Some rset \<Rightarrow> rs \<noteq> [] \<and> keeps_strongest (map kernel_rule rs) rset)"

lemma rules_for_snoc: "rules_for (rules @ [rule]) ino =
    (if monitored rule \<and> mr_ino rule = ino then rules_for rules ino @ [rule] else rules_for rules ino)"
  by (simp add: rules_for_def)

lemma merge_rules_sets: "merged_to (rules_for rules ino) (map_of (merge_rules rules) ino)"
proof (induction rules rule: rev_induct)
  case Nil
  show ?case by (simp add: rules_for_def merge_rules_def merged_to_def)
next
  case (snoc rule rules)
  have step: "merge_rules (rules @ [rule]) = merge_rule rule (merge_rules rules)"
    by (simp add: merge_rules_def)
  have "keeps_strongest (map kernel_rule (rules_for rules ino)) (set_of (merge_rules rules) ino)"
    using snoc keeps_zero by (simp add: set_of_def merged_to_def split: option.splits)
  note add = keeps_add [OF this, of "kernel_rule rule"]
  show ?case
  proof (cases "monitored rule \<and> mr_ino rule = ino")
    case True
    with add show ?thesis by (simp add: step merge_rule_def rules_for_snoc AList.update_conv' merged_to_def)
  next
    case False
    with snoc show ?thesis by (auto simp: step merge_rule_def rules_for_snoc AList.update_conv')
  qed
qed

lemma register_baseline_sets: "map_of (register_baseline inos sets) ino =
    (if map_of sets ino \<noteq> None then map_of sets ino
     else if ino \<in> set inos then Some (add_to_set baseline_rule zero_rule_set) else None)"
proof (induction inos arbitrary: sets)
  case (Cons i inos)
  then show ?case by (auto simp: register_baseline_def AList.update_conv')
qed (simp add: register_baseline_def)

lemma monitor_init_sets: "monitor_init accepted rules inos ino = Some rset \<Longrightarrow>
    accepted ino \<and> (rules_for rules ino \<noteq> [] \<and> keeps_strongest (map kernel_rule (rules_for rules ino)) rset
      \<or> rules_for rules ino = [] \<and> ino \<in> set inos \<and> keeps_strongest [baseline_rule] rset)"
  using merge_rules_sets [of rules ino] keeps_add [OF keeps_zero, of baseline_rule]
  by (auto simp: monitor_init_def kernel_map_def register_baseline_sets merged_to_def split: if_splits option.splits)

lemma monitor_init_ok:
  assumes "monitor_actions maps = monitor_init accepted rules inos" and "0 \<notin> set inos"
  shows "maps_ok maps"
proof -
  have "set_ok rset" if "monitor_actions maps ino = Some rset" for ino rset
    using monitor_init_sets [of accepted rules inos ino rset] that assms(1) by (auto simp: keeps_strongest_def)
  moreover have "monitor_actions maps 0 = None"
  proof (cases "monitor_actions maps 0")
    case (Some rset)
    then have "rules_for rules 0 \<noteq> [] \<or> 0 \<in> set inos" using monitor_init_sets assms(1) by metis
    then show ?thesis using assms(2) by (auto simp: rules_for_def monitored_def filter_empty_conv)
  qed
  ultimately show ?thesis by (simp add: maps_ok_def)
qed

text \<open>An access a rule of the configuration is about.\<close>

definition covers :: "MonRule \<Rightarrow> Target \<Rightarrow> bool" where
  "covers rule t \<longleftrightarrow>
     tg_bit t = 0 \<and> (tg_read t \<and> monitor_read rule \<or> tg_write t \<and> monitor_write rule) \<or>
     tg_bit t = EVENT_MASK_BIT EVENT_CHMOD \<and> monitor_chmod rule \<or>
     tg_bit t = EVENT_MASK_BIT EVENT_CHOWN \<and> monitor_chown rule \<or>
     tg_bit t = EVENT_MASK_BIT EVENT_UNLINK \<and> monitor_delete rule"

lemma mask_bits: "EVENT_MASK_BIT EVENT_CHMOD = 8" "EVENT_MASK_BIT EVENT_CHOWN = 16" "EVENT_MASK_BIT EVENT_UNLINK = 32"
  by (simp_all add: EVENT_MASK_BIT_def event_defs word_le_nat_alt push_bit_eq_mult)

lemma target_bits: "t \<in> set (targets op) \<Longrightarrow> tg_bit t \<in> {0, 8, 16, 32}"
  by (cases op) (auto simp: dentry_target_def rename_target_def mask_bits split: option.splits)

lemma covers_hit:
  assumes "tg_bit t \<in> {0, 8, 16, 32}"
  shows "rule_hit (tg_read t) (tg_write t) (tg_bit t) (kernel_rule rule) = covers rule t"
proof -
  have "rule_hit rd wr 0 (kernel_rule rule) = (rd \<and> monitor_read rule \<or> wr \<and> monitor_write rule)"
    "rule_hit rd wr 8 (kernel_rule rule) = monitor_chmod rule"
    "rule_hit rd wr 16 (kernel_rule rule) = monitor_chown rule"
    "rule_hit rd wr 32 (kernel_rule rule) = monitor_delete rule" for rd wr
    by (cases "monitor_read rule"; cases "monitor_write rule"; cases "monitor_delete rule";
        cases "monitor_chmod rule"; cases "monitor_chown rule";
        simp add: rule_hit_def kernel_rule_def Let_def mask_bits; simp add: event_defs)+
  with assms show ?thesis by (auto simp: covers_def mask_bits)
qed


text \<open>A blocking rule is displaced only by blocking rules.\<close>

definition blocking :: "MonRule \<Rightarrow> bool" where
  "blocking rule \<longleftrightarrow> monitor_action rule = ACT_BLOCK"

lemma kernel_rule_action: "r_action (kernel_rule rule) = (if blocking rule then ACTION_BLOCK else ACTION_ALERT)"
  by (simp add: kernel_rule_def Let_def blocking_def)

lemma alert_not_block: "ACTION_ALERT \<noteq> ACTION_BLOCK" "ACTION_ALERT \<le> ACTION_BLOCK"
  by (simp_all add: action_defs word_le_nat_alt)

lemma kernel_rule_action_le: "r_action (kernel_rule rule) \<le> ACTION_BLOCK"
  by (simp add: kernel_rule_action action_defs word_le_nat_alt)

lemma size_filter_blocking: "size (filter_mset (\<lambda>r. r_action r = ACTION_BLOCK) (mset (map kernel_rule rs))) =
    length (filter blocking rs)"
  by (induction rs) (auto simp: kernel_rule_action action_defs)

lemma blocking_kept:
  assumes k: "keeps_strongest (map kernel_rule rs) rset" and few: "length (filter blocking rs) \<le> MAX_RULES_PER_INO"
    and rule: "rule \<in> set rs" "blocking rule"
  shows "kernel_rule rule \<in> set (live rset)"
proof (rule ccontr)
  assume gone: "kernel_rule rule \<notin> set (live rset)"
  obtain dropped where d: "mset (map kernel_rule rs) = mset (live rset) + dropped"
    "\<And>x y. x \<in># dropped \<Longrightarrow> y \<in> set (live rset) \<Longrightarrow> \<not> weaker y x"
    using k by (auto simp: keeps_strongest_def)
  have "kernel_rule rule \<in># mset (live rset) + dropped"
    unfolding d(1) [symmetric] using rule(1) by simp
  then have in_d: "kernel_rule rule \<in># dropped" using gone by simp
  have full: "length (live rset) = MAX_RULES_PER_INO"
  proof -
    have "live rset \<noteq> map kernel_rule rs" using gone rule(1) by auto
    then have "MAX_RULES_PER_INO < length rs" using k by (auto simp: keeps_strongest_def)
    then show ?thesis using k by (simp add: keeps_strongest_def live_def set_ok_def)
  qed
  have "r_action y = ACTION_BLOCK" if y: "y \<in> set (live rset)" for y
  proof -
    have "\<not> r_action y < ACTION_BLOCK"
      using d(2) [OF in_d y] rule(2) by (auto simp: weaker_def kernel_rule_action)
    moreover have "y \<in># mset (map kernel_rule rs)" using y by (simp add: d(1) del: mset_map)
    then have "r_action y \<le> ACTION_BLOCK" using kernel_rule_action_le by auto
    ultimately show ?thesis by simp
  qed
  then have "filter_mset (\<lambda>r. r_action r = ACTION_BLOCK) (mset (live rset)) = mset (live rset)"
    by (simp add: filter_mset_eq_conv)
  moreover have "0 < size (filter_mset (\<lambda>r. r_action r = ACTION_BLOCK) dropped)"
  proof -
    have "kernel_rule rule \<in># filter_mset (\<lambda>r. r_action r = ACTION_BLOCK) dropped"
      using in_d rule(2) by (simp add: kernel_rule_action)
    then have "filter_mset (\<lambda>r. r_action r = ACTION_BLOCK) dropped \<noteq> {#}" by (metis empty_iff set_mset_empty)
    then show ?thesis by (simp only: nonempty_has_size)
  qed
  ultimately have "MAX_RULES_PER_INO < size (filter_mset (\<lambda>r. r_action r = ACTION_BLOCK) (mset (map kernel_rule rs)))"
    unfolding d(1) by (simp add: full)
  with few show False by (simp only: size_filter_blocking)
qed

lemma live_from_rules:
  assumes "keeps_strongest rs rset" and "r \<in> set (live rset)"
  shows "r \<in> set rs"
proof -
  obtain dropped where "mset rs = mset (live rset) + dropped" using assms(1) by (auto simp: keeps_strongest_def)
  then have "set_mset (mset rs) = set_mset (mset (live rset) + dropped)" by simp
  then show ?thesis using assms(2) by auto
qed

text \<open>The hits of a target are blocking exactly when a configured rule is.\<close>

lemma configured_hits:
  assumes init: "monitor_actions maps = monitor_init accepted rules inos"
    and few: "length (filter blocking (rules_for rules (tg_ino t))) \<le> MAX_RULES_PER_INO"
    and t: "t \<in> set (targets op)"
  shows "(\<forall>r \<in> set (target_hits maps t). r_action r \<le> ACTION_BLOCK) \<and>
    ((\<exists>r \<in> set (target_hits maps t). r_action r = ACTION_BLOCK) \<longleftrightarrow> accepted (tg_ino t) \<and>
      (\<exists>rule \<in> set (rules_for rules (tg_ino t)). blocking rule \<and> covers rule t))"
proof (cases "monitor_actions maps (tg_ino t)")
  case None
  then have "\<not> accepted (tg_ino t) \<or> rules_for rules (tg_ino t) = []"
    using merge_rules_sets [of rules "tg_ino t"] init
    by (auto simp: monitor_init_def kernel_map_def register_baseline_sets merged_to_def split: if_splits option.splits)
  with None show ?thesis by (auto simp: target_hits_def)
next
  case (Some rset)
  have hits: "target_hits maps t = filter (rule_hit (tg_read t) (tg_write t) (tg_bit t)) (live rset)"
    using Some by (simp add: target_hits_def hits_def live_def)
  have cov: "rule_hit (tg_read t) (tg_write t) (tg_bit t) (kernel_rule rule) = covers rule t" for rule
    by (rule covers_hit [OF target_bits [OF t]])
  consider "accepted (tg_ino t)" "keeps_strongest (map kernel_rule (rules_for rules (tg_ino t))) rset"
    | "rules_for rules (tg_ino t) = []" "keeps_strongest [baseline_rule] rset"
    using monitor_init_sets [of accepted rules inos "tg_ino t" rset] Some init by auto
  then show ?thesis
  proof cases
    case 1
    have from_rule: "\<exists>rule \<in> set (rules_for rules (tg_ino t)). r = kernel_rule rule" if "r \<in> set (live rset)" for r
      using live_from_rules [OF 1(2) that] by auto
    have "(\<exists>r \<in> set (target_hits maps t). r_action r = ACTION_BLOCK) \<longleftrightarrow>
        (\<exists>rule \<in> set (rules_for rules (tg_ino t)). blocking rule \<and> covers rule t)"
    proof
      assume "\<exists>r \<in> set (target_hits maps t). r_action r = ACTION_BLOCK"
      then obtain r where r: "r \<in> set (live rset)" "rule_hit (tg_read t) (tg_write t) (tg_bit t) r" "r_action r = ACTION_BLOCK"
        by (auto simp: hits)
      from from_rule [OF r(1)] obtain rule where rule: "rule \<in> set (rules_for rules (tg_ino t))" "r = kernel_rule rule" ..
      have "blocking rule" using r(3) rule(2) alert_not_block by (simp add: kernel_rule_action split: if_splits)
      moreover have "covers rule t" using r(2) rule(2) cov by simp
      ultimately show "\<exists>rule \<in> set (rules_for rules (tg_ino t)). blocking rule \<and> covers rule t"
        using rule(1) by blast
    next
      assume "\<exists>rule \<in> set (rules_for rules (tg_ino t)). blocking rule \<and> covers rule t"
      then obtain rule where rule: "rule \<in> set (rules_for rules (tg_ino t))" "blocking rule" "covers rule t" by blast
      have "kernel_rule rule \<in> set (target_hits maps t)"
        using blocking_kept [OF 1(2) few rule(1,2)] rule(3) by (simp add: hits cov)
      then show "\<exists>r \<in> set (target_hits maps t). r_action r = ACTION_BLOCK"
        using rule(2) by (intro bexI [of _ "kernel_rule rule"]) (simp_all add: kernel_rule_action)
    qed
    moreover have "\<forall>r \<in> set (target_hits maps t). r_action r \<le> ACTION_BLOCK"
    proof
      fix r assume "r \<in> set (target_hits maps t)"
      then have "r \<in> set (live rset)" by (simp add: hits)
      from from_rule [OF this] show "r_action r \<le> ACTION_BLOCK" using kernel_rule_action_le by blast
    qed
    ultimately show ?thesis using 1(1) by blast
  next
    case 2
    have "r = baseline_rule" if "r \<in> set (target_hits maps t)" for r
      using live_from_rules [OF 2(2)] that by (auto simp: hits)
    moreover have "r_action baseline_rule = ACTION_ALERT" by (simp add: baseline_rule_def)
    ultimately have "\<forall>r \<in> set (target_hits maps t). r_action r = ACTION_ALERT" by metis
    with 2(1) alert_not_block show ?thesis by auto
  qed
qed

section \<open>The properties\<close>

text \<open>
  The rule set the agent writes for an inode is faithful to the configuration: it exists
  for every inode of a monitored rule the map accepts, it holds all rules of the inode in order
  when there are at most four, and of more it holds four such that no rule left out is stronger
  (by action, then severity) than one kept.
\<close>

theorem merged_sets_keep_strongest:
  "\<exists>dropped. case kernel_map (\<lambda>_. True) (merge_rules rules) ino of
       None \<Rightarrow> rules_for rules ino = []
     | Some rset \<Rightarrow> rules_for rules ino \<noteq> [] \<and>
         length (live rset) = min (length (rules_for rules ino)) MAX_RULES_PER_INO \<and>
         mset (map kernel_rule (rules_for rules ino)) = mset (live rset) + dropped \<and>
         (\<forall>d r. d \<in># dropped \<and> r \<in> set (live rset) \<longrightarrow> \<not> weaker r d) \<and>
         (length (rules_for rules ino) \<le> MAX_RULES_PER_INO \<longrightarrow> live rset = map kernel_rule (rules_for rules ino))"
proof (cases "map_of (merge_rules rules) ino")
  case None
  then show ?thesis using merge_rules_sets [of rules ino] by (simp add: kernel_map_def merged_to_def)
next
  case (Some rset)
  then have k: "rules_for rules ino \<noteq> []" "keeps_strongest (map kernel_rule (rules_for rules ino)) rset"
    using merge_rules_sets [of rules ino] by (simp_all add: merged_to_def)
  then obtain dropped where "mset (map kernel_rule (rules_for rules ino)) = mset (live rset) + dropped"
    "\<forall>d. d \<in># dropped \<longrightarrow> (\<forall>r \<in> set (live rset). \<not> weaker r d)"
    by (auto simp: keeps_strongest_def)
  then show ?thesis using Some k
    by (intro exI [of _ dropped]) (auto simp: kernel_map_def keeps_strongest_def live_def set_ok_def)
qed

definition shadow_rule :: MonRule where
  "shadow_rule = empty_rule\<lparr>mr_id := ''r1'', mr_ino := 5, has_monitor := True, monitor_path := ''/etc/shadow'',
     monitor_action := ACT_BLOCK, monitor_read := True\<rparr>"

lemma shadow_rule_facts: "monitored shadow_rule" "mr_ino shadow_rule = 5" "blocking shadow_rule"
  "rules_for [shadow_rule] ino = (if ino = 5 then [shadow_rule] else [])"
  by (simp_all add: shadow_rule_def empty_rule_def monitored_def blocking_def rules_for_def)

lemma merged_sets_keep_strongest_witness:
  "\<exists>rset. kernel_map (\<lambda>_. True) (merge_rules [shadow_rule]) 5 = Some rset \<and> live rset = [kernel_rule shadow_rule]"
  using merged_sets_keep_strongest [of "[shadow_rule]" 5]
  by (auto simp: shadow_rule_facts MAX_RULES_PER_INO_def split: option.splits)

text \<open>
  C18. From the configuration to the kernel's verdict: with the map the agent writes at startup,
  and as long as back pressure drops nothing, the LSM program denies an access exactly when a
  monitored rule of the configuration with the action to block covers it, for an inode the map
  accepted. At most four blocking rules may concern one inode; other rules do not matter.
\<close>

theorem configured_blocks_enforced:
  assumes "monitor_actions maps = monitor_init accepted rules inos" and "0 \<notin> set inos"
    and "\<forall>ino. length (filter blocking (rules_for rules ino)) \<le> MAX_RULES_PER_INO"
    and "\<forall>severity. decide_backpressure mo maps severity \<noteq> BACKPRESSURE_DROP"
  shows "fst (lsm_hook mo maps op c) =
    (if \<exists>t \<in> set (targets op). accepted (tg_ino t) \<and>
          (\<exists>rule \<in> set rules. monitored rule \<and> mr_ino rule = tg_ino t \<and> blocking rule \<and> covers rule t)
     then - EPERM else 0)"
proof -
  have ok: "maps_ok maps" by (rule monitor_init_ok [OF assms(1,2)])
  have "denied mo maps t \<longleftrightarrow> accepted (tg_ino t) \<and>
      (\<exists>rule \<in> set rules. monitored rule \<and> mr_ino rule = tg_ino t \<and> blocking rule \<and> covers rule t)"
    if t: "t \<in> set (targets op)" for t
  proof -
    have "denied mo maps t \<longleftrightarrow> (\<exists>r \<in> set (target_hits maps t). r_action r = ACTION_BLOCK) \<and>
        (\<forall>r \<in> set (target_hits maps t). r_action r \<le> ACTION_BLOCK)"
      using assms(4) by (auto simp: denied_def Let_def strongest_block)
    with configured_hits [OF assms(1) _ t] assms(3) show ?thesis by (auto simp: rules_for_def)
  qed
  then show ?thesis by (simp add: lsm_hook_spec [OF ok])
qed


lemma configured_blocks_enforced_witness:
  "fst (lsm_hook USE_RINGBUF \<lparr>monitor_actions = monitor_init (\<lambda>_. True) [shadow_rule] [],
     watermark_level = Some WATERMARK_NORMAL\<rparr> read_five new_channel) = - EPERM"
proof -
  let ?maps = "\<lparr>monitor_actions = monitor_init (\<lambda>_. True) [shadow_rule] [], watermark_level = Some WATERMARK_NORMAL\<rparr>"
  have "fst (lsm_hook USE_RINGBUF ?maps read_five new_channel) =
    (if \<exists>t \<in> set (targets read_five). True \<and>
          (\<exists>rule \<in> set [shadow_rule]. monitored rule \<and> mr_ino rule = tg_ino t \<and> blocking rule \<and> covers rule t)
     then - EPERM else 0)"
    by (rule configured_blocks_enforced [where inos = "[]" and accepted = "\<lambda>_. True"])
      (simp_all add: shadow_rule_facts MAX_RULES_PER_INO_def decide_backpressure_def check_backpressure_def)
  moreover have "covers shadow_rule five" "tg_ino five = 5"
    by (simp_all add: covers_def five_def shadow_rule_def)
  ultimately show ?thesis by (simp add: sample_facts shadow_rule_facts)
qed

end
