(* ===== verification/Byte_Layout.thy ===== *)
theory Byte_Layout
  imports Event_Record
begin

text \<open>
  The bytes of C structs: little endian words, reads and writes at offsets, characters as bytes.
  \<open>memcpy\<close> between a struct and a byte array is the layout of the struct and its inverse.
\<close>

section \<open>Words and characters\<close>

definition put_bytes :: "nat \<Rightarrow> u8 list \<Rightarrow> u8 list \<Rightarrow> u8 list" where
  "put_bytes off bs u = take off u @ bs @ drop (off + length bs) u"

definition get_bytes :: "nat \<Rightarrow> nat \<Rightarrow> u8 list \<Rightarrow> u8 list" where
  "get_bytes off n u = take n (drop off u)"

definition to_le :: "nat \<Rightarrow> 'a::len word \<Rightarrow> u8 list" where
  "to_le n w = map (\<lambda>i. ucast (drop_bit (8 * i) w)) [0..<n]"

definition of_le :: "u8 list \<Rightarrow> 'a::len word" where
  "of_le bs = foldr (\<lambda>b acc. or (push_bit 8 acc) (ucast b)) bs 0"

definition char_byte :: "char \<Rightarrow> u8" where "char_byte c = of_nat (char_code c)"
definition byte_char :: "u8 \<Rightarrow> char" where "byte_char b = char_of (unat b)"

lemma length_to_le [simp]: "length (to_le n w) = n"
  by (simp add: to_le_def)

lemma byte_char_byte [simp]: "byte_char (char_byte c) = c"
proof -
  have "unat (of_nat (char_code c) :: u8) = of_char c"
    by (simp add: unat_of_nat char_code_def)
  then show ?thesis by (simp add: byte_char_def char_byte_def)
qed

lemma unat_mod_256: "unat (b :: u8) mod 256 = unat b"
proof -
  have "unat b < 2 ^ LENGTH(8)" by (rule unsigned_less)
  then show ?thesis by simp
qed

lemma char_byte_char [simp]: "char_byte (byte_char b) = b"
  by (simp add: byte_char_def char_byte_def char_code_def unat_mod_256)

lemma bit_of_le: "bit (of_le bs :: 'a::len word) n \<longleftrightarrow> n < LENGTH('a) \<and> n div 8 < length bs \<and> bit (bs ! (n div 8)) (n mod 8)"
proof (induction bs arbitrary: n)
  case Nil
  then show ?case by (simp add: of_le_def)
next
  case (Cons b bs)
  show ?case
  proof (cases "n < 8")
    case True
    then show ?thesis by (auto simp: of_le_def bit_simps)
  next
    case False
    then have "n div 8 = Suc ((n - 8) div 8)" "n mod 8 = (n - 8) mod 8" by (simp_all add: le_div_geq le_mod_geq)
    with False Cons [of "n - 8"] show ?thesis
      by (auto simp: of_le_def bit_simps dest: bit_imp_le_length)
  qed
qed

lemma bit_to_le: "i < n \<Longrightarrow> j < 8 \<Longrightarrow> bit (to_le n w ! i) j \<longleftrightarrow> bit w (8 * i + j)"
  by (auto simp: to_le_def bit_simps)

lemma of_le_to_le: "LENGTH('a) \<le> 8 * n \<Longrightarrow> of_le (to_le n (w :: 'a::len word)) = w"
proof (rule bit_word_eqI)
  fix i assume "LENGTH('a) \<le> 8 * n" "i < LENGTH('a)"
  then have "i div 8 < n" by linarith
  then show "bit (of_le (to_le n w) :: 'a word) i = bit w i"
    using \<open>i < LENGTH('a)\<close> by (simp add: bit_of_le bit_to_le)
qed

lemma of_le_words [simp]: "of_le (to_le 8 (a :: u64)) = a" "of_le (to_le 4 (b :: u32)) = b"
  "of_le (to_le 2 (c :: u16)) = c" "of_le (to_le (Suc 0) (d :: u8)) = d"
  by (simp_all add: of_le_to_le)

section \<open>Offsets\<close>

lemma length_put_bytes [simp]: "off + length bs \<le> length u \<Longrightarrow> length (put_bytes off bs u) = length u"
  by (simp add: put_bytes_def)

lemma get_put_bytes: "off + length bs \<le> length u \<Longrightarrow> n = length bs \<Longrightarrow> get_bytes off n (put_bytes off bs u) = bs"
  by (simp add: get_bytes_def put_bytes_def)

lemma get_put_bytes_other:
  assumes "off + length bs \<le> length u" and "off' + n \<le> off \<or> off + length bs \<le> off'"
  shows "get_bytes off' n (put_bytes off bs u) = get_bytes off' n u"
proof -
  have "put_bytes off bs u ! i = u ! i" if "i < length u" "i < off \<or> off + length bs \<le> i" for i
    using that assms(1) by (auto simp: put_bytes_def nth_append)
  moreover have "length (put_bytes off bs u) = length u" using assms(1) by simp
  ultimately show ?thesis using assms(2)
    by (intro nth_equalityI) (auto simp: get_bytes_def)
qed

lemma get_bytes_append: "off = length a \<Longrightarrow> n = length b \<Longrightarrow> get_bytes off n (a @ b @ c) = b"
  by (simp add: get_bytes_def)

end
