(* ===== verification/Bpf_Net.thy ===== *)
theory Bpf_Net
  imports Bpf_Core
begin

text \<open>
  The network program of the kernel (\<open>src/bpf/net_watch.bpf.c\<close>, events in
  \<open>src/bpf/net_event.h\<close>): connections, accepts, binds and DNS queries. User memory is a map
  from addresses to mapped bytes that does not change while a hook runs; a read fails when it
  touches an unmapped byte, and a failed read whose result is not checked leaves zeros. Kernel
  objects are records whose null pointers and failing reads are \<open>None\<close>. A \<open>sockaddr_in\<close> is its
  16 bytes, with the family in the byte order of the machine (little endian).
\<close>

section \<open>Events\<close>

definition NET_EVENT_CONNECT :: u8 where "NET_EVENT_CONNECT = 1"
definition NET_EVENT_ACCEPT :: u8 where "NET_EVENT_ACCEPT = 2"
definition NET_EVENT_BIND :: u8 where "NET_EVENT_BIND = 3"
definition NET_EVENT_DNS :: u8 where "NET_EVENT_DNS = 4"
definition NET_FAMILY_INET :: u16 where "NET_FAMILY_INET = 2"
definition NET_PROTO_TCP :: u8 where "NET_PROTO_TCP = 6"
definition NET_PROTO_UDP :: u8 where "NET_PROTO_UDP = 17"
definition NET_DNS_PORT :: u16 where "NET_DNS_PORT = 53"

lemmas net_defs = NET_EVENT_CONNECT_def NET_EVENT_ACCEPT_def NET_EVENT_BIND_def NET_EVENT_DNS_def
  NET_FAMILY_INET_def NET_PROTO_TCP_def NET_PROTO_UDP_def NET_DNS_PORT_def

record NetEvent =
  ne_ts_ns :: u64
  ne_pid :: u32
  ne_ppid :: u32
  ne_uid :: u32
  ne_gid :: u32
  ne_cgroup_id :: u64
  ne_event_kind :: u8
  ne_family :: u8
  ne_protocol :: u8
  ne_sport :: u16
  ne_dport :: u16
  ne_saddr :: "u8 list"
  ne_daddr :: "u8 list"
  ne_comm :: string
  ne_qtype :: u16
  ne_domain :: "u8 list"

text \<open>The reserved and cleared event with the task fields filled in.\<close>

definition net_task_event :: "KernelCtx \<Rightarrow> NetEvent" where
  "net_task_event k =
     \<lparr>ne_ts_ns = k_now k, ne_pid = cur_pid k, ne_ppid = k_ppid k, ne_uid = cur_uid k, ne_gid = cur_gid k,
      ne_cgroup_id = k_cgroup k, ne_event_kind = 0, ne_family = 0, ne_protocol = 0, ne_sport = 0, ne_dport = 0,
      ne_saddr = replicate 16 0, ne_daddr = replicate 16 0, ne_comm = read_str 16 (k_comm k), ne_qtype = 0,
      ne_domain = replicate 256 0\<rparr>"

definition put_addr :: "u8 list \<Rightarrow> u8 list" where
  "put_addr addr4 = addr4 @ replicate 12 0"

section \<open>Memory\<close>

type_synonym UserMem = "u64 \<Rightarrow> u8 option"

definition read_user :: "UserMem \<Rightarrow> u64 \<Rightarrow> nat \<Rightarrow> u8 list option" where
  "read_user mem p n =
     (let bs = map (\<lambda>i. mem (p + of_nat i)) [0..<n]
      in if None \<in> set bs then None else Some (map the bs))"

definition read_user_or_zero :: "UserMem \<Rightarrow> u64 \<Rightarrow> nat \<Rightarrow> u8 list" where
  "read_user_or_zero mem p n = (case read_user mem p n of None \<Rightarrow> replicate n 0 | Some bs \<Rightarrow> bs)"

definition le16 :: "u8 list \<Rightarrow> u16" where
  "le16 bs = or (ucast (bs ! 0)) (push_bit 8 (ucast (bs ! 1)))"

definition be16 :: "u8 list \<Rightarrow> u16" where
  "be16 bs = or (push_bit 8 (ucast (bs ! 0))) (ucast (bs ! 1))"

definition le64 :: "u8 list \<Rightarrow> u64" where
  "le64 bs = foldr (\<lambda>b acc. or (push_bit 8 acc) (ucast b)) (take 8 bs) 0"

definition bpf_ntohs :: "u16 \<Rightarrow> u16" where
  "bpf_ntohs w = or (push_bit 8 w) (drop_bit 8 w)"

definition sin_family :: "u8 list \<Rightarrow> u16" where "sin_family sa = le16 sa"
definition sin_port :: "u8 list \<Rightarrow> u16" where "sin_port sa = be16 (drop 2 sa)"
definition sin_addr :: "u8 list \<Rightarrow> u8 list" where "sin_addr sa = take 4 (drop 4 sa)"

section \<open>DNS queries\<close>

definition DNS_PAYLOAD_MAX :: nat where "DNS_PAYLOAD_MAX = 512"
definition DNS_HDR_LEN :: nat where "DNS_HDR_LEN = 12"
definition DNS_MAX_LABELS :: nat where "DNS_MAX_LABELS = 32"
definition DNS_QNAME_MAX :: nat where "DNS_QNAME_MAX = 255"

text \<open>The loop over the labels with the iterations that are left: the position behind the root
  label, or \<open>None\<close> when the query is given up.\<close>

fun dns_walk :: "nat \<Rightarrow> UserMem \<Rightarrow> u64 \<Rightarrow> nat \<Rightarrow> nat \<Rightarrow> nat option" where
  "dns_walk 0 mem buff rdlen pos = None"
| "dns_walk (Suc n) mem buff rdlen pos =
     (if pos \<ge> rdlen then None
      else (case read_user mem (buff + of_nat pos) 1 of
              None \<Rightarrow> None
            | Some bs \<Rightarrow>
               (let c = bs ! 0
                in if c = 0 then Some (pos + 1)
                   else if and c 0xC0 \<noteq> 0 then None
                   else if pos + 1 + unat c > rdlen then None
                   else (let pos' = pos + 1 + unat c
                         in if pos' - DNS_HDR_LEN \<ge> DNS_QNAME_MAX then None
                            else dns_walk n mem buff rdlen pos'))))"

definition parse_dns_query :: "NetEvent \<Rightarrow> UserMem \<Rightarrow> u64 \<Rightarrow> u64 \<Rightarrow> NetEvent option" where
  "parse_dns_query e mem buff len =
     (let rdlen = (if unat len > DNS_PAYLOAD_MAX then DNS_PAYLOAD_MAX else unat len)
      in case dns_walk DNS_MAX_LABELS mem buff rdlen DNS_HDR_LEN of
           None \<Rightarrow> None
         | Some pos \<Rightarrow>
            if pos + 2 > rdlen then None
            else (case read_user mem (buff + of_nat pos) 2 of
                    None \<Rightarrow> None
                  | Some qt \<Rightarrow>
                     (let qname_len = (if pos - DNS_HDR_LEN > 256 - 1 then 256 - 1 else pos - DNS_HDR_LEN)
                      in case read_user mem (buff + of_nat DNS_HDR_LEN) qname_len of
                           None \<Rightarrow> None
                         | Some name \<Rightarrow>
                            Some (e\<lparr>ne_qtype := be16 qt, ne_domain := name @ drop qname_len (ne_domain e)\<rparr>))))"

type_synonym NetChannel = "NetEvent Channel"

text \<open>\<open>submit_dns_event\<close> after the reservation of the hooks; \<open>addr\<close> are the bytes of
  \<open>sin->sin_addr\<close>.\<close>

definition submit_dns_event :: "KernelCtx \<Rightarrow> u8 list \<Rightarrow> UserMem \<Rightarrow> u64 \<Rightarrow> u64 \<Rightarrow> NetChannel \<Rightarrow> NetChannel" where
  "submit_dns_event k addr mem buff len c =
     (let e = (net_task_event k)\<lparr>ne_event_kind := NET_EVENT_DNS, ne_family := ucast NET_FAMILY_INET,
            ne_protocol := NET_PROTO_UDP, ne_dport := NET_DNS_PORT, ne_daddr := put_addr addr\<rparr>
      in case parse_dns_query e mem buff len of
           Some e' \<Rightarrow> submit e' c
         | None \<Rightarrow> discard c)"

section \<open>Sockets\<close>

record KSock =
  skc_family :: u16
  skc_num :: u16
  skc_dport :: u16
  skc_rcv_saddr :: "u8 list"
  skc_daddr :: "u8 list"

record KSocket =
  so_type :: u16
  so_sk :: "KSock option"

text \<open>The file table of the task: \<open>task->files->fdt->fd[fd]->private_data\<close>.\<close>

record KFile = file_private_data :: "KSocket option"
record KFdtable = fdt_fd :: "(u32 \<Rightarrow> KFile option) option"
record KFiles = files_fdt :: "KFdtable option"
record KTask = task_files :: "KFiles option"

definition SOCK_DGRAM :: u16 where "SOCK_DGRAM = 2"

definition resolve_dns_dst_from_fd :: "KTask \<Rightarrow> u32 \<Rightarrow> u8 list option" where
  "resolve_dns_dst_from_fd task fd =
     (case task_files task of None \<Rightarrow> None | Some files \<Rightarrow>
     (case files_fdt files of None \<Rightarrow> None | Some fdt \<Rightarrow>
     (case fdt_fd fdt of None \<Rightarrow> None | Some fdarr \<Rightarrow>
     (case fdarr fd of None \<Rightarrow> None | Some filp \<Rightarrow>
     (case file_private_data filp of None \<Rightarrow> None | Some sock \<Rightarrow>
        if and (so_type sock) 0xf \<noteq> SOCK_DGRAM then None
        else (case so_sk sock of None \<Rightarrow> None | Some sk \<Rightarrow>
                if skc_family sk \<noteq> NET_FAMILY_INET then None
                else if bpf_ntohs (skc_dport sk) \<noteq> NET_DNS_PORT then None
                else Some (skc_daddr sk)))))))"

text \<open>The destination of a query: from the address the call passes, or from its socket when it
  passes none.\<close>

definition dns_destination :: "KTask \<Rightarrow> UserMem \<Rightarrow> u64 \<Rightarrow> u32 \<Rightarrow> u8 list option" where
  "dns_destination task mem addr fd =
     (if addr \<noteq> 0 then
        (case read_user mem addr 2 of None \<Rightarrow> None | Some fam \<Rightarrow>
           if le16 fam \<noteq> NET_FAMILY_INET then None
           else (case read_user mem addr 16 of None \<Rightarrow> None | Some sa \<Rightarrow>
                   if sin_port sa \<noteq> NET_DNS_PORT then None else Some (sin_addr sa)))
      else resolve_dns_dst_from_fd task fd)"

section \<open>The hooks\<close>

definition tp_sys_enter_sendto :: "KernelCtx \<Rightarrow> KTask \<Rightarrow> UserMem \<Rightarrow> (nat \<Rightarrow> u64) \<Rightarrow> NetChannel \<Rightarrow> NetChannel" where
  "tp_sys_enter_sendto k task mem args c =
     (let buff = args 1; len = args 2
      in if buff = 0 \<or> unat len < DNS_HDR_LEN then c
         else (case dns_destination task mem (args 4) (ucast (args 0)) of
                 None \<Rightarrow> c
               | Some addr \<Rightarrow>
                  if \<not> k_room k then inc_slot DROP_SLOT_RESERVE_FAIL c
                  else submit_dns_event k addr mem buff len c))"

text \<open>\<open>handle_dns_msghdr\<close>; \<open>mh\<close> are the 56 bytes of the message header.\<close>

definition handle_dns_msghdr :: "KernelCtx \<Rightarrow> KTask \<Rightarrow> UserMem \<Rightarrow> (nat \<Rightarrow> u64) \<Rightarrow> u8 list \<Rightarrow> NetChannel \<Rightarrow> NetChannel" where
  "handle_dns_msghdr k task mem args mh c =
     (let msg_name = le64 mh; msg_iov = le64 (drop 16 mh)
      in if msg_iov = 0 then c
         else (case dns_destination task mem msg_name (ucast (args 0)) of
                 None \<Rightarrow> c
               | Some addr \<Rightarrow>
                 (case read_user mem msg_iov 16 of
                    None \<Rightarrow> c
                  | Some iov0 \<Rightarrow>
                     (let iov_base = le64 iov0; iov_len = le64 (drop 8 iov0)
                      in if iov_base = 0 \<or> unat iov_len < DNS_HDR_LEN then c
                         else if \<not> k_room k then inc_slot DROP_SLOT_RESERVE_FAIL c
                         else submit_dns_event k addr mem iov_base iov_len c))))"

definition tp_sys_enter_sendmsg :: "KernelCtx \<Rightarrow> KTask \<Rightarrow> UserMem \<Rightarrow> (nat \<Rightarrow> u64) \<Rightarrow> NetChannel \<Rightarrow> NetChannel" where
  "tp_sys_enter_sendmsg k task mem args c =
     (case read_user mem (args 1) 56 of None \<Rightarrow> c | Some mh \<Rightarrow> handle_dns_msghdr k task mem args mh c)"

definition tp_sys_enter_sendmmsg :: "KernelCtx \<Rightarrow> KTask \<Rightarrow> UserMem \<Rightarrow> (nat \<Rightarrow> u64) \<Rightarrow> NetChannel \<Rightarrow> NetChannel" where
  "tp_sys_enter_sendmmsg k task mem args c =
     (case read_user mem (args 1) 64 of None \<Rightarrow> c | Some mm \<Rightarrow> handle_dns_msghdr k task mem args (take 56 mm) c)"

text \<open>\<open>uaddr\<close> is null, or the bytes at the pointer, zeros when they cannot be read.\<close>

definition kprobe_tcp_v4_connect :: "KernelCtx \<Rightarrow> KSock option \<Rightarrow> u8 list option \<Rightarrow> NetChannel \<Rightarrow> NetChannel" where
  "kprobe_tcp_v4_connect k sk_ptr uaddr c =
     (case (sk_ptr, uaddr) of
        (Some sk, Some usin) \<Rightarrow>
          emit k ((net_task_event k)\<lparr>ne_event_kind := NET_EVENT_CONNECT, ne_family := ucast NET_FAMILY_INET,
            ne_protocol := NET_PROTO_TCP, ne_dport := sin_port usin, ne_daddr := put_addr (sin_addr usin),
            ne_sport := skc_num sk, ne_saddr := put_addr (skc_rcv_saddr sk)\<rparr>) c
      | _ \<Rightarrow> c)"

definition kretprobe_inet_csk_accept :: "KernelCtx \<Rightarrow> KSock option \<Rightarrow> NetChannel \<Rightarrow> NetChannel" where
  "kretprobe_inet_csk_accept k sk_ptr c =
     (case sk_ptr of
        None \<Rightarrow> c
      | Some sk \<Rightarrow>
         (let e = (net_task_event k)\<lparr>ne_event_kind := NET_EVENT_ACCEPT, ne_family := ucast (skc_family sk),
                ne_protocol := NET_PROTO_TCP, ne_sport := skc_num sk, ne_dport := bpf_ntohs (skc_dport sk)\<rparr>
          in emit k (if ne_family e = ucast NET_FAMILY_INET
                     then e\<lparr>ne_saddr := put_addr (skc_rcv_saddr sk), ne_daddr := put_addr (skc_daddr sk)\<rparr>
                     else e) c))"

definition tp_sys_enter_bind :: "KernelCtx \<Rightarrow> UserMem \<Rightarrow> (nat \<Rightarrow> u64) \<Rightarrow> NetChannel \<Rightarrow> NetChannel" where
  "tp_sys_enter_bind k mem args c =
     (let uaddr = args 1
      in if uaddr = 0 then c
         else if le16 (read_user_or_zero mem uaddr 2) \<noteq> NET_FAMILY_INET then c
         else (let sa = read_user_or_zero mem uaddr 16
               in emit k ((net_task_event k)\<lparr>ne_event_kind := NET_EVENT_BIND, ne_family := ucast NET_FAMILY_INET,
                    ne_sport := sin_port sa, ne_saddr := put_addr (sin_addr sa)\<rparr>) c))"

end
