(* ===== verification/Bpf_Priv.thy ===== *)
theory Bpf_Priv
  imports Bpf_Net Byte_Layout
begin

text \<open>
  The privilege and namespace program of the kernel (\<open>src/bpf/priv_watch.bpf.c\<close>, events in
  \<open>src/bpf/priv_event.h\<close>). The union of an event is its 552 bytes, all of them; a hook writes
  its member at the offset of the C layout. Reading a string from user memory (or from the
  record of a tracepoint) is the kernel's: its result is an argument, \<open>None\<close> for a failure.
\<close>

section \<open>Events\<close>

definition PRIV_KIND_SETUID :: u8 where "PRIV_KIND_SETUID = 1"
definition PRIV_KIND_SETGID :: u8 where "PRIV_KIND_SETGID = 2"
definition PRIV_KIND_CAPSET :: u8 where "PRIV_KIND_CAPSET = 3"
definition PRIV_KIND_PTRACE :: u8 where "PRIV_KIND_PTRACE = 4"
definition PRIV_KIND_MODULE_LOAD :: u8 where "PRIV_KIND_MODULE_LOAD = 5"
definition PRIV_KIND_MOUNT :: u8 where "PRIV_KIND_MOUNT = 6"
definition PRIV_KIND_UNSHARE :: u8 where "PRIV_KIND_UNSHARE = 7"
definition PRIV_KIND_SETNS :: u8 where "PRIV_KIND_SETNS = 8"

lemmas priv_kind_defs = PRIV_KIND_SETUID_def PRIV_KIND_SETGID_def PRIV_KIND_CAPSET_def PRIV_KIND_PTRACE_def
  PRIV_KIND_MODULE_LOAD_def PRIV_KIND_MOUNT_def PRIV_KIND_UNSHARE_def PRIV_KIND_SETNS_def

record PrivEvent =
  pv_ts_ns :: u64
  pv_pid :: u32
  pv_ppid :: u32
  pv_uid :: u32
  pv_gid :: u32
  pv_comm :: string
  pv_cgroup_id :: u64
  pv_kind :: u8
  pv_u :: "u8 list"

definition PRIV_UNION_SIZE :: nat where "PRIV_UNION_SIZE = 552"

text \<open>The reserved and cleared event with the task fields filled in.\<close>

definition priv_task_event :: "KernelCtx \<Rightarrow> PrivEvent" where
  "priv_task_event k =
     \<lparr>pv_ts_ns = k_now k, pv_pid = cur_pid k, pv_ppid = k_ppid k, pv_uid = cur_uid k, pv_gid = cur_gid k,
      pv_comm = read_str 16 (k_comm k), pv_cgroup_id = k_cgroup k, pv_kind = 0,
      pv_u = replicate PRIV_UNION_SIZE 0\<rparr>"

section \<open>Members of the union\<close>

definition set_target_id :: "u32 \<Rightarrow> PrivEvent \<Rightarrow> PrivEvent" where
  "set_target_id v e = e\<lparr>pv_u := put_bytes 0 (to_le 4 v) (pv_u e)\<rparr>"

text \<open>\<open>bpf_probe_read_user_str\<close> into an array of \<open>n\<close> bytes at \<open>off\<close>: the string, cut and
  terminated; after a failure the caller clears the first byte.\<close>

definition put_str :: "nat \<Rightarrow> nat \<Rightarrow> string option \<Rightarrow> u8 list \<Rightarrow> u8 list" where
  "put_str off n res u =
     (case res of
        None \<Rightarrow> put_bytes off [0] u
      | Some s \<Rightarrow> put_bytes off (map char_byte (take (n - 1) (c_str s)) @ [0]) u)"

type_synonym PrivChannel = "PrivEvent Channel"

section \<open>The hooks\<close>

definition handle_setid :: "KernelCtx \<Rightarrow> u8 \<Rightarrow> u32 \<Rightarrow> PrivChannel \<Rightarrow> PrivChannel" where
  "handle_setid k kind target_id c = emit k (set_target_id target_id ((priv_task_event k)\<lparr>pv_kind := kind\<rparr>)) c"

definition tp_sys_enter_setuid :: "KernelCtx \<Rightarrow> (nat \<Rightarrow> u64) \<Rightarrow> PrivChannel \<Rightarrow> PrivChannel" where
  "tp_sys_enter_setuid k args c = handle_setid k PRIV_KIND_SETUID (ucast (args 0)) c"

definition tp_sys_enter_setgid :: "KernelCtx \<Rightarrow> (nat \<Rightarrow> u64) \<Rightarrow> PrivChannel \<Rightarrow> PrivChannel" where
  "tp_sys_enter_setgid k args c = handle_setid k PRIV_KIND_SETGID (ucast (args 0)) c"

definition tp_sys_enter_setreuid :: "KernelCtx \<Rightarrow> (nat \<Rightarrow> u64) \<Rightarrow> PrivChannel \<Rightarrow> PrivChannel" where
  "tp_sys_enter_setreuid k args c = handle_setid k PRIV_KIND_SETUID (ucast (args 1)) c"

definition tp_sys_enter_setresuid :: "KernelCtx \<Rightarrow> (nat \<Rightarrow> u64) \<Rightarrow> PrivChannel \<Rightarrow> PrivChannel" where
  "tp_sys_enter_setresuid k args c = handle_setid k PRIV_KIND_SETUID (ucast (args 1)) c"

text \<open>A failed \<open>bpf_probe_read_user\<close> fills the destination with zeros.\<close>

definition tp_sys_enter_capset :: "KernelCtx \<Rightarrow> UserMem \<Rightarrow> (nat \<Rightarrow> u64) \<Rightarrow> PrivChannel \<Rightarrow> PrivChannel" where
  "tp_sys_enter_capset k mem args c =
     (let effective_lo = read_user_or_zero mem (args 1) 4;
          e = (priv_task_event k)\<lparr>pv_kind := PRIV_KIND_CAPSET\<rparr>
      in emit k (e\<lparr>pv_u := put_bytes 0 effective_lo (pv_u e)\<rparr>) c)"

definition tp_sys_enter_ptrace :: "KernelCtx \<Rightarrow> (nat \<Rightarrow> u64) \<Rightarrow> PrivChannel \<Rightarrow> PrivChannel" where
  "tp_sys_enter_ptrace k args c =
     (let e = (priv_task_event k)\<lparr>pv_kind := PRIV_KIND_PTRACE\<rparr>
      in emit k (e\<lparr>pv_u := put_bytes 8 (to_le 4 (ucast (args 1) :: u32)) (put_bytes 0 (to_le 8 (args 0)) (pv_u e))\<rparr>) c)"

text \<open>\<open>name_loc\<close> is the \<open>__data_loc\<close> word, \<open>read_name n\<close> the bytes at its offset.\<close>

definition tp_module_load :: "KernelCtx \<Rightarrow> u32 \<Rightarrow> (nat \<Rightarrow> u8 list option) \<Rightarrow> PrivChannel \<Rightarrow> PrivChannel" where
  "tp_module_load k name_loc read_name c =
     (let e = (priv_task_event k)\<lparr>pv_kind := PRIV_KIND_MODULE_LOAD\<rparr>;
          name_off = and name_loc 0xffff;
          name_len = and (drop_bit 16 name_loc) 0xffff;
          u = (if name_off = 0 \<or> name_len = 0 then put_bytes 0 [0] (pv_u e)
               else (let n = (if unat name_len > 64 then 64 else unat name_len)
                     in case read_name n of
                          None \<Rightarrow> put_bytes 0 [0] (put_bytes 0 (replicate n 0) (pv_u e))
                        | Some bs \<Rightarrow> put_bytes 0 bs (pv_u e)))
      in emit k (e\<lparr>pv_u := u\<rparr>) c)"

definition tp_sys_enter_mount ::
  "KernelCtx \<Rightarrow> string option \<Rightarrow> string option \<Rightarrow> string option \<Rightarrow> (nat \<Rightarrow> u64) \<Rightarrow> PrivChannel \<Rightarrow> PrivChannel" where
  "tp_sys_enter_mount k source target fstype args c =
     (let e = (priv_task_event k)\<lparr>pv_kind := PRIV_KIND_MOUNT\<rparr>;
          u = put_str 0 256 source (pv_u e);
          u = put_str 256 256 target u;
          u = put_str 512 32 fstype u;
          u = put_bytes 544 (to_le 8 (args 3)) u
      in emit k (e\<lparr>pv_u := u\<rparr>) c)"

definition tp_sys_enter_unshare :: "KernelCtx \<Rightarrow> (nat \<Rightarrow> u64) \<Rightarrow> PrivChannel \<Rightarrow> PrivChannel" where
  "tp_sys_enter_unshare k args c =
     (let e = (priv_task_event k)\<lparr>pv_kind := PRIV_KIND_UNSHARE\<rparr>
      in emit k (e\<lparr>pv_u := put_bytes 0 (to_le 8 (args 0)) (pv_u e)\<rparr>) c)"

definition tp_sys_enter_setns :: "KernelCtx \<Rightarrow> (nat \<Rightarrow> u64) \<Rightarrow> PrivChannel \<Rightarrow> PrivChannel" where
  "tp_sys_enter_setns k args c =
     (let e = (priv_task_event k)\<lparr>pv_kind := PRIV_KIND_SETNS\<rparr>
      in emit k (e\<lparr>pv_u := put_bytes 4 (to_le 4 (ucast (args 1) :: u32))
                     (put_bytes 0 (to_le 4 (ucast (args 0) :: u32)) (pv_u e))\<rparr>) c)"

end
