(* ===== verification/Event_Layout.thy ===== *)
theory Event_Layout
  imports Byte_Layout Bpf_File Bpf_Net Bpf_Priv Process_Tree
begin

text \<open>
  The byte layout of the four kernel events (the structs of \<open>src/bpf/event.h\<close>, \<open>net_event.h\<close>,
  \<open>priv_event.h\<close> and \<open>proc_event.h\<close> with the padding of the x86-64 ABI), that is what \<open>memcpy\<close>
  moves between a ring buffer, the payload of a record and the struct of the consumer. Reading
  the layout back gives the event, also when other bytes follow.
\<close>

definition chars_bytes :: "string \<Rightarrow> u8 list" where
  "chars_bytes s = map char_byte s"

definition bytes_chars :: "u8 list \<Rightarrow> string" where
  "bytes_chars bs = map byte_char bs"

lemma bytes_chars_bytes [simp]: "bytes_chars (chars_bytes s) = s"
  by (simp add: bytes_chars_def chars_bytes_def o_def)

lemma chars_bytes_chars [simp]: "chars_bytes (bytes_chars bs) = bs"
  by (simp add: bytes_chars_def chars_bytes_def o_def)

lemma length_chars_bytes [simp]: "length (chars_bytes s) = length s" "length (bytes_chars bs) = length bs"
  by (simp_all add: chars_bytes_def bytes_chars_def)

lemma get_bytes_skip: "length a \<le> off \<Longrightarrow> get_bytes off n (a @ b) = get_bytes (off - length a) n b"
  by (simp add: get_bytes_def)

lemma get_bytes_skip1: "0 < off \<Longrightarrow> get_bytes off n (x # b) = get_bytes (off - 1) n b"
  by (cases off) (simp_all add: get_bytes_def)

lemma get_bytes_here: "length a = n \<Longrightarrow> get_bytes 0 n (a @ b) = a"
  by (simp add: get_bytes_def)

section \<open>File events\<close>

definition file_event_bytes :: "FileEvent \<Rightarrow> u8 list" where
  "file_event_bytes e =
     to_le 4 (ev_pid e) @ chars_bytes (ev_comm e) @ chars_bytes (ev_path e) @ replicate 4 0 @
     to_le 8 (ev_ino e) @ to_le 4 (ev_mask e) @ to_le 1 (ev_action e) @ to_le 1 (ev_event_type e) @ replicate 2 0 @
     to_le 4 (ev_new_mode e) @ to_le 4 (ev_new_uid e) @ to_le 4 (ev_new_gid e) @ to_le 4 (ev_uid e) @
     to_le 4 (ev_gid e) @ replicate 4 0 @ to_le 8 (ev_start_time e)"

definition file_event_of :: "u8 list \<Rightarrow> FileEvent" where
  "file_event_of bs =
     \<lparr>ev_pid = of_le (get_bytes 0 4 bs), ev_comm = bytes_chars (get_bytes 4 16 bs),
      ev_path = bytes_chars (get_bytes 20 256 bs), ev_ino = of_le (get_bytes 280 8 bs),
      ev_mask = of_le (get_bytes 288 4 bs), ev_action = of_le (get_bytes 292 1 bs),
      ev_event_type = of_le (get_bytes 293 1 bs), ev_new_mode = of_le (get_bytes 296 4 bs),
      ev_new_uid = of_le (get_bytes 300 4 bs), ev_new_gid = of_le (get_bytes 304 4 bs),
      ev_uid = of_le (get_bytes 308 4 bs), ev_gid = of_le (get_bytes 312 4 bs),
      ev_start_time = of_le (get_bytes 320 8 bs)\<rparr>"

definition sizeof_event :: nat where "sizeof_event = 328"

definition file_event_ok :: "FileEvent \<Rightarrow> bool" where
  "file_event_ok e \<longleftrightarrow> length (ev_comm e) = 16 \<and> length (ev_path e) = 256"

lemma length_file_event_bytes: "file_event_ok e \<Longrightarrow> length (file_event_bytes e) = sizeof_event"
  by (simp add: file_event_bytes_def file_event_ok_def sizeof_event_def)

lemma file_event_layout: "file_event_ok e \<Longrightarrow> file_event_of (file_event_bytes e @ rest) = e"
  by (simp add: file_event_bytes_def file_event_of_def file_event_ok_def get_bytes_skip get_bytes_skip1 get_bytes_here)

section \<open>Network events\<close>

definition net_event_bytes :: "NetEvent \<Rightarrow> u8 list" where
  "net_event_bytes e =
     to_le 8 (ne_ts_ns e) @ to_le 4 (ne_pid e) @ to_le 4 (ne_ppid e) @ to_le 4 (ne_uid e) @ to_le 4 (ne_gid e) @
     to_le 8 (ne_cgroup_id e) @ to_le 1 (ne_event_kind e) @ to_le 1 (ne_family e) @ to_le 1 (ne_protocol e) @
     replicate 1 0 @ to_le 2 (ne_sport e) @ to_le 2 (ne_dport e) @ ne_saddr e @ ne_daddr e @
     chars_bytes (ne_comm e) @ to_le 2 (ne_qtype e) @ ne_domain e @ replicate 6 0"

definition net_event_of :: "u8 list \<Rightarrow> NetEvent" where
  "net_event_of bs =
     \<lparr>ne_ts_ns = of_le (get_bytes 0 8 bs), ne_pid = of_le (get_bytes 8 4 bs), ne_ppid = of_le (get_bytes 12 4 bs),
      ne_uid = of_le (get_bytes 16 4 bs), ne_gid = of_le (get_bytes 20 4 bs),
      ne_cgroup_id = of_le (get_bytes 24 8 bs), ne_event_kind = of_le (get_bytes 32 1 bs),
      ne_family = of_le (get_bytes 33 1 bs), ne_protocol = of_le (get_bytes 34 1 bs),
      ne_sport = of_le (get_bytes 36 2 bs), ne_dport = of_le (get_bytes 38 2 bs),
      ne_saddr = get_bytes 40 16 bs, ne_daddr = get_bytes 56 16 bs, ne_comm = bytes_chars (get_bytes 72 16 bs),
      ne_qtype = of_le (get_bytes 88 2 bs), ne_domain = get_bytes 90 256 bs\<rparr>"

definition sizeof_net_event :: nat where "sizeof_net_event = 352"

definition net_event_ok :: "NetEvent \<Rightarrow> bool" where
  "net_event_ok e \<longleftrightarrow> length (ne_saddr e) = 16 \<and> length (ne_daddr e) = 16 \<and> length (ne_comm e) = 16 \<and>
     length (ne_domain e) = 256"

lemma length_net_event_bytes: "net_event_ok e \<Longrightarrow> length (net_event_bytes e) = sizeof_net_event"
  by (simp add: net_event_bytes_def net_event_ok_def sizeof_net_event_def)

lemma net_event_layout: "net_event_ok e \<Longrightarrow> net_event_of (net_event_bytes e @ rest) = e"
  by (simp add: net_event_bytes_def net_event_of_def net_event_ok_def get_bytes_skip get_bytes_skip1 get_bytes_here)

section \<open>Privilege events\<close>

definition priv_event_bytes :: "PrivEvent \<Rightarrow> u8 list" where
  "priv_event_bytes e =
     to_le 8 (pv_ts_ns e) @ to_le 4 (pv_pid e) @ to_le 4 (pv_ppid e) @ to_le 4 (pv_uid e) @ to_le 4 (pv_gid e) @
     chars_bytes (pv_comm e) @ to_le 8 (pv_cgroup_id e) @ to_le 1 (pv_kind e) @ replicate 7 0 @ pv_u e"

definition priv_event_of :: "u8 list \<Rightarrow> PrivEvent" where
  "priv_event_of bs =
     \<lparr>pv_ts_ns = of_le (get_bytes 0 8 bs), pv_pid = of_le (get_bytes 8 4 bs), pv_ppid = of_le (get_bytes 12 4 bs),
      pv_uid = of_le (get_bytes 16 4 bs), pv_gid = of_le (get_bytes 20 4 bs),
      pv_comm = bytes_chars (get_bytes 24 16 bs), pv_cgroup_id = of_le (get_bytes 40 8 bs),
      pv_kind = of_le (get_bytes 48 1 bs), pv_u = get_bytes 56 PRIV_UNION_SIZE bs\<rparr>"

definition sizeof_priv_event :: nat where "sizeof_priv_event = 608"

definition priv_event_ok :: "PrivEvent \<Rightarrow> bool" where
  "priv_event_ok e \<longleftrightarrow> length (pv_comm e) = 16 \<and> length (pv_u e) = PRIV_UNION_SIZE"

lemma length_priv_event_bytes: "priv_event_ok e \<Longrightarrow> length (priv_event_bytes e) = sizeof_priv_event"
  by (simp add: priv_event_bytes_def priv_event_ok_def sizeof_priv_event_def PRIV_UNION_SIZE_def)

lemma priv_event_layout: "priv_event_ok e \<Longrightarrow> priv_event_of (priv_event_bytes e @ rest) = e"
  by (simp add: priv_event_bytes_def priv_event_of_def priv_event_ok_def get_bytes_skip get_bytes_skip1 get_bytes_here)

section \<open>Process events\<close>

definition proc_event_bytes :: "proc_event \<Rightarrow> u8 list" where
  "proc_event_bytes e =
     to_le 8 (pe_ts_ns e) @ to_le 4 (pe_pid e) @ to_le 4 (pe_ppid e) @ to_le 4 (pe_uid e) @ to_le 4 (pe_gid e) @
     to_le 8 (pe_start_time e) @ to_le 1 (pe_kind e) @ replicate 7 0 @ chars_bytes (pe_comm e) @ chars_bytes (pe_exe e)"

definition proc_event_of :: "u8 list \<Rightarrow> proc_event" where
  "proc_event_of bs =
     \<lparr>pe_ts_ns = of_le (get_bytes 0 8 bs), pe_pid = of_le (get_bytes 8 4 bs), pe_ppid = of_le (get_bytes 12 4 bs),
      pe_uid = of_le (get_bytes 16 4 bs), pe_gid = of_le (get_bytes 20 4 bs),
      pe_start_time = of_le (get_bytes 24 8 bs), pe_kind = of_le (get_bytes 32 1 bs),
      pe_comm = bytes_chars (get_bytes 40 16 bs), pe_exe = bytes_chars (get_bytes 56 256 bs)\<rparr>"

definition sizeof_proc_event :: nat where "sizeof_proc_event = 312"

definition proc_event_ok :: "proc_event \<Rightarrow> bool" where
  "proc_event_ok e \<longleftrightarrow> length (pe_comm e) = 16 \<and> length (pe_exe e) = 256"

lemma length_proc_event_bytes: "proc_event_ok e \<Longrightarrow> length (proc_event_bytes e) = sizeof_proc_event"
  by (simp add: proc_event_bytes_def proc_event_ok_def sizeof_proc_event_def)

lemma proc_event_layout: "proc_event_ok e \<Longrightarrow> proc_event_of (proc_event_bytes e @ rest) = e"
  by (simp add: proc_event_bytes_def proc_event_of_def proc_event_ok_def get_bytes_skip get_bytes_skip1 get_bytes_here)

end
