(* ===== verification/Bpf_Proc.thy ===== *)
theory Bpf_Proc
  imports Bpf_Core Process_Tree
begin

text \<open>
  The process life cycle program of the kernel (\<open>src/bpf/proc_watch.bpf.c\<close>): the fork, exec and
  exit tracepoints that feed the process tree. The strings of a tracepoint record are arguments:
  \<open>None\<close> when the \<open>__data_loc\<close> offset is zero, \<open>Some None\<close> when reading the string fails.
\<close>

type_synonym ProcChannel = "proc_event Channel"

text \<open>The reserved and cleared event with the task fields filled in.\<close>

definition proc_task_event :: "KernelCtx \<Rightarrow> proc_event" where
  "proc_task_event k =
     \<lparr>pe_ts_ns = k_now k, pe_pid = cur_pid k, pe_ppid = k_ppid k, pe_uid = cur_uid k, pe_gid = cur_gid k,
      pe_start_time = k_start_time k, pe_kind = 0, pe_comm = read_str 16 (k_comm k), pe_exe = replicate 256 NUL\<rparr>"

definition tp_sched_process_fork ::
  "KernelCtx \<Rightarrow> u32 \<Rightarrow> u32 \<Rightarrow> string option option \<Rightarrow> ProcChannel \<Rightarrow> ProcChannel" where
  "tp_sched_process_fork k child_pid parent_pid child_comm c =
     (let e = (proc_task_event k)\<lparr>pe_kind := PROC_KIND_FORK, pe_pid := child_pid, pe_ppid := parent_pid\<rparr>;
          e = (case child_comm of
                 None \<Rightarrow> e
               | Some None \<Rightarrow> e\<lparr>pe_comm := read_str 16 (k_comm k)\<rparr>
               | Some (Some s) \<Rightarrow> e\<lparr>pe_comm := record_set_str (pe_comm e) (c_str s)\<rparr>)
      in emit k e c)"

definition tp_sched_process_exec :: "KernelCtx \<Rightarrow> string option option \<Rightarrow> ProcChannel \<Rightarrow> ProcChannel" where
  "tp_sched_process_exec k filename c =
     (let e = (proc_task_event k)\<lparr>pe_kind := PROC_KIND_EXEC\<rparr>;
          e = (case filename of
                 Some (Some s) \<Rightarrow> e\<lparr>pe_exe := record_set_str (pe_exe e) (c_str s)\<rparr>
               | _ \<Rightarrow> e)
      in emit k e c)"

definition tp_sched_process_exit :: "KernelCtx \<Rightarrow> u32 \<Rightarrow> ProcChannel \<Rightarrow> ProcChannel" where
  "tp_sched_process_exit k ctx_pid c =
     emit k ((proc_task_event k)\<lparr>pe_kind := PROC_KIND_EXIT, pe_pid := ctx_pid\<rparr>) c"

end
