(* ===== verification/Telemetry_Handlers.thy ===== *)
theory Telemetry_Handlers
  imports Event_Layout Event_Bus Bpf_Proc
begin

text \<open>
  The ring buffer callbacks of the agent, which turn the bytes of a kernel event into a record
  and push it on the bus: \<open>handle_event\<close> (\<open>src/src/baseline/monitor.cpp\<close>), \<open>handle_network_event\<close>,
  \<open>handle_privilege_event\<close> and \<open>handle_process_event\<close> (\<open>src/src/baseline/monitor_*.cpp\<close>), and the
  perf buffer callback with its bounded batch. The bus pointer is the one given at registration
  and not null; \<open>now\<close> is the monotonic clock. A push can fail to end (\<open>None\<close>) as \<open>try_push\<close> can.
\<close>

text \<open>The payload array after \<open>memcpy\<close> into the zeroed record.\<close>

definition payload_of :: "u8 list \<Rightarrow> string" where
  "payload_of bs = bytes_chars bs @ drop (length bs) (replicate kRecordPayloadCap NUL)"

definition pushed_on :: "EventRecord \<Rightarrow> EventBus \<Rightarrow> EventBus option" where
  "pushed_on r bus = map_option snd (bus_try_push bus r)"

section \<open>Records\<close>

definition file_record :: "u64 \<Rightarrow> FileEvent \<Rightarrow> EventRecord" where
  "file_record now e = zero_record\<lparr>ts_ns := now, enqueue_ts_ns := now, rec_pid := ev_pid e, rec_comm := ev_comm e,
     rec_category := CAT_FILE, rec_priority := PRIO_FILE, rec_action := ev_event_type e,
     payload_raw := payload_of (file_event_bytes e)\<rparr>"

definition network_record :: "u64 \<Rightarrow> NetEvent \<Rightarrow> EventRecord" where
  "network_record now e = zero_record\<lparr>ts_ns := ne_ts_ns e, enqueue_ts_ns := now, rec_pid := ne_pid e,
     rec_ppid := ne_ppid e, rec_uid := ne_uid e, rec_gid := ne_gid e, rec_comm := ne_comm e,
     rec_category := (if ne_event_kind e = NET_EVENT_DNS then CAT_DNS else CAT_NETWORK),
     rec_priority := (if ne_event_kind e = NET_EVENT_DNS then PRIO_DNS else PRIO_NETWORK),
     rec_action := ne_event_kind e, payload_raw := payload_of (net_event_bytes e)\<rparr>"

definition privilege_record :: "u64 \<Rightarrow> PrivEvent \<Rightarrow> EventRecord" where
  "privilege_record now e = zero_record\<lparr>ts_ns := pv_ts_ns e, enqueue_ts_ns := now, rec_pid := pv_pid e,
     rec_ppid := pv_ppid e, rec_uid := pv_uid e, rec_gid := pv_gid e, rec_comm := pv_comm e,
     rec_category := (if pv_kind e \<ge> PRIV_KIND_MOUNT then CAT_NS else CAT_PRIV),
     rec_priority := PRIO_CTRL, rec_action := pv_kind e, payload_raw := payload_of (priv_event_bytes e)\<rparr>"

definition process_record :: "u64 \<Rightarrow> proc_event \<Rightarrow> EventRecord" where
  "process_record now e = zero_record\<lparr>ts_ns := pe_ts_ns e, enqueue_ts_ns := now, rec_pid := pe_pid e,
     rec_ppid := pe_ppid e, rec_uid := pe_uid e, rec_gid := pe_gid e, rec_comm := pe_comm e,
     rec_category := CAT_PROCESS, rec_priority := PRIO_CTRL, rec_action := pe_kind e,
     payload_raw := payload_of (proc_event_bytes e)\<rparr>"

section \<open>Callbacks\<close>

definition handle_event :: "u64 \<Rightarrow> u8 list \<Rightarrow> EventBus \<Rightarrow> EventBus option" where
  "handle_event now data bus = pushed_on (file_record now (file_event_of data)) bus"

definition handle_network_event :: "u64 \<Rightarrow> u8 list \<Rightarrow> EventBus \<Rightarrow> EventBus option" where
  "handle_network_event now data bus =
     (if length data < sizeof_net_event then Some bus
      else pushed_on (network_record now (net_event_of data)) bus)"

definition handle_privilege_event :: "u64 \<Rightarrow> u8 list \<Rightarrow> EventBus \<Rightarrow> EventBus option" where
  "handle_privilege_event now data bus =
     (if length data < sizeof_priv_event then Some bus
      else pushed_on (privilege_record now (priv_event_of data)) bus)"

definition handle_process_event :: "u64 \<Rightarrow> u8 list \<Rightarrow> EventBus \<Rightarrow> EventBus option" where
  "handle_process_event now data bus =
     (if length data < sizeof_proc_event then Some bus
      else pushed_on (process_record now (proc_event_of data)) bus)"

section \<open>The batch of the perf buffer path\<close>

definition kMaxBatchSize :: nat where "kMaxBatchSize = 1024"

record EventBatch =
  event_batch :: "FileEvent list"
  dropped_count :: u64

definition perf_event_cb :: "u8 list \<Rightarrow> EventBatch \<Rightarrow> EventBatch" where
  "perf_event_cb data b =
     (if length data < sizeof_event then b
      else if length (event_batch b) < kMaxBatchSize
        then b\<lparr>event_batch := event_batch b @ [file_event_of data]\<rparr>
        else b\<lparr>dropped_count := dropped_count b + 1\<rparr>)"

end
