(* ===== verification/Bpf_Net_Correct.thy ===== *)
theory Bpf_Net_Correct
  imports Bpf_Net
begin

text \<open>
  DNS queries on the wire. The parser of the kernel program accepts exactly the payloads that
  hold a header, a name of at most 31 labels and 255 bytes and a query type in their first 512
  bytes, and reports the name unchanged. The hooks are an instance of the accounted channel, so
  their statistics are exact.
\<close>

section \<open>Reading memory\<close>

lemma high_bits_zero: "and c 0xC0 = 0 \<longleftrightarrow> unat c < 64" for c :: u8
proof -
  have cases: "n \<in> {0, 1, 2, 3, 4, 5, 6, 7}" if "n < LENGTH(8)" for n using that by auto
  have "and c 0xC0 = 0 \<longleftrightarrow> \<not> bit c 6 \<and> \<not> bit c 7"
  proof
    assume *: "and c 0xC0 = 0"
    have "bit (and c 0xC0) 6 = bit c 6" "bit (and c 0xC0) 7 = bit c 7" by (simp_all add: bit_simps)
    with * show "\<not> bit c 6 \<and> \<not> bit c 7" by simp
  next
    assume "\<not> bit c 6 \<and> \<not> bit c 7"
    then show "and c 0xC0 = 0" by (intro bit_word_eqI) (drule cases, elim insertE, simp_all add: bit_simps)
  qed
  moreover have "take_bit 6 c = c \<longleftrightarrow> \<not> bit c 6 \<and> \<not> bit c 7"
  proof
    assume *: "take_bit 6 c = c"
    have "\<not> bit (take_bit 6 c) 6" "\<not> bit (take_bit 6 c) 7" by (simp_all add: bit_simps)
    with * show "\<not> bit c 6 \<and> \<not> bit c 7" by simp
  next
    assume "\<not> bit c 6 \<and> \<not> bit c 7"
    then show "take_bit 6 c = c" by (intro bit_word_eqI) (drule cases, elim insertE, simp_all add: bit_simps)
  qed
  moreover have "take_bit 6 c = c \<longleftrightarrow> unat c < 64"
    by (simp add: take_bit_eq_mod word_unat_eq_iff unat_mod mod_eq_self_iff_div_eq_0 div_eq_0_iff)
  ultimately show ?thesis by simp
qed

definition reads :: "UserMem \<Rightarrow> u64 \<Rightarrow> u8 list \<Rightarrow> bool" where
  "reads mem p bs \<longleftrightarrow> (\<forall>i < length bs. mem (p + of_nat i) = Some (bs ! i))"

lemma read_user_reads: "read_user mem p n = Some bs \<longleftrightarrow> length bs = n \<and> reads mem p bs"
proof
  assume a: "read_user mem p n = Some bs"
  then have no: "None \<notin> (\<lambda>i. mem (p + of_nat i)) ` {0..<n}"
    and bs: "bs = map (\<lambda>i. the (mem (p + of_nat i))) [0..<n]"
    by (auto simp: read_user_def Let_def split: if_splits)
  have "mem (p + of_nat i) = Some (bs ! i)" if "i < n" for i
  proof -
    have "mem (p + of_nat i) \<noteq> None" using no that by (metis atLeastLessThan_iff image_eqI le0)
    with bs that show ?thesis by simp
  qed
  with bs show "length bs = n \<and> reads mem p bs" by (simp add: reads_def)
next
  assume *: "length bs = n \<and> reads mem p bs"
  then have "map (\<lambda>i. mem (p + of_nat i)) [0..<n] = map Some bs"
    by (intro nth_equalityI) (auto simp: reads_def)
  then show "read_user mem p n = Some bs"
    by (auto simp: read_user_def Let_def o_def) 
qed

lemma reads_Cons: "reads mem p (b # bs) \<longleftrightarrow> mem p = Some b \<and> reads mem (p + 1) bs"
  by (auto simp: reads_def less_Suc_eq_0_disj nth_Cons add.assoc split: nat.splits)

lemma reads_append: "reads mem p (as @ bs) \<longleftrightarrow> reads mem p as \<and> reads mem (p + of_nat (length as)) bs"
  by (induction as arbitrary: p) (simp_all add: reads_Cons algebra_simps, simp add: reads_def)

section \<open>Names on the wire\<close>

definition ok_label :: "u8 list \<Rightarrow> bool" where
  "ok_label l \<longleftrightarrow> l \<noteq> [] \<and> length l < 64"

definition qname_wire :: "u8 list list \<Rightarrow> u8 list" where
  "qname_wire ls = concat (map (\<lambda>l. of_nat (length l) # l) ls) @ [0]"

lemma qname_wire_simps [simp]: "qname_wire [] = [0]"
  "qname_wire (l # ls) = of_nat (length l) # l @ qname_wire ls"
  by (simp_all add: qname_wire_def)

lemma unat_label_length: "ok_label l \<Longrightarrow> unat (of_nat (length l) :: u8) = length l"
  by (simp add: ok_label_def unat_of_nat)

lemma label_length_byte: "ok_label l \<Longrightarrow> (of_nat (length l) :: u8) \<noteq> 0"
  using unat_label_length [of l] by (auto simp: ok_label_def)

lemma read_user_byte: "read_user mem p 1 = map_option (\<lambda>b. [b]) (mem p)"
  by (cases "mem p") (simp_all add: read_user_def)

lemma dns_walk_step: "dns_walk (Suc n) mem buff rdlen pos =
    (if pos \<ge> rdlen then None
     else (case mem (buff + of_nat pos) of
             None \<Rightarrow> None
           | Some c \<Rightarrow>
              if c = 0 then Some (pos + 1)
              else if 64 \<le> unat c \<or> pos + 1 + unat c > rdlen \<or> pos + 1 + unat c - DNS_HDR_LEN \<ge> DNS_QNAME_MAX then None
              else dns_walk n mem buff rdlen (pos + 1 + unat c)))"
  by (cases "mem (buff + of_nat pos)") (simp_all add: read_user_byte [unfolded One_nat_def] Let_def high_bits_zero not_less)

declare dns_walk.simps(2) [simp del]

lemma qname_wire_pos: "qname_wire ls \<noteq> []"
  by (cases ls) auto

lemma dns_walk_bounds: "dns_walk n mem buff rdlen pos = Some e \<Longrightarrow> pos < e \<and> e \<le> rdlen \<and>
    (pos - DNS_HDR_LEN < DNS_QNAME_MAX \<longrightarrow> e - DNS_HDR_LEN \<le> DNS_QNAME_MAX)"
proof (induction n arbitrary: pos)
  case (Suc n)
  from Suc.prems obtain c where c: "pos < rdlen" "mem (buff + of_nat pos) = Some c"
    by (auto simp: dns_walk_step split: if_splits option.splits)
  with Suc.prems Suc.IH [of "pos + 1 + unat c"] show ?case
    by (fastforce simp: dns_walk_step split: if_splits)
qed simp

lemma dns_walk_sound:
  assumes "dns_walk n mem buff rdlen pos = Some e" and "reads mem (buff + of_nat pos) name"
    and "length name = e - pos"
  shows "\<exists>ls. list_all ok_label ls \<and> length ls < n \<and> name = qname_wire ls"
  using assms
proof (induction n arbitrary: pos name)
  case (Suc n)
  note bounds = dns_walk_bounds [OF Suc.prems(1)]
  with Suc.prems obtain c rest where name: "name = c # rest" by (cases name) auto
  with Suc.prems(2) have c: "mem (buff + of_nat pos) = Some c" "reads mem (buff + of_nat pos + 1) rest"
    by (auto simp: reads_Cons)
  show ?case
  proof (cases "c = 0")
    case True
    with Suc.prems(1) c bounds have "e = pos + 1" by (simp add: dns_walk_step)
    with Suc.prems(3) name True have "name = [0]" by auto
    then show ?thesis by (intro exI [of _ "[]"]) simp
  next
    case False
    let ?pos = "pos + 1 + unat c"
    from False Suc.prems(1) c bounds have
      k: "unat c < 64" and w: "dns_walk n mem buff rdlen ?pos = Some e"
      by (auto simp: dns_walk_step split: if_splits)
    define l where "l = take (unat c) rest"
    from dns_walk_bounds [OF w] Suc.prems(3) name have "unat c \<le> length rest" by auto
    then have len: "length l = unat c" by (simp add: l_def)
    with False have ok: "ok_label l" and byte: "of_nat (length l) = c" using k by (auto simp: ok_label_def unat_eq_0)
    have split: "rest = l @ drop (unat c) rest" by (simp add: l_def)
    with c(2) have "reads mem (buff + of_nat pos + 1) (l @ drop (unat c) rest)" by simp
    then have r: "reads mem (buff + of_nat ?pos) (drop (unat c) rest)"
      by (simp add: reads_append len algebra_simps)
    have "length (drop (unat c) rest) = e - ?pos" using Suc.prems(3) name by simp
    then obtain ls where "list_all ok_label ls" "length ls < n" "drop (unat c) rest = qname_wire ls"
      using Suc.IH [OF w r] by blast
    with split name byte ok show ?thesis by (intro exI [of _ "l # ls"]) simp
  qed
qed simp

lemma dns_walk_complete:
  assumes "list_all ok_label ls" and "length ls < n" and "reads mem (buff + of_nat pos) (qname_wire ls)"
    and "pos + length (qname_wire ls) \<le> rdlen" and "pos + length (qname_wire ls) - DNS_HDR_LEN \<le> DNS_QNAME_MAX"
    and "DNS_HDR_LEN \<le> pos"
  shows "dns_walk n mem buff rdlen pos = Some (pos + length (qname_wire ls))"
  using assms
proof (induction ls arbitrary: n pos)
  case Nil
  then show ?case by (cases n) (auto simp: dns_walk_step reads_Cons)
next
  case (Cons l ls)
  then obtain k where n: "n = Suc k" by (cases n) auto
  from Cons.prems(1) have l: "unat (of_nat (length l) :: u8) = length l" "length l < 64" "(of_nat (length l) :: u8) \<noteq> 0"
    using unat_label_length label_length_byte by (auto simp: ok_label_def)
  from Cons.prems(3) have r: "mem (buff + of_nat pos) = Some (of_nat (length l))"
    "reads mem (buff + of_nat (pos + 1 + length l)) (qname_wire ls)"
    by (auto simp: reads_Cons reads_append algebra_simps)
  have "dns_walk k mem buff rdlen (pos + 1 + length l) = Some (pos + 1 + length l + length (qname_wire ls))"
    using Cons.prems n r by (intro Cons.IH) auto
  moreover obtain m where "length (qname_wire ls) = Suc m" by (cases "qname_wire ls") (auto simp: qname_wire_pos)
  ultimately show ?case using Cons.prems(4-6) n r(1) l by (auto simp: dns_walk_step)
qed

section \<open>Queries\<close>

text \<open>The payload holds a header, a name of at most 31 labels and 255 bytes and a query type, all
  readable and within the first 512 bytes.\<close>

definition query_at :: "UserMem \<Rightarrow> u64 \<Rightarrow> u64 \<Rightarrow> u8 list list \<Rightarrow> u8 list \<Rightarrow> bool" where
  "query_at mem buff len ls qt \<longleftrightarrow> list_all ok_label ls \<and> length ls < DNS_MAX_LABELS \<and>
     length (qname_wire ls) \<le> DNS_QNAME_MAX \<and>
     DNS_HDR_LEN + length (qname_wire ls) + 2 \<le> min (unat len) DNS_PAYLOAD_MAX \<and> length qt = 2 \<and>
     reads mem (buff + of_nat DNS_HDR_LEN) (qname_wire ls @ qt)"

definition query_event :: "NetEvent \<Rightarrow> u8 list list \<Rightarrow> u8 list \<Rightarrow> NetEvent" where
  "query_event e ls qt = e\<lparr>ne_qtype := be16 qt,
     ne_domain := qname_wire ls @ drop (length (qname_wire ls)) (ne_domain e)\<rparr>"

lemma parse_dns_query_sound:
  assumes "parse_dns_query e mem buff len = Some e'"
  shows "\<exists>ls qt. query_at mem buff len ls qt \<and> e' = query_event e ls qt"
proof -
  define rdlen where "rdlen = min (unat len) DNS_PAYLOAD_MAX"
  have rd: "(if unat len > DNS_PAYLOAD_MAX then DNS_PAYLOAD_MAX else unat len) = rdlen"
    by (simp add: rdlen_def min_def)
  from assms obtain pos qt name where w: "dns_walk DNS_MAX_LABELS mem buff rdlen DNS_HDR_LEN = Some pos"
    and b: "pos + 2 \<le> rdlen" and qt: "read_user mem (buff + of_nat pos) 2 = Some qt"
    and name: "read_user mem (buff + of_nat DNS_HDR_LEN) (if pos - DNS_HDR_LEN > 256 - 1 then 256 - 1 else pos - DNS_HDR_LEN) = Some name"
    and e': "e' = e\<lparr>ne_qtype := be16 qt, ne_domain := name @
      drop (if pos - DNS_HDR_LEN > 256 - 1 then 256 - 1 else pos - DNS_HDR_LEN) (ne_domain e)\<rparr>"
    by (auto simp: parse_dns_query_def rd Let_def split: option.splits if_splits)
  from dns_walk_bounds [OF w] have pos: "DNS_HDR_LEN < pos" "pos - DNS_HDR_LEN \<le> DNS_QNAME_MAX"
    by (auto simp: DNS_QNAME_MAX_def)
  then have len: "(if pos - DNS_HDR_LEN > 256 - 1 then 256 - 1 else pos - DNS_HDR_LEN) = pos - DNS_HDR_LEN"
    by (simp add: DNS_QNAME_MAX_def)
  from name have n: "length name = pos - DNS_HDR_LEN" "reads mem (buff + of_nat DNS_HDR_LEN) name"
    unfolding len read_user_reads by auto
  from dns_walk_sound [OF w n(2,1)] obtain ls where ls: "list_all ok_label ls" "length ls < DNS_MAX_LABELS"
    "name = qname_wire ls" by auto
  have "reads mem (buff + of_nat DNS_HDR_LEN) (qname_wire ls @ qt)"
    using n qt pos ls(3) by (simp add: reads_append read_user_reads flip: of_nat_add)
  then have "query_at mem buff len ls qt"
    using ls pos b n(1) qt by (auto simp: query_at_def rdlen_def read_user_reads)
  moreover have "e' = query_event e ls qt"
    unfolding e' len query_event_def using ls(3) n(1) by simp
  ultimately show ?thesis by blast
qed

lemma parse_dns_query_complete:
  assumes "query_at mem buff len ls qt"
  shows "parse_dns_query e mem buff len = Some (query_event e ls qt)"
proof -
  let ?pos = "DNS_HDR_LEN + length (qname_wire ls)"
  define rdlen where "rdlen = min (unat len) DNS_PAYLOAD_MAX"
  have rd: "(if unat len > DNS_PAYLOAD_MAX then DNS_PAYLOAD_MAX else unat len) = rdlen"
    by (simp add: rdlen_def min_def)
  from assms have q: "list_all ok_label ls" "length ls < DNS_MAX_LABELS" "length (qname_wire ls) \<le> DNS_QNAME_MAX"
    "?pos + 2 \<le> rdlen" "reads mem (buff + of_nat DNS_HDR_LEN) (qname_wire ls)"
    "read_user mem (buff + of_nat ?pos) 2 = Some qt"
    by (auto simp: query_at_def rdlen_def reads_append read_user_reads algebra_simps)
  have "dns_walk DNS_MAX_LABELS mem buff rdlen DNS_HDR_LEN = Some ?pos"
    using q by (intro dns_walk_complete) auto
  moreover have "read_user mem (buff + of_nat DNS_HDR_LEN) (length (qname_wire ls)) = Some (qname_wire ls)"
    using q(5) by (simp add: read_user_reads)
  moreover have "\<not> 256 - 1 < length (qname_wire ls)" using q(3) by (simp add: DNS_QNAME_MAX_def)
  ultimately show ?thesis
    using q(4,6) by (simp add: parse_dns_query_def rd Let_def query_event_def)
qed

text \<open>
  C19. The DNS parser of the kernel reports a payload exactly when it holds, in readable memory and
  within its length and the first 512 bytes, a 12 byte header, a name of at most 31 labels of 1
  to 63 bytes each that takes at most 255 bytes, and a query type; the event then carries the
  query type and the unchanged wire form of the name.
\<close>

theorem dns_query_reported_iff:
  "parse_dns_query e mem buff len = Some e' \<longleftrightarrow>
     (\<exists>ls qt. query_at mem buff len ls qt \<and> e' = query_event e ls qt)"
  using parse_dns_query_sound parse_dns_query_complete by blast


section \<open>The hooks as an accounted channel\<close>

datatype NetOp =
    SendTo KernelCtx KTask UserMem "nat \<Rightarrow> u64"
  | SendMsg KernelCtx KTask UserMem "nat \<Rightarrow> u64"
  | SendMmsg KernelCtx KTask UserMem "nat \<Rightarrow> u64"
  | Connect KernelCtx "KSock option" "u8 list option"
  | Accept KernelCtx "KSock option"
  | Bind KernelCtx UserMem "nat \<Rightarrow> u64"

fun net_step :: "NetOp \<Rightarrow> NetChannel \<Rightarrow> NetChannel" where
  "net_step (SendTo k task mem args) c = tp_sys_enter_sendto k task mem args c"
| "net_step (SendMsg k task mem args) c = tp_sys_enter_sendmsg k task mem args c"
| "net_step (SendMmsg k task mem args) c = tp_sys_enter_sendmmsg k task mem args c"
| "net_step (Connect k sk uaddr) c = kprobe_tcp_v4_connect k sk uaddr c"
| "net_step (Accept k sk) c = kretprobe_inet_csk_accept k sk c"
| "net_step (Bind k mem args) c = tp_sys_enter_bind k mem args c"

text \<open>The outcome of a query with a destination: lost for want of room, sent when it parses,
  else discarded.\<close>

definition dns_event :: "KernelCtx \<Rightarrow> u8 list \<Rightarrow> NetEvent" where
  "dns_event k addr = (net_task_event k)\<lparr>ne_event_kind := NET_EVENT_DNS, ne_family := ucast NET_FAMILY_INET,
     ne_protocol := NET_PROTO_UDP, ne_dport := NET_DNS_PORT, ne_daddr := put_addr addr\<rparr>"

definition dns_outcome :: "KernelCtx \<Rightarrow> u8 list \<Rightarrow> UserMem \<Rightarrow> u64 \<Rightarrow> u64 \<Rightarrow> NetEvent Outcome" where
  "dns_outcome k addr mem buff len =
     (if \<not> k_room k then Lost DROP_SLOT_RESERVE_FAIL
      else (case parse_dns_query (dns_event k addr) mem buff len of
              Some e \<Rightarrow> Sent e | None \<Rightarrow> Lost DROP_SLOT_DISCARDED))"

definition msghdr_outcomes :: "KernelCtx \<Rightarrow> KTask \<Rightarrow> UserMem \<Rightarrow> (nat \<Rightarrow> u64) \<Rightarrow> u8 list \<Rightarrow> NetEvent Outcome list" where
  "msghdr_outcomes k task mem args mh =
     (if le64 (drop 16 mh) = 0 then []
      else (case dns_destination task mem (le64 mh) (ucast (args 0)) of
              None \<Rightarrow> []
            | Some addr \<Rightarrow>
               (case read_user mem (le64 (drop 16 mh)) 16 of
                  None \<Rightarrow> []
                | Some iov \<Rightarrow>
                    if le64 iov = 0 \<or> unat (le64 (drop 8 iov)) < DNS_HDR_LEN then []
                    else [dns_outcome k addr mem (le64 iov) (le64 (drop 8 iov))])))"

fun net_outcomes :: "NetOp \<Rightarrow> NetEvent Outcome list" where
  "net_outcomes (SendTo k task mem args) =
     (if args 1 = 0 \<or> unat (args 2) < DNS_HDR_LEN then []
      else (case dns_destination task mem (args 4) (ucast (args 0)) of
              None \<Rightarrow> [] | Some addr \<Rightarrow> [dns_outcome k addr mem (args 1) (args 2)]))"
| "net_outcomes (SendMsg k task mem args) =
     (case read_user mem (args 1) 56 of None \<Rightarrow> [] | Some mh \<Rightarrow> msghdr_outcomes k task mem args mh)"
| "net_outcomes (SendMmsg k task mem args) =
     (case read_user mem (args 1) 64 of None \<Rightarrow> [] | Some mm \<Rightarrow> msghdr_outcomes k task mem args (take 56 mm))"
| "net_outcomes (Connect k sk uaddr) =
     (case (sk, uaddr) of
        (Some s, Some usin) \<Rightarrow>
          [attempt k ((net_task_event k)\<lparr>ne_event_kind := NET_EVENT_CONNECT, ne_family := ucast NET_FAMILY_INET,
            ne_protocol := NET_PROTO_TCP, ne_dport := sin_port usin, ne_daddr := put_addr (sin_addr usin),
            ne_sport := skc_num s, ne_saddr := put_addr (skc_rcv_saddr s)\<rparr>)]
      | _ \<Rightarrow> [])"
| "net_outcomes (Accept k sk) =
     (case sk of
        None \<Rightarrow> []
      | Some s \<Rightarrow>
         (let e = (net_task_event k)\<lparr>ne_event_kind := NET_EVENT_ACCEPT, ne_family := ucast (skc_family s),
                ne_protocol := NET_PROTO_TCP, ne_sport := skc_num s, ne_dport := bpf_ntohs (skc_dport s)\<rparr>
          in [attempt k (if ne_family e = ucast NET_FAMILY_INET
                         then e\<lparr>ne_saddr := put_addr (skc_rcv_saddr s), ne_daddr := put_addr (skc_daddr s)\<rparr>
                         else e)]))"
| "net_outcomes (Bind k mem args) =
     (if args 1 = 0 then []
      else if le16 (read_user_or_zero mem (args 1) 2) \<noteq> NET_FAMILY_INET then []
      else (let sa = read_user_or_zero mem (args 1) 16
            in [attempt k ((net_task_event k)\<lparr>ne_event_kind := NET_EVENT_BIND, ne_family := ucast NET_FAMILY_INET,
                  ne_sport := sin_port sa, ne_saddr := put_addr (sin_addr sa)\<rparr>)]))"

lemma submit_dns_outcome: "(if \<not> k_room k then inc_slot DROP_SLOT_RESERVE_FAIL c else submit_dns_event k addr mem buff len c) =
    record_outcome (dns_outcome k addr mem buff len) c"
  by (auto simp: submit_dns_event_def dns_outcome_def dns_event_def discard_def Let_def split: option.splits)

lemma msghdr_records: "handle_dns_msghdr k task mem args mh c = fold record_outcome (msghdr_outcomes k task mem args mh) c"
  by (simp add: handle_dns_msghdr_def msghdr_outcomes_def Let_def submit_dns_outcome split: option.split)

lemma net_step_records: "net_step op c = fold record_outcome (net_outcomes op) c"
proof (cases op)
  case SendTo
  then show ?thesis by (simp add: tp_sys_enter_sendto_def Let_def submit_dns_outcome split: option.split)
next
  case SendMsg
  then show ?thesis by (simp add: tp_sys_enter_sendmsg_def msghdr_records split: option.split)
next
  case SendMmsg
  then show ?thesis by (simp add: tp_sys_enter_sendmmsg_def msghdr_records split: option.split)
next
  case Connect
  then show ?thesis by (simp add: kprobe_tcp_v4_connect_def emit_outcome split: option.split)
next
  case Accept
  then show ?thesis by (simp add: kretprobe_inet_csk_accept_def Let_def emit_outcome split: option.split)
next
  case Bind
  then show ?thesis by (simp add: tp_sys_enter_bind_def Let_def emit_outcome)
qed

lemma dns_outcome_lost: "Lost slot = dns_outcome k addr mem buff len \<Longrightarrow> slot < DROP_STATS_SLOTS \<and> slot \<noteq> DROP_SLOT_EMITTED"
  by (auto simp: dns_outcome_def slot_defs split: if_splits option.splits)

lemma msghdr_lost: "Lost slot \<in> set (msghdr_outcomes k task mem args mh) \<Longrightarrow> slot < DROP_STATS_SLOTS \<and> slot \<noteq> DROP_SLOT_EMITTED"
  by (auto simp: msghdr_outcomes_def dest: dns_outcome_lost split: if_splits option.splits)

lemma net_lost: "Lost slot \<in> set (net_outcomes op) \<Longrightarrow> slot < DROP_STATS_SLOTS \<and> slot \<noteq> DROP_SLOT_EMITTED"
  by (cases op) (auto simp: Let_def dest: dns_outcome_lost msghdr_lost attempt_lost split: if_splits option.splits)

interpretation net: accounted_channel net_step net_outcomes
  by unfold_locales (simp add: net_step_records, erule net_lost)

end
