(* ===== verification/Telemetry_Correct.thy ===== *)
theory Telemetry_Correct
  imports Telemetry_Handlers Bpf_Net_Correct Bpf_File_Correct
begin

text \<open>
  The kernel programs of the telemetry and the callbacks of the agent together. Every hook of
  the privilege and process programs makes one attempt to report an event, so their channels are
  accounted channels as those of the file and network programs are; and an event that a hook
  sends is what the consumer reads out of the record the callback builds from its bytes.
\<close>

section \<open>Hooks of the privilege and process programs\<close>

datatype PrivOp =
    SetUid KernelCtx "nat \<Rightarrow> u64"
  | SetGid KernelCtx "nat \<Rightarrow> u64"
  | SetReuid KernelCtx "nat \<Rightarrow> u64"
  | SetResuid KernelCtx "nat \<Rightarrow> u64"
  | CapSet KernelCtx UserMem "nat \<Rightarrow> u64"
  | Ptrace KernelCtx "nat \<Rightarrow> u64"
  | ModuleLoad KernelCtx u32 "nat \<Rightarrow> u8 list option"
  | Mount KernelCtx "string option" "string option" "string option" "nat \<Rightarrow> u64"
  | Unshare KernelCtx "nat \<Rightarrow> u64"
  | SetNs KernelCtx "nat \<Rightarrow> u64"

fun priv_step :: "PrivOp \<Rightarrow> PrivChannel \<Rightarrow> PrivChannel" where
  "priv_step (SetUid k args) c = tp_sys_enter_setuid k args c"
| "priv_step (SetGid k args) c = tp_sys_enter_setgid k args c"
| "priv_step (SetReuid k args) c = tp_sys_enter_setreuid k args c"
| "priv_step (SetResuid k args) c = tp_sys_enter_setresuid k args c"
| "priv_step (CapSet k mem args) c = tp_sys_enter_capset k mem args c"
| "priv_step (Ptrace k args) c = tp_sys_enter_ptrace k args c"
| "priv_step (ModuleLoad k loc rd) c = tp_module_load k loc rd c"
| "priv_step (Mount k s t f args) c = tp_sys_enter_mount k s t f args c"
| "priv_step (Unshare k args) c = tp_sys_enter_unshare k args c"
| "priv_step (SetNs k args) c = tp_sys_enter_setns k args c"

datatype ProcOp =
    Fork KernelCtx u32 u32 "string option option"
  | Exec KernelCtx "string option option"
  | Exit KernelCtx u32

fun proc_step :: "ProcOp \<Rightarrow> ProcChannel \<Rightarrow> ProcChannel" where
  "proc_step (Fork k child parent comm) c = tp_sched_process_fork k child parent comm c"
| "proc_step (Exec k filename) c = tp_sched_process_exec k filename c"
| "proc_step (Exit k pid) c = tp_sched_process_exit k pid c"

lemmas priv_hook_defs = tp_sys_enter_setuid_def tp_sys_enter_setgid_def tp_sys_enter_setreuid_def
  tp_sys_enter_setresuid_def tp_sys_enter_capset_def tp_sys_enter_ptrace_def tp_module_load_def
  tp_sys_enter_mount_def tp_sys_enter_unshare_def tp_sys_enter_setns_def handle_setid_def Let_def

lemmas proc_hook_defs = tp_sched_process_fork_def tp_sched_process_exec_def tp_sched_process_exit_def Let_def

lemma priv_attempts_once: "attempts_once (priv_step op)"
  by (cases op; simp only: priv_step.simps priv_hook_defs; rule attempts_onceI, simp only: priv_step.simps priv_hook_defs)

lemma proc_attempts_once: "attempts_once (proc_step op)"
  by (cases op; simp only: proc_step.simps proc_hook_defs; rule attempts_onceI, simp only: proc_step.simps proc_hook_defs)

interpretation priv: once_channel priv_step
  by unfold_locales (rule priv_attempts_once)

interpretation procs: once_channel proc_step
  by unfold_locales (rule proc_attempts_once)

section \<open>What the hooks report\<close>

text \<open>The event of a privilege hook: the task, the kind, and the bytes of the member of the union, with
  zeros behind them.\<close>

definition priv_report :: "KernelCtx \<Rightarrow> u8 \<Rightarrow> u8 list \<Rightarrow> PrivEvent" where
  "priv_report k kind bs =
     \<lparr>pv_ts_ns = k_now k, pv_pid = cur_pid k, pv_ppid = k_ppid k, pv_uid = cur_uid k, pv_gid = cur_gid k,
      pv_comm = read_str 16 (k_comm k), pv_cgroup_id = k_cgroup k, pv_kind = kind,
      pv_u = bs @ replicate (PRIV_UNION_SIZE - length bs) 0\<rparr>"

text \<open>A string in a field of \<open>n\<close> bytes: cut to leave a zero, empty when it cannot be read.\<close>

definition str_field :: "nat \<Rightarrow> string option \<Rightarrow> u8 list" where
  "str_field n res =
     (case res of None \<Rightarrow> replicate n 0
      | Some s \<Rightarrow> (let bs = map char_byte (take (n - 1) (c_str s)) in bs @ replicate (n - length bs) 0))"

definition loaded_name :: "u32 \<Rightarrow> (nat \<Rightarrow> u8 list option) \<Rightarrow> u8 list" where
  "loaded_name loc rd =
     (let off = and loc 0xffff; len = unat (and (drop_bit 16 loc) 0xffff)
      in if off = 0 \<or> len = 0 then [] else (case rd (min 64 len) of None \<Rightarrow> [] | Some bs \<Rightarrow> bs))"

fun priv_outcome :: "PrivOp \<Rightarrow> PrivEvent Outcome" where
  "priv_outcome (SetUid k args) = attempt k (priv_report k PRIV_KIND_SETUID (to_le 4 (ucast (args 0) :: u32)))"
| "priv_outcome (SetGid k args) = attempt k (priv_report k PRIV_KIND_SETGID (to_le 4 (ucast (args 0) :: u32)))"
| "priv_outcome (SetReuid k args) = attempt k (priv_report k PRIV_KIND_SETUID (to_le 4 (ucast (args 1) :: u32)))"
| "priv_outcome (SetResuid k args) = attempt k (priv_report k PRIV_KIND_SETUID (to_le 4 (ucast (args 1) :: u32)))"
| "priv_outcome (CapSet k mem args) = attempt k (priv_report k PRIV_KIND_CAPSET (read_user_or_zero mem (args 1) 4))"
| "priv_outcome (Ptrace k args) =
     attempt k (priv_report k PRIV_KIND_PTRACE (to_le 8 (args 0) @ to_le 4 (ucast (args 1) :: u32)))"
| "priv_outcome (ModuleLoad k loc rd) = attempt k (priv_report k PRIV_KIND_MODULE_LOAD (loaded_name loc rd))"
| "priv_outcome (Mount k source target fstype args) =
     attempt k (priv_report k PRIV_KIND_MOUNT
       (str_field 256 source @ str_field 256 target @ str_field 32 fstype @ to_le 8 (args 3)))"
| "priv_outcome (Unshare k args) = attempt k (priv_report k PRIV_KIND_UNSHARE (to_le 8 (args 0)))"
| "priv_outcome (SetNs k args) =
     attempt k (priv_report k PRIV_KIND_SETNS (to_le 4 (ucast (args 0) :: u32) @ to_le 4 (ucast (args 1) :: u32)))"

text \<open>The event of a process hook. The start time and, where the tracepoint names none, the command of a
  fork are those of the parent, which is still the current task.\<close>

definition proc_report :: "KernelCtx \<Rightarrow> u8 \<Rightarrow> u32 \<Rightarrow> u32 \<Rightarrow> string \<Rightarrow> string \<Rightarrow> proc_event" where
  "proc_report k kind pid ppid comm exe =
     \<lparr>pe_ts_ns = k_now k, pe_pid = pid, pe_ppid = ppid, pe_uid = cur_uid k, pe_gid = cur_gid k,
      pe_start_time = k_start_time k, pe_kind = kind, pe_comm = comm, pe_exe = exe\<rparr>"

fun proc_outcome :: "ProcOp \<Rightarrow> proc_event Outcome" where
  "proc_outcome (Fork k child parent comm) =
     attempt k (proc_report k PROC_KIND_FORK child parent
       (case comm of Some (Some s) \<Rightarrow> record_set_str (read_str 16 (k_comm k)) (c_str s) | _ \<Rightarrow> read_str 16 (k_comm k))
       (replicate 256 NUL))"
| "proc_outcome (Exec k filename) =
     attempt k (proc_report k PROC_KIND_EXEC (cur_pid k) (k_ppid k) (read_str 16 (k_comm k))
       (case filename of Some (Some s) \<Rightarrow> read_str 256 s | _ \<Rightarrow> replicate 256 NUL))"
| "proc_outcome (Exit k pid) =
     attempt k (proc_report k PROC_KIND_EXIT pid (k_ppid k) (read_str 16 (k_comm k)) (replicate 256 NUL))"

lemma put_bytes_zeros: "length pre = off \<Longrightarrow> put_bytes off bs (pre @ replicate m 0) = pre @ bs @ replicate (m - length bs) 0"
  by (simp add: put_bytes_def)

lemma put_bytes_start: "put_bytes 0 bs (replicate m 0) = bs @ replicate (m - length bs) 0"
  using put_bytes_zeros [of "[]" 0 bs m] by simp

lemma length_str_field [simp]: "0 < n \<Longrightarrow> length (str_field n res) = n"
  by (auto simp: str_field_def Let_def split: option.split)

lemma put_str_zeros:
  assumes "length pre = off" and "n \<le> m" and "0 < n"
  shows "put_str off n res (pre @ replicate m 0) = pre @ str_field n res @ replicate (m - n) 0"
proof (cases res)
  case None
  have "[0] @ replicate (m - 1) (0 :: u8) = replicate n 0 @ replicate (m - n) 0"
    using assms(2,3) by (simp add: replicate_app_Cons_same flip: replicate_add replicate_Suc)
  then show ?thesis using None assms(1) by (simp add: put_str_def put_bytes_zeros str_field_def)
next
  case (Some s)
  define bs where "bs = map char_byte (take (n - 1) (c_str s))"
  have n: "length bs < n" using assms(3) by (auto simp: bs_def)
  have "[0] @ replicate (m - (length bs + 1)) (0 :: u8) = replicate (n - length bs) 0 @ replicate (m - n) 0"
    using assms(2) n by (simp flip: replicate_add replicate_Suc)
  moreover have "put_str off n res u = put_bytes off (bs @ [0]) u" "str_field n res = bs @ replicate (n - length bs) 0" for u
    using Some by (simp_all add: put_str_def str_field_def bs_def Let_def)
  ultimately show ?thesis using assms(1) by (simp add: put_bytes_zeros)
qed

lemma length_read_user_or_zero: "length (read_user_or_zero mem p n) = n"
  by (auto simp: read_user_or_zero_def read_user_reads split: option.split)

lemma observed_attempt: "f new_channel = emit k e new_channel \<Longrightarrow> observed f = attempt k e"
  using observed_emit [of k e] by (simp add: observed_def)

lemma priv_event_zeros: "(priv_task_event k)\<lparr>pv_kind := kind, pv_u := bs @ replicate (PRIV_UNION_SIZE - length bs) 0\<rparr> =
    priv_report k kind bs"
  by (simp add: priv_task_event_def priv_report_def)

lemma priv_union_zeros: "pv_u (priv_task_event k) = replicate PRIV_UNION_SIZE 0"
  by (simp add: priv_task_event_def)

lemma priv_union_kind: "pv_u ((priv_task_event k)\<lparr>pv_kind := kind\<rparr>) = replicate PRIV_UNION_SIZE 0"
  by (simp add: priv_union_zeros)

lemma mount_union: "put_bytes 544 (to_le 8 fl) (put_str 512 32 f (put_str 256 256 t (put_str 0 256 s (replicate PRIV_UNION_SIZE 0)))) =
    (let bs = str_field 256 s @ str_field 256 t @ str_field 32 f @ to_le 8 fl in bs @ replicate (PRIV_UNION_SIZE - length bs) 0)"
proof -
  have "put_str 0 256 s (replicate PRIV_UNION_SIZE 0) = str_field 256 s @ replicate 296 0"
    using put_str_zeros [of "[]" 0 256 552 s] by (simp add: PRIV_UNION_SIZE_def)
  moreover have "put_str 256 256 t (str_field 256 s @ replicate 296 0) = str_field 256 s @ str_field 256 t @ replicate 40 0"
    using put_str_zeros [of "str_field 256 s" 256 256 296 t] by simp
  moreover have "put_str 512 32 f ((str_field 256 s @ str_field 256 t) @ replicate 40 0) =
      (str_field 256 s @ str_field 256 t) @ str_field 32 f @ replicate 8 0"
    using put_str_zeros [of "str_field 256 s @ str_field 256 t" 512 32 40 f] by simp
  moreover have "put_bytes 544 (to_le 8 fl) ((str_field 256 s @ str_field 256 t @ str_field 32 f) @ replicate 8 0) =
      (str_field 256 s @ str_field 256 t @ str_field 32 f) @ to_le 8 fl @ replicate 0 0"
    using put_bytes_zeros [of "str_field 256 s @ str_field 256 t @ str_field 32 f" 544 "to_le 8 fl" 8] by simp
  ultimately show ?thesis by (simp add: PRIV_UNION_SIZE_def)
qed

lemma module_union:
  "(if and loc 0xffff = 0 \<or> and (drop_bit 16 loc) 0xffff = 0 then put_bytes 0 [0] (replicate PRIV_UNION_SIZE 0)
    else let n = if 64 < unat (and (drop_bit 16 loc) 0xffff) then 64 else unat (and (drop_bit 16 loc) 0xffff)
         in case rd n of
              None \<Rightarrow> put_bytes 0 [0] (put_bytes 0 (replicate n 0) (replicate PRIV_UNION_SIZE 0))
            | Some bs \<Rightarrow> put_bytes 0 bs (replicate PRIV_UNION_SIZE 0)) =
   loaded_name loc rd @ replicate (PRIV_UNION_SIZE - length (loaded_name loc rd)) 0" for loc :: u32
proof -
  have z: "0 # replicate (PRIV_UNION_SIZE - Suc 0) 0 = replicate PRIV_UNION_SIZE (0 :: u8)"
    by (simp add: PRIV_UNION_SIZE_def flip: replicate_Suc)
  have r: "replicate (min 64 n) 0 @ replicate (PRIV_UNION_SIZE - min 64 n) 0 = replicate PRIV_UNION_SIZE (0 :: u8)" for n
    by (simp add: PRIV_UNION_SIZE_def flip: replicate_add)
  have m: "(if 64 < n then 64 else n) = min 64 n" for n :: nat by simp
  have "unat (and (drop_bit 16 loc) 0xffff) = 0 \<longleftrightarrow> and (drop_bit 16 loc) 0xffff = 0" by (simp add: unat_eq_zero)
  then show ?thesis
    by (auto simp: m z r loaded_name_def Let_def put_bytes_start split: option.split)
qed

lemma priv_observed: "observed (priv_step op) = priv_outcome op"
proof (cases op)
  case (ModuleLoad k loc rd)
  have "tp_module_load k loc rd c = emit k (priv_report k PRIV_KIND_MODULE_LOAD (loaded_name loc rd)) c" for c
    unfolding tp_module_load_def priv_event_zeros [symmetric] module_union [symmetric] Let_def priv_union_kind by (rule refl)
  then show ?thesis unfolding ModuleLoad priv_outcome.simps by (intro observed_attempt) simp
next
  case (Mount k s t f args)
  have "tp_sys_enter_mount k s t f args c =
      emit k (priv_report k PRIV_KIND_MOUNT (str_field 256 s @ str_field 256 t @ str_field 32 f @ to_le 8 (args 3))) c" for c
    unfolding tp_sys_enter_mount_def priv_event_zeros [symmetric] mount_union [unfolded Let_def, symmetric] Let_def priv_union_kind
    by (rule refl)
  then show ?thesis unfolding Mount priv_outcome.simps by (intro observed_attempt) simp
qed (simp only: priv_outcome.simps; intro observed_attempt;
    simp add: priv_hook_defs set_target_id_def priv_union_zeros put_bytes_start put_bytes_zeros priv_event_zeros [symmetric]
      length_read_user_or_zero)+

lemma proc_observed: "observed (proc_step op) = proc_outcome op"
  by (cases op; simp only: proc_outcome.simps; intro observed_attempt)
    (auto simp: proc_hook_defs proc_report_def proc_task_event_def read_str_def split: option.split)

text \<open>
  C20. The channels of the telemetry programs are exact. On an empty channel each of the network, the
  privilege and the process program leaves, in order, the events of its hooks for which the buffer
  had room, with the task, the kind and the values the hook was called with, and its slots count
  the outcomes, each once. Every privilege and process hook makes one attempt; the network hooks
  make one for each query, connection, accept and bind.
\<close>

theorem watch_statistics_exact:
  "ch_stats (fold net_step nops new_channel) = map (\<lambda>s. of_nat (length (filter (\<lambda>out. outcome_slot out = s)
      (concat (map net_outcomes nops))))) [0..<DROP_STATS_SLOTS] \<and>
   ch_events (fold net_step nops new_channel) = sent_events (concat (map net_outcomes nops)) \<and>
   ch_stats (fold priv_step vops new_channel) =
     map (\<lambda>s. of_nat (length (filter (\<lambda>out. outcome_slot out = s) (map priv_outcome vops)))) [0..<DROP_STATS_SLOTS] \<and>
   ch_events (fold priv_step vops new_channel) = sent_events (map priv_outcome vops) \<and>
   ch_stats (fold priv_step vops new_channel) ! DROP_SLOT_EMITTED +
     ch_stats (fold priv_step vops new_channel) ! DROP_SLOT_RESERVE_FAIL = of_nat (length vops) \<and>
   ch_stats (fold proc_step pops new_channel) =
     map (\<lambda>s. of_nat (length (filter (\<lambda>out. outcome_slot out = s) (map proc_outcome pops)))) [0..<DROP_STATS_SLOTS] \<and>
   ch_events (fold proc_step pops new_channel) = sent_events (map proc_outcome pops) \<and>
   ch_stats (fold proc_step pops new_channel) ! DROP_SLOT_EMITTED +
     ch_stats (fold proc_step pops new_channel) ! DROP_SLOT_RESERVE_FAIL = of_nat (length pops)"
proof -
  have single: "concat (map (\<lambda>op. [f op]) ops) = map f ops" for f :: "'a \<Rightarrow> 'b" and ops
    by (induction ops) simp_all
  note priv = priv.run_stats [of vops] priv.run_accounts(1) [of vops] and procs = procs.run_stats [of pops] procs.run_accounts(1) [of pops]
  show ?thesis
    using priv [unfolded single priv_observed] procs [unfolded single proc_observed]
    by (intro conjI net.run_stats net.run_accounts(1) priv.once_accounts(2) procs.once_accounts(2)) blast+
qed

section \<open>Events are well formed\<close>




lemma length_read_str [simp]: "length (read_str n s) = n"
  by (simp add: read_str_def)

lemma length_put_addr [simp]: "length (put_addr a) = length a + 12"
  by (simp add: put_addr_def)



























section \<open>From the hook to the consumer\<close>













end
