(* ===== verification/Json_Text.thy ===== *)
theory Json_Text
  imports Byte_Layout
begin

text \<open>
  The hand written JSON serialisation of file events (\<open>src/src/baseline/monitor.cpp\<close>): the UTF-8
  automaton, string literals and unsigned numbers. A string is its bytes, as characters. The
  tables of the automaton are written with \<open>replicate\<close> where the source repeats an entry.
\<close>

section \<open>The UTF-8 automaton\<close>

definition utf8_classes :: "nat list" where
  "utf8_classes = replicate 128 0 @ replicate 16 1 @ replicate 16 9 @ replicate 32 7 @
     [8, 8] @ replicate 30 2 @ [10] @ replicate 12 3 @ [4, 3, 3] @ [11, 6, 6, 6, 5] @ replicate 11 8"

definition utf8_transitions :: "nat list list" where
  "utf8_transitions =
    [[0, 1, 2, 3, 5, 8, 7, 1, 1, 1, 4, 6, 1, 1, 1, 1],
     replicate 16 1,
     [1, 0, 1, 1, 1, 1, 1, 0, 1, 0, 1, 1, 1, 1, 1, 1],
     [1, 2, 1, 1, 1, 1, 1, 2, 1, 2, 1, 1, 1, 1, 1, 1],
     [1, 1, 1, 1, 1, 1, 1, 2, 1, 1, 1, 1, 1, 1, 1, 1],
     [1, 2, 1, 1, 1, 1, 1, 1, 1, 2, 1, 1, 1, 1, 1, 1],
     [1, 1, 1, 1, 1, 1, 1, 3, 1, 3, 1, 1, 1, 1, 1, 1],
     [1, 3, 1, 1, 1, 1, 1, 3, 1, 3, 1, 1, 1, 1, 1, 1],
     [1, 3, 1, 1, 1, 1, 1, 1, 1, 1, 1, 1, 1, 1, 1, 1]]"

definition utf8d :: "nat list" where
  "utf8d = utf8_classes @ concat utf8_transitions"

text \<open>The new state and code point.\<close>

definition utf8_dfa_decode :: "nat \<Rightarrow> u32 \<Rightarrow> u8 \<Rightarrow> nat \<times> u32" where
  "utf8_dfa_decode state codep byte =
     (let type = utf8d ! unat byte;
          codep = (if state \<noteq> 0 then or (and (ucast byte) 0x3F) (push_bit 6 codep)
                   else and (drop_bit type 0xFF) (ucast byte))
      in (utf8d ! (256 + state * 16 + type), codep))"

section \<open>String literals\<close>

definition hex_digit :: "nat \<Rightarrow> char" where
  "hex_digit n = (if n < 10 then digit_char n else char_of (87 + n))"

definition backslash :: char where "backslash = CHR 0x5C"

definition replacement :: string where
  "replacement = [CHR 0xEF, CHR 0xBF, CHR 0xBD]"

text \<open>What is appended for an accepted code point whose last byte is \<open>c\<close>.\<close>

definition escape :: "u32 \<Rightarrow> char \<Rightarrow> string" where
  "escape codepoint c =
     (if codepoint = 0x08 then [backslash, CHR ''b'']
      else if codepoint = 0x09 then [backslash, CHR ''t'']
      else if codepoint = 0x0A then [backslash, CHR ''n'']
      else if codepoint = 0x0C then [backslash, CHR ''f'']
      else if codepoint = 0x0D then [backslash, CHR ''r'']
      else if codepoint = 0x22 then [backslash, CHR 0x22]
      else if codepoint = 0x5C then [backslash, backslash]
      else if codepoint \<le> 0x1F then
        [backslash, CHR ''u'', CHR ''0'', CHR ''0'', hex_digit (unat codepoint div 16), hex_digit (unat codepoint mod 16)]
      else [c])"

function json_loop :: "string \<Rightarrow> string \<Rightarrow> u32 \<Rightarrow> nat \<Rightarrow> nat \<Rightarrow> string" where
  "json_loop [] out codep state undumped = out"
| "json_loop (c # cs) out codep state undumped =
     (case utf8_dfa_decode state codep (char_byte c) of
        (st, codep') \<Rightarrow>
          if st = 1 then
            (if undumped > 0
             then json_loop (c # cs) (take (length out - undumped) out @ replacement) codep' 0 0
             else json_loop cs (take (length out - undumped) out @ replacement) codep' 0 0)
          else if st \<noteq> 0 then json_loop cs (out @ [c]) codep' st (undumped + 1)
          else json_loop cs (out @ escape codep' c) codep' st 0)"
  by pat_completeness auto
termination json_loop
  by (relation "measure (\<lambda>(cs, _, _, _, undumped). 2 * length cs + (if undumped > 0 then 1 else 0))") auto

declare json_loop.simps(2) [simp del]

definition append_json_string :: "string \<Rightarrow> string \<Rightarrow> string" where
  "append_json_string out s = json_loop s (out @ [CHR 0x22]) 0 0 0 @ [CHR 0x22]"

section \<open>Numbers\<close>

text \<open>\<open>snprintf\<close> into \<open>buf\<close> of 20 bytes writes at most 19 digits and the terminator, but returns
  the number of digits; so many bytes of \<open>buf\<close> are appended.\<close>

definition append_u64 :: "string \<Rightarrow> u64 \<Rightarrow> string" where
  "append_u64 out v =
     (let ds = dec_of_nat (unat v);
          buf = take 19 ds @ [NUL]
      in out @ take (length ds) buf)"

end
