(* ===== verification/Json_Utf8.thy ===== *)
theory Json_Utf8
  imports Json_Text
begin

text \<open>
  What the UTF-8 automaton of the file events' JSON does: well-formed byte sequences (table 3-7 of
  the Unicode standard, as the ranges that may follow a leading byte), the states as what is
  still expected, and the code points it computes.
\<close>

section \<open>Well-formed sequences\<close>

definition in_range :: "nat \<Rightarrow> nat \<Rightarrow> u8 \<Rightarrow> bool" where
  "in_range a b c \<longleftrightarrow> a \<le> unat c \<and> unat c \<le> b"

abbreviation cont :: "u8 \<Rightarrow> bool" where "cont \<equiv> in_range 0x80 0xBF"

text \<open>The bytes that may follow a leading byte; \<open>None\<close> for a byte that cannot lead.\<close>

definition followers :: "u8 \<Rightarrow> (u8 \<Rightarrow> bool) list option" where
  "followers b =
     (if unat b < 0x80 then Some []
      else if in_range 0xC2 0xDF b then Some [cont]
      else if unat b = 0xE0 then Some [in_range 0xA0 0xBF, cont]
      else if unat b = 0xED then Some [in_range 0x80 0x9F, cont]
      else if in_range 0xE1 0xEF b then Some [cont, cont]
      else if unat b = 0xF0 then Some [in_range 0x90 0xBF, cont, cont]
      else if in_range 0xF1 0xF3 b then Some [cont, cont, cont]
      else if unat b = 0xF4 then Some [in_range 0x80 0x8F, cont, cont]
      else None)"

text \<open>How many of the next bytes follow as required.\<close>

fun match_len :: "(u8 \<Rightarrow> bool) list \<Rightarrow> string \<Rightarrow> nat" where
  "match_len (p # ps) (c # cs) = (if p (char_byte c) then Suc (match_len ps cs) else 0)"
| "match_len _ _ = 0"

lemma match_len_bounds: "match_len ps cs \<le> length ps" "match_len ps cs \<le> length cs"
  by (induction ps cs rule: match_len.induct) auto

function utf8_valid :: "string \<Rightarrow> bool" where
  "utf8_valid [] \<longleftrightarrow> True"
| "utf8_valid (c # cs) \<longleftrightarrow>
     (case followers (char_byte c) of
        None \<Rightarrow> False
      | Some ps \<Rightarrow> match_len ps cs = length ps \<and> utf8_valid (drop (length ps) cs))"
  by pat_completeness auto
termination utf8_valid by (relation "measure length") auto

text \<open>The string with every maximal ill-formed part replaced, but for a truncated sequence at
  the end.\<close>

function repair :: "string \<Rightarrow> string" where
  "repair [] = []"
| "repair (c # cs) =
     (case followers (char_byte c) of
        None \<Rightarrow> replacement @ repair cs
      | Some ps \<Rightarrow>
         (let n = match_len ps cs
          in if n = length ps then c # take n cs @ repair (drop n cs)
             else if n = length cs then c # cs
             else replacement @ repair (drop n cs)))"
  by pat_completeness auto
termination repair by (relation "measure length") auto

function truncated :: "string \<Rightarrow> bool" where
  "truncated [] \<longleftrightarrow> False"
| "truncated (c # cs) \<longleftrightarrow>
     (case followers (char_byte c) of
        None \<Rightarrow> truncated cs
      | Some ps \<Rightarrow>
         (let n = match_len ps cs
          in if n = length ps then truncated (drop n cs)
             else n = length cs \<or> truncated (drop n cs)))"
  by pat_completeness auto
termination truncated by (relation "measure length") auto

section \<open>The table\<close>

lemma length_utf8_classes: "length utf8_classes = 256"
  by (simp add: utf8_classes_def)

definition class_of :: "nat \<Rightarrow> nat" where
  "class_of n =
    (if n < 0x80 then 0 else if n < 0x90 then 1 else if n < 0xA0 then 9 else if n < 0xC0 then 7
     else if n < 0xC2 then 8 else if n < 0xE0 then 2 else if n = 0xE0 then 10 else if n < 0xED then 3
     else if n = 0xED then 4 else if n < 0xF0 then 3 else if n = 0xF0 then 11 else if n < 0xF4 then 6
     else if n = 0xF4 then 5 else 8)"

lemma utf8_class: "n < 256 \<Longrightarrow> utf8d ! n = class_of n"
  apply (simp add: utf8d_def nth_append length_utf8_classes)
  apply (simp add: utf8_classes_def nth_append nth_Cons')
  apply (auto simp: class_of_def)
  done

lemma nth_concat_rows: "\<forall>r \<in> set rows. length r = k \<Longrightarrow> s < length rows \<Longrightarrow> t < k \<Longrightarrow>
    concat rows ! (s * k + t) = rows ! s ! t"
proof (induction rows arbitrary: s)
  case (Cons r rows)
  then show ?case by (cases s) (auto simp: nth_append algebra_simps)
qed simp

lemma utf8_transition: "s \<le> 8 \<Longrightarrow> t < 16 \<Longrightarrow> utf8d ! (256 + s * 16 + t) = utf8_transitions ! s ! t"
  using nth_concat_rows [of utf8_transitions 16 s t]
  by (simp add: utf8d_def nth_append length_utf8_classes utf8_transitions_def)

text \<open>What must follow in a state of the automaton.\<close>

definition expected :: "nat \<Rightarrow> (u8 \<Rightarrow> bool) list" where
  "expected st = [[], [], [cont], [cont, cont], [in_range 0xA0 0xBF, cont], [in_range 0x80 0x9F, cont],
     [in_range 0x90 0xBF, cont, cont], [cont, cont, cont], [in_range 0x80 0x8F, cont, cont]] ! st"

lemma unat_byte: "unat (b :: u8) < 256"
proof -
  have "unat b < 2 ^ LENGTH(8)" by (rule unsigned_less)
  then show ?thesis by simp
qed

lemmas utf8_class' = utf8_class [OF unat_byte]

lemma class_bound: "utf8d ! unat (b :: u8) < 16"
  by (simp add: utf8_class' class_of_def)

lemma decode_state: "s \<le> 8 \<Longrightarrow> fst (utf8_dfa_decode s codep b) = utf8_transitions ! s ! (utf8d ! unat b)"
  by (simp add: utf8_dfa_decode_def Let_def utf8_transition class_bound)

lemma start_state: "fst (utf8_dfa_decode 0 codep b) =
    (let n = unat b in if n < 0x80 then 0 else if n < 0xC2 then 1 else if n < 0xE0 then 2 else if n = 0xE0 then 4
     else if n < 0xED then 3 else if n = 0xED then 5 else if n < 0xF0 then 3 else if n = 0xF0 then 6
     else if n < 0xF4 then 7 else if n = 0xF4 then 8 else 1)"
  unfolding decode_state [of 0, simplified] utf8_class' Let_def
  by (simp add: utf8_transitions_def class_of_def)

lemma start_follow: "(case followers b of None \<Rightarrow> fst (utf8_dfa_decode 0 codep b) = 1
    | Some ps \<Rightarrow> expected (fst (utf8_dfa_decode 0 codep b)) = ps \<and> fst (utf8_dfa_decode 0 codep b) \<le> 8 \<and>
       fst (utf8_dfa_decode 0 codep b) \<noteq> 1)"
  by (simp add: start_state Let_def followers_def expected_def in_range_def)

text \<open>The state after an expected byte.\<close>

definition after :: "nat \<Rightarrow> nat" where
  "after s = [0, 0, 0, 2, 2, 2, 3, 3, 3] ! s"

lemma state_cases: "2 \<le> s \<Longrightarrow> s \<le> 8 \<Longrightarrow> s \<in> {2, 3, 4, 5, 6, 7, 8 :: nat}"
  by auto

lemma after_expected: "2 \<le> s \<Longrightarrow> s \<le> 8 \<Longrightarrow> expected (after s) = tl (expected s) \<and> after s \<le> 8 \<and> after s \<noteq> 1"
  by (drule (1) state_cases) (elim insertE emptyE; simp add: after_def expected_def)

lemma next_after:
  assumes "2 \<le> s" and "s \<le> 8"
  shows "fst (utf8_dfa_decode s codep b) = (if hd (expected s) b then after s else 1)"
  using state_cases [OF assms] unfolding decode_state [OF assms(2)] utf8_class'
  by (elim insertE emptyE; hypsubst; simp add: class_of_def utf8_transitions_def expected_def in_range_def after_def)

lemma next_state: "2 \<le> s \<Longrightarrow> s \<le> 8 \<Longrightarrow>
    (if hd (expected s) b then expected (fst (utf8_dfa_decode s codep b)) = tl (expected s) \<and>
       fst (utf8_dfa_decode s codep b) \<le> 8 \<and> fst (utf8_dfa_decode s codep b) \<noteq> 1
     else fst (utf8_dfa_decode s codep b) = 1)"
  using after_expected [of s] by (simp add: next_after)

section \<open>Code points\<close>

definition codep_ok :: "nat \<Rightarrow> nat \<Rightarrow> bool" where
  "codep_ok st n \<longleftrightarrow> (if st = 2 then 2 \<le> n \<and> n < 2 ^ 26 else if st = 3 \<or> st = 5 then 1 \<le> n \<and> n < 2 ^ 20
     else if st = 4 then n < 2 ^ 20 else if st = 6 then n < 2 ^ 14 else 1 \<le> n \<and> n < 2 ^ 14)"

lemma snd_start: "snd (utf8_dfa_decode 0 codep b) = and (drop_bit (utf8d ! unat b) 0xFF) (ucast b)"
  by (simp add: utf8_dfa_decode_def Let_def)

lemma snd_next: "s \<noteq> 0 \<Longrightarrow> snd (utf8_dfa_decode s codep b) = or (and (ucast b) 0x3F) (push_bit 6 codep)"
  by (simp add: utf8_dfa_decode_def Let_def)

lemma unat_and_mask: "unat (and (mask k) w) = unat w mod 2 ^ k" for w :: "'a::len word"
proof -
  have "and (mask k) w = take_bit k w" by (simp add: take_bit_eq_mask and.commute)
  then show ?thesis by (simp only: unsigned_take_bit_eq) (simp add: take_bit_eq_mod)
qed

lemma start_masks: "and (0xFF :: u32) w = and (mask 8) w" "and (0x3F :: u32) w = and (mask 6) w"
  "and (0x1F :: u32) w = and (mask 5) w" "and (0xF :: u32) w = and (mask 4) w"
  "and (0x7 :: u32) w = and (mask 3) w" "and (0x3 :: u32) w = and (mask 2) w"
  by (simp_all add: mask_eq_exp_minus_1)

lemma unat_ucast_byte: "unat (ucast (b :: u8) :: u32) = unat b"
  using unat_byte [of b] by (simp add: unsigned_ucast_eq take_bit_nat_eq_self_iff)

lemma start_ascii: "unat b < 0x80 \<Longrightarrow> snd (utf8_dfa_decode 0 codep b) = ucast b"
  unfolding snd_start
  apply (simp add: utf8_class' class_of_def)
  apply (simp add: word_unat_eq_iff unat_and_mask start_masks unat_ucast_byte)
  done

lemma mod_from: "a * m \<le> n \<Longrightarrow> n < a * m + m \<Longrightarrow> n mod m = n - a * m" for n :: nat
proof -
  assume "a * m \<le> n" "n < a * m + m"
  then obtain k where "n = a * m + k" "k < m" by (metis le_Suc_ex add_less_cancel_left)
  then show ?thesis by simp
qed

lemma start_codep:
  assumes "followers b = Some ps" and "ps \<noteq> []"
  shows "codep_ok (fst (utf8_dfa_decode 0 codep b)) (unat (snd (utf8_dfa_decode 0 codep b)))"
proof -
  define n where "n = unat b"
  have n: "0xC2 \<le> n" "n \<le> 0xF4"
    using assms by (auto simp: followers_def in_range_def n_def split: if_splits)
  have mods: "n mod 64 = n - 192" "0xE0 \<le> n \<Longrightarrow> n mod 32 = n - 224" "0xF0 \<le> n \<Longrightarrow> n \<le> 0xF3 \<Longrightarrow> n mod 4 = n - 240"
    using n mod_from [of 3 64 n] mod_from [of 7 32 n] mod_from [of 60 4 n] by simp_all
  consider "n < 0xE0" | "n = 0xE0" | "0xE0 < n" "n < 0xED" | "n = 0xED" | "n = 0xEE \<or> n = 0xEF" | "n = 0xF0"
    | "0xF0 < n" "n < 0xF4" | "n = 0xF4" using n by linarith
  then show ?thesis
    unfolding snd_start start_state utf8_class' Let_def
    unfolding n_def [symmetric]
    by cases (use n mods in \<open>auto simp: class_of_def codep_ok_def start_masks unat_and_mask unat_ucast_byte n_def [symmetric]\<close>)
qed

lemma unat_next:
  assumes "unat cp < 2 ^ 26"
  shows "unat (or (and (ucast (b :: u8)) 0x3F) (push_bit 6 cp) :: u32) = unat b mod 64 + 64 * unat cp"
proof -
  have disj: "and (and (ucast b) 0x3F) (push_bit 6 cp) = 0"
  proof (rule bit_word_eqI)
    fix n
    have "(0x3F :: u32) = mask 6" by (simp add: mask_eq_exp_minus_1)
    then have "bit (0x3F :: u32) n \<longleftrightarrow> n < 6"
      by (auto simp only: bit_mask_iff) simp
    then show "bit (and (and (ucast b) 0x3F) (push_bit 6 cp)) n = bit (0 :: u32) n"
      by (auto simp: bit_simps)
  qed
  have "unat (push_bit 6 cp) = 64 * unat cp"
    using assms by (simp add: push_bit_eq_mult unat_word_ariths)
  moreover have "unat (and (ucast b) (0x3F :: u32)) = unat b mod 64"
    by (simp add: and.commute [of _ "0x3F"] start_masks unat_and_mask unat_ucast_byte)
  ultimately show ?thesis
    using disj assms by (simp add: disjunctive_add_eq_or [symmetric] unat_word_ariths)
qed

lemma next_codep:
  assumes "2 \<le> s" and "s \<le> 8" and "codep_ok s (unat cp)" and "hd (expected s) b"
  shows "if fst (utf8_dfa_decode s cp b) = 0 then 128 \<le> unat (snd (utf8_dfa_decode s cp b))
    else codep_ok (fst (utf8_dfa_decode s cp b)) (unat (snd (utf8_dfa_decode s cp b)))"
proof -
  have 26: "unat cp < 2 ^ 26" using assms(3) by (auto simp: codep_ok_def split: if_splits)
  define m where "m = unat b mod 64"
  have m: "m < 64" by (simp add: m_def)
  have cont: "unat b = m + 128" if "128 \<le> unat b" "unat b < 192"
    using that mod_from [of 2 64 "unat b"] by (simp add: m_def)
  have snd: "unat (snd (utf8_dfa_decode s cp b)) = m + 64 * unat cp"
    using assms(1) 26 by (simp add: snd_next unat_next m_def)
  have fst: "fst (utf8_dfa_decode s cp b) = after s" using next_after assms by simp
  show ?thesis unfolding fst snd
    using state_cases [OF assms(1,2)] assms(3,4) m cont
    by (elim insertE emptyE; hypsubst; simp add: after_def codep_ok_def expected_def in_range_def)
qed

end
