(* ===== verification/Json_Text_Correct.thy ===== *)
theory Json_Text_Correct
  imports Json_Utf8
begin

text \<open>
  The automaton decodes exactly the well-formed byte sequences of UTF-8 (table 3-7 of the
  Unicode standard, given here as the ranges that may follow a leading byte), and the string
  literals read back as the string with its ill-formed parts replaced by U+FFFD, but for a
  truncated sequence at the very end, which is left as it is.
\<close>

section \<open>The loop\<close>

lemma decode_start_codep: "utf8_dfa_decode 0 cp b = utf8_dfa_decode 0 0 b"
  by (simp add: utf8_dfa_decode_def)

lemma json_loop_codep: "NO_MATCH 0 cp \<Longrightarrow> json_loop cs out cp 0 m = json_loop cs out 0 0 m"
  by (cases cs) (simp_all add: json_loop.simps decode_start_codep [of cp])

lemma escape_large: "128 \<le> unat cp \<Longrightarrow> escape cp c = [c]"
  by (auto simp: escape_def word_le_nat_alt)

lemma expected_nonempty: "2 \<le> s \<Longrightarrow> s \<le> 8 \<Longrightarrow> expected s \<noteq> []"
proof -
  assume "2 \<le> s" "s \<le> 8"
  then have "s \<in> {2, 3, 4, 5, 6, 7, 8}" by auto
  then show ?thesis by (auto simp: expected_def)
qed

lemma expected_0: "s \<le> 8 \<Longrightarrow> s \<noteq> 1 \<Longrightarrow> expected s = [] \<longleftrightarrow> s = 0"
  using expected_nonempty [of s] by (cases "2 \<le> s") (auto simp: expected_def not_le less_Suc_eq numeral_2_eq_2)

text \<open>Inside a sequence: \<open>mid\<close> are the bytes since the last accepted one.\<close>

lemma json_loop_mid:
  assumes "2 \<le> s" and "s \<le> 8" and "codep_ok s (unat cp)" and "mid \<noteq> []"
  shows "json_loop cs (out @ mid) cp s (length mid) =
    (let n = match_len (expected s) cs
     in if n = length (expected s) then json_loop (drop n cs) (out @ mid @ take n cs) 0 0 0
        else if n = length cs then out @ mid @ cs
        else json_loop (drop n cs) (out @ replacement) 0 0 0)"
  using assms
proof (induction cs arbitrary: s cp mid)
  case Nil
  then show ?case using expected_nonempty [of s] by (cases "expected s") auto
next
  case (Cons c cs)
  obtain p ps where ps: "expected s = p # ps" using expected_nonempty [OF Cons.prems(1,2)] by (cases "expected s") auto
  let ?d = "utf8_dfa_decode s cp (char_byte c)"
  note step = next_state [OF Cons.prems(1,2), of "char_byte c" cp]
  have s0: "s \<noteq> 0" using Cons.prems(1) by simp
  show ?case
  proof (cases "p (char_byte c)")
    case False
    with step ps have "fst ?d = 1" by simp
    with Cons.prems(4) have "json_loop (c # cs) (out @ mid) cp s (length mid) = json_loop (c # cs) (out @ replacement) 0 0 0"
      by (simp add: json_loop.simps(2) [of c cs "out @ mid"] split_beta json_loop_codep)
    with False ps show ?thesis by simp
  next
    case True
    with step ps have st: "expected (fst ?d) = ps" "fst ?d \<le> 8" "fst ?d \<noteq> 1" by simp_all
    have cd: "if fst ?d = 0 then 128 \<le> unat (snd ?d) else codep_ok (fst ?d) (unat (snd ?d))"
      using next_codep [OF Cons.prems(1-3)] True ps by simp
    show ?thesis
    proof (cases "fst ?d = 0")
      case zero: True
      with st expected_0 have "ps = []" by (metis le0 zero_neq_one)
      moreover have "json_loop (c # cs) (out @ mid) cp s (length mid) = json_loop cs (out @ mid @ [c]) 0 0 0"
        using zero cd by (simp add: json_loop.simps(2) [of c cs "out @ mid"] split_beta json_loop_codep escape_large)
      ultimately show ?thesis using True ps by simp
    next
      case nonzero: False
      have "json_loop (c # cs) (out @ mid) cp s (length mid) = json_loop cs (out @ (mid @ [c])) (snd ?d) (fst ?d) (length (mid @ [c]))"
        using nonzero st by (simp add: json_loop.simps(2) [of c cs "out @ mid"] split_beta)
      also have "\<dots> = (let n = match_len ps cs
         in if n = length ps then json_loop (drop n cs) (out @ (mid @ [c]) @ take n cs) 0 0 0
            else if n = length cs then out @ (mid @ [c]) @ cs
            else json_loop (drop n cs) (out @ replacement) 0 0 0)"
        using Cons.IH [of "fst ?d" "snd ?d" "mid @ [c]"] nonzero st cd by simp
      finally show ?thesis using True ps by (simp add: Let_def)
    qed
  qed
qed

lemma json_loop_start: "json_loop (c # cs) out 0 0 0 =
    (case followers (char_byte c) of
       None \<Rightarrow> json_loop cs (out @ replacement) 0 0 0
     | Some ps \<Rightarrow>
        if ps = [] then json_loop cs (out @ escape (ucast (char_byte c)) c) 0 0 0
        else (let n = match_len ps cs
              in if n = length ps then json_loop (drop n cs) (out @ c # take n cs) 0 0 0
                 else if n = length cs then out @ c # cs
                 else json_loop (drop n cs) (out @ replacement) 0 0 0))"
proof -
  let ?d = "utf8_dfa_decode 0 0 (char_byte c)"
  note start = start_follow [where b = "char_byte c" and codep = 0]
  show ?thesis
  proof (cases "followers (char_byte c)")
    case None
    with start show ?thesis by (simp add: json_loop.simps(2) split_beta json_loop_codep)
  next
    case (Some ps)
    with start have st: "expected (fst ?d) = ps" "fst ?d \<le> 8" "fst ?d \<noteq> 1" by simp_all
    show ?thesis
    proof (cases "ps = []")
      case True
      with Some have "unat (char_byte c) < 0x80" by (auto simp: followers_def split: if_splits)
      then have "snd ?d = ucast (char_byte c)" by (rule start_ascii)
      moreover from True st expected_0 have "fst ?d = 0" by metis
      ultimately show ?thesis using True Some by (simp add: json_loop.simps(2) split_beta json_loop_codep)
    next
      case False
      with st expected_0 have n0: "fst ?d \<noteq> 0" by metis
      then have "2 \<le> fst ?d" using st by simp
      with json_loop_mid [OF this st(2), of "snd ?d" "[c]" cs out] start_codep [OF Some False, of 0] n0 st Some False
      show ?thesis by (simp add: json_loop.simps(2) split_beta Let_def)
    qed
  qed
qed

section \<open>Reading a literal\<close>

fun hex_val :: "char \<Rightarrow> nat option" where
  "hex_val c = (if c_isdigit c then Some (digit_val c)
     else if 97 \<le> char_code c \<and> char_code c \<le> 102 then Some (char_code c - 87)
     else if 65 \<le> char_code c \<and> char_code c \<le> 70 then Some (char_code c - 55) else None)"

definition hex_quad :: "string \<Rightarrow> nat option" where
  "hex_quad s = (case map hex_val s of [Some a, Some b, Some c, Some d] \<Rightarrow> Some (((a * 16 + b) * 16 + c) * 16 + d) | _ \<Rightarrow> None)"

text \<open>The bytes of a code point of the basic plane; surrogates have none.\<close>

definition utf8_encode :: "nat \<Rightarrow> string option" where
  "utf8_encode n =
     (if n < 0x80 then Some [char_of n]
      else if n < 0x800 then Some [char_of (0xC0 + n div 64), char_of (0x80 + n mod 64)]
      else if (0xD800 \<le> n \<and> n \<le> 0xDFFF) \<or> 0xFFFF < n then None
      else Some [char_of (0xE0 + n div 4096), char_of (0x80 + n div 64 mod 64), char_of (0x80 + n mod 64)])"

definition simple_escapes :: "(char \<times> char) list" where
  "simple_escapes = [(CHR 0x22, CHR 0x22), (CHR 0x5C, CHR 0x5C), (CHR ''/'', CHR ''/''), (CHR ''b'', CHR 0x08),
     (CHR ''f'', CHR 0x0C), (CHR ''n'', CHR 0x0A), (CHR ''r'', CHR 0x0D), (CHR ''t'', CHR 0x09)]"

text \<open>A JSON reader for the part of a string literal behind the opening quote, which must end with
  the closing quote (RFC 8259; pairs of surrogates, which are never written, are refused).\<close>

fun json_unquote :: "string \<Rightarrow> string option" where
  "json_unquote [] = None"
| "json_unquote (c # cs) =
     (if c = CHR 0x22 then (if cs = [] then Some [] else None)
      else if c = CHR 0x5C then
        (case cs of
           [] \<Rightarrow> None
         | e # r \<Rightarrow>
            if e = CHR ''u'' then
              (case r of
                 h1 # h2 # h3 # h4 # r' \<Rightarrow>
                   (case Option.bind (hex_quad [h1, h2, h3, h4]) utf8_encode of
                      None \<Rightarrow> None | Some x \<Rightarrow> map_option (\<lambda>t. x @ t) (json_unquote r'))
               | _ \<Rightarrow> None)
            else (case map_of simple_escapes e of
                    None \<Rightarrow> None | Some x \<Rightarrow> map_option (\<lambda>t. x # t) (json_unquote r)))
      else if char_code c < 32 then None
      else map_option (\<lambda>t. c # t) (json_unquote cs))"

definition json_string_value :: "string \<Rightarrow> string option" where
  "json_string_value s = (case s of [] \<Rightarrow> None | c # cs \<Rightarrow> if c = CHR 0x22 then json_unquote cs else None)"

lemma char_code_byte: "unat (char_byte c) = char_code c"
  by (simp add: char_byte_def char_code_def unat_of_nat)

lemma unquote_high: "128 \<le> char_code c \<Longrightarrow> json_unquote (c # cs) = map_option (\<lambda>t. c # t) (json_unquote cs)"
  by (auto simp: char_code_def)

lemma unquote_highs: "\<forall>c \<in> set xs. 128 \<le> char_code c \<Longrightarrow> json_unquote (xs @ cs) = map_option (\<lambda>t. xs @ t) (json_unquote cs)"
  by (induction xs) (cases "json_unquote cs"; simp add: unquote_high del: json_unquote.simps)+

lemma unquote_replacement: "json_unquote (replacement @ cs) = map_option (\<lambda>t. replacement @ t) (json_unquote cs)"
  by (rule unquote_highs) (simp add: replacement_def char_code_def)

lemma hex_val_digit: "d < 16 \<Longrightarrow> hex_val (hex_digit d) = Some d"
proof (cases "d < 10")
  case True
  then show ?thesis by (simp add: hex_digit_def isdigit_digit_char digit_val_char)
next
  case False
  assume "d < 16"
  with False have "char_code (hex_digit d) = 87 + d" by (simp add: hex_digit_def char_code_def)
  with False \<open>d < 16\<close> show ?thesis by (simp add: c_isdigit_def)
qed

lemma hex_quad_byte: "n < 256 \<Longrightarrow> hex_quad [CHR ''0'', CHR ''0'', hex_digit (n div 16), hex_digit (n mod 16)] = Some n"
  by (simp add: hex_quad_def hex_val_digit c_isdigit_def char_code_def digit_val_def del: hex_val.simps)
    (simp add: c_isdigit_def char_code_def digit_val_def)

lemma unquote_hex: "n < 0x80 \<Longrightarrow>
    json_unquote (backslash # CHR ''u'' # CHR ''0'' # CHR ''0'' # hex_digit (n div 16) # hex_digit (n mod 16) # cs) =
    map_option (\<lambda>t. char_of n # t) (json_unquote cs)"
  by (cases "json_unquote cs") (simp_all add: backslash_def hex_quad_byte utf8_encode_def del: hex_val.simps)

lemma unquote_simple: "map_of simple_escapes e = Some x \<Longrightarrow> e \<noteq> CHR ''u'' \<Longrightarrow>
    json_unquote (backslash # e # cs) = map_option (\<lambda>t. x # t) (json_unquote cs)"
  by (simp add: backslash_def)

lemma char_code_eq: "c = d \<longleftrightarrow> char_code c = char_code d"
  by (simp add: char_code_def)

lemma unquote_escape:
  assumes "char_code c < 128"
  shows "json_unquote (escape (ucast (char_byte c)) c @ cs) = map_option (\<lambda>t. c # t) (json_unquote cs)"
proof -
  define n where "n = char_code c"
  define w :: u32 where "w = ucast (char_byte c)"
  have c: "c = char_of n" by (simp add: n_def char_code_def)
  have cp: "unat w = n" by (simp add: unat_ucast_byte char_code_byte n_def w_def)
  have eqs: "(w = v) \<longleftrightarrow> n = unat v" for v using cp by (auto simp: word_unat_eq_iff)
  have le: "w \<le> 0x1F \<longleftrightarrow> n \<le> 31" using cp by (simp add: word_le_nat_alt)
  consider "n \<in> {8, 9, 10, 12, 13, 34, 92}" | "n \<le> 31" "n \<notin> {8, 9, 10, 12, 13, 34, 92}"
    | "31 < n" "n \<noteq> 34" "n \<noteq> 92" by fastforce
  then have "json_unquote (escape w c @ cs) = map_option (\<lambda>t. c # t) (json_unquote cs)"
  proof cases
    case 1
    then have "c \<in> {CHR 0x08, CHR 0x09, CHR 0x0A, CHR 0x0C, CHR 0x0D, CHR 0x22, CHR 0x5C}"
      by (auto simp: n_def char_code_eq) (auto simp: char_code_def)
    moreover have "n = char_code c" by (rule n_def)
    ultimately show ?thesis
      by (elim insertE emptyE)
        (simp_all add: escape_def eqs char_code_def unquote_simple [unfolded backslash_def] backslash_def simple_escapes_def
          del: json_unquote.simps)
  next
    case 2
    then show ?thesis using unquote_hex [of n cs]
      by (simp add: escape_def eqs le cp c [symmetric] del: json_unquote.simps)
  next
    case 3
    then have "c \<noteq> CHR 0x22" "c \<noteq> CHR 0x5C" by (auto simp: n_def char_code_def)
    with 3 show ?thesis by (simp add: escape_def eqs le n_def [symmetric])
  qed
  then show ?thesis by (simp only: w_def)
qed

lemma followers_high: "followers b = Some ps \<Longrightarrow> p \<in> set ps \<Longrightarrow> p x \<Longrightarrow> 128 \<le> unat x"
  by (auto simp: followers_def in_range_def split: if_splits)

lemma followers_lead: "followers b = Some ps \<Longrightarrow> ps = [] \<longleftrightarrow> unat b < 128"
  by (auto simp: followers_def in_range_def split: if_splits)

lemma matched_high: "\<forall>p \<in> set ps. \<forall>x. p x \<longrightarrow> 128 \<le> unat x \<Longrightarrow> \<forall>c \<in> set (take (match_len ps cs) cs). 128 \<le> char_code c"
  by (induction ps cs rule: match_len.induct) (auto simp: char_code_byte)

lemma json_loop_reads: "\<exists>body. (\<forall>out. json_loop cs out 0 0 0 = out @ body) \<and>
    json_unquote (body @ [CHR 0x22]) = Some (repair cs)"
proof (induction cs rule: repair.induct)
  case 1
  then show ?case by simp
next
  case (2 c cs)
  show ?case
  proof (cases "followers (char_byte c)")
    case None
    with "2.IH"(1) obtain body where "\<forall>out. json_loop cs out 0 0 0 = out @ body"
      "json_unquote (body @ [CHR 0x22]) = Some (repair cs)" by blast
    with None show ?thesis
      by (intro exI [of _ "replacement @ body"]) (simp add: json_loop_start unquote_replacement)
  next
    case (Some ps)
    let ?n = "match_len ps cs"
    have high: "\<forall>p \<in> set ps. \<forall>x. p x \<longrightarrow> 128 \<le> unat x" using followers_high [OF Some] by blast
    note taken = matched_high [OF high, of cs]
    show ?thesis
    proof (cases "?n = length ps")
      case True
      with "2.IH"(2) [OF Some refl] obtain body where body: "\<forall>out. json_loop (drop ?n cs) out 0 0 0 = out @ body"
        "json_unquote (body @ [CHR 0x22]) = Some (repair (drop ?n cs))" by blast
      show ?thesis
      proof (cases "ps = []")
        case ascii: True
        with followers_lead [OF Some] have "char_code c < 128" by (simp add: char_code_byte)
        with body ascii Some show ?thesis
          by (intro exI [of _ "escape (ucast (char_byte c)) c @ body"]) (simp add: json_loop_start unquote_escape)
      next
        case False
        with followers_lead [OF Some] have "128 \<le> char_code c" by (simp add: char_code_byte)
        with taken have "\<forall>x \<in> set (c # take ?n cs). 128 \<le> char_code x" by simp
        from unquote_highs [OF this] body False True Some show ?thesis
          by (intro exI [of _ "(c # take ?n cs) @ body"]) (simp add: json_loop_start Let_def)
      qed
    next
      case False
      then have "ps \<noteq> []" by auto
      with followers_lead [OF Some] have c: "128 \<le> char_code c" by (simp add: char_code_byte)
      show ?thesis
      proof (cases "?n = length cs")
        case True
        with taken c have "\<forall>x \<in> set (c # cs). 128 \<le> char_code x" by simp
        from unquote_highs [OF this] False True \<open>ps \<noteq> []\<close> Some show ?thesis
          by (intro exI [of _ "c # cs"]) (simp add: json_loop_start Let_def)
      next
        case cut: False
        with "2.IH"(3) [OF Some refl False] obtain body where "\<forall>out. json_loop (drop ?n cs) out 0 0 0 = out @ body"
          "json_unquote (body @ [CHR 0x22]) = Some (repair (drop ?n cs))" by blast
        with False cut \<open>ps \<noteq> []\<close> Some show ?thesis
          by (intro exI [of _ "replacement @ body"]) (simp add: json_loop_start Let_def unquote_replacement)
      qed
    qed
  qed
qed

section \<open>Theorems\<close>

lemma match_len_take: "match_len ps cs = length ps \<Longrightarrow> match_len ps (take (length ps) cs @ t) = length ps"
  by (induction ps cs rule: match_len.induct) (auto split: if_splits)

lemma valid_sequence: "followers (char_byte c) = Some ps \<Longrightarrow> match_len ps cs = length ps \<Longrightarrow>
    utf8_valid (c # take (length ps) cs @ t) \<longleftrightarrow> utf8_valid t"
  using match_len_bounds(2) [of ps cs] by (simp add: match_len_take)

lemma valid_replacement: "utf8_valid (replacement @ t) \<longleftrightarrow> utf8_valid t"
  by (simp add: replacement_def followers_def in_range_def char_code_byte char_code_def)

lemma repair_valid: "utf8_valid s \<Longrightarrow> repair s = s"
proof (induction s rule: repair.induct)
  case (2 c cs)
  then obtain ps where ps: "followers (char_byte c) = Some ps" "match_len ps cs = length ps" "utf8_valid (drop (length ps) cs)"
    by (auto split: option.splits)
  with "2.IH"(2) [OF ps(1) refl] have "repair (drop (length ps) cs) = drop (length ps) cs" by simp
  with ps show ?case by simp
qed simp

lemma repair_truncated: "utf8_valid (repair s) \<longleftrightarrow> \<not> truncated s"
proof (induction s rule: repair.induct)
  case (2 c cs)
  show ?case
  proof (cases "followers (char_byte c)")
    case (Some ps)
    have less: "match_len ps cs = length cs \<Longrightarrow> match_len ps cs \<noteq> length ps \<Longrightarrow> \<not> utf8_valid (c # cs)"
      using Some by simp
    from 2(2,3) [OF Some] show ?thesis
      using valid_sequence [OF Some, of cs] less Some
      by (auto simp: Let_def valid_replacement simp del: utf8_valid.simps(2))
  qed (use 2(1) in \<open>auto simp: valid_replacement\<close>)
qed simp

fun dfa_accepts :: "nat \<Rightarrow> string \<Rightarrow> bool" where
  "dfa_accepts st [] \<longleftrightarrow> st = 0"
| "dfa_accepts st (c # cs) \<longleftrightarrow> fst (utf8_dfa_decode st 0 (char_byte c)) \<noteq> 1 \<and>
     dfa_accepts (fst (utf8_dfa_decode st 0 (char_byte c))) cs"

lemma dfa_mid: "2 \<le> s \<Longrightarrow> s \<le> 8 \<Longrightarrow> dfa_accepts s cs \<longleftrightarrow>
    match_len (expected s) cs = length (expected s) \<and> dfa_accepts 0 (drop (length (expected s)) cs)"
proof (induction cs arbitrary: s)
  case Nil
  then show ?case using expected_nonempty [of s] by (cases "expected s") auto
next
  case (Cons c cs)
  obtain p ps where ps: "expected s = p # ps" using expected_nonempty [OF Cons.prems] by (cases "expected s") auto
  note step = next_state [OF Cons.prems, of "char_byte c" 0]
  show ?case
  proof (cases "p (char_byte c)")
    case True
    with step ps have st: "expected (fst (utf8_dfa_decode s 0 (char_byte c))) = ps"
      "fst (utf8_dfa_decode s 0 (char_byte c)) \<le> 8" "fst (utf8_dfa_decode s 0 (char_byte c)) \<noteq> 1" by simp_all
    show ?thesis
    proof (cases "fst (utf8_dfa_decode s 0 (char_byte c)) = 0")
      case zero: True
      with st expected_0 have "ps = []" by (metis le0 zero_neq_one)
      with zero True ps show ?thesis by simp
    next
      case False
      with Cons.IH [of "fst (utf8_dfa_decode s 0 (char_byte c))"] st True ps show ?thesis by simp
    qed
  qed (use step ps in simp)
qed

text \<open>
  The UTF-8 automaton accepts a string, ending in its initial state without a rejection,
  exactly when the string is well-formed UTF-8: no overlong forms, no surrogates and nothing
  above U+10FFFF.
\<close>

theorem dfa_accepts_utf8: "dfa_accepts 0 s \<longleftrightarrow> utf8_valid s"
proof (induction s rule: utf8_valid.induct)
  case (2 c cs)
  note start = start_follow [where b = "char_byte c" and codep = 0]
  show ?case
  proof (cases "followers (char_byte c)")
    case None
    with start show ?thesis by simp
  next
    case (Some ps)
    let ?st = "fst (utf8_dfa_decode 0 0 (char_byte c))"
    from Some start have st: "expected ?st = ps" "?st \<le> 8" "?st \<noteq> 1" by simp_all
    show ?thesis
    proof (cases "?st = 0")
      case True
      with st expected_0 have "ps = []" by (metis le0 zero_neq_one)
      with True Some 2 show ?thesis by simp
    next
      case False
      with dfa_mid [of ?st cs] st Some 2 show ?thesis by simp
    qed
  qed
qed simp

text \<open>
  C22. A string that is well-formed UTF-8 is written as a JSON string literal that a JSON reader
  turns back into it, whatever control characters, quotes and backslashes it holds.
\<close>

theorem json_literal_roundtrip:
  assumes "utf8_valid s"
  shows "\<exists>t. append_json_string out s = out @ t \<and> json_string_value t = Some s"
  using json_loop_reads [of s] repair_valid [OF assms]
  by (fastforce simp: append_json_string_def json_string_value_def)

lemma json_literal_roundtrip_witness:
  "\<exists>t. append_json_string [] (CHR ''a'' # CHR 0x0A # CHR 0x22 # replacement) = t \<and>
     json_string_value t = Some (CHR ''a'' # CHR 0x0A # CHR 0x22 # replacement)"
  using json_literal_roundtrip [of "CHR ''a'' # CHR 0x0A # CHR 0x22 # replacement" "[]"]
  by (simp add: replacement_def followers_def in_range_def char_code_byte char_code_def)

text \<open>
  Of any string a JSON reader gets back the string with each maximal ill-formed part replaced
  by U+FFFD, except that a sequence cut off at the very end is left as raw bytes: what is written
  is well-formed UTF-8 exactly when the string does not end within a sequence.
\<close>

theorem json_literal_repairs:
  "\<exists>t. append_json_string out s = out @ t \<and> json_string_value t = Some (repair s) \<and>
     (utf8_valid (repair s) \<longleftrightarrow> \<not> truncated s)"
  using json_loop_reads [of s] repair_truncated [of s]
  by (fastforce simp: append_json_string_def json_string_value_def)

text \<open>A number of 20 digits loses its last digit to a NUL.\<close>

lemma dec_of_nat_length: "0 < k \<Longrightarrow> 10 ^ k \<le> n \<longleftrightarrow> k < length (dec_of_nat n)"
proof (induction n arbitrary: k rule: dec_of_nat.induct)
  case (1 n)
  then obtain m where k: "k = Suc m" by (cases k) auto
  have step: "10 ^ k \<le> n \<longleftrightarrow> 10 ^ m \<le> n div 10"
    by (simp add: k less_eq_div_iff_mult_less_eq mult.commute)
  show ?case
  proof (cases "n < 10")
    case True
    then have "10 ^ m \<le> n div 10 \<longleftrightarrow> False" by simp
    with step True k show ?thesis by (simp only: dec_of_nat.simps [of n]) simp
  next
    case False
    then have len: "length (dec_of_nat n) = Suc (length (dec_of_nat (n div 10)))" by (simp add: dec_of_nat.simps [of n])
    have "10 ^ m \<le> n div 10 \<longleftrightarrow> m < length (dec_of_nat (n div 10))"
    proof (cases "m = 0")
      case True
      have "dec_of_nat (n div 10) \<noteq> []" by (simp add: dec_of_nat.simps [of "n div 10"])
      with True False show ?thesis by (simp add: Suc_le_eq)
    next
      case m: False
      with "1.IH" [OF False, of m] show ?thesis by simp
    qed
    with step len k show ?thesis by simp
  qed
qed

lemma append_u64_exact: "append_u64 out v = out @ dec_of_nat (unat v) \<longleftrightarrow> unat v < 10 ^ 19"
proof -
  let ?ds = "dec_of_nat (unat v)"
  have len: "unat v < 10 ^ 19 \<longleftrightarrow> length ?ds \<le> 19" using dec_of_nat_length [of 19 "unat v"] by auto
  show ?thesis
  proof (cases "length ?ds \<le> 19")
    case True
    with len show ?thesis by (simp add: append_u64_def Let_def)
  next
    case False
    have "take (length ?ds) (take 19 ?ds @ [NUL]) \<noteq> ?ds"
    proof
      assume "take (length ?ds) (take 19 ?ds @ [NUL]) = ?ds"
      moreover have "NUL \<in> set (take (length ?ds) (take 19 ?ds @ [NUL]))" using False by simp
      ultimately have "NUL \<in> set ?ds" by simp
      with dec_of_nat_digits [of "unat v"] show False by (auto simp: c_isdigit_def char_code_def)
    qed
    with False len show ?thesis by (auto simp: append_u64_def Let_def)
  qed
qed

end
