(* ===== verification/Notify.thy ===== *)
theory Notify
  imports Prelude "HOL-Library.AList" "HOL-Library.Multiset"
begin

text \<open>
  Alert levels, routing and the asynchronous dispatcher of alerts (\<open>src/src/common/severity.hpp\<close>,
  \<open>src/src/alerts/alert_event.hpp\<close>, \<open>notify_router.hpp\<close>, \<open>notify_dispatcher.hpp/cpp\<close>). Every
  critical section under \<open>mu_\<close> is one function of the dispatcher's state; the worker thread is a
  field of it. Times are readings of the steady clock in nanoseconds. The channel object is
  its URL; what a webhook answers is an argument. The hash maps are association lists whose order
  stands for the iteration order, which the map may change at any time (\<open>Rehash\<close>). Minutes times 60
  is a product of C ints, so configured minutes are taken to be below \<open>2 ^ 31 div 60\<close>.
\<close>

section \<open>Levels\<close>

datatype Severity = Critical | High | Medium | Low

definition SeverityDefault :: string where "SeverityDefault = ''medium''"

fun SeverityToString :: "Severity \<Rightarrow> string" where
  "SeverityToString Critical = ''critical''"
| "SeverityToString High = ''high''"
| "SeverityToString Medium = ''medium''"
| "SeverityToString Low = ''low''"

definition SeverityFromString :: "string \<Rightarrow> Severity option" where
  "SeverityFromString s =
     (if s = ''critical'' then Some Critical
      else if s = ''high'' then Some High
      else if s = ''medium'' then Some Medium
      else if s = ''low'' then Some Low
      else None)"

definition SeverityIsValid :: "string \<Rightarrow> bool" where
  "SeverityIsValid s \<longleftrightarrow> SeverityFromString s \<noteq> None"

section \<open>Alerts and routing\<close>

record AlertEvent =
  ae_rule_id :: string
  ae_rule_name :: string
  ae_severity :: string
  ae_file_path :: string
  ae_expected :: string
  ae_actual :: string
  ae_process_name :: string
  ae_pid :: int
  ae_user_name :: string
  ae_uid :: string
  ae_timestamp :: string
  ae_event_type :: string
  ae_action_taken :: string
  ae_exe :: string
  ae_container_id :: string
  ae_ancestors :: string
  ae_attack :: string
  ae_occurrences :: int
  ae_first_seen :: string
  ae_last_seen :: string

definition empty_alert :: AlertEvent where
  "empty_alert = \<lparr>ae_rule_id = [], ae_rule_name = [], ae_severity = [], ae_file_path = [], ae_expected = [],
     ae_actual = [], ae_process_name = [], ae_pid = 0, ae_user_name = [], ae_uid = [], ae_timestamp = [],
     ae_event_type = [], ae_action_taken = [], ae_exe = [], ae_container_id = [], ae_ancestors = [],
     ae_attack = [], ae_occurrences = 1, ae_first_seen = [], ae_last_seen = []\<rparr>"

definition SeverityRank :: "string \<Rightarrow> int" where
  "SeverityRank s =
     (case SeverityFromString s of
        Some Critical \<Rightarrow> 3 | Some High \<Rightarrow> 2 | Some Medium \<Rightarrow> 1 | Some Low \<Rightarrow> 0 | None \<Rightarrow> 1)"

definition ShouldRouteByLevel :: "string \<Rightarrow> string \<Rightarrow> bool" where
  "ShouldRouteByLevel severity min_level \<longleftrightarrow>
     (let min = (if SeverityIsValid min_level then min_level else ''high'')
      in SeverityRank severity \<ge> SeverityRank min)"

definition proc_key :: "AlertEvent \<Rightarrow> string" where
  "proc_key e = ''proc:'' @ ae_exe e @ '':'' @ dec_of_int (ae_pid e)"

definition SilenceObjectKey :: "AlertEvent \<Rightarrow> string" where
  "SilenceObjectKey e =
     (if starts_with ''process.'' (ae_event_type e) then proc_key e
      else if ae_file_path e \<noteq> [] then ''file:'' @ ae_file_path e
      else if ae_exe e \<noteq> [] then proc_key e
      else ''-'')"

definition secs :: "int \<Rightarrow> int" where "secs n = n * 1000000000"

definition SilenceWindowActive :: "int \<Rightarrow> int \<Rightarrow> int \<Rightarrow> bool" where
  "SilenceWindowActive last_sent now window_seconds \<longleftrightarrow>
     (if window_seconds \<le> 0 then False else now - last_sent < secs window_seconds)"

datatype AggAction = kOpenAndSend | kMerge | kFlushAndSend

definition AggregationAction :: "bool \<Rightarrow> int \<Rightarrow> int \<Rightarrow> int \<Rightarrow> AggAction" where
  "AggregationAction window_exists win_start now window_seconds =
     (if \<not> window_exists then kOpenAndSend
      else if SilenceWindowActive win_start now window_seconds then kMerge
      else kFlushAndSend)"

section \<open>The dispatcher\<close>

record NotifyConfig =
  nc_enabled :: bool
  nc_webhook_url :: string
  nc_min_level :: string
  nc_silence_minutes :: int
  nc_aggregation_window_minutes :: int

definition default_notify_config :: NotifyConfig where
  "default_notify_config = \<lparr>nc_enabled = False, nc_webhook_url = [], nc_min_level = ''high'',
     nc_silence_minutes = 10, nc_aggregation_window_minutes = 5\<rparr>"

record AggWindow =
  aw_win_start :: int
  aw_pending :: nat
  aw_first_evt :: AlertEvent
  aw_last_evt :: AlertEvent

definition new_window :: "int \<Rightarrow> AggWindow" where
  "new_window now = \<lparr>aw_win_start = now, aw_pending = 0, aw_first_evt = empty_alert, aw_last_evt = empty_alert\<rparr>"

text \<open>The worker thread: before it takes the lock, asleep until a time or for ever, sending with the
  channel it took, stopped, or crashed on a null channel.\<close>

datatype Worker = Polling | Waiting "int option" | Sending AlertEvent "string option" | Stopped | Crashed

record NotifyDispatcher =
  nd_cfg :: NotifyConfig
  nd_notifier :: "string option"
  nd_last_sent :: "(string \<times> int) list"
  nd_agg_windows :: "(string \<times> AggWindow) list"
  nd_queue :: "AlertEvent list"
  nd_stop :: bool
  nd_sent :: nat
  nd_failed :: nat
  nd_suppressed :: nat
  nd_dropped :: nat
  nd_merged :: nat
  nd_worker :: Worker

definition new_dispatcher :: NotifyDispatcher where
  "new_dispatcher = \<lparr>nd_cfg = default_notify_config, nd_notifier = None, nd_last_sent = [], nd_agg_windows = [],
     nd_queue = [], nd_stop = False, nd_sent = 0, nd_failed = 0, nd_suppressed = 0, nd_dropped = 0, nd_merged = 0,
     nd_worker = Polling\<rparr>"

definition kMaxQueue :: nat where "kMaxQueue = 1024"
definition kMaxRetries :: nat where "kMaxRetries = 2"

definition kMaxKeys :: nat where "kMaxKeys = 4096"

text \<open>A notification wakes the worker if it sleeps, and is lost otherwise.\<close>

definition notify_worker :: "NotifyDispatcher \<Rightarrow> NotifyDispatcher" where
  "notify_worker st = (case nd_worker st of Waiting _ \<Rightarrow> st\<lparr>nd_worker := Polling\<rparr> | _ \<Rightarrow> st)"

definition alert_key :: "AlertEvent \<Rightarrow> string" where
  "alert_key e = ae_rule_id e @ ''|'' @ SilenceObjectKey e"

definition silenced :: "AlertEvent \<Rightarrow> int \<Rightarrow> NotifyDispatcher \<Rightarrow> bool" where
  "silenced evt now st \<longleftrightarrow>
     (case map_of (nd_last_sent st) (alert_key evt) of
        None \<Rightarrow> False
      | Some t \<Rightarrow> SilenceWindowActive t now (nc_silence_minutes (nd_cfg st) * 60))"

definition occupy :: "string \<Rightarrow> int \<Rightarrow> NotifyDispatcher \<Rightarrow> NotifyDispatcher" where
  "occupy key now st =
     (let m = AList.update key now (nd_last_sent st)
      in st\<lparr>nd_last_sent := (if card (fst ` set m) > kMaxKeys then [(key, now)] else m)\<rparr>)"

definition EnqueueWithSilence :: "AlertEvent \<Rightarrow> int \<Rightarrow> NotifyDispatcher \<Rightarrow> NotifyDispatcher" where
  "EnqueueWithSilence evt now st =
     (if nc_silence_minutes (nd_cfg st) > 0 then
        (if silenced evt now st then st\<lparr>nd_suppressed := nd_suppressed st + 1\<rparr>
         else if length (nd_queue st) \<ge> kMaxQueue then st\<lparr>nd_dropped := nd_dropped st + 1\<rparr>
         else notify_worker ((occupy (alert_key evt) now st)\<lparr>nd_queue := nd_queue st @ [evt]\<rparr>))
      else
        (if length (nd_queue st) \<ge> kMaxQueue then st\<lparr>nd_dropped := nd_dropped st + 1\<rparr>
         else notify_worker (st\<lparr>nd_queue := nd_queue st @ [evt]\<rparr>)))"

definition digest_of :: "AggWindow \<Rightarrow> AlertEvent" where
  "digest_of w = (aw_last_evt w)\<lparr>ae_occurrences := int (aw_pending w), ae_first_seen := ae_timestamp (aw_first_evt w),
     ae_last_seen := ae_timestamp (aw_last_evt w)\<rparr>"

definition FlushAggWindowLocked :: "AggWindow \<Rightarrow> int \<Rightarrow> NotifyDispatcher \<Rightarrow> NotifyDispatcher" where
  "FlushAggWindowLocked w now st = (if aw_pending w = 0 then st else EnqueueWithSilence (digest_of w) now st)"

text \<open>Flush and erase the windows that satisfy \<open>P\<close>, in the order of the map.\<close>

fun flush_loop :: "(AggWindow \<Rightarrow> bool) \<Rightarrow> int \<Rightarrow> (string \<times> AggWindow) list \<Rightarrow> NotifyDispatcher \<Rightarrow> NotifyDispatcher" where
  "flush_loop P now [] st = st"
| "flush_loop P now ((k, w) # ws) st =
     (if P w then
        flush_loop P now ws
          ((FlushAggWindowLocked w now st)\<lparr>nd_agg_windows := AList.delete k (nd_agg_windows st)\<rparr>)
      else flush_loop P now ws st)"

definition FlushExpiredAggLocked :: "int \<Rightarrow> NotifyDispatcher \<Rightarrow> NotifyDispatcher" where
  "FlushExpiredAggLocked now st =
     (if nc_aggregation_window_minutes (nd_cfg st) \<le> 0 then st
      else flush_loop
        (\<lambda>w. \<not> SilenceWindowActive (aw_win_start w) now (nc_aggregation_window_minutes (nd_cfg st) * 60))
        now (nd_agg_windows st) st)"

text \<open>\<open>None\<close> is \<open>time_point::max()\<close>.\<close>

definition earlier :: "int option \<Rightarrow> int \<Rightarrow> int option" where
  "earlier d t = (case d of None \<Rightarrow> Some t | Some u \<Rightarrow> Some (min u t))"

definition NextAggFlushDeadlineLocked :: "NotifyDispatcher \<Rightarrow> int option" where
  "NextAggFlushDeadlineLocked st =
     (if nc_aggregation_window_minutes (nd_cfg st) \<le> 0 \<or> nd_agg_windows st = [] then None
      else foldl (\<lambda>d (_, w). earlier d (aw_win_start w + secs (nc_aggregation_window_minutes (nd_cfg st) * 60)))
        None (nd_agg_windows st))"

definition UpdateConfig :: "NotifyConfig \<Rightarrow> int \<Rightarrow> NotifyDispatcher \<Rightarrow> NotifyDispatcher" where
  "UpdateConfig cfg now st =
     (let url_changed = (nc_webhook_url cfg \<noteq> nc_webhook_url (nd_cfg st));
          agg_turned_off = (nc_aggregation_window_minutes (nd_cfg st) > 0 \<and> nc_aggregation_window_minutes cfg \<le> 0);
          st1 = st\<lparr>nd_cfg := cfg\<rparr>;
          st2 = (if url_changed
                 then st1\<lparr>nd_notifier := (if nc_webhook_url cfg \<noteq> [] then Some (nc_webhook_url cfg) else None)\<rparr>
                 else st1);
          st3 = (if agg_turned_off then flush_loop (\<lambda>_. True) now (nd_agg_windows st2) st2 else st2)
      in notify_worker st3)"

definition merge_window :: "AlertEvent \<Rightarrow> AggWindow \<Rightarrow> AggWindow" where
  "merge_window evt w =
     w\<lparr>aw_pending := aw_pending w + 1,
       aw_first_evt := (if aw_pending w + 1 = 1 then evt else aw_first_evt w),
       aw_last_evt := evt\<rparr>"

definition open_window :: "string \<Rightarrow> int \<Rightarrow> NotifyDispatcher \<Rightarrow> NotifyDispatcher" where
  "open_window key now st =
     (let m = AList.update key (new_window now) (nd_agg_windows st)
      in st\<lparr>nd_agg_windows := (if length m > kMaxKeys then [(key, new_window now)] else m)\<rparr>)"

definition routed :: "AlertEvent \<Rightarrow> NotifyDispatcher \<Rightarrow> bool" where
  "routed evt st \<longleftrightarrow> nc_enabled (nd_cfg st) \<and> nd_notifier st \<noteq> None \<and>
     ShouldRouteByLevel (ae_severity evt) (nc_min_level (nd_cfg st))"

definition window_action :: "AlertEvent \<Rightarrow> int \<Rightarrow> NotifyDispatcher \<Rightarrow> AggAction" where
  "window_action evt now st =
     (let it = map_of (nd_agg_windows st) (alert_key evt)
      in AggregationAction (it \<noteq> None) (case it of Some w \<Rightarrow> aw_win_start w | None \<Rightarrow> now) now
           (nc_aggregation_window_minutes (nd_cfg st) * 60))"

definition Dispatch :: "AlertEvent \<Rightarrow> int \<Rightarrow> NotifyDispatcher \<Rightarrow> NotifyDispatcher" where
  "Dispatch evt now st =
     (if \<not> routed evt st then st
      else if nc_aggregation_window_minutes (nd_cfg st) > 0 then
        (let key = alert_key evt
         in case (window_action evt now st, map_of (nd_agg_windows st) key) of
              (kMerge, Some w) \<Rightarrow>
                st\<lparr>nd_agg_windows := AList.update key (merge_window evt w) (nd_agg_windows st),
                   nd_merged := nd_merged st + 1\<rparr>
            | (kFlushAndSend, Some w) \<Rightarrow>
                EnqueueWithSilence evt now (notify_worker (open_window key now
                  ((FlushAggWindowLocked w now st)\<lparr>nd_agg_windows := AList.delete key (nd_agg_windows st)\<rparr>)))
            | _ \<Rightarrow> EnqueueWithSilence evt now (notify_worker (open_window key now st)))
      else EnqueueWithSilence evt now st)"

record NotifyStats =
  ns_sent :: nat
  ns_failed :: nat
  ns_suppressed :: nat
  ns_dropped :: nat
  ns_merged :: nat

definition Stats :: "NotifyDispatcher \<Rightarrow> NotifyStats" where
  "Stats st = \<lparr>ns_sent = nd_sent st, ns_failed = nd_failed st, ns_suppressed = nd_suppressed st,
     ns_dropped = nd_dropped st, ns_merged = nd_merged st\<rparr>"

section \<open>The worker\<close>

text \<open>Under the lock: flush, then sleep, stop or take the oldest alert together with the channel.\<close>

definition worker_poll :: "int \<Rightarrow> NotifyDispatcher \<Rightarrow> NotifyDispatcher" where
  "worker_poll now st =
     (let st1 = FlushExpiredAggLocked now st
      in if nd_stop st1 then st1\<lparr>nd_worker := Stopped\<rparr>
         else case nd_queue st1 of
                [] \<Rightarrow> st1\<lparr>nd_worker := Waiting (NextAggFlushDeadlineLocked st1)\<rparr>
              | evt # rest \<Rightarrow> st1\<lparr>nd_queue := rest, nd_worker := Sending evt (nd_notifier st1)\<rparr>)"

function send_loop :: "(nat \<Rightarrow> bool) \<Rightarrow> nat \<Rightarrow> bool" where
  "send_loop outcome attempt =
     (if attempt \<le> kMaxRetries then (if outcome attempt then True else send_loop outcome (attempt + 1)) else False)"
  by pat_completeness auto
termination send_loop
  by (relation "measure (\<lambda>(_, attempt). Suc kMaxRetries - attempt)") auto

declare send_loop.simps [simp del]

text \<open>Outside the lock; the result of each attempt is given.\<close>

definition worker_send :: "(nat \<Rightarrow> bool) \<Rightarrow> NotifyDispatcher \<Rightarrow> NotifyDispatcher" where
  "worker_send outcome st =
     (case nd_worker st of
        Sending evt None \<Rightarrow> st\<lparr>nd_worker := Crashed\<rparr>
      | Sending evt (Some url) \<Rightarrow>
          (if send_loop outcome 0 then st\<lparr>nd_sent := nd_sent st + 1, nd_worker := Polling\<rparr>
           else st\<lparr>nd_failed := nd_failed st + 1, nd_worker := Polling\<rparr>)
      | _ \<Rightarrow> st)"

definition request_stop :: "NotifyDispatcher \<Rightarrow> NotifyDispatcher" where
  "request_stop st = notify_worker (st\<lparr>nd_stop := True\<rparr>)"

section \<open>Runs\<close>

datatype NotifyOp =
    Configure NotifyConfig int
  | Alert AlertEvent int
  | Poll int
  | Wake
  | Send "nat \<Rightarrow> bool"
  | Stop
  | Rehash "(string \<times> AggWindow) list"

fun notify_step :: "NotifyOp \<Rightarrow> NotifyDispatcher \<Rightarrow> NotifyDispatcher" where
  "notify_step (Configure cfg now) st = UpdateConfig cfg now st"
| "notify_step (Alert evt now) st = Dispatch evt now st"
| "notify_step (Poll now) st = (if nd_worker st = Polling then worker_poll now st else st)"
| "notify_step Wake st = notify_worker st"
| "notify_step (Send outcome) st = worker_send outcome st"
| "notify_step Stop st = request_stop st"
| "notify_step (Rehash ws) st =
     (if mset ws = mset (nd_agg_windows st) then st\<lparr>nd_agg_windows := ws\<rparr> else st)"

definition notify_run :: "NotifyOp list \<Rightarrow> NotifyDispatcher \<Rightarrow> NotifyDispatcher" where
  "notify_run ops st = fold notify_step ops st"

end
