(* ===== verification/Alerts_Store.thy ===== *)
theory Alerts_Store
  imports Prelude
begin

text \<open>
  The alerts table of the baseline database (\<open>src/src/storage/baseline_db.cpp\<close>): what the SQL
  statements of \<open>SaveAlert\<close>, \<open>PurgeAlertsByAge\<close>, \<open>PurgeAlertsByCount\<close> and \<open>GetAlertCount\<close> do to the
  rows. Whether SQLite carries a statement out is an argument; so are the text of
  \<open>datetime('now', ...)\<close> and the order in which rows of equal time are returned. TEXT values are
  compared byte by byte.
\<close>

section \<open>Rows\<close>

record AlertRecord =
  ar_rule_id :: string
  ar_rule_name :: string
  ar_severity :: string
  ar_file_path :: string
  ar_event_type :: string
  ar_process_name :: string
  ar_pid :: int
  ar_user_name :: string
  ar_uid :: string
  ar_expected :: string
  ar_actual :: string
  ar_action_taken :: string
  ar_dingtalk_sent :: bool
  ar_recorded_at :: string
  ar_exe :: string
  ar_container_id :: string
  ar_ancestors :: string
  ar_attack :: string

record AlertsTable =
  at_rows :: "(nat \<times> AlertRecord) list"
  at_next_id :: nat

definition empty_alerts :: AlertsTable where
  "empty_alerts = \<lparr>at_rows = [], at_next_id = 1\<rparr>"

section \<open>Statements\<close>

definition SaveAlert :: "bool \<Rightarrow> AlertRecord \<Rightarrow> AlertsTable \<Rightarrow> AlertsTable" where
  "SaveAlert ok rec t =
     (if ok then \<lparr>at_rows = at_rows t @ [(at_next_id t, rec)], at_next_id = at_next_id t + 1\<rparr> else t)"

definition GetAlertCount :: "AlertsTable \<Rightarrow> nat" where
  "GetAlertCount t = length (at_rows t)"

definition delete_rows :: "bool \<Rightarrow> (nat \<times> AlertRecord \<Rightarrow> bool) \<Rightarrow> AlertsTable \<Rightarrow> nat \<times> AlertsTable" where
  "delete_rows ok P t =
     (if ok then (length (filter P (at_rows t)), t\<lparr>at_rows := filter (\<lambda>r. \<not> P r) (at_rows t)\<rparr>) else (0, t))"

text \<open>\<open>cutoff\<close> is the text of \<open>datetime('now', '-N days')\<close>.\<close>

definition PurgeAlertsByAge :: "bool \<Rightarrow> int \<Rightarrow> string \<Rightarrow> AlertsTable \<Rightarrow> nat \<times> AlertsTable" where
  "PurgeAlertsByAge ok retention_days cutoff t =
     (if retention_days \<le> 0 then (0, t)
      else delete_rows ok (\<lambda>(_, rec). text_less (ar_recorded_at rec) cutoff) t)"

text \<open>\<open>newest_first\<close> is \<open>ORDER BY recorded_at DESC\<close>.\<close>

definition PurgeAlertsByCount ::
  "bool \<Rightarrow> ((nat \<times> AlertRecord) list \<Rightarrow> (nat \<times> AlertRecord) list) \<Rightarrow> int \<Rightarrow> AlertsTable \<Rightarrow> nat \<times> AlertsTable" where
  "PurgeAlertsByCount ok newest_first max_records t =
     (if max_records \<le> 0 then (0, t)
      else delete_rows ok (\<lambda>(i, _). i \<notin> fst ` set (take (nat max_records) (newest_first (at_rows t)))) t)"

section \<open>Time stamps\<close>

text \<open>\<open>NowString\<close> (\<open>%Y%m%d-%H:%M:%S\<close>) and the text form of SQLite's \<open>datetime\<close>, from the fields of
  the calendar.\<close>

record Calendar =
  c_year :: nat
  c_month :: nat
  c_day :: nat
  c_hour :: nat
  c_minute :: nat
  c_second :: nat

definition two_digits :: "nat \<Rightarrow> string" where
  "two_digits n = [digit_char (n div 10 mod 10), digit_char (n mod 10)]"

definition four_digits :: "nat \<Rightarrow> string" where
  "four_digits n = two_digits (n div 100) @ two_digits (n mod 100)"

definition time_of_day :: "Calendar \<Rightarrow> string" where
  "time_of_day c = two_digits (c_hour c) @ '':'' @ two_digits (c_minute c) @ '':'' @ two_digits (c_second c)"

definition NowString :: "Calendar \<Rightarrow> string" where
  "NowString c = four_digits (c_year c) @ two_digits (c_month c) @ two_digits (c_day c) @ ''-'' @ time_of_day c"

definition sql_datetime :: "Calendar \<Rightarrow> string" where
  "sql_datetime c = four_digits (c_year c) @ ''-'' @ two_digits (c_month c) @ ''-'' @ two_digits (c_day c) @ '' '' @ time_of_day c"

definition NowIso :: "Calendar \<Rightarrow> string" where
  "NowIso c = four_digits (c_year c) @ ''-'' @ two_digits (c_month c) @ ''-'' @ two_digits (c_day c) @ ''T'' @ time_of_day c"

text \<open>\<open>NormalizeTimestamp\<close> of \<open>src/src/common/commonfun.cpp\<close>.\<close>

definition substr :: "string \<Rightarrow> nat \<Rightarrow> nat \<Rightarrow> string" where
  "substr s pos n = take n (drop pos s)"

definition NormalizeTimestamp :: "string \<Rightarrow> string" where
  "NormalizeTimestamp s =
     (if length s \<ge> 19 \<and> s ! 4 = CHR ''-'' \<and> s ! 7 = CHR ''-'' then s
      else if length s \<ge> 17 \<and> s ! 8 = CHR ''-'' then
        substr s 0 4 @ ''-'' @ substr s 4 2 @ ''-'' @ substr s 6 2 @ '' '' @ substr s 9 2 @ '':'' @ substr s 12 2 @ '':'' @
        substr s 15 2
      else s)"

section \<open>What the statements achieve\<close>

definition table_ok :: "AlertsTable \<Rightarrow> bool" where
  "table_ok t \<longleftrightarrow> distinct (map fst (at_rows t)) \<and> (\<forall>r \<in> set (at_rows t). fst r < at_next_id t)"

lemma table_ok_empty: "table_ok empty_alerts"
  by (simp add: table_ok_def empty_alerts_def)

lemma table_ok_save: "table_ok t \<Longrightarrow> table_ok (SaveAlert ok rec t)"
  by (auto simp: table_ok_def SaveAlert_def)

lemma table_ok_delete: "table_ok t \<Longrightarrow> delete_rows ok P t = (n, t') \<Longrightarrow> table_ok t'"
  by (force simp: table_ok_def delete_rows_def distinct_map_filter split: if_splits)

lemma delete_rows_count: "delete_rows ok P t = (n, t') \<Longrightarrow> n + length (at_rows t') = length (at_rows t)"
  by (auto simp: delete_rows_def sum_length_filter_compl split: if_splits)

lemma purges_ok:
  assumes "table_ok t"
  shows "PurgeAlertsByAge ok d cutoff t = (n, t') \<Longrightarrow> table_ok t'"
    and "PurgeAlertsByCount ok nf k t = (n, t') \<Longrightarrow> table_ok t'"
  using assms table_ok_delete by (auto simp: PurgeAlertsByAge_def PurgeAlertsByCount_def split: if_splits)

lemma purges_count:
  "PurgeAlertsByAge ok d cutoff t = (n, t') \<Longrightarrow> n + length (at_rows t') = length (at_rows t)"
  "PurgeAlertsByCount ok nf k t = (n, t') \<Longrightarrow> n + length (at_rows t') = length (at_rows t)"
  using delete_rows_count by (fastforce simp: PurgeAlertsByAge_def PurgeAlertsByCount_def split: if_splits)+

text \<open>A query without a condition returns all rows, in some order.\<close>

definition returns_rows :: "((nat \<times> AlertRecord) list \<Rightarrow> (nat \<times> AlertRecord) list) \<Rightarrow> bool" where
  "returns_rows nf \<longleftrightarrow> (\<forall>rows. set (nf rows) = set rows \<and> length (nf rows) = length rows)"

lemma purge_by_count_rows:
  assumes "table_ok t" and "returns_rows nf" and "0 < k" and "PurgeAlertsByCount True nf k t = (n, t')"
  shows "set (at_rows t') = set (take (nat k) (nf (at_rows t))) \<and> length (at_rows t') = min (nat k) (length (at_rows t))"
proof -
  let ?rows = "at_rows t" and ?kept = "take (nat k) (nf (at_rows t))"
  have nf: "set (nf ?rows) = set ?rows" "length (nf ?rows) = length ?rows"
    using assms(2) by (auto simp: returns_rows_def)
  have sub: "set ?kept \<subseteq> set ?rows" using nf set_take_subset by fastforce
  have rows': "at_rows t' = filter (\<lambda>r. fst r \<in> fst ` set ?kept) ?rows"
    using assms(3,4) by (auto simp: PurgeAlertsByCount_def delete_rows_def split_beta intro!: filter_cong)
  have inj: "inj_on fst (set ?rows)" using assms(1) by (simp add: table_ok_def distinct_map)
  have "r \<in> set ?kept" if "r \<in> set ?rows" "fst r \<in> fst ` set ?kept" for r
  proof -
    from that(2) obtain r' where "r' \<in> set ?kept" "fst r' = fst r" by auto
    with sub inj that(1) have "r' = r" by (meson inj_onD subsetD)
    with \<open>r' \<in> set ?kept\<close> show ?thesis by simp
  qed
  then have set: "set (at_rows t') = set ?kept" unfolding rows' using sub by auto
  have "distinct ?rows" using assms(1) by (auto simp: table_ok_def distinct_map)
  then have "distinct (nf ?rows)" using nf by (metis card_distinct distinct_card)
  then have "card (set ?kept) = length ?kept" by (intro distinct_card distinct_take)
  moreover have "card (set (at_rows t')) = length (at_rows t')"
    unfolding rows' using \<open>distinct ?rows\<close> by (intro distinct_card distinct_filter)
  ultimately show ?thesis using set nf by simp
qed

text \<open>Comparing a compact time stamp with SQLite's form is comparing the years.\<close>

lemma text_less_append: "length a = length b \<Longrightarrow> text_less (a @ s) (b @ t) \<longleftrightarrow> text_less a b \<or> (a = b \<and> text_less s t)"
  by (induction a b rule: list_induct2) auto

lemma digit_char_eq: "a < 10 \<Longrightarrow> b < 10 \<Longrightarrow> digit_char a = digit_char b \<longleftrightarrow> a = b"
  by (metis digit_val_char)

lemma text_less_digit: "a < 10 \<Longrightarrow> b < 10 \<Longrightarrow>
    text_less (digit_char a # s) (digit_char b # t) \<longleftrightarrow> a < b \<or> (a = b \<and> text_less s t)"
  by (simp add: char_code_digit digit_char_eq)

lemma div_mod_less: "m < n \<longleftrightarrow> m div d < n div d \<or> (m div d = n div d \<and> m mod d < n mod d)" for m n d :: nat
proof (cases "m div d" "n div d" rule: linorder_cases)
  case less
  then have "\<not> n \<le> m" using div_le_mono leD by blast
  with less show ?thesis by simp
next
  case equal
  have "m < n \<longleftrightarrow> d * (m div d) + m mod d < d * (n div d) + n mod d" by simp
  with equal show ?thesis by (simp only: nat_add_left_cancel_less less_irrefl simp_thms)
next
  case greater
  then have "\<not> m \<le> n" using div_le_mono leD by blast
  with greater show ?thesis by simp
qed

lemma div_mod_eq: "m = n \<longleftrightarrow> m div d = n div d \<and> m mod d = n mod d" for m n d :: nat
  by (metis mult_div_mod_eq)

lemma two_digits_less:
  assumes "m < 100" and "n < 100"
  shows "text_less (two_digits m @ s) (two_digits n @ t) \<longleftrightarrow> m < n \<or> (m = n \<and> text_less s t)"
proof -
  have "m div 10 < 10" "n div 10 < 10" using assms by simp_all
  then have "text_less (two_digits m @ s) (two_digits n @ t) \<longleftrightarrow> m div 10 < n div 10 \<or> (m div 10 = n div 10 \<and>
      (m mod 10 < n mod 10 \<or> (m mod 10 = n mod 10 \<and> text_less s t)))"
    by (simp only: two_digits_def append.simps mod_less text_less_digit mod_less_divisor zero_less_numeral)
  also have "\<dots> \<longleftrightarrow> m < n \<or> (m = n \<and> text_less s t)"
    unfolding div_mod_less [of m n 10] div_mod_eq [of m n 10] by blast
  finally show ?thesis .
qed

lemma four_digits_less:
  assumes "m < 10000" and "n < 10000"
  shows "text_less (four_digits m @ s) (four_digits n @ t) \<longleftrightarrow> m < n \<or> (m = n \<and> text_less s t)"
proof -
  have "m div 100 < 100" "n div 100 < 100" "m mod 100 < 100" "n mod 100 < 100" using assms by simp_all
  then have "text_less (four_digits m @ s) (four_digits n @ t) \<longleftrightarrow> m div 100 < n div 100 \<or> (m div 100 = n div 100 \<and>
      (m mod 100 < n mod 100 \<or> (m mod 100 = n mod 100 \<and> text_less s t)))"
    by (simp only: four_digits_def append_assoc two_digits_less)
  also have "\<dots> \<longleftrightarrow> m < n \<or> (m = n \<and> text_less s t)"
    unfolding div_mod_less [of m n 100] div_mod_eq [of m n 100] by blast
  finally show ?thesis .
qed

definition calendar_ok :: "Calendar \<Rightarrow> bool" where
  "calendar_ok c \<longleftrightarrow> c_year c < 10000 \<and> c_month c < 100 \<and> c_day c < 100 \<and> c_hour c < 100 \<and> c_minute c < 100 \<and> c_second c < 100"

lemma compact_before_sql:
  assumes "calendar_ok c" and "calendar_ok d"
  shows "text_less (NowString c) (sql_datetime d) \<longleftrightarrow> c_year c < c_year d"
proof -
  have "char_code (CHR ''-'') = 45" by (simp add: char_code_def)
  moreover have "digit_char (n mod 10) \<noteq> CHR ''-''" for n
    using char_code_digit [of "n mod 10"] by (auto simp: char_code_def)
  ultimately have "\<not> text_less (two_digits (c_month c) @ s) (''-'' @ t)" for s t
    by (simp add: two_digits_def char_code_digit)
  with assms show ?thesis by (simp add: NowString_def sql_datetime_def four_digits_less calendar_ok_def)
qed

text \<open>Among themselves the compact time stamps are ordered by time.\<close>

definition before :: "Calendar \<Rightarrow> Calendar \<Rightarrow> bool" where
  "before c d \<longleftrightarrow> c_year c < c_year d \<or> (c_year c = c_year d \<and> (c_month c < c_month d \<or> (c_month c = c_month d \<and>
     (c_day c < c_day d \<or> (c_day c = c_day d \<and> (c_hour c < c_hour d \<or> (c_hour c = c_hour d \<and>
     (c_minute c < c_minute d \<or> (c_minute c = c_minute d \<and> c_second c < c_second d)))))))))"

lemma compact_order:
  assumes "calendar_ok c" and "calendar_ok d"
  shows "text_less (NowString c) (NowString d) \<longleftrightarrow> before c d"
proof -
  have "text_less (two_digits (c_second c)) (two_digits (c_second d)) \<longleftrightarrow> c_second c < c_second d"
    using two_digits_less [of "c_second c" "c_second d" "[]" "[]"] assms by (simp add: calendar_ok_def)
  with assms show ?thesis
    by (simp add: NowString_def time_of_day_def four_digits_less two_digits_less calendar_ok_def before_def)
qed

lemma normalize_compact: "m1 \<noteq> CHR ''-'' \<Longrightarrow>
    NormalizeTimestamp [y1, y2, y3, y4, m1, m2, d1, d2, CHR ''-'', h1, h2, CHR '':'', i1, i2, CHR '':'', s1, s2] =
    [y1, y2, y3, y4, CHR ''-'', m1, m2, CHR ''-'', d1, d2, CHR '' '', h1, h2, CHR '':'', i1, i2, CHR '':'', s1, s2]"
  by (simp add: NormalizeTimestamp_def substr_def)

lemma normalize_now: "NormalizeTimestamp (NowString c) = sql_datetime c"
proof -
  have "digit_char (n mod 10) \<noteq> CHR ''-''" for n
    using char_code_digit [of "n mod 10"] by (auto simp: char_code_def)
  then show ?thesis
    by (simp only: NowString_def sql_datetime_def four_digits_def two_digits_def time_of_day_def append.simps)
      (rule normalize_compact)
qed

text \<open>
  The age limit of the alerts only ever deletes alerts of earlier calendar years than the
  cutoff's, whatever the number of days: the stored compact time stamp is compared with SQLite's
  form, which differs at the fifth character.
\<close>

theorem age_purge_compares_years:
  assumes "0 < days" and "calendar_ok cutoff"
    and "\<forall>(i, rec) \<in> set (at_rows t). ar_recorded_at rec = NowString (cal rec) \<and> calendar_ok (cal rec)"
  shows "at_rows (snd (PurgeAlertsByAge True days (sql_datetime cutoff) t)) =
    filter (\<lambda>(i, rec). c_year cutoff \<le> c_year (cal rec)) (at_rows t)"
  using assms compact_before_sql
  by (auto simp: PurgeAlertsByAge_def delete_rows_def not_less intro!: filter_cong)

definition new_year :: Calendar where
  "new_year = \<lparr>c_year = 2026, c_month = 1, c_day = 1, c_hour = 0, c_minute = 0, c_second = 0\<rparr>"

definition christmas :: Calendar where
  "christmas = \<lparr>c_year = 2026, c_month = 12, c_day = 25, c_hour = 0, c_minute = 0, c_second = 0\<rparr>"

definition alert_at :: "Calendar \<Rightarrow> AlertRecord" where
  "alert_at c = \<lparr>ar_rule_id = ''r'', ar_rule_name = [], ar_severity = ''high'', ar_file_path = ''/etc/passwd'', ar_event_type = ''write'',
     ar_process_name = [], ar_pid = 1, ar_user_name = [], ar_uid = [], ar_expected = [], ar_actual = [], ar_action_taken = ''alert'',
     ar_dingtalk_sent = False, ar_recorded_at = NowString c, ar_exe = [], ar_container_id = [], ar_ancestors = [], ar_attack = []\<rparr>"

lemma age_purge_compares_years_witness:
  "at_rows (snd (PurgeAlertsByAge True 30 (sql_datetime christmas) (SaveAlert True (alert_at new_year) empty_alerts))) =
    [(1, alert_at new_year)]"
  using age_purge_compares_years [of 30 christmas "SaveAlert True (alert_at new_year) empty_alerts" "\<lambda>_. new_year"]
  by (simp add: calendar_ok_def christmas_def new_year_def SaveAlert_def empty_alerts_def alert_at_def)

end
