(* ===== verification/Alert_Manager.thy ===== *)
theory Alert_Manager
  imports Notify Alerts_Store
begin

text \<open>
  The entry point of all alerts (\<open>src/src/alerts/alert_manager.cpp\<close>): throttling per rule, the
  message for the chat webhook, the alerts table with its retention, and the hand-over to the
  dispatcher. The HMAC and the Base64 encoding are functions of the model's caller, the
  answer of the webhook and of the database are arguments, and every reading of a clock is an
  argument of the operation that makes it.
\<close>

section \<open>Signed URLs\<close>

definition upper_hex :: "nat \<Rightarrow> char" where
  "upper_hex n = (if n < 10 then digit_char n else char_of (55 + n))"

definition url_safe :: "char \<Rightarrow> bool" where
  "url_safe c \<longleftrightarrow> c_isalnum c \<or> c = CHR ''-'' \<or> c = CHR ''_'' \<or> c = CHR ''.'' \<or> c = CHR ''~''"

definition UrlEncode :: "string \<Rightarrow> string" where
  "UrlEncode value =
     concat (map (\<lambda>c. if url_safe c then [c]
                      else [CHR ''%'', upper_hex (char_code c div 16), upper_hex (char_code c mod 16)]) value)"

text \<open>\<open>hmac key text\<close> is \<open>None\<close> when the library fails.\<close>

definition BuildSignedUrl ::
  "(string \<Rightarrow> string \<Rightarrow> string option) \<Rightarrow> (string \<Rightarrow> string) \<Rightarrow> int \<Rightarrow> string \<Rightarrow> string \<Rightarrow> string" where
  "BuildSignedUrl hmac base64 now_ms url secret =
     (if secret = [] then url
      else (let timestamp = dec_of_int now_ms;
                to_sign = timestamp @ [CHR 0x0A] @ secret
            in case hmac secret to_sign of
                 None \<Rightarrow> url
               | Some digest \<Rightarrow> url @ ''&timestamp='' @ timestamp @ ''&sign='' @ UrlEncode (base64 digest)))"

section \<open>State\<close>

record AlertManager =
  am_dingtalk_url :: string
  am_dingtalk_secret :: string
  am_throttle_seconds :: int
  am_retention_days :: int
  am_retention_max_records :: int
  am_db :: "AlertsTable option"
  am_last_alert_time :: "string \<rightharpoonup> int"
  am_throttled_total :: nat
  am_throttled_by_rule :: "string \<rightharpoonup> nat"
  am_insert_count :: nat
  am_dispatcher :: NotifyDispatcher

definition new_manager :: AlertManager where
  "new_manager = \<lparr>am_dingtalk_url = [], am_dingtalk_secret = [], am_throttle_seconds = 300, am_retention_days = 30,
     am_retention_max_records = 10000, am_db = None, am_last_alert_time = Map.empty, am_throttled_total = 0,
     am_throttled_by_rule = Map.empty, am_insert_count = 0, am_dispatcher = new_dispatcher\<rparr>"

record AlertConfig =
  ac_dingtalk_webhook :: string
  ac_dingtalk_secret :: string
  ac_throttle_seconds :: int

record DbConfig =
  dc_retention_days :: int
  dc_retention_max_records :: int

definition LoadConfig :: "AlertConfig \<Rightarrow> DbConfig \<Rightarrow> AlertManager \<Rightarrow> AlertManager" where
  "LoadConfig alert_cfg db_cfg m = m\<lparr>am_dingtalk_url := ac_dingtalk_webhook alert_cfg,
     am_dingtalk_secret := ac_dingtalk_secret alert_cfg, am_throttle_seconds := ac_throttle_seconds alert_cfg,
     am_retention_days := dc_retention_days db_cfg, am_retention_max_records := dc_retention_max_records db_cfg\<rparr>"

definition SetDB :: "AlertsTable option \<Rightarrow> AlertManager \<Rightarrow> AlertManager" where
  "SetDB db m = m\<lparr>am_db := db\<rparr>"

definition UpdateNotifyConfig :: "NotifyConfig \<Rightarrow> int \<Rightarrow> AlertManager \<Rightarrow> AlertManager" where
  "UpdateNotifyConfig cfg now m = m\<lparr>am_dispatcher := UpdateConfig cfg now (am_dispatcher m)\<rparr>"

definition IsEnabled :: "AlertManager \<Rightarrow> bool" where
  "IsEnabled m \<longleftrightarrow> am_dingtalk_url m \<noteq> []"

section \<open>Throttling\<close>

text \<open>\<open>duration_cast\<close> to seconds truncates towards zero.\<close>

definition whole_seconds :: "int \<Rightarrow> int" where
  "whole_seconds ns = (if ns < 0 then - ((- ns) div 1000000000) else ns div 1000000000)"

definition IsThrottled :: "string \<Rightarrow> int \<Rightarrow> AlertManager \<Rightarrow> bool \<times> AlertManager" where
  "IsThrottled rule_id now m =
     (if am_throttle_seconds m \<le> 0 then (False, m)
      else case am_last_alert_time m rule_id of
             None \<Rightarrow> (False, m\<lparr>am_last_alert_time := (am_last_alert_time m)(rule_id \<mapsto> now)\<rparr>)
           | Some t \<Rightarrow>
               (if whole_seconds (now - t) \<ge> am_throttle_seconds m
                then (False, m\<lparr>am_last_alert_time := (am_last_alert_time m)(rule_id \<mapsto> now)\<rparr>)
                else (True, m)))"

definition ThrottledNow :: "string \<Rightarrow> int \<Rightarrow> AlertManager \<Rightarrow> bool" where
  "ThrottledNow rule_id now m \<longleftrightarrow>
     (if am_throttle_seconds m \<le> 0 then False
      else case am_last_alert_time m rule_id of
             None \<Rightarrow> False
           | Some t \<Rightarrow> whole_seconds (now - t) < am_throttle_seconds m)"

definition ThrottledCount :: "string \<Rightarrow> AlertManager \<Rightarrow> nat" where
  "ThrottledCount rule_id m = (case am_throttled_by_rule m rule_id of None \<Rightarrow> 0 | Some n \<Rightarrow> n)"

definition NoteThrottled :: "string \<Rightarrow> AlertManager \<Rightarrow> AlertManager" where
  "NoteThrottled rule_id m = m\<lparr>am_throttled_total := am_throttled_total m + 1,
     am_throttled_by_rule := (am_throttled_by_rule m)(rule_id \<mapsto> ThrottledCount rule_id m + 1)\<rparr>"

section \<open>Retention and the table\<close>

text \<open>What the database answers: whether statements are carried out, the order of equal times,
  and the text of the age cutoff.\<close>

record Database =
  db_ok :: bool
  db_newest_first :: "(nat \<times> AlertRecord) list \<Rightarrow> (nat \<times> AlertRecord) list"
  db_cutoff :: "int \<Rightarrow> string"

definition RunRetention :: "Database \<Rightarrow> AlertManager \<Rightarrow> nat \<times> AlertManager" where
  "RunRetention db m =
     (case am_db m of
        None \<Rightarrow> (0, m)
      | Some t \<Rightarrow>
          (let (n1, t1) = (if am_retention_days m > 0
                           then PurgeAlertsByAge (db_ok db) (am_retention_days m) (db_cutoff db (am_retention_days m)) t
                           else (0, t));
               (n2, t2) = (if am_retention_max_records m > 0
                           then PurgeAlertsByCount (db_ok db) (db_newest_first db) (am_retention_max_records m) t1
                           else (0, t1))
           in (n1 + n2, m\<lparr>am_db := Some t2\<rparr>)))"

definition alert_record :: "AlertEvent \<Rightarrow> bool \<Rightarrow> string \<Rightarrow> AlertRecord" where
  "alert_record e dingtalk_sent now_string =
     \<lparr>ar_rule_id = ae_rule_id e, ar_rule_name = ae_rule_name e, ar_severity = ae_severity e, ar_file_path = ae_file_path e,
      ar_event_type = (if ae_event_type e = [] then ''unknown'' else ae_event_type e),
      ar_process_name = ae_process_name e, ar_pid = ae_pid e, ar_user_name = ae_user_name e, ar_uid = ae_uid e,
      ar_expected = ae_expected e, ar_actual = ae_actual e,
      ar_action_taken = (if ae_action_taken e = [] then ''alert'' else ae_action_taken e),
      ar_dingtalk_sent = dingtalk_sent,
      ar_recorded_at = (if ae_timestamp e = [] then now_string else ae_timestamp e),
      ar_exe = ae_exe e, ar_container_id = ae_container_id e, ar_ancestors = ae_ancestors e, ar_attack = ae_attack e\<rparr>"

text \<open>The product with the double 1.2 is above an integer exactly when five times the integer is above
  six times the limit.\<close>

definition SaveAlertToDB :: "Database \<Rightarrow> string \<Rightarrow> AlertEvent \<Rightarrow> bool \<Rightarrow> AlertManager \<Rightarrow> AlertManager" where
  "SaveAlertToDB db now_string e dingtalk_sent m =
     (case am_db m of
        None \<Rightarrow> m
      | Some t \<Rightarrow>
          (let m1 = m\<lparr>am_db := Some (SaveAlert (db_ok db) (alert_record e dingtalk_sent now_string) t),
                      am_insert_count := am_insert_count m + 1\<rparr>
           in if am_insert_count m1 \<ge> 1000 then
                (let m2 = m1\<lparr>am_insert_count := 0\<rparr>;
                     current = (case am_db m2 of None \<Rightarrow> 0 | Some t \<Rightarrow> int (GetAlertCount t))
                 in if am_retention_max_records m2 > 0 \<and> 5 * current > 6 * am_retention_max_records m2
                    then snd (RunRetention db m2) else m2)
              else m1))"

section \<open>Sending\<close>

text \<open>Literals in UTF-8, as their bytes.\<close>

definition utf8_bytes :: "nat list \<Rightarrow> string" where "utf8_bytes bs = map char_of bs"

definition nl2 :: string where "nl2 = [CHR 0x0A, CHR 0x0A]"

definition md_title :: string where
  "md_title = '' **'' @ utf8_bytes [0xE5, 0x9F, 0xBA, 0xE7, 0xBA, 0xBF, 0xE8, 0xBF, 0x9D, 0xE8, 0xA7, 0x84, 0xE5, 0x91, 0x8A, 0xE8, 0xAD, 0xA6] @ ''**''"
definition md_rule_id :: string where
  "md_rule_id = ''**'' @ utf8_bytes [0xE8, 0xA7, 0x84, 0xE5, 0x88, 0x99] @ ''ID**: ''"
definition md_rule_name :: string where
  "md_rule_name = ''**'' @ utf8_bytes [0xE8, 0xA7, 0x84, 0xE5, 0x88, 0x99, 0xE5, 0x90, 0x8D, 0xE7, 0xA7, 0xB0] @ ''**: ''"
definition md_severity :: string where
  "md_severity = ''**'' @ utf8_bytes [0xE4, 0xB8, 0xA5, 0xE9, 0x87, 0x8D, 0xE7, 0xBA, 0xA7, 0xE5, 0x88, 0xAB] @ ''**: ''"
definition md_file_path :: string where
  "md_file_path = ''**'' @ utf8_bytes [0xE6, 0x96, 0x87, 0xE4, 0xBB, 0xB6, 0xE8, 0xB7, 0xAF, 0xE5, 0xBE, 0x84] @ ''**: `''"
definition md_expected :: string where
  "md_expected = ''**'' @ utf8_bytes [0xE9, 0xA2, 0x84, 0xE6, 0x9C, 0x9F, 0xE5, 0x80, 0xBC] @ ''**: `''"
definition md_actual :: string where
  "md_actual = ''**'' @ utf8_bytes [0xE5, 0xAE, 0x9E, 0xE9, 0x99, 0x85, 0xE5, 0x80, 0xBC] @ ''**: `''"
definition md_process :: string where
  "md_process = ''**'' @ utf8_bytes [0xE8, 0xBF, 0x9B, 0xE7, 0xA8, 0x8B] @ ''**: ''"
definition md_exe :: string where
  "md_exe = ''**'' @ utf8_bytes [0xE8, 0xBF, 0x9B, 0xE7, 0xA8, 0x8B, 0xE8, 0xB7, 0xAF, 0xE5, 0xBE, 0x84] @ ''**: `''"
definition md_container :: string where
  "md_container = ''**'' @ utf8_bytes [0xE5, 0xAE, 0xB9, 0xE5, 0x99, 0xA8] @ ''**: `''"
definition md_event_type :: string where
  "md_event_type = ''**'' @ utf8_bytes [0xE4, 0xBA, 0x8B, 0xE4, 0xBB, 0xB6, 0xE7, 0xB1, 0xBB, 0xE5, 0x9E, 0x8B] @ ''**: ''"
definition md_time :: string where
  "md_time = ''**'' @ utf8_bytes [0xE6, 0x97, 0xB6, 0xE9, 0x97, 0xB4] @ ''**: ''"
definition md_footer :: string where
  "md_footer = ''> baseline-guard '' @ utf8_bytes [0xE8, 0x87, 0xAA, 0xE5, 0x8A, 0xA8, 0xE6, 0xA3, 0x80, 0xE6, 0xB5, 0x8B]"

text \<open>The body of the chat message; its emoji is the empty string for every level.\<close>

definition dingtalk_text :: "AlertEvent \<Rightarrow> string" where
  "dingtalk_text e =
     md_title @ nl2 @
     md_rule_id @ ae_rule_id e @ nl2 @
     md_rule_name @ ae_rule_name e @ nl2 @
     md_severity @ ae_severity e @ nl2 @
     md_file_path @ ae_file_path e @ ''`'' @ nl2 @
     md_expected @ ae_expected e @ ''`'' @ nl2 @
     md_actual @ ae_actual e @ ''`'' @ nl2 @
     (if ae_process_name e \<noteq> [] then md_process @ ae_process_name e @ '' (pid='' @ dec_of_int (ae_pid e) @ '')'' @ nl2 else []) @
     (if ae_exe e \<noteq> [] then md_exe @ ae_exe e @ ''`'' @ nl2 else []) @
     (if ae_container_id e \<noteq> [] then md_container @ ae_container_id e @ ''`'' @ nl2 else []) @
     (if ae_event_type e \<noteq> [] then md_event_type @ ae_event_type e @ nl2 else []) @
     md_time @ ae_timestamp e @ nl2 @ md_footer"

text \<open>What the world answers to one call: the clocks, the webhook, the database and the two library
  functions.\<close>

record World =
  w_now :: int
  w_dispatch_now :: int
  w_now_ms :: int
  w_now_string :: string
  w_post :: "string \<Rightarrow> string \<Rightarrow> bool"
  w_hmac :: "string \<Rightarrow> string \<Rightarrow> string option"
  w_base64 :: "string \<Rightarrow> string"
  w_db :: Database

definition SendDingTalk :: "World \<Rightarrow> AlertEvent \<Rightarrow> AlertManager \<Rightarrow> bool \<times> AlertManager" where
  "SendDingTalk w e m =
     (case IsThrottled (ae_rule_id e) (w_now w) m of
        (True, m1) \<Rightarrow> (False, NoteThrottled (ae_rule_id e) m1)
      | (False, m1) \<Rightarrow>
          (let sent = (IsEnabled m1 \<and>
                 w_post w (BuildSignedUrl (w_hmac w) (w_base64 w) (w_now_ms w) (am_dingtalk_url m1) (am_dingtalk_secret m1))
                   (dingtalk_text e));
               m2 = SaveAlertToDB (w_db w) (w_now_string w) e sent m1
           in (sent, m2\<lparr>am_dispatcher := Dispatch e (w_dispatch_now w) (am_dispatcher m2)\<rparr>)))"

end
