(* ===== verification/Notify_Correct.thy ===== *)
theory Notify_Correct
  imports Notify
begin

text \<open>
  What the dispatcher of alerts guarantees in every run: each alert and each digest is accounted for
  once, the worker never sleeps past the end of a window or beside a filled queue, and it uses a null
  channel only after the URL was cleared.
\<close>

section \<open>Tallies over runs\<close>

primrec tally :: "('o \<Rightarrow> 's \<Rightarrow> nat) \<Rightarrow> ('o \<Rightarrow> 's \<Rightarrow> 's) \<Rightarrow> 'o list \<Rightarrow> 's \<Rightarrow> nat" where
  "tally f step [] st = 0"
| "tally f step (op # ops) st = f op st + tally f step ops (step op st)"

lemma tally_balance:
  fixes inv :: "'s \<Rightarrow> bool" and total debt :: "'s \<Rightarrow> nat"
  assumes "\<And>op st. inv st \<Longrightarrow> inv (step op st)"
    and "\<And>op st. inv st \<Longrightarrow> total (step op st) + debt st = total st + debt (step op st) + f op st"
    and "inv st"
  shows "total (fold step ops st) + debt st = total st + debt (fold step ops st) + tally f step ops st"
  using assms(3)
proof (induction ops arbitrary: st)
  case (Cons op ops)
  have "inv (step op st)" using assms(1) Cons.prems .
  from Cons.IH [OF this] assms(2) [OF Cons.prems, of op] show ?case by simp
qed simp

section \<open>Windows and digests\<close>

definition digests :: "(AggWindow \<Rightarrow> bool) \<Rightarrow> (string \<times> AggWindow) list \<Rightarrow> AlertEvent list" where
  "digests P ws = map digest_of (filter (\<lambda>w. aw_pending w \<noteq> 0) (filter P (map snd ws)))"

definition pendings :: "(string \<times> AggWindow) list \<Rightarrow> nat" where
  "pendings ws = sum_list (map (aw_pending \<circ> snd) ws)"

definition enqueue_all :: "AlertEvent list \<Rightarrow> int \<Rightarrow> NotifyDispatcher \<Rightarrow> NotifyDispatcher" where
  "enqueue_all evts now st = fold (\<lambda>evt. EnqueueWithSilence evt now) evts st"

lemma enqueue_all_simps [simp]: "enqueue_all [] now st = st"
  "enqueue_all (evt # evts) now st = enqueue_all evts now (EnqueueWithSilence evt now st)"
  by (simp_all add: enqueue_all_def)

lemma notify_worker_frame [frame_simps]:
  "nd_cfg (notify_worker st) = nd_cfg st" "nd_notifier (notify_worker st) = nd_notifier st"
  "nd_last_sent (notify_worker st) = nd_last_sent st" "nd_agg_windows (notify_worker st) = nd_agg_windows st"
  "nd_queue (notify_worker st) = nd_queue st" "nd_stop (notify_worker st) = nd_stop st"
  "nd_sent (notify_worker st) = nd_sent st" "nd_failed (notify_worker st) = nd_failed st"
  "nd_suppressed (notify_worker st) = nd_suppressed st" "nd_dropped (notify_worker st) = nd_dropped st"
  "nd_merged (notify_worker st) = nd_merged st"
  by (simp_all add: notify_worker_def split: Worker.split)

lemma enqueue_frame [frame_simps]:
  "nd_cfg (EnqueueWithSilence evt now st) = nd_cfg st" "nd_notifier (EnqueueWithSilence evt now st) = nd_notifier st"
  "nd_agg_windows (EnqueueWithSilence evt now st) = nd_agg_windows st"
  "nd_stop (EnqueueWithSilence evt now st) = nd_stop st" "nd_merged (EnqueueWithSilence evt now st) = nd_merged st"
  "nd_sent (EnqueueWithSilence evt now st) = nd_sent st" "nd_failed (EnqueueWithSilence evt now st) = nd_failed st"
  by (simp_all add: EnqueueWithSilence_def occupy_def Let_def frame_simps)

lemma enqueue_agg: "EnqueueWithSilence evt now (st\<lparr>nd_agg_windows := a\<rparr>) =
    (EnqueueWithSilence evt now st)\<lparr>nd_agg_windows := a\<rparr>"
  by (auto simp: EnqueueWithSilence_def occupy_def silenced_def notify_worker_def Let_def split: Worker.split option.split)

lemma enqueue_all_agg: "enqueue_all evts now (st\<lparr>nd_agg_windows := a\<rparr>) = (enqueue_all evts now st)\<lparr>nd_agg_windows := a\<rparr>"
  by (induction evts arbitrary: st) (simp_all add: enqueue_agg)

lemma enqueue_all_frame [frame_simps]:
  "nd_cfg (enqueue_all evts now st) = nd_cfg st" "nd_notifier (enqueue_all evts now st) = nd_notifier st"
  "nd_agg_windows (enqueue_all evts now st) = nd_agg_windows st"
  "nd_stop (enqueue_all evts now st) = nd_stop st" "nd_merged (enqueue_all evts now st) = nd_merged st"
  "nd_sent (enqueue_all evts now st) = nd_sent st" "nd_failed (enqueue_all evts now st) = nd_failed st"
  by (induction evts arbitrary: st) (simp_all add: frame_simps)

lemma enqueue_polling: "nd_worker st = Polling \<Longrightarrow> nd_worker (EnqueueWithSilence evt now st) = Polling"
  by (simp add: EnqueueWithSilence_def occupy_def notify_worker_def Let_def)

lemma enqueue_all_polling: "nd_worker st = Polling \<Longrightarrow> nd_worker (enqueue_all evts now st) = Polling"
  by (induction evts arbitrary: st) (simp_all add: enqueue_polling)

lemma flush_loop_deletes: "flush_loop P now ws st =
    (enqueue_all (digests P ws) now st)\<lparr>nd_agg_windows := fold AList.delete (map fst (filter (P \<circ> snd) ws)) (nd_agg_windows st)\<rparr>"
proof (induction ws arbitrary: st)
  case Nil
  then show ?case by (simp add: digests_def)
next
  case (Cons kw ws)
  then show ?case
    by (cases kw) (auto simp: FlushAggWindowLocked_def digests_def enqueue_all_agg enqueue_agg frame_simps)
qed

lemma fold_delete_filter: "fold AList.delete ks xs = filter (\<lambda>(k, _). k \<notin> set ks) xs"
proof (induction ks arbitrary: xs)
  case (Cons k ks)
  then show ?case by (auto simp: AList.delete_eq filter_filter intro!: filter_cong)
qed simp

lemma delete_filtered:
  assumes "distinct (map fst xs)"
  shows "fold AList.delete (map fst (filter (P \<circ> snd) xs)) xs = filter (\<lambda>(_, w). \<not> P w) xs"
proof -
  have "k \<in> set (map fst (filter (P \<circ> snd) xs)) \<longleftrightarrow> P w" if "(k, w) \<in> set xs" for k w
  proof
    assume "k \<in> set (map fst (filter (P \<circ> snd) xs))"
    then obtain v where "(k, v) \<in> set xs" "P v" by auto
    with eq_key_imp_eq_value [OF assms that] show "P w" by simp
  next
    assume "P w"
    with that show "k \<in> set (map fst (filter (P \<circ> snd) xs))" by force
  qed
  then show ?thesis
    by (simp only: fold_delete_filter) (auto intro!: filter_cong)
qed

lemma flush_loop_all:
  assumes "distinct (map fst (nd_agg_windows st))"
  shows "flush_loop P now (nd_agg_windows st) st =
    (enqueue_all (digests P (nd_agg_windows st)) now st)\<lparr>nd_agg_windows := filter (\<lambda>(_, w). \<not> P w) (nd_agg_windows st)\<rparr>"
  by (simp add: flush_loop_deletes delete_filtered [OF assms])

lemma pendings_split: "pendings ws = pendings (filter (\<lambda>(_, w). \<not> P w) ws) + sum_list (map (nat \<circ> ae_occurrences) (digests P ws))"
proof (induction ws)
  case (Cons kw ws)
  then show ?case by (cases kw) (auto simp: pendings_def digests_def digest_of_def)
qed (simp add: pendings_def digests_def)

section \<open>Accounting\<close>

definition in_flight :: "Worker \<Rightarrow> nat" where
  "in_flight w = (case w of Sending _ _ \<Rightarrow> 1 | Crashed \<Rightarrow> 1 | _ \<Rightarrow> 0)"

definition handled :: "NotifyDispatcher \<Rightarrow> nat" where
  "handled st = nd_sent st + nd_failed st + nd_suppressed st + nd_dropped st + length (nd_queue st) + in_flight (nd_worker st)"

lemma handled_frame [simp]: "handled (st\<lparr>nd_agg_windows := a\<rparr>) = handled st"
  "handled (st\<lparr>nd_cfg := c\<rparr>) = handled st" "handled (st\<lparr>nd_notifier := n\<rparr>) = handled st"
  "handled (st\<lparr>nd_stop := b\<rparr>) = handled st" "handled (st\<lparr>nd_merged := m\<rparr>) = handled st"
  by (simp_all add: handled_def)

lemma handled_notify [simp]: "handled (notify_worker st) = handled st"
  by (simp add: handled_def notify_worker_def in_flight_def split: Worker.split)

lemma handled_enqueue: "handled (EnqueueWithSilence evt now st) = handled st + 1"
  by (auto simp: EnqueueWithSilence_def occupy_def Let_def) (simp_all add: handled_def)

lemma handled_enqueue_all: "handled (enqueue_all evts now st) = handled st + length evts"
  by (induction evts arbitrary: st) (simp_all add: handled_enqueue)


definition expired :: "int \<Rightarrow> NotifyDispatcher \<Rightarrow> AggWindow \<Rightarrow> bool" where
  "expired now st w \<longleftrightarrow>
     \<not> SilenceWindowActive (aw_win_start w) now (nc_aggregation_window_minutes (nd_cfg st) * 60)"

text \<open>The digests a step hands to the queue, whether it hands over the alert, and the merged alerts
  that are forgotten when the window map is cleared.\<close>

definition aggregating :: "AlertEvent \<Rightarrow> NotifyDispatcher \<Rightarrow> bool" where
  "aggregating evt st \<longleftrightarrow> routed evt st \<and> nc_aggregation_window_minutes (nd_cfg st) > 0"

fun step_digests :: "NotifyOp \<Rightarrow> NotifyDispatcher \<Rightarrow> AlertEvent list" where
  "step_digests (Configure cfg now) st =
     (if nc_aggregation_window_minutes (nd_cfg st) > 0 \<and> nc_aggregation_window_minutes cfg \<le> 0
      then digests (\<lambda>_. True) (nd_agg_windows st) else [])"
| "step_digests (Alert evt now) st =
     (if aggregating evt st \<and> window_action evt now st = kFlushAndSend
      then digests (\<lambda>_. True) (filter (\<lambda>(k, _). k = alert_key evt) (nd_agg_windows st)) else [])"
| "step_digests (Poll now) st =
     (if nd_worker st = Polling \<and> nc_aggregation_window_minutes (nd_cfg st) > 0
      then digests (expired now st) (nd_agg_windows st) else [])"
| "step_digests _ st = []"

fun step_routed :: "NotifyOp \<Rightarrow> NotifyDispatcher \<Rightarrow> nat" where
  "step_routed (Alert evt now) st = (if routed evt st then 1 else 0)"
| "step_routed _ st = 0"

fun step_lost :: "NotifyOp \<Rightarrow> NotifyDispatcher \<Rightarrow> nat" where
  "step_lost (Alert evt now) st =
     (let rest = AList.delete (alert_key evt) (nd_agg_windows st)
      in if aggregating evt st \<and> window_action evt now st \<noteq> kMerge \<and> length rest \<ge> kMaxKeys then pendings rest else 0)"
| "step_lost _ st = 0"

definition occurrences :: "AlertEvent list \<Rightarrow> nat" where
  "occurrences evts = sum_list (map (nat \<circ> ae_occurrences) evts)"

lemma occurrences_Nil [simp]: "occurrences [] = 0"
  by (simp add: occurrences_def)

definition windows_ok :: "NotifyDispatcher \<Rightarrow> bool" where
  "windows_ok st \<longleftrightarrow> distinct (map fst (nd_agg_windows st))"

subsection \<open>The steps\<close>

lemma window_action_cases: "window_action evt now st =
    (case map_of (nd_agg_windows st) (alert_key evt) of
       None \<Rightarrow> kOpenAndSend
     | Some w \<Rightarrow> (if expired now st w then kFlushAndSend else kMerge))"
  by (simp add: window_action_def AggregationAction_def expired_def split: option.split)

lemma length_delete_update: "length (AList.update k v xs) = (if k \<in> fst ` set xs then length xs else length xs + 1)"
  by (induction xs) auto

lemma update_fresh: "k \<notin> fst ` set xs \<Longrightarrow> AList.update k v xs = xs @ [(k, v)]"
  by (induction xs) auto

lemma open_window_agg: "k \<notin> fst ` set (nd_agg_windows st) \<Longrightarrow> nd_agg_windows (open_window k now st) =
    (if length (nd_agg_windows st) \<ge> kMaxKeys then [(k, new_window now)] else nd_agg_windows st @ [(k, new_window now)])"
  by (simp add: open_window_def Let_def length_delete_update update_fresh)

lemma Dispatch_not_routed: "\<not> routed evt st \<Longrightarrow> Dispatch evt now st = st"
  by (simp add: Dispatch_def)

lemma Dispatch_plain: "routed evt st \<Longrightarrow> \<not> aggregating evt st \<Longrightarrow> Dispatch evt now st = EnqueueWithSilence evt now st"
  by (auto simp: Dispatch_def aggregating_def)

lemma Dispatch_merge: "aggregating evt st \<Longrightarrow> map_of (nd_agg_windows st) (alert_key evt) = Some w \<Longrightarrow> \<not> expired now st w \<Longrightarrow>
    Dispatch evt now st = st\<lparr>nd_agg_windows := AList.update (alert_key evt) (merge_window evt w) (nd_agg_windows st),
      nd_merged := nd_merged st + 1\<rparr>"
  by (simp add: Dispatch_def aggregating_def window_action_cases Let_def)

lemma Dispatch_open: "aggregating evt st \<Longrightarrow> map_of (nd_agg_windows st) (alert_key evt) = None \<Longrightarrow>
    Dispatch evt now st = EnqueueWithSilence evt now (notify_worker (open_window (alert_key evt) now st))"
  by (simp add: Dispatch_def aggregating_def window_action_cases Let_def)

lemma Dispatch_flush: "aggregating evt st \<Longrightarrow> map_of (nd_agg_windows st) (alert_key evt) = Some w \<Longrightarrow> expired now st w \<Longrightarrow>
    Dispatch evt now st = EnqueueWithSilence evt now (notify_worker (open_window (alert_key evt) now
      ((FlushAggWindowLocked w now st)\<lparr>nd_agg_windows := AList.delete (alert_key evt) (nd_agg_windows st)\<rparr>)))"
  by (simp add: Dispatch_def aggregating_def window_action_cases Let_def)

lemmas Dispatch_simps = Dispatch_not_routed Dispatch_plain Dispatch_merge Dispatch_open Dispatch_flush

lemma Dispatch_cases [case_names not_routed plain merge opened flush]:
  assumes "\<not> routed evt st \<Longrightarrow> R" and "routed evt st \<Longrightarrow> \<not> aggregating evt st \<Longrightarrow> R"
    and "\<And>w. aggregating evt st \<Longrightarrow> map_of (nd_agg_windows st) (alert_key evt) = Some w \<Longrightarrow> \<not> expired now st w \<Longrightarrow> R"
    and "aggregating evt st \<Longrightarrow> map_of (nd_agg_windows st) (alert_key evt) = None \<Longrightarrow> R"
    and "\<And>w. aggregating evt st \<Longrightarrow> map_of (nd_agg_windows st) (alert_key evt) = Some w \<Longrightarrow> expired now st w \<Longrightarrow> R"
  shows R
  using assms by (metis not_None_eq)

lemma aggregating_routed: "aggregating evt st \<Longrightarrow> routed evt st"
  by (simp add: aggregating_def)

lemma not_routed: "\<not> routed evt st \<Longrightarrow> \<not> aggregating evt st"
  by (simp add: aggregating_def)

lemma open_window_frame [frame_simps]:
  "nd_cfg (open_window k now st) = nd_cfg st" "nd_last_sent (open_window k now st) = nd_last_sent st"
  "nd_queue (open_window k now st) = nd_queue st" "nd_worker (open_window k now st) = nd_worker st"
  "nd_merged (open_window k now st) = nd_merged st" "nd_stop (open_window k now st) = nd_stop st"
  "nd_notifier (open_window k now st) = nd_notifier st"
  by (simp_all add: open_window_def Let_def)

lemma handled_open [simp]: "handled (open_window k now st) = handled st"
  by (simp add: open_window_def Let_def)

lemma key_filter: "distinct (map fst xs) \<Longrightarrow> map_of xs k = Some v \<Longrightarrow> filter (\<lambda>(k', _). k' = k) xs = [(k, v)]"
proof (induction xs)
  case (Cons x xs)
  then show ?case by (cases x) (auto simp: filter_empty_conv image_iff split: if_splits)
qed simp

lemma flush_window: "FlushAggWindowLocked w now st = enqueue_all (digests (\<lambda>_. True) [(k, w)]) now st"
  by (simp add: FlushAggWindowLocked_def digests_def)

lemma update_distinct [simp]: "distinct (map fst (AList.update k v xs)) \<longleftrightarrow> distinct (map fst xs)"
  by (induction xs) (auto simp: dom_update)

lemma delete_fresh: "k \<notin> fst ` set (AList.delete k xs)"
  by (auto simp: AList.delete_eq)


lemma delete_unused: "k \<notin> fst ` set xs \<Longrightarrow> AList.delete k xs = xs"
  by (force simp: AList.delete_eq filter_id_conv)

lemma FlushExpired_eq: "windows_ok st \<Longrightarrow> FlushExpiredAggLocked now st =
    (if nc_aggregation_window_minutes (nd_cfg st) \<le> 0 then st
     else (enqueue_all (digests (expired now st) (nd_agg_windows st)) now st)
       \<lparr>nd_agg_windows := filter (\<lambda>(_, w). \<not> expired now st w) (nd_agg_windows st)\<rparr>)"
  by (simp add: FlushExpiredAggLocked_def windows_ok_def flush_loop_all expired_def [abs_def])

lemma windows_ok_step: "windows_ok st \<Longrightarrow> windows_ok (notify_step op st)"
proof (cases op)
  case (Alert evt now)
  assume ok: "windows_ok st"
  show ?thesis
  proof (cases rule: Dispatch_cases [where evt = evt and st = st and now = now])
    case opened
    then have "alert_key evt \<notin> fst ` set (nd_agg_windows st)" by (simp add: map_of_eq_None_iff)
    with ok opened Alert show ?thesis
      by (simp add: windows_ok_def Dispatch_open frame_simps open_window_agg)
  next
    case (flush w)
    with ok Alert delete_fresh [of "alert_key evt" "nd_agg_windows st"] show ?thesis
      by (simp add: windows_ok_def Dispatch_flush frame_simps open_window_agg distinct_delete)
  qed (use ok Alert in \<open>simp_all add: windows_ok_def Dispatch_simps frame_simps\<close>)
next
  case (Configure cfg now)
  assume "windows_ok st"
  with Configure show ?thesis
    by (simp add: windows_ok_def UpdateConfig_def Let_def frame_simps flush_loop_deletes fold_delete_filter distinct_map_filter)
next
  case (Poll now)
  assume "windows_ok st"
  with Poll show ?thesis
    by (simp add: windows_ok_def worker_poll_def FlushExpiredAggLocked_def Let_def frame_simps flush_loop_deletes fold_delete_filter
      distinct_map_filter split: list.split)
next
  case (Rehash ws)
  assume ok: "windows_ok st"
  have "distinct (map fst ws)" if "mset ws = mset (nd_agg_windows st)"
    using that ok mset_eq_imp_distinct_iff [of "map fst ws" "map fst (nd_agg_windows st)"] by (simp add: windows_ok_def)
  with ok Rehash show ?thesis by (simp add: windows_ok_def)
qed (simp_all add: windows_ok_def frame_simps worker_send_def request_stop_def split: Worker.split option.split)

lemma handled_step:
  assumes "windows_ok st"
  shows "handled (notify_step op st) + nd_merged (notify_step op st) =
    handled st + nd_merged st + (step_routed op st + length (step_digests op st))"
proof (cases op)
  case (Alert evt now)
  show ?thesis
  proof (cases rule: Dispatch_cases [where evt = evt and st = st and now = now])
    case (flush w)
    have "filter (\<lambda>(k, _). k = alert_key evt) (nd_agg_windows st) = [(alert_key evt, w)]"
      by (rule key_filter) (use flush(2) assms in \<open>simp_all add: windows_ok_def\<close>)
    with flush Alert show ?thesis
      by (simp add: Dispatch_flush aggregating_routed window_action_cases handled_enqueue flush_window [where k = "alert_key evt"]
        handled_enqueue_all frame_simps)
  qed (use Alert in \<open>simp_all add: Dispatch_simps aggregating_routed not_routed window_action_cases handled_enqueue frame_simps\<close>)
next
  case (Configure cfg now)
  have "windows_ok (st\<lparr>nd_cfg := cfg\<rparr>)" "windows_ok (st\<lparr>nd_cfg := cfg, nd_notifier := n\<rparr>)" for n
    using assms by (simp_all add: windows_ok_def)
  then show ?thesis using Configure
    by (simp add: windows_ok_def UpdateConfig_def Let_def frame_simps flush_loop_all handled_enqueue_all)
next
  case (Poll now)
  show ?thesis
  proof (cases "nd_worker st = Polling")
    case True
    let ?st = "FlushExpiredAggLocked now st"
    have st: "handled ?st = handled st + length (step_digests op st)" "nd_merged ?st = nd_merged st"
      using assms True Poll by (simp_all add: FlushExpired_eq handled_enqueue_all frame_simps)
    have "in_flight (nd_worker ?st) = 0"
      using assms True by (simp add: FlushExpired_eq enqueue_all_polling in_flight_def)
    then have "handled (worker_poll now st) = handled ?st" "nd_merged (worker_poll now st) = nd_merged ?st"
      by (simp_all add: worker_poll_def Let_def handled_def in_flight_def split: list.split)
    with st Poll True show ?thesis by simp
  qed (use Poll in simp)
next
  case (Send outcome)
  then show ?thesis
    by (simp add: worker_send_def handled_def in_flight_def split: Worker.split option.split)
qed (simp_all add: request_stop_def frame_simps)


lemma occurrences_split: "pendings ws = pendings (filter (\<lambda>(_, w). \<not> P w) ws) + occurrences (digests P ws)"
  unfolding occurrences_def by (rule pendings_split)

lemma pendings_simps [simp]: "pendings [] = 0" "pendings (kw # ws) = aw_pending (snd kw) + pendings ws"
  "pendings (xs @ ys) = pendings xs + pendings ys"
  by (simp_all add: pendings_def)

lemma pendings_delete:
  "distinct (map fst xs) \<Longrightarrow> map_of xs k = Some w \<Longrightarrow> pendings xs = pendings (AList.delete k xs) + aw_pending w"
proof (induction xs)
  case (Cons x xs)
  show ?case
  proof (cases "fst x = k")
    case True
    with Cons.prems have "k \<notin> set (map fst xs)" by auto
    then have "AList.delete k xs = xs" by (simp add: delete_unused)
    with True Cons.prems show ?thesis by (cases x) simp
  next
    case False
    with Cons show ?thesis by (cases x) simp
  qed
qed simp

lemma pendings_update: "distinct (map fst xs) \<Longrightarrow> map_of xs k = Some w \<Longrightarrow>
    pendings (AList.update k v xs) + aw_pending w = pendings xs + aw_pending v"
  by (induction xs) (auto split: if_splits)

lemma pendings_perm: "mset xs = mset ys \<Longrightarrow> pendings xs = pendings ys"
  unfolding pendings_def by (metis mset_map sum_mset_sum_list)

lemma merged_step:
  assumes "windows_ok st"
  shows "nd_merged (notify_step op st) + pendings (nd_agg_windows st) =
    nd_merged st + pendings (nd_agg_windows (notify_step op st)) + (occurrences (step_digests op st) + step_lost op st)"
proof (cases op)
  case (Alert evt now)
  show ?thesis
  proof (cases rule: Dispatch_cases [where evt = evt and st = st and now = now])
    case (merge w)
    with pendings_update [of "nd_agg_windows st" "alert_key evt" w "merge_window evt w"] assms Alert show ?thesis
      by (simp add: Dispatch_merge window_action_cases windows_ok_def merge_window_def)
  next
    case opened
    then have fresh: "alert_key evt \<notin> fst ` set (nd_agg_windows st)" by (simp add: map_of_eq_None_iff)
    then have "AList.delete (alert_key evt) (nd_agg_windows st) = nd_agg_windows st" by (simp add: delete_unused)
    with opened fresh Alert show ?thesis
      by (simp add: Dispatch_open window_action_cases frame_simps open_window_agg new_window_def)
  next
    case (flush w)
    let ?rest = "AList.delete (alert_key evt) (nd_agg_windows st)"
    have all: "filter (\<lambda>(k, _). k = alert_key evt) (nd_agg_windows st) = [(alert_key evt, w)]"
      by (rule key_filter) (use flush(2) assms in \<open>simp_all add: windows_ok_def\<close>)
    have "pendings (nd_agg_windows st) = pendings ?rest + aw_pending w"
      using pendings_delete flush(2) assms by (simp add: windows_ok_def)
    moreover have "occurrences (digests (\<lambda>_. True) [(alert_key evt, w)]) = aw_pending w"
      using occurrences_split [of "[(alert_key evt, w)]" "\<lambda>_. True"] by simp
    ultimately show ?thesis using flush all Alert delete_fresh [of "alert_key evt" "nd_agg_windows st"]
      by (simp add: Dispatch_flush window_action_cases frame_simps open_window_agg flush_window [where k = "alert_key evt"]
        new_window_def Let_def)
  qed (use Alert in \<open>simp_all add: Dispatch_simps frame_simps aggregating_def Let_def\<close>)
next
  case (Configure cfg now)
  with assms occurrences_split [of "nd_agg_windows st" "\<lambda>_. True"] show ?thesis
    by (simp add: windows_ok_def UpdateConfig_def Let_def frame_simps flush_loop_all)
next
  case (Poll now)
  have "nd_merged (worker_poll now st) = nd_merged st"
    "nd_agg_windows (worker_poll now st) = nd_agg_windows (FlushExpiredAggLocked now st)"
    using assms by (simp_all add: worker_poll_def Let_def FlushExpired_eq frame_simps split: list.split)
  with assms Poll occurrences_split [of "nd_agg_windows st" "expired now st"] show ?thesis
    by (auto simp: FlushExpired_eq frame_simps)
next
  case (Rehash ws)
  then show ?thesis using pendings_perm [of ws "nd_agg_windows st"] by (simp add:)
qed (simp_all add: request_stop_def worker_send_def frame_simps split: Worker.split option.split)

lemma new_dispatcher_ok: "windows_ok new_dispatcher"
  by (simp add: windows_ok_def new_dispatcher_def)

text \<open>
  C26. Every alert that is enabled and passes the level routing, and every digest of merged alerts, is
  accounted for exactly once, in every run of configuration changes, alerts, worker rounds, send
  results and reorderings of the hash map: it is sent, failed, suppressed by the silence window,
  dropped because the queue is full, merged into a window, still queued, or in the hands of the
  worker. The merged alerts are the occurrences of the digests, those pending in open windows, and
  those forgotten when the window map is cleared at 4096 keys.
\<close>

theorem notifications_accounted:
  "let st = notify_run ops new_dispatcher;
       total = (\<lambda>f. tally f notify_step ops new_dispatcher)
   in nd_sent st + nd_failed st + nd_suppressed st + nd_dropped st + nd_merged st + length (nd_queue st) + in_flight (nd_worker st) =
        total step_routed + total (\<lambda>op st. length (step_digests op st)) \<and>
      nd_merged st = pendings (nd_agg_windows st) + total (\<lambda>op st. occurrences (step_digests op st)) + total step_lost"
proof -
  have split: "tally (\<lambda>op st. f op st + g op st) step ops st = tally f step ops st + tally g step ops st"
    for f g :: "NotifyOp \<Rightarrow> NotifyDispatcher \<Rightarrow> nat" and step st
    by (induction ops arbitrary: st) simp_all
  have new: "handled new_dispatcher = 0" "nd_merged new_dispatcher = 0" "nd_agg_windows new_dispatcher = []"
    by (simp_all add: new_dispatcher_def handled_def in_flight_def)
  have "handled (notify_run ops new_dispatcher) + nd_merged (notify_run ops new_dispatcher) =
      tally (\<lambda>op st. step_routed op st + length (step_digests op st)) notify_step ops new_dispatcher"
    using tally_balance [where inv = windows_ok and step = notify_step and debt = "\<lambda>_. 0" and
        total = "\<lambda>st. handled st + nd_merged st", OF windows_ok_step _ new_dispatcher_ok, of _ ops]
    by (simp add: handled_step new notify_run_def)
  moreover have "nd_merged (notify_run ops new_dispatcher) = pendings (nd_agg_windows (notify_run ops new_dispatcher)) +
      tally (\<lambda>op st. occurrences (step_digests op st) + step_lost op st) notify_step ops new_dispatcher"
    using tally_balance [where inv = windows_ok and step = notify_step and debt = "\<lambda>st. pendings (nd_agg_windows st)" and
        total = nd_merged, OF windows_ok_step merged_step new_dispatcher_ok, of ops]
    by (simp add: new notify_run_def)
  ultimately show ?thesis by (simp add: split handled_def Let_def)
qed

section \<open>Wake-ups\<close>

definition window_end :: "NotifyDispatcher \<Rightarrow> AggWindow \<Rightarrow> int" where
  "window_end st w = aw_win_start w + secs (nc_aggregation_window_minutes (nd_cfg st) * 60)"

definition wakes_for :: "int option \<Rightarrow> NotifyDispatcher \<Rightarrow> bool" where
  "wakes_for d st \<longleftrightarrow> list_all (\<lambda>(_, w). case d of None \<Rightarrow> False | Some u \<Rightarrow> u \<le> window_end st w) (nd_agg_windows st)"

definition sleeps_well :: "NotifyDispatcher \<Rightarrow> bool" where
  "sleeps_well st \<longleftrightarrow>
     (case nd_worker st of
        Waiting d \<Rightarrow> nd_queue st = [] \<and> \<not> nd_stop st \<and>
          (nc_aggregation_window_minutes (nd_cfg st) \<le> 0 \<or> wakes_for d st)
      | _ \<Rightarrow> True)"

definition deadline_fold :: "int \<Rightarrow> int option \<Rightarrow> (string \<times> AggWindow) list \<Rightarrow> int option" where
  "deadline_fold len d ws = foldl (\<lambda>d (_, w). earlier d (aw_win_start w + len)) d ws"

lemma deadline_fold_le:
  "(\<forall>u. d = Some u \<longrightarrow> (\<exists>v. deadline_fold len d ws = Some v \<and> v \<le> u)) \<and>
   (\<forall>(k, w) \<in> set ws. \<exists>v. deadline_fold len d ws = Some v \<and> v \<le> aw_win_start w + len)"
proof (induction ws arbitrary: d)
  case Nil
  then show ?case by (simp add: deadline_fold_def)
next
  case (Cons x ws)
  obtain k w where x: "x = (k, w)" by (cases x)
  let ?d = "earlier d (aw_win_start w + len)"
  obtain v0 where v0: "?d = Some v0" "v0 \<le> aw_win_start w + len" "\<forall>u. d = Some u \<longrightarrow> v0 \<le> u"
    by (cases d) (auto simp: earlier_def)
  have step: "deadline_fold len d (x # ws) = deadline_fold len ?d ws" by (simp add: deadline_fold_def x)
  from Cons [of ?d] v0 obtain v where v: "deadline_fold len ?d ws = Some v" "v \<le> v0"
    "\<forall>(k, w) \<in> set ws. v \<le> aw_win_start w + len" by fastforce
  with v0 step show ?case by (fastforce simp: x)
qed

lemma deadline_wakes: "nc_aggregation_window_minutes (nd_cfg st) > 0 \<Longrightarrow> wakes_for (NextAggFlushDeadlineLocked st) st"
proof -
  assume on: "nc_aggregation_window_minutes (nd_cfg st) > 0"
  let ?len = "secs (nc_aggregation_window_minutes (nd_cfg st) * 60)"
  show ?thesis
  proof (cases "nd_agg_windows st = []")
    case True
    then show ?thesis by (simp add: wakes_for_def)
  next
    case False
    with on have "NextAggFlushDeadlineLocked st = deadline_fold ?len None (nd_agg_windows st)"
      by (simp add: NextAggFlushDeadlineLocked_def deadline_fold_def)
    with deadline_fold_le [of None ?len "nd_agg_windows st"] show ?thesis
      by (fastforce simp: wakes_for_def window_end_def list_all_iff)
  qed
qed

lemma notify_not_waiting: "nd_worker (notify_worker st) \<noteq> Waiting d"
  by (simp add: notify_worker_def split: Worker.split)

lemma enqueue_waiting: "nd_worker (EnqueueWithSilence evt now st) = Waiting d \<Longrightarrow>
    nd_worker st = Waiting d \<and> nd_queue (EnqueueWithSilence evt now st) = nd_queue st"
  by (auto simp: EnqueueWithSilence_def notify_not_waiting split: if_splits)

lemma wakes_enqueue: "wakes_for d (EnqueueWithSilence evt now st) \<longleftrightarrow> wakes_for d st"
proof -
  have "window_end (EnqueueWithSilence evt now st) = window_end st"
    by (rule ext) (simp add: window_end_def frame_simps)
  then show ?thesis by (cases d) (simp_all add: wakes_for_def frame_simps)
qed

lemma wakes_worker: "wakes_for d (st\<lparr>nd_worker := w\<rparr>) \<longleftrightarrow> wakes_for d st"
  by (cases d) (simp_all add: wakes_for_def window_end_def)

lemma sleeps_not_waiting: "(\<And>d. nd_worker st \<noteq> Waiting d) \<Longrightarrow> sleeps_well st"
  by (simp add: sleeps_well_def split: Worker.split)

lemma map_of_update_start: "map_of ws k = Some w0 \<Longrightarrow> (k', w) \<in> set (AList.update k (merge_window evt w0) ws) \<Longrightarrow>
    \<exists>(k2, w2) \<in> set ws. aw_win_start w2 = aw_win_start w"
proof (induction ws)
  case (Cons x ws)
  then show ?case by (cases x) (auto simp: merge_window_def split: if_splits)
qed simp

lemma sleeps_step: "sleeps_well st \<Longrightarrow> sleeps_well (notify_step op st)"
proof (cases op)
  case (Alert evt now)
  assume ok: "sleeps_well st"
  have enq: "sleeps_well (EnqueueWithSilence evt now s)" if "sleeps_well s" for s
    using that enqueue_waiting [of evt now s]
    by (fastforce simp: sleeps_well_def wakes_enqueue frame_simps split: Worker.split)
  show ?thesis
  proof (cases rule: Dispatch_cases [where evt = evt and st = st and now = now])
    case (merge w)
    have "wakes_for d (Dispatch evt now st)" if "wakes_for d st" for d
    proof -
      from that merge(2) obtain u where u: "d = Some u" "\<forall>(k, w) \<in> set (nd_agg_windows st). u \<le> window_end st w"
        by (cases d) (auto simp: wakes_for_def list_all_iff dest: map_of_SomeD)
      have "u \<le> window_end st v" if "(k, v) \<in> set (AList.update (alert_key evt) (merge_window evt w) (nd_agg_windows st))" for k v
        using map_of_update_start [OF merge(2) that] u(2) by (auto simp: window_end_def)
      then have "\<forall>(k, v) \<in> set (AList.update (alert_key evt) (merge_window evt w) (nd_agg_windows st)). u \<le> window_end st v"
        by blast
      with merge u(1) show ?thesis by (simp add: Dispatch_merge wakes_for_def window_end_def list_all_iff)
    qed
    with ok merge Alert show ?thesis by (auto simp: sleeps_well_def Dispatch_merge split: Worker.split)
  qed (use ok enq Alert in \<open>simp_all add: Dispatch_simps sleeps_not_waiting notify_not_waiting\<close>)
next
  case (Poll now)
  assume ok: "sleeps_well st"
  let ?st = "FlushExpiredAggLocked now st"
  have "nc_aggregation_window_minutes (nd_cfg ?st) \<le> 0 \<or> wakes_for (NextAggFlushDeadlineLocked ?st) ?st"
    using deadline_wakes [of ?st] by linarith
  then have "sleeps_well (worker_poll now st)"
    by (simp add: worker_poll_def Let_def sleeps_well_def wakes_worker split: list.split)
  with ok Poll show ?thesis by simp
next
  case (Send outcome)
  assume "sleeps_well st"
  with Send show ?thesis
    by (cases "nd_worker st") (simp_all add: worker_send_def sleeps_well_def split: option.split)
next
  case (Rehash ws)
  assume ok: "sleeps_well st"
  have "wakes_for d (st\<lparr>nd_agg_windows := ws\<rparr>) \<longleftrightarrow> wakes_for d st" if "mset ws = mset (nd_agg_windows st)" for d
    using mset_eq_setD [OF that] by (cases d) (simp_all add: wakes_for_def window_end_def list_all_iff)
  with ok Rehash show ?thesis by (cases "nd_worker st") (simp_all add: sleeps_well_def)
qed (simp_all add: sleeps_not_waiting notify_not_waiting UpdateConfig_def Let_def request_stop_def)

text \<open>
  C27. No wake-up is lost: whenever the worker sleeps, nothing is queued, no stop is requested, and
  its deadline is at or before the end of every open window; and a round of the worker
  leaves no window behind whose time is over, having handed over their digests.
\<close>

theorem worker_wakes_in_time:
  "sleeps_well (notify_run ops new_dispatcher) \<and>
   (let st = notify_run ops new_dispatcher
    in nc_aggregation_window_minutes (nd_cfg st) \<le> 0 \<or>
       list_all (\<lambda>(_, w). SilenceWindowActive (aw_win_start w) now (nc_aggregation_window_minutes (nd_cfg st) * 60))
         (nd_agg_windows (worker_poll now st)))"
proof -
  have "sleeps_well st \<and> windows_ok st \<Longrightarrow> sleeps_well (fold notify_step ops st) \<and> windows_ok (fold notify_step ops st)" for st
    by (induction ops arbitrary: st) (simp_all add: sleeps_step windows_ok_step)
  from this [of new_dispatcher] have run: "sleeps_well (notify_run ops new_dispatcher)" "windows_ok (notify_run ops new_dispatcher)"
    by (simp_all add: notify_run_def new_dispatcher_ok) (simp_all add: sleeps_well_def new_dispatcher_def)
  moreover have "nd_agg_windows (worker_poll now st) = nd_agg_windows (FlushExpiredAggLocked now st)" for st
    by (simp add: worker_poll_def Let_def split: list.split)
  ultimately show ?thesis
    by (simp add: FlushExpired_eq Let_def list_all_iff expired_def)
qed

section \<open>The channel\<close>

fun channel_kept :: "NotifyOp list \<Rightarrow> NotifyDispatcher \<Rightarrow> bool" where
  "channel_kept [] st \<longleftrightarrow> True"
| "channel_kept (op # ops) st \<longleftrightarrow>
     (case op of Configure cfg _ \<Rightarrow> nc_webhook_url cfg \<noteq> [] \<or> nd_notifier st = None | _ \<Rightarrow> True) \<and>
     channel_kept ops (notify_step op st)"

definition channel_of :: "NotifyConfig \<Rightarrow> string option" where
  "channel_of cfg = (if nc_webhook_url cfg = [] then None else Some (nc_webhook_url cfg))"

definition channel_ok :: "NotifyDispatcher \<Rightarrow> bool" where
  "channel_ok st \<longleftrightarrow> nd_notifier st = channel_of (nd_cfg st) \<and>
     (nd_notifier st = None \<longrightarrow> nd_queue st = [] \<and> nd_agg_windows st = []) \<and>
     nd_worker st \<noteq> Crashed \<and> (\<forall>evt. nd_worker st \<noteq> Sending evt None)"


lemma channel_enqueue: "channel_ok st \<Longrightarrow> nd_notifier st \<noteq> None \<Longrightarrow> channel_ok (EnqueueWithSilence evt now st)"
  by (auto simp: channel_ok_def EnqueueWithSilence_def occupy_def notify_worker_def Let_def split: Worker.split)

lemma channel_enqueue_all: "channel_ok st \<Longrightarrow> nd_notifier st \<noteq> None \<Longrightarrow> channel_ok (enqueue_all evts now st)"
  by (induction evts arbitrary: st) (simp_all add: channel_enqueue frame_simps)

lemma channel_windows: "channel_ok st \<Longrightarrow> nd_notifier st \<noteq> None \<Longrightarrow> channel_ok (st\<lparr>nd_agg_windows := ws\<rparr>)"
  by (auto simp: channel_ok_def)

lemma channel_notify: "channel_ok (notify_worker st) \<longleftrightarrow> channel_ok st"
  by (simp add: channel_ok_def notify_worker_def split: Worker.split)

lemma channel_open: "channel_ok st \<Longrightarrow> nd_notifier st \<noteq> None \<Longrightarrow> channel_ok (open_window k now st)"
  by (simp add: open_window_def Let_def channel_windows)

lemma channel_flush:
  assumes "channel_ok st"
  shows "channel_ok (flush_loop P now (nd_agg_windows st) st)"
proof (cases "nd_notifier st = None")
  case True
  with assms have "nd_agg_windows st = []" by (simp add: channel_ok_def)
  with assms show ?thesis by simp
next
  case False
  with assms show ?thesis by (simp add: flush_loop_deletes channel_windows channel_enqueue_all frame_simps)
qed

lemma channel_step:
  assumes "channel_ok st" and "case op of Configure cfg _ \<Rightarrow> nc_webhook_url cfg \<noteq> [] \<or> nd_notifier st = None | _ \<Rightarrow> True"
  shows "channel_ok (notify_step op st)"
proof (cases op)
  case (Alert evt now)
  have on: "aggregating evt st \<Longrightarrow> nd_notifier st \<noteq> None" "routed evt st \<Longrightarrow> nd_notifier st \<noteq> None"
    by (simp_all add: aggregating_def routed_def)
  show ?thesis
  proof (cases rule: Dispatch_cases [where evt = evt and st = st and now = now])
    case (merge w)
    with on assms Alert show ?thesis by (simp add: Dispatch_merge channel_ok_def)
  next
    case (flush w)
    with on(1) assms(1) Alert show ?thesis
      by (simp add: Dispatch_flush flush_window [where k = "[]"] channel_enqueue channel_notify channel_open channel_windows
        channel_enqueue_all frame_simps)
  qed (use on assms(1) Alert in \<open>simp_all add: Dispatch_simps channel_enqueue channel_notify channel_open frame_simps\<close>)
next
  case (Configure cfg now)
  let ?st = "st\<lparr>nd_cfg := cfg\<rparr>"
  let ?st2 = "if nc_webhook_url cfg \<noteq> nc_webhook_url (nd_cfg st)
    then ?st\<lparr>nd_notifier := (if nc_webhook_url cfg \<noteq> [] then Some (nc_webhook_url cfg) else None)\<rparr> else ?st"
  have "channel_ok ?st2" using assms Configure by (auto simp: channel_ok_def channel_of_def)
  with channel_flush [OF this] Configure show ?thesis by (simp add: UpdateConfig_def Let_def channel_notify)
next
  case (Poll now)
  have "channel_ok (FlushExpiredAggLocked now st)"
    using channel_flush assms(1) by (simp add: FlushExpiredAggLocked_def)
  with Poll assms(1) show ?thesis
    by (cases "channel_of (nd_cfg (FlushExpiredAggLocked now st))")
      (auto simp: worker_poll_def Let_def channel_ok_def split: list.split)
next
  case (Send outcome)
  with assms(1) show ?thesis by (auto simp: worker_send_def channel_ok_def split: Worker.split option.split)
next
  case (Rehash ws)
  with assms(1) show ?thesis by (auto simp: channel_ok_def)
next
  case Stop
  with assms(1) show ?thesis by (simp add: request_stop_def channel_notify) (simp add: channel_ok_def)
qed (use assms(1) in \<open>simp_all add: channel_notify\<close>)

text \<open>
  The worker never sends through a null channel in a run whose configurations do not clear the
  webhook URL once it is set.
\<close>

theorem channel_never_null:
  assumes "channel_kept ops new_dispatcher"
  shows "nd_worker (notify_run ops new_dispatcher) \<noteq> Crashed"
proof -
  have "channel_ok st \<Longrightarrow> channel_kept ops st \<Longrightarrow> channel_ok (fold notify_step ops st)" for st
    by (induction ops arbitrary: st) (auto intro: channel_step)
  from this [of new_dispatcher] assms have "channel_ok (notify_run ops new_dispatcher)"
    by (simp add: notify_run_def) (simp add: channel_ok_def channel_of_def new_dispatcher_def default_notify_config_def)
  then show ?thesis by (simp add: channel_ok_def)
qed

definition url_config :: "string \<Rightarrow> NotifyConfig" where
  "url_config url = \<lparr>nc_enabled = True, nc_webhook_url = url, nc_min_level = ''low'', nc_silence_minutes = 0,
     nc_aggregation_window_minutes = 0\<rparr>"

definition clearing_run :: "string \<Rightarrow> NotifyOp list" where
  "clearing_run url =
     [Configure (url_config ''http://hook'') 0, Alert (empty_alert\<lparr>ae_severity := ''high''\<rparr>) 1, Configure (url_config url) 2,
      Poll 3, Send (\<lambda>_. True)]"

lemmas dispatcher_run_simps = clearing_run_def url_config_def notify_run_def new_dispatcher_def default_notify_config_def
  UpdateConfig_def notify_worker_def Dispatch_def routed_def ShouldRouteByLevel_def SeverityIsValid_def SeverityFromString_def
  SeverityRank_def empty_alert_def EnqueueWithSilence_def kMaxQueue_def worker_poll_def FlushExpiredAggLocked_def
  NextAggFlushDeadlineLocked_def worker_send_def Let_def

lemma channel_never_null_witness: "nd_worker (notify_run (clearing_run ''http://next'') new_dispatcher) \<noteq> Crashed"
  using channel_never_null [of "clearing_run ''http://next''"]
  by (simp add: dispatcher_run_simps)

text \<open>Clearing the URL while an alert is queued makes the worker use a null channel.\<close>

lemma cleared_url_crashes: "nd_worker (notify_run (clearing_run []) new_dispatcher) = Crashed"
  by (simp add: dispatcher_run_simps)

end
