(* ===== verification/Rate_Limit.thy ===== *)
theory Rate_Limit
  imports Prelude
begin

text \<open>
  The contract of a per-key rate limiter, shared by the throttling of alerts and the silence windows
  of the dispatcher: a map from keys to the time of the last admission, and an attempt that is
  limited within a window after it. An implementation may forget other keys on an admission
  unless the keys in use \<open>fits\<close>.
\<close>

datatype Verdict = Admitted | Limited | Unchecked

locale limiter =
  fixes last :: "'s \<Rightarrow> 'k \<Rightarrow> int option"
    and window :: "'s \<Rightarrow> int"
    and key :: "'e \<Rightarrow> 'k"
    and attempt :: "'e \<Rightarrow> int \<Rightarrow> 's \<Rightarrow> Verdict \<times> 's"
    and fits :: "'k set \<Rightarrow> bool"
  assumes window_kept: "attempt e t s = (v, s') \<Longrightarrow> window s' = window s"
    and limited: "attempt e t s = (Limited, s') \<Longrightarrow> \<exists>u. last s (key e) = Some u \<and> t - u < window s"
    and admitted: "attempt e t s = (Admitted, s') \<Longrightarrow> last s (key e) = Some u \<Longrightarrow> window s \<le> t - u"
    and recorded: "attempt e t s = (Admitted, s') \<Longrightarrow> last s' (key e) = Some t"
    and forgets: "attempt e t s = (Admitted, s') \<Longrightarrow> k \<noteq> key e \<Longrightarrow> last s' k = Some u \<Longrightarrow> last s k = Some u"
    and keeps: "attempt e t s = (Admitted, s') \<Longrightarrow> fits (insert (key e) (dom (last s))) \<Longrightarrow> k \<noteq> key e \<Longrightarrow> last s' k = last s k"
    and idle: "attempt e t s = (v, s') \<Longrightarrow> v \<noteq> Admitted \<Longrightarrow> last s' = last s"
    and fits_subset: "fits A \<Longrightarrow> B \<subseteq> A \<Longrightarrow> fits B"
begin

text \<open>The attempts of a run, among steps that leave the limiter alone.\<close>

inductive trace :: "'s \<Rightarrow> ('e \<times> int \<times> Verdict) list \<Rightarrow> 's \<Rightarrow> bool" for s0 where
  start: "trace s0 [] s0"
| attempt: "trace s0 tr s \<Longrightarrow> attempt e t s = (v, s') \<Longrightarrow> trace s0 (tr @ [(e, t, v)]) s'"
| other: "trace s0 tr s \<Longrightarrow> last s' = last s \<Longrightarrow> window s' = window s \<Longrightarrow> trace s0 tr s'"

lemma trace_window: "trace s0 tr s \<Longrightarrow> window s = window s0"
  by (induction rule: trace.induct) (simp_all add: window_kept)

lemma trace_append: "trace s1 tr' s2 \<Longrightarrow> trace s0 tr s1 \<Longrightarrow> trace s0 (tr @ tr') s2"
proof (induction rule: trace.induct)
  case (attempt tr' s e t v s')
  then show ?case using trace.attempt [of s0 "tr @ tr'" s e t v s'] by simp
qed (auto intro: trace.other)

lemma last_admitted:
  assumes "trace s0 tr s" and "last s0 = Map.empty" and "last s k = Some u"
  shows "\<exists>e. (e, u, Admitted) \<in> set tr \<and> key e = k"
  using assms(1,3)
proof (induction arbitrary: k u rule: trace.induct)
  case (attempt tr s e t v s')
  show ?case
  proof (cases "v = Admitted")
    case True
    with attempt recorded forgets show ?thesis by (cases "k = key e") fastforce+
  next
    case False
    with attempt idle show ?thesis by fastforce
  qed
qed (use assms(2) in auto)

text \<open>An attempt is only limited within the window of an earlier admission of its key.\<close>

lemma limited_justified:
  assumes "trace s0 tr s" and "last s0 = Map.empty" and "tr = a @ (e, t, Limited) # b"
  shows "\<exists>e' u. (e', u, Admitted) \<in> set a \<and> key e' = key e \<and> t - u < window s0"
  using assms(1,3)
proof (induction arbitrary: b rule: trace.induct)
  case (attempt tr s e1 t1 v s')
  show ?case
  proof (cases b rule: rev_cases)
    case Nil
    with attempt.prems attempt.hyps(2) have "attempt e t s = (Limited, s')" and tr: "tr = a" by simp_all
    then obtain u where "last s (key e) = Some u" "t - u < window s" using limited by blast
    with last_admitted [OF attempt.hyps(1) assms(2)] trace_window [OF attempt.hyps(1)] tr show ?thesis by fastforce
  next
    case (snoc b' x)
    with attempt.prems have "tr = a @ (e, t, Limited) # b'" by simp
    then show ?thesis by (rule attempt.IH)
  qed
qed auto

lemma latest:
  assumes "trace s0 tr s" and "last s0 = Map.empty" and "fits ((\<lambda>x. key (fst x)) ` set tr)" and "sorted (map (\<lambda>x. fst (snd x)) tr)"
    and "(e, u, Admitted) \<in> set tr"
  shows "\<exists>w. last s (key e) = Some w \<and> u \<le> w"
  using assms(1,3-)
proof (induction arbitrary: e u rule: trace.induct)
  case (attempt tr s e1 t v s')
  have "fits ((\<lambda>x. key (fst x)) ` set tr)" by (rule fits_subset [OF attempt.prems(1)]) auto
  moreover have "sorted (map (\<lambda>x. fst (snd x)) tr)" using attempt.prems(2) by (simp add: sorted_append)
  ultimately have IH: "\<exists>w. last s (key e) = Some w \<and> u \<le> w" if "(e, u, Admitted) \<in> set tr" for e u
    using attempt.IH that by blast
  show ?case
  proof (cases "v = Admitted")
    case True
    have "dom (last s) \<subseteq> (\<lambda>x. key (fst x)) ` set tr"
      using last_admitted [OF attempt.hyps(1) assms(2)] by force
    with attempt.prems(1) have fit: "fits (insert (key e1) (dom (last s)))"
      by (elim fits_subset) auto
    have "u \<le> t" using attempt.prems(2,3) True by (auto simp: sorted_append)
    then show ?thesis
    proof (cases "key e = key e1")
      case False
      with attempt.prems(3) have "(e, u, Admitted) \<in> set tr" by auto
      with IH keeps [OF attempt.hyps(2) [unfolded True] fit False] show ?thesis by simp
    qed (use recorded attempt.hyps(2) True in auto)
  next
    case False
    with attempt.prems(3) have "(e, u, Admitted) \<in> set tr" by auto
    with IH idle [OF attempt.hyps(2) False] show ?thesis by simp
  qed
qed auto

text \<open>If nothing is forgotten, admissions of a key are at least a window apart.\<close>

lemma admitted_spaced:
  assumes "trace s0 tr s" and "last s0 = Map.empty" and "fits ((\<lambda>x. key (fst x)) ` set tr)" and "sorted (map (\<lambda>x. fst (snd x)) tr)"
    and "tr = a @ (e, t, Admitted) # b" and "(e', u, Admitted) \<in> set a" and "key e' = key e"
  shows "window s0 \<le> t - u"
  using assms(1,3-6)
proof (induction arbitrary: b rule: trace.induct)
  case (attempt tr s e1 t1 v s')
  have fit1: "fits ((\<lambda>x. key (fst x)) ` set tr)" by (rule fits_subset [OF attempt.prems(1)]) auto
  have fit2: "sorted (map (\<lambda>x. fst (snd x)) tr)" using attempt.prems(2) by (simp add: sorted_append)
  note fit = fit1 fit2
  show ?case
  proof (cases b rule: rev_cases)
    case Nil
    with attempt.prems attempt.hyps(2) have now: "attempt e t s = (Admitted, s')" and tr: "tr = a" by simp_all
    from latest [OF attempt.hyps(1) assms(2) fit, of e' u] attempt.prems(4) tr assms(7)
    obtain w where "last s (key e) = Some w" "u \<le> w" by auto
    with admitted [OF now] trace_window [OF attempt.hyps(1)] show ?thesis by fastforce
  next
    case (snoc b' x)
    with attempt.prems(3) have "tr = a @ (e, t, Admitted) # b'" by simp
    with attempt.IH fit attempt.prems(4) show ?thesis by blast
  qed
qed auto

end

text \<open>A limiter that never forgets.\<close>

locale exact_limiter =
  fixes last :: "'s \<Rightarrow> 'k \<Rightarrow> int option"
    and window :: "'s \<Rightarrow> int"
    and key :: "'e \<Rightarrow> 'k"
    and attempt :: "'e \<Rightarrow> int \<Rightarrow> 's \<Rightarrow> Verdict \<times> 's"
  assumes exact_window_kept: "attempt e t s = (v, s') \<Longrightarrow> window s' = window s"
    and exact_limited: "attempt e t s = (Limited, s') \<Longrightarrow> \<exists>u. last s (key e) = Some u \<and> t - u < window s"
    and exact_admitted: "attempt e t s = (Admitted, s') \<Longrightarrow> last s (key e) = Some u \<Longrightarrow> window s \<le> t - u"
    and exact_recorded: "attempt e t s = (Admitted, s') \<Longrightarrow> last s' = (last s)(key e \<mapsto> t)"
    and exact_idle: "attempt e t s = (v, s') \<Longrightarrow> v \<noteq> Admitted \<Longrightarrow> last s' = last s"

sublocale exact_limiter \<subseteq> limiter last window key attempt "\<lambda>_. True"
  by unfold_locales (auto simp: exact_window_kept exact_recorded exact_idle exact_limited exact_admitted split: if_splits dest: exact_limited exact_admitted)

end
