(* ===== verification/Alert_Manager_Correct.thy ===== *)
theory Alert_Manager_Correct
  imports Alert_Manager Notify_Correct Rate_Limit
begin

text \<open>
  Throttling is an exact rate limiter per rule, every alert is either delivered or counted as
  throttled, the alerts table stays bounded, and the signature in the URL can be decoded.
\<close>

section \<open>The limiter\<close>

definition throttle_window :: "AlertManager \<Rightarrow> int" where
  "throttle_window m = secs (am_throttle_seconds m)"

definition throttle_attempt :: "string \<Rightarrow> int \<Rightarrow> AlertManager \<Rightarrow> Verdict \<times> AlertManager" where
  "throttle_attempt rule_id now m =
     (if am_throttle_seconds m \<le> 0 then Unchecked else if fst (IsThrottled rule_id now m) then Limited else Admitted,
      snd (IsThrottled rule_id now m))"

lemma whole_seconds_le: "0 < n \<Longrightarrow> n \<le> whole_seconds d \<longleftrightarrow> secs n \<le> d"
proof (cases "d < 0")
  case True
  assume "0 < n"
  have "0 \<le> (- d) div 1000000000" using True by (simp add: pos_imp_zdiv_nonneg_iff)
  with True \<open>0 < n\<close> show ?thesis by (simp add: whole_seconds_def secs_def)
next
  case False
  have "n \<le> d div 1000000000 \<longleftrightarrow> n * 1000000000 \<le> d" by linarith
  with False show ?thesis by (simp add: whole_seconds_def secs_def)
qed

lemma whole_seconds_less: "0 < n \<Longrightarrow> whole_seconds d < n \<longleftrightarrow> d < secs n"
  using whole_seconds_le [of n d] by linarith

interpretation throttle: exact_limiter am_last_alert_time throttle_window "\<lambda>r. r" throttle_attempt
  by unfold_locales
    (auto simp: throttle_attempt_def IsThrottled_def throttle_window_def whole_seconds_le whole_seconds_less not_le
      split: if_splits option.splits)

lemma throttled_now: "ThrottledNow r now m \<longleftrightarrow> fst (IsThrottled r now m)"
  by (auto simp: ThrottledNow_def IsThrottled_def not_le split: option.split)


lemma throttled_frame:
  "IsThrottled r now m = (b, m') \<Longrightarrow> am_throttle_seconds m' = am_throttle_seconds m \<and> am_db m' = am_db m \<and>
     am_insert_count m' = am_insert_count m \<and> am_throttled_total m' = am_throttled_total m \<and>
     am_throttled_by_rule m' = am_throttled_by_rule m \<and> am_retention_max_records m' = am_retention_max_records m"
  by (auto simp: IsThrottled_def split: if_splits option.splits)

lemma throttled_unchanged: "IsThrottled r now m = (True, m') \<Longrightarrow> m' = m"
  by (auto simp: IsThrottled_def split: if_splits option.splits)

section \<open>Runs\<close>

text \<open>Alerts are sent directly or, as the file and rule handlers do, after a look at the throttle
  that skips building the alert.\<close>

definition raise_alert :: "int \<Rightarrow> World \<Rightarrow> AlertEvent \<Rightarrow> AlertManager \<Rightarrow> AlertManager" where
  "raise_alert now w e m =
     (if ThrottledNow (ae_rule_id e) now m then NoteThrottled (ae_rule_id e) m else snd (SendDingTalk w e m))"

datatype AlertOp =
    SendAlert World AlertEvent
  | RaiseAlert int World AlertEvent
  | Retain Database
  | Dispatcher NotifyOp

fun alert_step :: "AlertOp \<Rightarrow> AlertManager \<Rightarrow> AlertManager" where
  "alert_step (SendAlert w e) m = snd (SendDingTalk w e m)"
| "alert_step (RaiseAlert now w e) m = raise_alert now w e m"
| "alert_step (Retain db) m = snd (RunRetention db m)"
| "alert_step (Dispatcher op) m = m\<lparr>am_dispatcher := notify_step op (am_dispatcher m)\<rparr>"

definition started :: "AlertConfig \<Rightarrow> DbConfig \<Rightarrow> AlertManager" where
  "started cfg db_cfg = SetDB (Some empty_alerts) (LoadConfig cfg db_cfg new_manager)"

text \<open>The decisions of a step: rule, time and verdict.\<close>

fun step_decisions :: "AlertOp \<Rightarrow> AlertManager \<Rightarrow> (string \<times> int \<times> Verdict) list" where
  "step_decisions (SendAlert w e) m = [(ae_rule_id e, w_now w, fst (throttle_attempt (ae_rule_id e) (w_now w) m))]"
| "step_decisions (RaiseAlert now w e) m =
     (if ThrottledNow (ae_rule_id e) now m then [(ae_rule_id e, now, Limited)]
      else [(ae_rule_id e, w_now w, fst (throttle_attempt (ae_rule_id e) (w_now w) m))])"
| "step_decisions _ m = []"

fun decisions :: "AlertOp list \<Rightarrow> AlertManager \<Rightarrow> (string \<times> int \<times> Verdict) list" where
  "decisions [] m = []"
| "decisions (op # ops) m = step_decisions op m @ decisions ops (alert_step op m)"

fun op_db :: "AlertOp \<Rightarrow> Database option" where
  "op_db (SendAlert w e) = Some (w_db w)"
| "op_db (RaiseAlert now w e) = Some (w_db w)"
| "op_db (Retain db) = Some db"
| "op_db (Dispatcher op) = None"

section \<open>Accounting\<close>

lemma retention_frame:
  "am_throttle_seconds (snd (RunRetention db m)) = am_throttle_seconds m"
  "am_last_alert_time (snd (RunRetention db m)) = am_last_alert_time m"
  "am_throttled_total (snd (RunRetention db m)) = am_throttled_total m"
  "am_throttled_by_rule (snd (RunRetention db m)) = am_throttled_by_rule m"
  "am_insert_count (snd (RunRetention db m)) = am_insert_count m"
  "am_retention_max_records (snd (RunRetention db m)) = am_retention_max_records m"
  by (simp_all add: RunRetention_def split: option.split prod.split)

lemma save_frame:
  "am_throttle_seconds (SaveAlertToDB db s e b m) = am_throttle_seconds m"
  "am_last_alert_time (SaveAlertToDB db s e b m) = am_last_alert_time m"
  "am_throttled_total (SaveAlertToDB db s e b m) = am_throttled_total m"
  "am_throttled_by_rule (SaveAlertToDB db s e b m) = am_throttled_by_rule m"
  "am_retention_max_records (SaveAlertToDB db s e b m) = am_retention_max_records m"
  by (simp_all add: SaveAlertToDB_def Let_def retention_frame split: option.split)

lemma send_cases:
  assumes "\<And>m'. IsThrottled (ae_rule_id e) (w_now w) m = (True, m) \<Longrightarrow> R"
    and "\<And>m' b. IsThrottled (ae_rule_id e) (w_now w) m = (False, m') \<Longrightarrow>
      snd (SendDingTalk w e m) = (SaveAlertToDB (w_db w) (w_now_string w) e b m')
        \<lparr>am_dispatcher := Dispatch e (w_dispatch_now w) (am_dispatcher (SaveAlertToDB (w_db w) (w_now_string w) e b m'))\<rparr> \<Longrightarrow> R"
  shows R
proof (cases "IsThrottled (ae_rule_id e) (w_now w) m")
  case (Pair b m')
  then show ?thesis
  proof (cases b)
    case True
    with Pair throttled_unchanged [of "ae_rule_id e" "w_now w" m m'] have "m' = m" by simp
    with Pair True assms(1) show ?thesis by simp
  next
    case False
    with Pair assms(2) show ?thesis by (simp add: SendDingTalk_def Let_def)
  qed
qed

lemma send_throttled: "IsThrottled (ae_rule_id e) (w_now w) m = (True, m) \<Longrightarrow>
    SendDingTalk w e m = (False, NoteThrottled (ae_rule_id e) m)"
  by (simp add: SendDingTalk_def)


definition held :: "string \<times> int \<times> Verdict \<Rightarrow> bool" where
  "held d \<longleftrightarrow> snd (snd d) = Limited"

lemma held_simp [simp]: "held (r, t, v) \<longleftrightarrow> v = Limited"
  by (simp add: held_def)

lemma note_total [simp]: "am_throttled_total (NoteThrottled r m) = am_throttled_total m + 1"
  "ThrottledCount r' (NoteThrottled r m) = ThrottledCount r' m + (if r' = r then 1 else 0)"
  by (simp_all add: NoteThrottled_def ThrottledCount_def)

lemma attempt_limited: "fst (throttle_attempt r t m) = Limited \<longleftrightarrow> fst (IsThrottled r t m)"
  by (auto simp: throttle_attempt_def IsThrottled_def split: option.split)

lemma send_counts:
  "am_throttled_total (snd (SendDingTalk w e m)) =
     am_throttled_total m + (if fst (IsThrottled (ae_rule_id e) (w_now w) m) then 1 else 0) \<and>
   ThrottledCount r (snd (SendDingTalk w e m)) =
     ThrottledCount r m + (if r = ae_rule_id e \<and> fst (IsThrottled (ae_rule_id e) (w_now w) m) then 1 else 0)"
proof (rule send_cases [of e w m])
  assume T: "IsThrottled (ae_rule_id e) (w_now w) m = (True, m)"
  then show ?thesis by (simp add: send_throttled [OF T])
next
  fix m' b
  let ?m = "SaveAlertToDB (w_db w) (w_now_string w) e b m'"
  assume T: "IsThrottled (ae_rule_id e) (w_now w) m = (False, m')"
    and S: "snd (SendDingTalk w e m) = ?m\<lparr>am_dispatcher := Dispatch e (w_dispatch_now w) (am_dispatcher ?m)\<rparr>"
  from throttled_frame [OF T] show ?thesis unfolding S T by (simp add: save_frame ThrottledCount_def)
qed

lemma step_total:
  "am_throttled_total (alert_step op m) = am_throttled_total m + length (filter held (step_decisions op m))"
  by (cases op) (simp_all add: raise_alert_def throttled_now send_counts attempt_limited retention_frame)

lemma step_count: "ThrottledCount r (alert_step op m) =
    ThrottledCount r m + length (filter (\<lambda>d. fst d = r \<and> held d) (step_decisions op m))"
proof (cases op)
  case (Retain db)
  then show ?thesis by (simp add: ThrottledCount_def retention_frame)
next
  case (Dispatcher op)
  then show ?thesis by (simp add: ThrottledCount_def)
qed (auto simp: raise_alert_def throttled_now send_counts attempt_limited)

lemmas step_counts = step_total step_count

text \<open>
  C24. Every alert that is raised is either passed on or counted as throttled, exactly once, in total
  and for its rule, whether it is held back before or inside the send operation.
\<close>

theorem throttled_alerts_counted:
  "am_throttled_total (fold alert_step ops (started cfg db_cfg)) =
     length (filter held (decisions ops (started cfg db_cfg))) \<and>
   ThrottledCount r (fold alert_step ops (started cfg db_cfg)) =
     length (filter (\<lambda>d. fst d = r \<and> held d) (decisions ops (started cfg db_cfg)))"
proof -
  have "am_throttled_total (fold alert_step ops m) = am_throttled_total m + length (filter held (decisions ops m)) \<and>
      ThrottledCount r (fold alert_step ops m) =
        ThrottledCount r m + length (filter (\<lambda>d. fst d = r \<and> held d) (decisions ops m))" for m
    by (induction ops arbitrary: m) (simp_all add: step_counts)
  from this [of "started cfg db_cfg"] show ?thesis
    by (simp add: started_def SetDB_def LoadConfig_def new_manager_def ThrottledCount_def)
qed

section \<open>Throttle windows\<close>

lemma note_frame [simp]: "am_last_alert_time (NoteThrottled r m) = am_last_alert_time m"
  "throttle_window (NoteThrottled r m) = throttle_window m"
  by (simp_all add: NoteThrottled_def throttle_window_def)

lemma throttled_attempt: "IsThrottled r t m = (True, m') \<Longrightarrow> throttle_attempt r t m = (Limited, m)"
  by (auto simp: throttle_attempt_def IsThrottled_def split: if_splits option.splits)

lemma send_trace: "throttle.trace m [(ae_rule_id e, w_now w, fst (throttle_attempt (ae_rule_id e) (w_now w) m))] (snd (SendDingTalk w e m))"
proof -
  let ?a = "throttle_attempt (ae_rule_id e) (w_now w) m"
  have "throttle.trace m ([] @ [(ae_rule_id e, w_now w, fst ?a)]) (snd ?a)"
    by (rule throttle.trace.attempt [OF throttle.trace.start]) simp
  moreover have "am_last_alert_time (snd (SendDingTalk w e m)) = am_last_alert_time (snd ?a) \<and>
      throttle_window (snd (SendDingTalk w e m)) = throttle_window (snd ?a)"
  proof (rule send_cases [of e w m])
    assume T: "IsThrottled (ae_rule_id e) (w_now w) m = (True, m)"
    then show ?thesis by (simp add: send_throttled [OF T] throttle_attempt_def)
  next
    fix m' b
    let ?m = "SaveAlertToDB (w_db w) (w_now_string w) e b m'"
    assume T: "IsThrottled (ae_rule_id e) (w_now w) m = (False, m')"
      and S: "snd (SendDingTalk w e m) = ?m\<lparr>am_dispatcher := Dispatch e (w_dispatch_now w) (am_dispatcher ?m)\<rparr>"
    show ?thesis unfolding S by (simp add: T save_frame throttle_attempt_def throttle_window_def)
  qed
  ultimately show ?thesis using throttle.trace.other by simp
qed

lemma step_throttle_trace: "throttle.trace m (step_decisions op m) (alert_step op m)"
proof (cases op)
  case (RaiseAlert now w e)
  show ?thesis
  proof (cases "ThrottledNow (ae_rule_id e) now m")
    case True
    then obtain m' where m': "IsThrottled (ae_rule_id e) now m = (True, m')"
      unfolding throttled_now by (metis prod.collapse)
    then have "throttle_attempt (ae_rule_id e) now m = (Limited, m)" by (rule throttled_attempt)
    then have "throttle.trace m ([] @ [(ae_rule_id e, now, Limited)]) m"
      by (rule throttle.trace.attempt [OF throttle.trace.start])
    with RaiseAlert True throttle.trace.other [of m _ m "NoteThrottled (ae_rule_id e) m"] show ?thesis
      by (simp add: raise_alert_def)
  qed (use RaiseAlert send_trace in \<open>simp add: raise_alert_def\<close>)
next
  case (Retain db)
  then show ?thesis
    using throttle.trace.other [OF throttle.trace.start, of "snd (RunRetention db m)" m]
    by (simp add: retention_frame throttle_window_def)
next
  case (Dispatcher op)
  then show ?thesis
    using throttle.trace.other [OF throttle.trace.start, of "alert_step (Dispatcher op) m" m]
    by (simp add: throttle_window_def)
qed (simp add: send_trace)

lemma run_throttle_trace: "throttle.trace m (decisions ops m) (fold alert_step ops m)"
proof (induction ops arbitrary: m)
  case Nil
  then show ?case by (simp add: throttle.trace.start)
next
  case (Cons op ops)
  from throttle.trace_append [OF Cons step_throttle_trace] show ?case by simp
qed

text \<open>
  C23. With a clock that does not go back, an alert is held back only within the throttle time after an
  alert of the same rule that was passed on, and two alerts of a rule that are passed on are at
  least the throttle time apart.
\<close>

theorem throttle_windows_respected:
  assumes "sorted (map (\<lambda>d. fst (snd d)) (decisions ops (started cfg db_cfg)))"
    and "decisions ops (started cfg db_cfg) = a @ (r, now, v) # b"
  shows "(v = Limited \<longrightarrow> (\<exists>t. (r, t, Admitted) \<in> set a \<and> now - t < secs (ac_throttle_seconds cfg))) \<and>
    (v = Admitted \<longrightarrow> (\<forall>t. (r, t, Admitted) \<in> set a \<longrightarrow> secs (ac_throttle_seconds cfg) \<le> now - t))"
proof -
  let ?m = "started cfg db_cfg"
  have new: "am_last_alert_time ?m = Map.empty" "throttle_window ?m = secs (ac_throttle_seconds cfg)"
    by (simp_all add: started_def SetDB_def LoadConfig_def new_manager_def throttle_window_def)
  have "v = Limited \<Longrightarrow> \<exists>t. (r, t, Admitted) \<in> set a \<and> now - t < throttle_window ?m"
    using throttle.limited_justified [OF run_throttle_trace new(1), of ops a r now b] assms(2) by auto
  moreover have "v = Admitted \<Longrightarrow> (r, t, Admitted) \<in> set a \<Longrightarrow> throttle_window ?m \<le> now - t" for t
    using throttle.admitted_spaced [OF run_throttle_trace new(1) _ assms(1), of a r now b r t] assms(2) by simp
  ultimately show ?thesis by (simp add: new(2))
qed

definition quiet_world :: "int \<Rightarrow> World" where
  "quiet_world now = \<lparr>w_now = now, w_dispatch_now = now, w_now_ms = 0, w_now_string = [], w_post = (\<lambda>_ _. True),
     w_hmac = (\<lambda>_ _. None), w_base64 = id, w_db = \<lparr>db_ok = True, db_newest_first = id, db_cutoff = (\<lambda>_. [])\<rparr>\<rparr>"

definition minute_config :: AlertConfig where
  "minute_config = \<lparr>ac_dingtalk_webhook = [], ac_dingtalk_secret = [], ac_throttle_seconds = 60\<rparr>"

definition small_table :: DbConfig where
  "small_table = \<lparr>dc_retention_days = 0, dc_retention_max_records = 5\<rparr>"

definition rule_alert :: AlertEvent where
  "rule_alert = empty_alert\<lparr>ae_rule_id := ''r''\<rparr>"

definition three_alerts :: "AlertOp list" where
  "three_alerts = [SendAlert (quiet_world (secs 1)) rule_alert, RaiseAlert (secs 2) (quiet_world (secs 3)) rule_alert,
     RaiseAlert (secs 100) (quiet_world (secs 101)) rule_alert]"

lemma manager_frame [simp]:
  "am_throttle_seconds (m\<lparr>am_dispatcher := d\<rparr>) = am_throttle_seconds m"
  "am_last_alert_time (m\<lparr>am_dispatcher := d\<rparr>) = am_last_alert_time m"
  by simp_all

lemma send_time: "am_throttle_seconds (snd (SendDingTalk w e m)) = am_throttle_seconds m \<and>
    am_last_alert_time (snd (SendDingTalk w e m)) = am_last_alert_time (snd (IsThrottled (ae_rule_id e) (w_now w) m))"
proof (rule send_cases [of e w m])
  assume T: "IsThrottled (ae_rule_id e) (w_now w) m = (True, m)"
  then show ?thesis by (simp add: send_throttled [OF T]) (simp add: NoteThrottled_def)
next
  fix m' b
  let ?m = "SaveAlertToDB (w_db w) (w_now_string w) e b m'"
  assume T: "IsThrottled (ae_rule_id e) (w_now w) m = (False, m')"
    and S: "snd (SendDingTalk w e m) = ?m\<lparr>am_dispatcher := Dispatch e (w_dispatch_now w) (am_dispatcher ?m)\<rparr>"
  from throttled_frame [OF T] show ?thesis unfolding S by (simp add: T save_frame)
qed

lemma three_decisions: "decisions three_alerts (started minute_config small_table) =
    [(''r'', secs 1, Admitted), (''r'', secs 2, Limited), (''r'', secs 101, Admitted)]"
  by (simp add: three_alerts_def rule_alert_def empty_alert_def throttle_attempt_def ThrottledNow_def raise_alert_def)
    (simp add: send_time IsThrottled_def NoteThrottled_def quiet_world_def started_def SetDB_def LoadConfig_def new_manager_def
      minute_config_def whole_seconds_def secs_def)

lemma minute_throttle: "ac_throttle_seconds minute_config = 60"
  by (simp add: minute_config_def)

lemma throttle_windows_respected_witness: "secs 60 \<le> secs 101 - secs 1 \<and> secs 2 - secs 1 < secs 60"
proof -
  have "sorted (map (\<lambda>d. fst (snd d)) (decisions three_alerts (started minute_config small_table)))"
    by (simp add: three_decisions) (simp add: secs_def)
  then show ?thesis
    using throttle_windows_respected [of three_alerts minute_config small_table
        "[(''r'', secs 1, Admitted), (''r'', secs 2, Limited)]" "''r''" "secs 101" Admitted "[]"]
      throttle_windows_respected [of three_alerts minute_config small_table
        "[(''r'', secs 1, Admitted)]" "''r''" "secs 2" Limited "[(''r'', secs 101, Admitted)]"]
    by (simp add: three_decisions minute_throttle)
qed

section \<open>The table\<close>

definition good_db :: "Database \<Rightarrow> bool" where
  "good_db db \<longleftrightarrow> db_ok db \<and> returns_rows (db_newest_first db)"

definition table_inv :: "int \<Rightarrow> AlertManager \<Rightarrow> bool" where
  "table_inv n m \<longleftrightarrow> am_retention_max_records m = n \<and> am_insert_count m < 1000 \<and>
     (\<exists>t. am_db m = Some t \<and> table_ok t \<and> 1 \<le> at_next_id t \<and>
        5 * int (length (at_rows t)) \<le> 6 * n + 5 * int (am_insert_count m))"

definition stored :: "AlertManager \<Rightarrow> nat" where
  "stored m = (case am_db m of None \<Rightarrow> 0 | Some t \<Rightarrow> at_next_id t - 1)"

lemma age_purge_frame: "PurgeAlertsByAge ok d c t = (k, t') \<Longrightarrow> at_next_id t' = at_next_id t \<and> length (at_rows t') \<le> length (at_rows t)"
  by (auto simp: PurgeAlertsByAge_def delete_rows_def split: if_splits)

lemma count_purge_frame: "PurgeAlertsByCount ok nf n t = (k, t') \<Longrightarrow> at_next_id t' = at_next_id t"
  by (auto simp: PurgeAlertsByCount_def delete_rows_def split: if_splits)

lemma retention_bounds:
  assumes "good_db db" and "am_db m = Some t" and "table_ok t" and "0 < am_retention_max_records m"
  shows "\<exists>t'. am_db (snd (RunRetention db m)) = Some t' \<and> table_ok t' \<and> at_next_id t' = at_next_id t \<and>
    int (length (at_rows t')) \<le> am_retention_max_records m \<and> length (at_rows t') \<le> length (at_rows t)"
proof -
  obtain n1 t1 where t1: "(if am_retention_days m > 0
      then PurgeAlertsByAge (db_ok db) (am_retention_days m) (db_cutoff db (am_retention_days m)) t else (0, t)) = (n1, t1)"
    by (metis surj_pair)
  then have ok1: "table_ok t1" "at_next_id t1 = at_next_id t" "length (at_rows t1) \<le> length (at_rows t)"
    using assms(3) purges_ok(1) age_purge_frame by (auto split: if_splits)
  obtain n2 t2 where t2: "PurgeAlertsByCount (db_ok db) (db_newest_first db) (am_retention_max_records m) t1 = (n2, t2)"
    by (metis surj_pair)
  have "length (at_rows t2) = min (nat (am_retention_max_records m)) (length (at_rows t1))"
    using purge_by_count_rows [of t1 "db_newest_first db" "am_retention_max_records m" n2 t2] ok1 t2 assms(1,4)
    by (simp add: good_db_def)
  with assms(2,4) t1 t2 ok1 purges_ok(2) [OF ok1(1) t2] count_purge_frame [OF t2] show ?thesis
    by (auto simp: RunRetention_def)
qed

lemma retention_inv:
  assumes "table_inv n m" and "0 < n" and "good_db db"
  shows "table_inv n (snd (RunRetention db m)) \<and> stored (snd (RunRetention db m)) = stored m"
proof -
  from assms(1) obtain t where t: "am_db m = Some t" "table_ok t" "1 \<le> at_next_id t"
      "5 * int (length (at_rows t)) \<le> 6 * n + 5 * int (am_insert_count m)"
    by (auto simp: table_inv_def)
  from assms(1,2) have "0 < am_retention_max_records m" by (simp add: table_inv_def)
  from retention_bounds [OF assms(3) t(1,2) this] t assms(1) show ?thesis
    by (auto simp: table_inv_def retention_frame stored_def)
qed

lemma save_bounds:
  assumes "table_inv n m" and "0 < n" and "good_db db"
  shows "table_inv n (SaveAlertToDB db s e b m) \<and> stored (SaveAlertToDB db s e b m) = stored m + 1"
proof -
  from assms(1) obtain t where t: "am_db m = Some t" "table_ok t" "1 \<le> at_next_id t"
      "5 * int (length (at_rows t)) \<le> 6 * n + 5 * int (am_insert_count m)" "am_insert_count m < 1000"
      "am_retention_max_records m = n"
    by (auto simp: table_inv_def)
  let ?t = "SaveAlert (db_ok db) (alert_record e b s) t"
  let ?m = "m\<lparr>am_db := Some ?t, am_insert_count := 0\<rparr>"
  have saved: "table_ok ?t" "at_next_id ?t = at_next_id t + 1" "length (at_rows ?t) = length (at_rows t) + 1"
    using assms(3) table_ok_save [OF t(2)] by (simp_all add: good_db_def) (simp_all add: SaveAlert_def)
  show ?thesis
  proof (cases "am_insert_count m + 1 < 1000")
    case True
    then have "SaveAlertToDB db s e b m = m\<lparr>am_db := Some ?t, am_insert_count := am_insert_count m + 1\<rparr>"
      by (simp add: SaveAlertToDB_def t(1))
    with True saved t show ?thesis by (simp add: table_inv_def stored_def)
  next
    case False
    then have save: "SaveAlertToDB db s e b m =
        (if 5 * int (length (at_rows ?t)) > 6 * n then snd (RunRetention db ?m) else ?m)"
      using assms(2) by (simp add: SaveAlertToDB_def t(1,6) GetAlertCount_def Let_def)
    show ?thesis
    proof (cases "5 * int (length (at_rows ?t)) > 6 * n")
      case True
      from retention_bounds [OF assms(3), of ?m ?t] saved assms(2) t(6) obtain t' where
        "am_db (snd (RunRetention db ?m)) = Some t'" "table_ok t'" "at_next_id t' = at_next_id t + 1"
        "int (length (at_rows t')) \<le> n"
        by auto
      with True save t assms(2) show ?thesis by (simp add: table_inv_def stored_def retention_frame)
    next
      case False
      with save saved t show ?thesis by (simp add: table_inv_def stored_def)
    qed
  qed
qed

lemma table_inv_cong: "am_retention_max_records m' = am_retention_max_records m \<Longrightarrow> am_insert_count m' = am_insert_count m \<Longrightarrow>
    am_db m' = am_db m \<Longrightarrow> table_inv n m' = table_inv n m \<and> stored m' = stored m"
  by (simp add: table_inv_def stored_def)

lemma note_table: "table_inv n (NoteThrottled r m) = table_inv n m" "stored (NoteThrottled r m) = stored m"
  using table_inv_cong [of "NoteThrottled r m" m n] by (simp_all add: NoteThrottled_def)

lemma send_table:
  assumes "table_inv n m" and "0 < n" and "good_db (w_db w)"
  shows "table_inv n (snd (SendDingTalk w e m)) \<and> stored (snd (SendDingTalk w e m)) =
    stored m + (if fst (IsThrottled (ae_rule_id e) (w_now w) m) then 0 else 1)"
proof (rule send_cases [of e w m])
  assume T: "IsThrottled (ae_rule_id e) (w_now w) m = (True, m)"
  with assms(1) show ?thesis by (simp add: send_throttled [OF T] note_table)
next
  fix m' b
  let ?m = "SaveAlertToDB (w_db w) (w_now_string w) e b m'"
  let ?m' = "?m\<lparr>am_dispatcher := Dispatch e (w_dispatch_now w) (am_dispatcher ?m)\<rparr>"
  assume T: "IsThrottled (ae_rule_id e) (w_now w) m = (False, m')" and S: "snd (SendDingTalk w e m) = ?m'"
  from throttled_frame [OF T] table_inv_cong [of m' m n] assms(1) have "table_inv n m'" "stored m' = stored m" by simp_all
  with save_bounds [OF _ assms(2,3)] have "table_inv n ?m \<and> stored ?m = stored m + 1" by simp
  with T table_inv_cong [of ?m' ?m n] show ?thesis unfolding S by simp
qed

lemma step_table:
  assumes "table_inv n m" and "0 < n" and "\<And>db. op_db op = Some db \<Longrightarrow> good_db db"
  shows "table_inv n (alert_step op m) \<and>
    stored (alert_step op m) = stored m + length (filter (\<lambda>d. \<not> held d) (step_decisions op m))"
proof (cases op)
  case (Dispatcher op)
  with assms(1) table_inv_cong [of "m\<lparr>am_dispatcher := notify_step op (am_dispatcher m)\<rparr>" m n] show ?thesis by simp
qed (use assms in \<open>simp_all add: raise_alert_def send_table retention_inv note_table throttled_now attempt_limited\<close>)

lemma run_table:
  assumes "table_inv n m" and "0 < n" and "\<And>op db. op \<in> set ops \<Longrightarrow> op_db op = Some db \<Longrightarrow> good_db db"
  shows "table_inv n (fold alert_step ops m) \<and>
    stored (fold alert_step ops m) = stored m + length (filter (\<lambda>d. \<not> held d) (decisions ops m))"
  using assms
proof (induction ops arbitrary: m)
  case (Cons op ops)
  then have "table_inv n (alert_step op m) \<and>
      stored (alert_step op m) = stored m + length (filter (\<lambda>d. \<not> held d) (step_decisions op m))"
    by (intro step_table) auto
  moreover from this Cons have "table_inv n (fold alert_step ops (alert_step op m)) \<and>
      stored (fold alert_step ops (alert_step op m)) =
      stored (alert_step op m) + length (filter (\<lambda>d. \<not> held d) (decisions ops (alert_step op m)))"
    by (metis list.set_intros(2))
  ultimately show ?case by simp
qed simp

text \<open>
  C25. While the database carries out its statements, every alert that is passed on gets a row of the
  alerts table, and the table never holds more than 1.2 times the configured number of rows
  plus the 999 that come between two looks at its size.
\<close>

theorem alerts_stored_and_bounded:
  assumes "0 < dc_retention_max_records db_cfg"
    and "\<forall>op \<in> set ops. \<forall>db. op_db op = Some db \<longrightarrow> good_db db"
  shows "\<exists>t. am_db (fold alert_step ops (started cfg db_cfg)) = Some t \<and>
    at_next_id t = 1 + length (filter (\<lambda>d. \<not> held d) (decisions ops (started cfg db_cfg))) \<and>
    5 * int (length (at_rows t)) \<le> 6 * dc_retention_max_records db_cfg + 5 * 999"
proof -
  let ?m = "started cfg db_cfg" and ?n = "dc_retention_max_records db_cfg"
  have "table_inv ?n ?m" and "stored ?m = 0"
    using assms(1) by (simp_all add: table_inv_def stored_def started_def SetDB_def LoadConfig_def new_manager_def
      table_ok_empty) (simp_all add: empty_alerts_def)
  with run_table [of ?n ?m ops] assms have "table_inv ?n (fold alert_step ops ?m)"
      "stored (fold alert_step ops ?m) = length (filter (\<lambda>d. \<not> held d) (decisions ops ?m))"
    by auto
  then show ?thesis by (auto simp: table_inv_def stored_def)
qed

lemma quiet_db: "good_db (w_db (quiet_world now))"
  by (simp add: quiet_world_def good_db_def returns_rows_def)

lemma alerts_stored_and_bounded_witness:
  "\<exists>t. am_db (fold alert_step three_alerts (started minute_config small_table)) = Some t \<and> at_next_id t = 3"
proof -
  have "0 < dc_retention_max_records small_table" by (simp add: small_table_def)
  moreover have "\<forall>op \<in> set three_alerts. \<forall>db. op_db op = Some db \<longrightarrow> good_db db"
    by (simp add: three_alerts_def quiet_db)
  ultimately show ?thesis
    using alerts_stored_and_bounded [of small_table three_alerts minute_config] by (auto simp: three_decisions)
qed

section \<open>Bursts\<close>

lemma retention_stored: "stored (snd (RunRetention db m)) = stored m"
proof (cases "am_db m")
  case (Some t)
  have "at_next_id (snd (PurgeAlertsByAge ok d c t)) = at_next_id t" for ok d c and t :: AlertsTable
    using age_purge_frame by (metis prod.collapse)
  moreover have "at_next_id (snd (PurgeAlertsByCount ok nf k t)) = at_next_id t" for ok nf k and t :: AlertsTable
    using count_purge_frame by (metis prod.collapse)
  ultimately show ?thesis using Some by (simp add: RunRetention_def stored_def split_beta)
qed (simp add: RunRetention_def)

lemma save_stored_le: "stored (SaveAlertToDB db s e b m) \<le> stored m + 1"
proof (cases "am_db m")
  case (Some t)
  let ?t = "SaveAlert (db_ok db) (alert_record e b s) t"
  have step: "stored (m\<lparr>am_db := Some ?t, am_insert_count := c\<rparr>) \<le> stored m + 1" for c
    by (simp add: stored_def Some SaveAlert_def) arith
  then show ?thesis using step by (simp add: SaveAlertToDB_def Some Let_def retention_stored)
qed (simp add: SaveAlertToDB_def)

lemma send_stored: "stored (snd (SendDingTalk w e m)) \<le> stored m + (if fst (IsThrottled (ae_rule_id e) (w_now w) m) then 0 else 1)"
proof (rule send_cases [of e w m])
  assume T: "IsThrottled (ae_rule_id e) (w_now w) m = (True, m)"
  then show ?thesis by (simp add: send_throttled [OF T] note_table)
next
  fix m' b
  let ?m = "SaveAlertToDB (w_db w) (w_now_string w) e b m'"
  let ?m' = "?m\<lparr>am_dispatcher := Dispatch e (w_dispatch_now w) (am_dispatcher ?m)\<rparr>"
  assume T: "IsThrottled (ae_rule_id e) (w_now w) m = (False, m')" and S: "snd (SendDingTalk w e m) = ?m'"
  have "stored ?m' = stored ?m" and "stored m' = stored m"
    using throttled_frame [OF T] by (simp_all add: stored_def)
  with save_stored_le [of "w_db w" "w_now_string w" e b m'] show ?thesis unfolding S T by simp
qed

text \<open>Alerts of one rule that are sent within one throttle time: at most one is stored.\<close>

definition send_all :: "(World \<times> AlertEvent) list \<Rightarrow> AlertManager \<Rightarrow> AlertManager" where
  "send_all sends m = fold (\<lambda>(w, e) m. snd (SendDingTalk w e m)) sends m"

lemma burst_quiet:
  assumes "am_last_alert_time m r = Some t" and "0 < am_throttle_seconds m"
    and "\<forall>(w, e) \<in> set sends. ae_rule_id e = r \<and> w_now w - t < secs (am_throttle_seconds m)"
  shows "stored (send_all sends m) \<le> stored m"
  using assms
proof (induction sends arbitrary: m)
  case (Cons x sends)
  obtain w e where x: "x = (w, e)" by force
  with Cons.prems have T: "IsThrottled (ae_rule_id e) (w_now w) m = (True, m)"
    by (auto simp: IsThrottled_def whole_seconds_less not_le)
  have "stored (send_all sends (NoteThrottled r m)) \<le> stored (NoteThrottled r m)"
    using Cons.prems by (intro Cons.IH) (auto simp: NoteThrottled_def)
  with Cons.prems x T show ?case by (auto simp: send_all_def send_throttled [OF T] note_table)
qed (simp add: send_all_def)

lemma burst_stores_one:
  assumes "0 < am_throttle_seconds m"
    and "\<forall>(w, e) \<in> set sends. ae_rule_id e = r \<and> t0 \<le> w_now w \<and> w_now w - t0 < secs (am_throttle_seconds m)"
  shows "stored (send_all sends m) \<le> stored m + 1"
  using assms
proof (induction sends arbitrary: m)
  case (Cons x sends)
  obtain w e where x: "x = (w, e)" by force
  let ?m = "snd (SendDingTalk w e m)"
  from Cons.prems x have e: "ae_rule_id e = r" "t0 \<le> w_now w" by auto
  from send_time [of w e m] have frame: "am_throttle_seconds ?m = am_throttle_seconds m" by simp
  show ?case
  proof (cases "fst (IsThrottled r (w_now w) m)")
    case True
    have "stored (send_all sends ?m) \<le> stored ?m + 1"
      using Cons.prems frame by (intro Cons.IH) auto
    with True send_stored [of w e m] e x show ?thesis by (simp add: send_all_def)
  next
    case False
    with send_time [of w e m] e Cons.prems(1) have "am_last_alert_time ?m r = Some (w_now w)"
      by (auto simp: IsThrottled_def split: option.splits if_splits)
    moreover have "\<forall>(w', e') \<in> set sends. ae_rule_id e' = r \<and> w_now w' - w_now w < secs (am_throttle_seconds ?m)"
      using Cons.prems(2) e frame by fastforce
    ultimately have "stored (send_all sends ?m) \<le> stored ?m"
      using Cons.prems(1) frame by (intro burst_quiet [where t = "w_now w"]) auto
    with send_stored [of w e m] x show ?thesis by (simp add: send_all_def split: if_splits)
  qed
qed (simp add: send_all_def)

section \<open>Signatures\<close>

text \<open>Percent decoding, as a server does it.\<close>

definition hex_value :: "char \<Rightarrow> nat" where
  "hex_value c = (if char_code c < 58 then char_code c - 48 else char_code c - 55)"

fun url_decode :: "string \<Rightarrow> string" where
  "url_decode [] = []"
| "url_decode (c # s) =
     (if c = CHR ''%''
      then (case s of a # b # r \<Rightarrow> char_of (16 * hex_value a + hex_value b) # url_decode r | _ \<Rightarrow> c # s)
      else c # url_decode s)"

lemma upper_hex_code: "n < 16 \<Longrightarrow> char_code (upper_hex n) = (if n < 10 then 48 + n else 55 + n)"
  by (simp add: upper_hex_def char_code_digit) (simp add: char_code_def)

lemma hex_value_upper: "n < 16 \<Longrightarrow> hex_value (upper_hex n) = n"
  by (simp add: hex_value_def upper_hex_code)

lemma upper_hex_safe: "n < 16 \<Longrightarrow> url_safe (upper_hex n)"
  by (simp add: url_safe_def c_isalnum_def c_isdigit_def c_isupper_def upper_hex_code)

lemma char_code_bound: "char_code c < 256"
  by (simp add: char_code_def)

lemma percent_reserved: "\<not> url_safe (CHR ''%'')"
  by (simp add: url_safe_def char_class_defs)

text \<open>
  The encoded signature contains no reserved character and decodes to the text it was made from.
\<close>

theorem url_encoding_decodes:
  "url_decode (UrlEncode s) = s \<and> (\<forall>c. c \<in> set (UrlEncode s) \<longrightarrow> url_safe c \<or> c = CHR ''%'')"
proof (induction s)
  case (Cons c s)
  show ?case
  proof (cases "url_safe c")
    case True
    with percent_reserved have "c \<noteq> CHR ''%''" by metis
    with True Cons show ?thesis by (auto simp: UrlEncode_def)
  next
    case False
    let ?n = "char_code c"
    have "?n div 16 < 16" "?n mod 16 < 16" using char_code_bound [of c] by simp_all
    moreover have "char_of (16 * (?n div 16) + ?n mod 16) = c" by (simp add: char_code_def)
    ultimately show ?thesis using False Cons
      by (auto simp: UrlEncode_def hex_value_upper upper_hex_safe)
  qed
qed (simp add: UrlEncode_def)

lemma url_encoding_decodes_witness: "url_decode (UrlEncode ''a+b/=%'') = ''a+b/=%''"
  using url_encoding_decodes [of "''a+b/=%''"] by simp

end
