(* ===== verification/Notify_Silence.thy ===== *)
theory Notify_Silence
  imports Notify_Correct Rate_Limit
begin

text \<open>
  The silence windows of the dispatcher as a rate limiter: what is suppressed follows an alert
  of the same key within the window, and alerts of one key are queued at least a window apart.
\<close>

section \<open>The limiter\<close>

definition silence_window :: "NotifyDispatcher \<Rightarrow> int" where
  "silence_window st = secs (nc_silence_minutes (nd_cfg st) * 60)"

definition verdict :: "AlertEvent \<Rightarrow> int \<Rightarrow> NotifyDispatcher \<Rightarrow> Verdict" where
  "verdict evt now st =
     (if nc_silence_minutes (nd_cfg st) \<le> 0 then Unchecked
      else if silenced evt now st then Limited
      else if length (nd_queue st) \<ge> kMaxQueue then Unchecked
      else Admitted)"

definition enqueue_attempt :: "AlertEvent \<Rightarrow> int \<Rightarrow> NotifyDispatcher \<Rightarrow> Verdict \<times> NotifyDispatcher" where
  "enqueue_attempt evt now st = (verdict evt now st, EnqueueWithSilence evt now st)"

definition few_keys :: "string set \<Rightarrow> bool" where
  "few_keys A \<longleftrightarrow> finite A \<and> card A \<le> kMaxKeys"

abbreviation last_of :: "NotifyDispatcher \<Rightarrow> string \<Rightarrow> int option" where
  "last_of st \<equiv> map_of (nd_last_sent st)"

lemma last_enqueue: "nd_last_sent (EnqueueWithSilence evt now st) =
    (if verdict evt now st = Admitted then nd_last_sent (occupy (alert_key evt) now st) else nd_last_sent st)"
  by (auto simp: EnqueueWithSilence_def verdict_def occupy_def Let_def frame_simps)

lemma last_occupy: "last_of (occupy k t st) =
    (if card (insert k (dom (last_of st))) > kMaxKeys then [k \<mapsto> t] else (last_of st)(k \<mapsto> t))"
  by (simp add: occupy_def Let_def update_conv' dom_update dom_map_of_conv_image_fst)

lemma verdict_limited: "verdict evt now st = Limited \<Longrightarrow>
    \<exists>u. last_of st (alert_key evt) = Some u \<and> now - u < silence_window st"
  by (auto simp: verdict_def silenced_def SilenceWindowActive_def silence_window_def split: if_splits option.splits)

lemma verdict_admitted: "verdict evt now st = Admitted \<Longrightarrow> last_of st (alert_key evt) = Some u \<Longrightarrow>
    silence_window st \<le> now - u"
  by (auto simp: verdict_def silenced_def SilenceWindowActive_def silence_window_def split: if_splits)

interpretation silence: limiter last_of silence_window alert_key enqueue_attempt few_keys
proof unfold_locales
  fix e t s v s' assume "enqueue_attempt e t s = (v, s')"
  then show "silence_window s' = silence_window s"
    by (auto simp: enqueue_attempt_def silence_window_def frame_simps)
next
  fix e t s s' assume "enqueue_attempt e t s = (Limited, s')"
  then show "\<exists>u. last_of s (alert_key e) = Some u \<and> t - u < silence_window s"
    using verdict_limited by (simp add: enqueue_attempt_def)
next
  fix e t s s' u assume "enqueue_attempt e t s = (Admitted, s')" and last: "last_of s (alert_key e) = Some u"
  then have "verdict e t s = Admitted" by (simp add: enqueue_attempt_def)
  then show "silence_window s \<le> t - u" using last by (rule verdict_admitted)
next
  fix e t s s' assume "enqueue_attempt e t s = (Admitted, s')"
  then show "last_of s' (alert_key e) = Some t" by (auto simp: enqueue_attempt_def last_enqueue last_occupy)
next
  fix e t s s' k u assume "enqueue_attempt e t s = (Admitted, s')" "k \<noteq> alert_key e" "last_of s' k = Some u"
  then show "last_of s k = Some u" by (auto simp: enqueue_attempt_def last_enqueue last_occupy split: if_splits)
next
  fix e t s s' k
  assume "enqueue_attempt e t s = (Admitted, s')" "few_keys (insert (alert_key e) (dom (last_of s)))" "k \<noteq> alert_key e"
  then show "last_of s' k = last_of s k" by (auto simp: enqueue_attempt_def last_enqueue last_occupy few_keys_def)
next
  fix e t s v s' assume "enqueue_attempt e t s = (v, s')" "v \<noteq> Admitted"
  then show "last_of s' = last_of s" by (auto simp: enqueue_attempt_def last_enqueue)
next
  fix A B assume "few_keys A" "B \<subseteq> A"
  then show "few_keys B" using card_mono [of A B] finite_subset [of B A] by (auto simp: few_keys_def)
qed

section \<open>Steps as attempts\<close>

text \<open>The alerts a step tries to queue, and the verdicts.\<close>

fun op_times :: "NotifyOp \<Rightarrow> int list" where
  "op_times (Configure cfg now) = [now]"
| "op_times (Alert evt now) = [now]"
| "op_times (Poll now) = [now]"
| "op_times _ = []"

fun step_alerts :: "NotifyOp \<Rightarrow> NotifyDispatcher \<Rightarrow> AlertEvent list" where
  "step_alerts (Alert evt now) st =
     step_digests (Alert evt now) st @
     (if routed evt st \<and> \<not> (aggregating evt st \<and> window_action evt now st = kMerge) then [evt] else [])"
| "step_alerts op st = step_digests op st"

fun verdicts :: "AlertEvent list \<Rightarrow> int \<Rightarrow> NotifyDispatcher \<Rightarrow> (AlertEvent \<times> int \<times> Verdict) list" where
  "verdicts [] now st = []"
| "verdicts (evt # evts) now st = (evt, now, verdict evt now st) # verdicts evts now (EnqueueWithSilence evt now st)"

definition step_log :: "NotifyOp \<Rightarrow> NotifyDispatcher \<Rightarrow> (AlertEvent \<times> int \<times> Verdict) list" where
  "step_log op st = (case op_times op of [] \<Rightarrow> [] | now # _ \<Rightarrow> verdicts (step_alerts op st) now st)"

fun notify_log :: "NotifyOp list \<Rightarrow> NotifyDispatcher \<Rightarrow> (AlertEvent \<times> int \<times> Verdict) list" where
  "notify_log [] st = []"
| "notify_log (op # ops) st = step_log op st @ notify_log ops (notify_step op st)"

text \<open>What the verdict depends on.\<close>

definition core :: "NotifyDispatcher \<Rightarrow> int \<times> (string \<times> int) list \<times> AlertEvent list" where
  "core st = (nc_silence_minutes (nd_cfg st), nd_last_sent st, nd_queue st)"

lemma core_silenced: "core s = core s' \<Longrightarrow> silenced e t s \<longleftrightarrow> silenced e t s'"
  by (simp add: core_def silenced_def split: option.split)

definition pushed :: "AlertEvent \<Rightarrow> int \<Rightarrow> NotifyDispatcher \<Rightarrow> bool" where
  "pushed e t s \<longleftrightarrow> length (nd_queue s) < kMaxQueue \<and> \<not> (nc_silence_minutes (nd_cfg s) > 0 \<and> silenced e t s)"

lemma enqueue_queue: "nd_queue (EnqueueWithSilence e t s) = (if pushed e t s then nd_queue s @ [e] else nd_queue s)"
  by (simp add: EnqueueWithSilence_def pushed_def occupy_def Let_def frame_simps)

lemma enqueue_last: "nd_last_sent (EnqueueWithSilence e t s) =
    (if pushed e t s \<and> nc_silence_minutes (nd_cfg s) > 0 then nd_last_sent (occupy (alert_key e) t s) else nd_last_sent s)"
  by (simp add: EnqueueWithSilence_def pushed_def occupy_def Let_def frame_simps)

lemma core_pushed: "core s = core s' \<Longrightarrow> pushed e t s \<longleftrightarrow> pushed e t s'"
  using core_silenced [of s s' e t] by (simp add: pushed_def core_def)

lemma core_occupy: "core s = core s' \<Longrightarrow> nd_last_sent (occupy k t s) = nd_last_sent (occupy k t s')"
  by (simp add: core_def occupy_def Let_def)

lemma core_enqueue:
  assumes "core s = core s'"
  shows "core (EnqueueWithSilence e t s) = core (EnqueueWithSilence e t s')"
proof -
  have eqs: "nc_silence_minutes (nd_cfg s) = nc_silence_minutes (nd_cfg s')" "nd_last_sent s = nd_last_sent s'"
    "nd_queue s = nd_queue s'" using assms by (simp_all add: core_def)
  show ?thesis
    unfolding core_def enqueue_queue enqueue_last enqueue_frame core_pushed [OF assms] core_occupy [OF assms] eqs ..
qed

lemma core_enqueue_all: "core s = core s' \<Longrightarrow> core (enqueue_all es t s) = core (enqueue_all es t s')"
proof (induction es arbitrary: s s')
  case (Cons e es)
  from Cons.IH [OF core_enqueue [OF Cons.prems]] show ?case by simp
qed simp

lemma core_frame [simp]: "core (s\<lparr>nd_agg_windows := a\<rparr>) = core s" "core (s\<lparr>nd_notifier := n\<rparr>) = core s"
  "core (notify_worker s) = core s" "core (open_window k t s) = core s" "core (s\<lparr>nd_worker := w\<rparr>) = core s"
  "core (s\<lparr>nd_stop := b\<rparr>) = core s" "core (s\<lparr>nd_merged := m\<rparr>) = core s"
  by (simp_all add: core_def frame_simps)

lemma core_flush:
  assumes "nd_agg_windows s = a" and "distinct (map fst a)" and "core s = core s'"
  shows "core (flush_loop P now a s) = core (enqueue_all (digests P a) now s')"
  using flush_loop_all [of s P now] assms core_enqueue_all [OF assms(3)] by simp

lemma verdicts_trace: "silence.trace st (verdicts evts now st) (enqueue_all evts now st)"
proof (induction evts arbitrary: st)
  case Nil
  then show ?case by (simp add: silence.trace.start)
next
  case (Cons evt evts)
  have "silence.trace st ([] @ [(evt, now, verdict evt now st)]) (EnqueueWithSilence evt now st)"
    by (rule silence.trace.attempt [OF silence.trace.start]) (simp add: enqueue_attempt_def)
  from silence.trace_append [OF Cons.IH this] show ?case by simp
qed

text \<open>Up to the alerts taken by the worker, a step is the enqueueing of its alerts.\<close>

definition limits :: "NotifyDispatcher \<Rightarrow> int \<times> (string \<times> int) list" where
  "limits st = (nc_silence_minutes (nd_cfg st), nd_last_sent st)"

lemma core_limits: "core s = core s' \<Longrightarrow> limits s = limits s'"
  by (simp add: core_def limits_def)

definition same_silence :: "NotifyOp \<Rightarrow> NotifyDispatcher \<Rightarrow> bool" where
  "same_silence op st \<longleftrightarrow>
     (case op of Configure cfg _ \<Rightarrow> nc_silence_minutes cfg = nc_silence_minutes (nd_cfg st) | _ \<Rightarrow> True)"

lemma step_limits:
  assumes "windows_ok st" and "same_silence op st"
  shows "limits (notify_step op st) =
    limits (case op_times op of [] \<Rightarrow> st | now # _ \<Rightarrow> enqueue_all (step_alerts op st) now st)"
proof (cases op)
  case (Alert evt now)
  show ?thesis
  proof (cases rule: Dispatch_cases [where evt = evt and st = st and now = now])
    case opened
    have "core (Dispatch evt now st) = core (EnqueueWithSilence evt now st)"
      unfolding Dispatch_open [OF opened] by (rule core_enqueue) simp
    from core_limits [OF this] opened Alert show ?thesis by (simp add: aggregating_routed window_action_cases)
  next
    case (flush w)
    have "filter (\<lambda>(k, _). k = alert_key evt) (nd_agg_windows st) = [(alert_key evt, w)]"
      by (rule key_filter) (use flush(2) assms in \<open>simp_all add: windows_ok_def\<close>)
    then have alerts: "step_alerts op st = digests (\<lambda>_. True) [(alert_key evt, w)] @ [evt]"
      using flush Alert by (simp add: aggregating_routed window_action_cases)
    have "core (Dispatch evt now st) = core (EnqueueWithSilence evt now (FlushAggWindowLocked w now st))"
      unfolding Dispatch_flush [OF flush] by (rule core_enqueue) simp
    also have "\<dots> = core (enqueue_all (step_alerts op st) now st)"
      by (simp add: alerts flush_window [where k = "alert_key evt"] enqueue_all_def)
    finally have "core (Dispatch evt now st) = core (enqueue_all (step_alerts op st) now st)" .
    from core_limits [OF this] Alert show ?thesis by simp
  next
    case (merge w)
    with Alert show ?thesis by (simp add: Dispatch_merge aggregating_routed window_action_cases limits_def)
  qed (use Alert in \<open>simp_all add: Dispatch_simps not_routed\<close>)
next
  case (Configure cfg now)
  let ?st = "st\<lparr>nd_cfg := cfg\<rparr>"
  let ?st2 = "if nc_webhook_url cfg \<noteq> nc_webhook_url (nd_cfg st)
    then ?st\<lparr>nd_notifier := (if nc_webhook_url cfg \<noteq> [] then Some (nc_webhook_url cfg) else None)\<rparr> else ?st"
  have same: "core ?st2 = core st" using assms(2) Configure by (simp add: core_def same_silence_def)
  have agg: "nd_agg_windows ?st2 = nd_agg_windows st" by simp
  have "core (flush_loop (\<lambda>_. True) now (nd_agg_windows st) ?st2) =
      core (enqueue_all (digests (\<lambda>_. True) (nd_agg_windows st)) now st)"
    by (rule core_flush [OF agg _ same]) (use assms(1) in \<open>simp add: windows_ok_def\<close>)
  with same have "core (UpdateConfig cfg now st) = core (enqueue_all (step_alerts op st) now st)"
    using Configure unfolding UpdateConfig_def Let_def core_frame agg by simp
  from core_limits [OF this] Configure show ?thesis by simp
next
  case (Poll now)
  have "limits (worker_poll now st) = limits (FlushExpiredAggLocked now st)"
    by (simp add: worker_poll_def Let_def limits_def split: list.split)
  with assms(1) Poll show ?thesis by (simp add: FlushExpired_eq limits_def)
qed (simp_all add: limits_def worker_send_def request_stop_def frame_simps split: Worker.split option.split)


fun keeps_silence :: "NotifyOp list \<Rightarrow> NotifyDispatcher \<Rightarrow> bool" where
  "keeps_silence [] st \<longleftrightarrow> True"
| "keeps_silence (op # ops) st \<longleftrightarrow> same_silence op st \<and> keeps_silence ops (notify_step op st)"

definition configured :: "NotifyConfig \<Rightarrow> int \<Rightarrow> NotifyDispatcher" where
  "configured cfg t0 = UpdateConfig cfg t0 new_dispatcher"

lemma step_trace:
  assumes "windows_ok st" and "same_silence op st"
  shows "silence.trace st (step_log op st) (notify_step op st)"
proof (cases "op_times op")
  case Nil
  have "silence.trace st [] (notify_step op st)"
    by (rule silence.trace.other [OF silence.trace.start])
      (use step_limits [OF assms] Nil in \<open>simp_all add: limits_def silence_window_def\<close>)
  with Nil show ?thesis by (simp add: step_log_def)
next
  case (Cons now ts)
  with step_limits [OF assms] have "limits (notify_step op st) = limits (enqueue_all (step_alerts op st) now st)" by simp
  then show ?thesis using Cons silence.trace.other [OF verdicts_trace [of st "step_alerts op st" now]]
    by (simp add: step_log_def limits_def silence_window_def)
qed

lemma run_trace: "windows_ok st \<Longrightarrow> keeps_silence ops st \<Longrightarrow> silence.trace st (notify_log ops st) (notify_run ops st)"
proof (induction ops arbitrary: st)
  case Nil
  then show ?case by (simp add: notify_run_def silence.trace.start)
next
  case (Cons op ops)
  then have "silence.trace (notify_step op st) (notify_log ops (notify_step op st)) (notify_run ops (notify_step op st))"
    by (simp add: windows_ok_step)
  from silence.trace_append [OF this step_trace] Cons.prems show ?case by (simp add: notify_run_def)
qed

lemma verdicts_times: "\<forall>x \<in> set (verdicts evts now st). fst (snd x) = now"
  by (induction evts arbitrary: st) auto

lemma log_times:
  assumes "sorted (concat (map op_times ops))"
  shows "sorted (map (\<lambda>x. fst (snd x)) (notify_log ops st)) \<and>
    set (map (\<lambda>x. fst (snd x)) (notify_log ops st)) \<subseteq> set (concat (map op_times ops))"
  using assms
proof (induction ops arbitrary: st)
  case (Cons op ops)
  then have IH: "sorted (map (\<lambda>x. fst (snd x)) (notify_log ops (notify_step op st)))"
    "set (map (\<lambda>x. fst (snd x)) (notify_log ops (notify_step op st))) \<subseteq> set (concat (map op_times ops))"
    by (simp_all add: sorted_append)
  show ?case
  proof (cases "op_times op")
    case Nil
    with IH show ?thesis by (simp add: step_log_def)
  next
    case times: (Cons now ts)
    then have ts: "ts = []" by (cases op) auto
    let ?here = "map (\<lambda>x. fst (snd x)) (step_log op st)"
    have here: "\<forall>t \<in> set ?here. t = now" using times verdicts_times by (simp add: step_log_def)
    have "\<forall>t \<in> set xs. t = now \<Longrightarrow> sorted xs" for xs by (induction xs) auto
    with here have "sorted ?here" by blast
    moreover have "sorted (now # concat (map op_times ops))" using Cons.prems times ts by simp
    then have "\<forall>t \<in> set (map (\<lambda>x. fst (snd x)) (notify_log ops (notify_step op st))). now \<le> t"
      using IH(2) by auto
    moreover have "set ?here \<subseteq> {now}" using here by blast
    ultimately have "sorted (?here @ map (\<lambda>x. fst (snd x)) (notify_log ops (notify_step op st)))"
      using IH(1) by (fastforce simp: sorted_append)
    moreover have "set (?here @ map (\<lambda>x. fst (snd x)) (notify_log ops (notify_step op st))) \<subseteq> set (concat (map op_times (op # ops)))"
      using \<open>set ?here \<subseteq> {now}\<close> IH(2) times by auto
    ultimately show ?thesis by simp
  qed
qed simp

text \<open>
  C28. In every run that keeps the silence minutes, with a clock that does not go back: an alert or digest
  is suppressed only within the silence window of an earlier queued one of the same rule and
  object; and as long as at most 4096 such keys occur, two queued ones of the same rule and object are
  at least the silence window apart.
\<close>

theorem silence_windows_respected:
  assumes "keeps_silence ops (configured cfg t0)" and "sorted (concat (map op_times ops))"
    and "notify_log ops (configured cfg t0) = a @ (evt, now, v) # b"
  shows "(v = Limited \<longrightarrow>
      (\<exists>e t. (e, t, Admitted) \<in> set a \<and> alert_key e = alert_key evt \<and> now - t < silence_window (configured cfg t0))) \<and>
    (v = Admitted \<and> card ((\<lambda>x. alert_key (fst x)) ` set (notify_log ops (configured cfg t0))) \<le> 4096 \<longrightarrow>
      (\<forall>e t. (e, t, Admitted) \<in> set a \<and> alert_key e = alert_key evt \<longrightarrow> silence_window (configured cfg t0) \<le> now - t))"
proof -
  have new: "windows_ok (configured cfg t0)" "last_of (configured cfg t0) = Map.empty"
    using windows_ok_step [OF new_dispatcher_ok, of "Configure cfg t0"]
    by (simp_all add: configured_def) (simp add: UpdateConfig_def Let_def new_dispatcher_def frame_simps)
  note trace = run_trace [OF new(1) assms(1)]
  have sorted: "sorted (map (\<lambda>x. fst (snd x)) (notify_log ops (configured cfg t0)))" using log_times assms(2) by blast
  show ?thesis
    using silence.limited_justified [OF trace new(2)] silence.admitted_spaced [OF trace new(2) _ sorted] assms(3)
    by (fastforce simp: few_keys_def kMaxKeys_def)
qed

definition sample_alert :: AlertEvent where
  "sample_alert = empty_alert\<lparr>ae_rule_id := ''r'', ae_severity := ''high'', ae_file_path := ''/etc''\<rparr>"

definition sample_config :: NotifyConfig where
  "sample_config = (url_config ''http://hook'')\<lparr>nc_silence_minutes := 10\<rparr>"

definition sample_alerts :: "NotifyOp list" where
  "sample_alerts = [Alert sample_alert (secs 1), Alert sample_alert (secs 2), Alert sample_alert (secs 700)]"

lemma sample_log: "notify_log sample_alerts (configured sample_config 0) =
    [(sample_alert, secs 1, Admitted), (sample_alert, secs 2, Limited), (sample_alert, secs 700, Admitted)]"
  by (simp add: sample_alerts_def configured_def sample_config_def sample_alert_def dispatcher_run_simps step_log_def
    aggregating_def verdict_def silenced_def SilenceWindowActive_def secs_def occupy_def kMaxKeys_def)

lemma silence_windows_respected_witness:
  "silence_window (configured sample_config 0) \<le> secs 700 - secs 1 \<and>
   secs 2 - secs 1 < silence_window (configured sample_config 0)"
proof -
  have "keeps_silence sample_alerts (configured sample_config 0)"
    by (simp add: sample_alerts_def same_silence_def)
  moreover have "sorted (concat (map op_times sample_alerts))"
    by (simp add: sample_alerts_def secs_def)
  ultimately show ?thesis
    using silence_windows_respected [of sample_alerts sample_config 0 "[(sample_alert, secs 1, Admitted), (sample_alert, secs 2, Limited)]"
        sample_alert "secs 700" Admitted "[]"]
      silence_windows_respected [of sample_alerts sample_config 0 "[(sample_alert, secs 1, Admitted)]"
        sample_alert "secs 2" Limited "[(sample_alert, secs 700, Admitted)]"]
    by (auto simp: sample_log)
qed

end
