(* ===== verification/Baseline_Check.thy ===== *)
theory Baseline_Check
  imports Alert_Manager Mon_Rule Json_Text
begin

text \<open>
  File integrity checks: the helpers of \<open>src/src/common/utils.cpp\<close>, the comparison of a file with
  its baseline entry and the alert for a deviation (\<open>src/src/baseline/monitor_baseline.cpp\<close>), and
  the names of actions and severities (\<open>src/src/cli/config.cpp\<close>). The file system answers by an
  argument; so does the digest of the library.
\<close>

section \<open>Files\<close>

record FileStat =
  st_mode :: u32
  st_uid :: u32
  st_gid :: u32
  st_ino :: u64
  st_size :: int
  st_mtime :: int

text \<open>What the file system answers: \<open>stat\<close>, \<open>lstat\<close> and the bytes a stream of the file delivers,
  \<open>None\<close> where the call fails, and the digest.\<close>

record Files =
  f_stat :: "string \<Rightarrow> FileStat option"
  f_lstat :: "string \<Rightarrow> FileStat option"
  f_bytes :: "string \<Rightarrow> u8 list option"
  f_digest :: "u8 list \<Rightarrow> u8 list"

section \<open>Helpers\<close>

definition mode_to_string :: "u32 \<Rightarrow> string" where
  "mode_to_string mode =
     [if bit mode 8 then CHR ''r'' else CHR ''-'', if bit mode 7 then CHR ''w'' else CHR ''-'',
      if bit mode 6 then CHR ''x'' else CHR ''-'', if bit mode 5 then CHR ''r'' else CHR ''-'',
      if bit mode 4 then CHR ''w'' else CHR ''-'', if bit mode 3 then CHR ''x'' else CHR ''-'',
      if bit mode 2 then CHR ''r'' else CHR ''-'', if bit mode 1 then CHR ''w'' else CHR ''-'',
      if bit mode 0 then CHR ''x'' else CHR ''-'']"

definition cannot_open :: string where
  "cannot_open = utf8_bytes [0xE6, 0x97, 0xA0, 0xE6, 0xB3, 0x95, 0xE6, 0x89, 0x93, 0xE5, 0xBC, 0x80, 0xE6, 0x96, 0x87,
     0xE4, 0xBB, 0xB6] @ '': ''"

definition buffer_size :: nat where "buffer_size = 8192"

text \<open>The digest is fed full buffers while they can be read, then the rest.\<close>

function digest_loop :: "u8 list \<Rightarrow> u8 list \<Rightarrow> u8 list" where
  "digest_loop fed bs =
     (if length bs \<ge> buffer_size then digest_loop (fed @ take buffer_size bs) (drop buffer_size bs)
      else if length bs > 0 then fed @ bs else fed)"
  by pat_completeness auto
termination by (relation "measure (\<lambda>(_, bs). length bs)") (auto simp: buffer_size_def)

declare digest_loop.simps [simp del]

definition hex_byte :: "u8 \<Rightarrow> string" where
  "hex_byte b = [hex_digit (unat b div 16), hex_digit (unat b mod 16)]"

text \<open>\<open>Inl\<close> is the text of the exception. The digest calls of the library do not fail.\<close>

definition compute_sha256 :: "Files \<Rightarrow> string \<Rightarrow> string + string" where
  "compute_sha256 fs path =
     (case f_bytes fs path of
        None \<Rightarrow> Inl (cannot_open @ path)
      | Some bs \<Rightarrow> Inr (concat (map hex_byte (f_digest fs (digest_loop [] bs)))))"

record PermOwnershipDiff =
  has_diff :: bool
  diff_expected :: string
  diff_actual :: string

definition add_part :: "string \<Rightarrow> string \<Rightarrow> string" where
  "add_part parts p = (if parts \<noteq> [] then parts @ '', '' else parts) @ p"

definition ComparePermOwnership :: "u32 \<Rightarrow> u32 \<Rightarrow> u32 \<Rightarrow> string \<Rightarrow> int \<Rightarrow> int \<Rightarrow> PermOwnershipDiff" where
  "ComparePermOwnership actual_mode actual_uid actual_gid expected_perm expected_uid expected_gid =
     (let actual_perm = mode_to_string actual_mode;
          perm_diff = (actual_perm \<noteq> expected_perm);
          uid_diff = (uint actual_uid \<noteq> expected_uid);
          gid_diff = (uint actual_gid \<noteq> expected_gid)
      in if \<not> perm_diff \<and> \<not> uid_diff \<and> \<not> gid_diff then \<lparr>has_diff = False, diff_expected = [], diff_actual = []\<rparr>
         else
           (let e1 = (if perm_diff then ''mode='' @ expected_perm else []);
                a1 = (if perm_diff then ''mode='' @ actual_perm else []);
                e2 = (if uid_diff then add_part e1 (''uid='' @ dec_of_int expected_uid) else e1);
                a2 = (if uid_diff then add_part a1 (''uid='' @ dec_of_int (uint actual_uid)) else a1);
                e3 = (if gid_diff then add_part e2 (''gid='' @ dec_of_int expected_gid) else e2);
                a3 = (if gid_diff then add_part a2 (''gid='' @ dec_of_int (uint actual_gid)) else a2)
            in \<lparr>has_diff = True, diff_expected = e3, diff_actual = a3\<rparr>))"

text \<open>\<open>None\<close> is the result \<open>false\<close>.\<close>

definition ParseSinceSpec :: "string \<Rightarrow> int option" where
  "ParseSinceSpec spec =
     (if length spec < 2 then None
      else (case (if last spec = CHR ''s'' then Some 1 else if last spec = CHR ''m'' then Some 60
                  else if last spec = CHR ''h'' then Some 3600 else if last spec = CHR ''d'' then Some 86400 else None) of
              None \<Rightarrow> None
            | Some multiplier \<Rightarrow>
                (let num_part = butlast spec
                 in if num_part = [] \<or> \<not> list_all c_isdigit num_part then None
                    else (case stoll_digits num_part of
                            None \<Rightarrow> None
                          | Some value \<Rightarrow>
                              (if value \<le> 0 \<or> value > LLONG_MAX div multiplier then None
                               else Some (value * multiplier))))))"

section \<open>Names\<close>

definition stringToAction :: "string \<Rightarrow> Action" where
  "stringToAction str =
     (if str = ''allow'' then ACT_LOG
      else if str = ''block'' then ACT_BLOCK
      else if str = ''alert'' then ACT_ALERT
      else if str = ''kill'' then ACT_KILL
      else if str = ''throttle'' then ACT_THROTTLE
      else ACT_UNKNOWN)"

fun actionToString :: "Action \<Rightarrow> string" where
  "actionToString ACT_LOG = ''allow''"
| "actionToString ACT_BLOCK = ''block''"
| "actionToString ACT_ALERT = ''alert''"
| "actionToString ACT_KILL = ''kill''"
| "actionToString ACT_THROTTLE = ''throttle''"
| "actionToString ACT_UNKNOWN = ''unknown''"

definition stringToSeverity :: "string \<Rightarrow> u8" where
  "stringToSeverity s =
     (if s = ''low'' then SEVERITY_LOW
      else if s = ''medium'' then SEVERITY_MEDIUM
      else if s = ''high'' then SEVERITY_HIGH
      else if s = ''critical'' then SEVERITY_CRITICAL
      else SEVERITY_UNKNOWN)"

definition severityToString :: "u8 \<Rightarrow> string" where
  "severityToString sev =
     (if sev = SEVERITY_LOW then ''low''
      else if sev = SEVERITY_MEDIUM then ''medium''
      else if sev = SEVERITY_HIGH then ''high''
      else if sev = SEVERITY_CRITICAL then ''critical''
      else ''unknown'')"

definition compute_ino :: "Files \<Rightarrow> MonRule \<Rightarrow> MonRule" where
  "compute_ino fs rule =
     (let target_path = (if check_path rule = [] then monitor_path rule else check_path rule)
      in if target_path = [] then rule\<lparr>mr_ino := 0\<rparr>
         else (case f_stat fs target_path of
                 Some st \<Rightarrow> rule\<lparr>mr_ino := st_ino st\<rparr>
               | None \<Rightarrow> rule\<lparr>mr_ino := 0\<rparr>))"

definition compute_inodes :: "Files \<Rightarrow> MonRule list \<Rightarrow> MonRule list" where
  "compute_inodes fs rules = map (compute_ino fs) rules"

section \<open>Baseline entries and deviations\<close>

record SnapshotEntry =
  en_file_path :: string
  en_file_type :: string
  en_hash :: string
  en_permission :: string
  en_uid :: int
  en_gid :: int
  en_owner :: string
  en_grp :: string
  en_file_size :: int
  en_mtime :: int

record CheckEntry = SnapshotEntry +
  en_snapshot_id :: string
  en_label :: string
  en_recorded_at :: string

record BaselineDeviation =
  dev_event_type :: string
  dev_severity :: string
  dev_expected :: string
  dev_actual :: string

definition short_hash :: "string \<Rightarrow> string" where
  "short_hash h = ''sha256:'' @ substr h 0 16 @ ''...''"

definition CompareWithBaseline :: "Files \<Rightarrow> CheckEntry \<Rightarrow> string \<Rightarrow> BaselineDeviation list" where
  "CompareWithBaseline fs baseline file_path =
     (case f_lstat fs file_path of
        None \<Rightarrow> [\<lparr>dev_event_type = ''missing'', dev_severity = ''high'', dev_expected = ''file exists'',
                 dev_actual = ''file missing''\<rparr>]
      | Some st \<Rightarrow>
          (case compute_sha256 fs file_path of
             Inl what \<Rightarrow> [\<lparr>dev_event_type = ''access_failed'', dev_severity = ''medium'',
                         dev_expected = ''hash computable'', dev_actual = ''error: '' @ what\<rparr>]
           | Inr actual_hash \<Rightarrow>
               (let diff = ComparePermOwnership (and (st_mode st) 0x1FF) (st_uid st) (st_gid st)
                             (en_permission baseline) (en_uid baseline) (en_gid baseline)
                in (if actual_hash \<noteq> en_hash baseline
                    then [\<lparr>dev_event_type = ''hash_changed'', dev_severity = ''high'',
                           dev_expected = short_hash (en_hash baseline), dev_actual = short_hash actual_hash\<rparr>] else []) @
                   (if has_diff diff
                    then [\<lparr>dev_event_type = ''perm_changed'', dev_severity = ''medium'',
                           dev_expected = diff_expected diff, dev_actual = diff_actual diff\<rparr>] else []))))"

end
