(* ===== verification/Json_Value.thy ===== *)
theory Json_Value
  imports Json_Utf8
begin

text \<open>
  JSON values as the program builds them with its JSON library (nlohmann): \<open>j[key] = v\<close> on an
  object whose keys are kept in byte order, \<open>push_back\<close> on arrays, and \<open>dump()\<close>, which throws
  \<open>type_error\<close> 316 when a string is not well-formed UTF-8 (\<open>None\<close>). The literal of a
  well-formed string is the one the agent's own serialisation writes.
\<close>

datatype json =
    JNull
  | JInt int
  | JStr string
  | JArr "json list"
  | JObj "(string \<times> json) list"

section \<open>Building values\<close>

text \<open>A null value becomes an object; the other kinds are never indexed with a key.\<close>

fun json_put :: "string \<Rightarrow> json \<Rightarrow> json \<Rightarrow> json" where
  "json_put k v (JObj m) = JObj (map_put k v m)"
| "json_put k v _ = JObj [(k, v)]"

fun json_get :: "string \<Rightarrow> json \<Rightarrow> json option" where
  "json_get k (JObj m) = map_of m k"
| "json_get k _ = None"

definition is_object :: "json \<Rightarrow> bool" where
  "is_object j \<longleftrightarrow> (case j of JObj _ \<Rightarrow> True | _ \<Rightarrow> False)"

section \<open>Text\<close>

definition json_quote :: "string \<Rightarrow> string" where
  "json_quote s = append_json_string [] s"

fun join_with :: "'a list \<Rightarrow> 'a list list \<Rightarrow> 'a list" where
  "join_with sep [] = []"
| "join_with sep [x] = x"
| "join_with sep (x # y # r) = x @ sep @ join_with sep (y # r)"

fun json_text :: "json \<Rightarrow> string" where
  "json_text JNull = ''null''"
| "json_text (JInt i) = dec_of_int i"
| "json_text (JStr s) = json_quote s"
| "json_text (JArr xs) = ''['' @ join_with '','' (map json_text xs) @ '']''"
| "json_text (JObj m) = ''{'' @ join_with '','' (map (\<lambda>f. json_quote (fst f) @ '':'' @ json_text (snd f)) m) @ ''}''"

fun json_ok :: "json \<Rightarrow> bool" where
  "json_ok JNull \<longleftrightarrow> True"
| "json_ok (JInt i) \<longleftrightarrow> True"
| "json_ok (JStr s) \<longleftrightarrow> utf8_valid s"
| "json_ok (JArr xs) \<longleftrightarrow> list_all json_ok xs"
| "json_ok (JObj m) \<longleftrightarrow> list_all (\<lambda>f. utf8_valid (fst f) \<and> json_ok (snd f)) m"

definition dump :: "json \<Rightarrow> string option" where
  "dump j = (if json_ok j then Some (json_text j) else None)"

end
