(* ===== verification/File_Alerts.thy ===== *)
theory File_Alerts
  imports Baseline_Check Json_Value Rule_Sets Whitelist Process_Tree
begin

text \<open>
  What the agent does with a file event (\<open>src/src/baseline/monitor.cpp\<close>): whitelists, the alert
  of every rule of the inode, the comparison with the rule's own check and, with a baseline
  database, the comparison with the baseline entry. Log lines are left out. The pointer to
  the alert manager is never null in the two loops that call this code. Every answer of the
  outside world, at every call and for every rule, is an argument of its own.
\<close>

section \<open>Actors\<close>

record FileActorContext =
  fa_uid :: u32
  fa_gid :: u32
  fa_ppid :: u32
  fa_user_name :: string
  fa_exe :: string
  fa_container_id :: string
  fa_ancestors :: "json option"
  fa_ancestors_json :: string
  fa_valid :: bool

definition empty_actor :: FileActorContext where
  "empty_actor = \<lparr>fa_uid = 0, fa_gid = 0, fa_ppid = 0, fa_user_name = [], fa_exe = [], fa_container_id = [],
     fa_ancestors = None, fa_ancestors_json = [], fa_valid = False\<rparr>"

text \<open>\<open>iss >> n\<close> with an \<open>int\<close>: 0 when there is no number, the bound when it is out of range.\<close>

definition read_int :: "string \<Rightarrow> int" where
  "read_int s =
     (let s1 = dropWhile c_isspace s;
          neg = (s1 \<noteq> [] \<and> hd s1 = CHR ''-'');
          s2 = (if s1 \<noteq> [] \<and> (hd s1 = CHR ''-'' \<or> hd s1 = CHR ''+'') then tl s1 else s1);
          ds = takeWhile c_isdigit s2;
          n = int (nat_of_dec ds)
      in if neg then max (- n) (- 2147483648) else min n 2147483647)"

text \<open>The name and the uid; \<open>passwd\<close> is \<open>getpwuid\<close>.\<close>

definition ResolveUserInfoByPid :: "ProcFs \<Rightarrow> (int \<Rightarrow> string option) \<Rightarrow> int \<Rightarrow> string \<times> string" where
  "ResolveUserInfoByPid fs passwd pid =
     (if pid \<le> 0 then ([], [])
      else (case fs_status fs pid of
              None \<Rightarrow> ([], [])
            | Some ls \<Rightarrow>
               (case find (starts_with ''Uid:'') ls of
                  None \<Rightarrow> ([], [])
                | Some line \<Rightarrow>
                   (let raw_uid = (case read_word line of None \<Rightarrow> 0 | Some (_, r) \<Rightarrow> read_int r)
                    in if raw_uid > 0 then (case_option [] id (passwd raw_uid), dec_of_int raw_uid) else ([], [])))))"

definition user_of :: "ProcFs \<Rightarrow> (int \<Rightarrow> string option) \<Rightarrow> int \<Rightarrow> FileActorContext option \<Rightarrow> string \<times> string" where
  "user_of fs passwd pid actor =
     (case actor of
        Some a \<Rightarrow> (fa_user_name a, dec_of_int (uint (fa_uid a)))
      | None \<Rightarrow> ResolveUserInfoByPid fs passwd pid)"

definition actor_ancestor_exes :: "json \<Rightarrow> string list" where
  "actor_ancestor_exes ancestors =
     (case ancestors of
        JArr xs \<Rightarrow> concat (map (\<lambda>a. case json_get ''exe'' a of Some (JStr s) \<Rightarrow> [s] | _ \<Rightarrow> []) xs)
      | _ \<Rightarrow> [])"

text \<open>The fields every alert takes from the actor.\<close>

definition with_actor :: "FileActorContext option \<Rightarrow> AlertEvent \<Rightarrow> AlertEvent" where
  "with_actor actor e =
     (case actor of
        None \<Rightarrow> e
      | Some a \<Rightarrow> e\<lparr>ae_exe := fa_exe a, ae_container_id := fa_container_id a, ae_ancestors := fa_ancestors_json a\<rparr>)"

section \<open>Violations of rules\<close>

definition violation_alert ::
  "string \<Rightarrow> MonRule \<Rightarrow> string \<Rightarrow> string \<Rightarrow> string \<Rightarrow> int \<Rightarrow> string \<times> string \<Rightarrow> FileActorContext option \<Rightarrow> AlertEvent" where
  "violation_alert now_string rule file_path actual_mode proc_name pid user actor =
     with_actor actor (empty_alert\<lparr>ae_rule_id := mr_id rule, ae_rule_name := mr_name rule,
       ae_severity := severityToString (mr_severity rule), ae_file_path := file_path,
       ae_expected := mode_to_string (check_expected rule), ae_actual := actual_mode, ae_process_name := proc_name,
       ae_pid := pid, ae_user_name := fst user, ae_uid := snd user, ae_timestamp := now_string,
       ae_event_type := actual_mode, ae_action_taken := actionToString (monitor_action rule)\<rparr>)"

text \<open>\<open>user\<close> names the user, \<open>now\<close> is the clock of \<open>ThrottledNow\<close>; the world answers the send
  operation.\<close>

definition on_violation_detected ::
  "(FileActorContext option \<Rightarrow> string \<times> string) \<Rightarrow> int \<Rightarrow> World \<Rightarrow> MonRule \<Rightarrow> string \<Rightarrow> string \<Rightarrow> string \<Rightarrow> int \<Rightarrow>
     FileActorContext option \<Rightarrow> AlertManager \<Rightarrow> AlertManager" where
  "on_violation_detected user now w rule file_path actual_mode proc_name pid actor m =
     (if ThrottledNow (mr_id rule) now m then NoteThrottled (mr_id rule) m
      else snd (SendDingTalk w
             (violation_alert (w_now_string w) rule file_path actual_mode proc_name pid (user actor) actor) m))"

definition mismatch_alert ::
  "string \<Rightarrow> MonRule \<Rightarrow> string \<Rightarrow> u32 \<Rightarrow> string \<Rightarrow> string \<Rightarrow> int \<Rightarrow> string \<times> string \<Rightarrow> FileActorContext option \<Rightarrow> AlertEvent" where
  "mismatch_alert now_string rule file_path actual_mode actual_hash proc_name pid user actor =
     (let expected_perm = (check_expected rule \<noteq> 0)
      in with_actor actor (empty_alert\<lparr>ae_rule_id := mr_id rule, ae_rule_name := mr_name rule,
           ae_severity := severityToString (mr_severity rule), ae_file_path := file_path,
           ae_expected := (if expected_perm then mode_to_string (check_expected rule) else ''-'') @
             (if check_hash rule \<noteq> [] then ''|hash='' @ check_hash rule else []),
           ae_actual := (if expected_perm then mode_to_string actual_mode else ''-'') @
             (if check_hash rule \<noteq> [] then ''|hash='' @ actual_hash else []),
           ae_process_name := proc_name, ae_pid := pid, ae_user_name := fst user, ae_uid := snd user,
           ae_timestamp := now_string, ae_event_type := ''check_mismatch'',
           ae_action_taken := actionToString (monitor_action rule)\<rparr>))"

definition on_check_mismatch_detected ::
  "(FileActorContext option \<Rightarrow> string \<times> string) \<Rightarrow> Files \<Rightarrow> World \<Rightarrow> MonRule \<Rightarrow> string \<Rightarrow> string \<Rightarrow> int \<Rightarrow>
     FileActorContext option \<Rightarrow> AlertManager \<Rightarrow> AlertManager" where
  "on_check_mismatch_detected user fs w rule file_path proc_name pid actor m =
     (if \<not> has_check rule \<or> check_path rule = [] \<or> check_path rule \<noteq> file_path then m
      else (case f_stat fs file_path of
              None \<Rightarrow> m
            | Some st \<Rightarrow>
               (case compute_sha256 fs file_path of
                  Inl _ \<Rightarrow> m
                | Inr actual_hash \<Rightarrow>
                   (let actual_mode = and (st_mode st) 0x1FF;
                        permission_match = (check_expected rule \<noteq> 0 \<longrightarrow> actual_mode = check_expected rule);
                        hash_match = (check_hash rule \<noteq> [] \<longrightarrow> actual_hash = check_hash rule)
                    in if permission_match \<and> hash_match then m
                       else snd (SendDingTalk w (mismatch_alert (w_now_string w) rule file_path actual_mode
                              actual_hash proc_name pid (user actor) actor) m)))))"

section \<open>Deviations from the baseline\<close>

definition kBaselineRuleId :: string where "kBaselineRuleId = ''baseline''"
definition kBaselineRuleName :: string where
  "kBaselineRuleName = utf8_bytes [0xE5, 0x9F, 0xBA, 0xE7, 0xBA, 0xBF, 0xE7, 0x9B, 0x91, 0xE6, 0x8E, 0xA7]"
definition kBaselineCheckRuleId :: string where "kBaselineCheckRuleId = ''baseline-check''"
definition kBaselineCheckRuleName :: string where
  "kBaselineCheckRuleName = utf8_bytes [0xE5, 0x9F, 0xBA, 0xE7, 0xBA, 0xBF, 0xE8, 0x87, 0xAA, 0xE6, 0xA3, 0x80, 0xE6, 0xA0,
     0xB8, 0xE6, 0x9F, 0xA5]"

text \<open>The rule id is compared as a pointer; the literals of equal text are one object.\<close>

definition deviation_alert ::
  "string \<Rightarrow> BaselineDeviation \<Rightarrow> string \<Rightarrow> string \<Rightarrow> int \<Rightarrow> string \<Rightarrow> FileActorContext option \<Rightarrow> AlertEvent" where
  "deviation_alert now_string dev file_path proc_name pid rule_id actor =
     (let e = with_actor actor (empty_alert\<lparr>ae_rule_id := rule_id,
            ae_rule_name := (if rule_id = kBaselineRuleId then kBaselineRuleName else kBaselineCheckRuleName),
            ae_severity := dev_severity dev, ae_file_path := file_path, ae_expected := dev_expected dev,
            ae_actual := dev_actual dev, ae_event_type := dev_event_type dev, ae_process_name := proc_name,
            ae_pid := pid, ae_action_taken := ''alert'', ae_timestamp := now_string\<rparr>)
      in case actor of
           None \<Rightarrow> e
         | Some a \<Rightarrow> e\<lparr>ae_user_name := fa_user_name a, ae_uid := dec_of_int (uint (fa_uid a))\<rparr>)"

definition HandleBaselineDeviation ::
  "World \<Rightarrow> BaselineDeviation \<Rightarrow> string \<Rightarrow> string \<Rightarrow> int \<Rightarrow> string \<Rightarrow> FileActorContext option \<Rightarrow> AlertManager \<Rightarrow> AlertManager" where
  "HandleBaselineDeviation w dev file_path proc_name pid rule_id actor m =
     snd (SendDingTalk w (deviation_alert (w_now_string w) dev file_path proc_name pid rule_id actor) m)"

text \<open>The deviation a change of mode or owner announces, from the new values in the event.\<close>

definition attr_deviation :: "FileEvent \<Rightarrow> CheckEntry \<Rightarrow> BaselineDeviation option" where
  "attr_deviation e baseline =
     (if ev_event_type e = EVENT_CHMOD then
        (let actual_perm = mode_to_string (and (ev_new_mode e) 0x1FF)
         in if actual_perm \<noteq> en_permission baseline
            then Some \<lparr>dev_event_type = ''perm_changed'', dev_severity = ''medium'',
                   dev_expected = ''mode='' @ en_permission baseline, dev_actual = ''mode='' @ actual_perm\<rparr>
            else None)
      else if ev_event_type e = EVENT_CHOWN then
        (let uid_diff = (uint (ev_new_uid e) \<noteq> en_uid baseline);
             gid_diff = (uint (ev_new_gid e) \<noteq> en_gid baseline)
         in if uid_diff \<or> gid_diff then
              (let e1 = (if uid_diff then ''uid='' @ dec_of_int (en_uid baseline) else []);
                   a1 = (if uid_diff then ''uid='' @ dec_of_int (uint (ev_new_uid e)) else []);
                   e2 = (if gid_diff then add_part e1 (''gid='' @ dec_of_int (en_gid baseline)) else e1);
                   a2 = (if gid_diff then add_part a1 (''gid='' @ dec_of_int (uint (ev_new_gid e))) else a1)
               in Some \<lparr>dev_event_type = ''own_changed'', dev_severity = ''medium'', dev_expected = e2, dev_actual = a2\<rparr>)
            else None)
      else None)"

definition handle_chmod_chown_event ::
  "World \<Rightarrow> (u64 \<times> CheckEntry) list \<Rightarrow> FileEvent \<Rightarrow> FileActorContext option \<Rightarrow> AlertManager \<Rightarrow> AlertManager" where
  "handle_chmod_chown_event w baselines e actor m =
     (case map_of baselines (ev_ino e) of
        None \<Rightarrow> m
      | Some baseline \<Rightarrow>
          (case attr_deviation e baseline of
             None \<Rightarrow> m
           | Some dev \<Rightarrow> HandleBaselineDeviation w dev (en_file_path baseline) (c_str (ev_comm e))
                           (int_of_u32 (ev_pid e)) kBaselineRuleId actor m))"

definition unlink_deviation :: BaselineDeviation where
  "unlink_deviation = \<lparr>dev_event_type = ''missing'', dev_severity = ''high'', dev_expected = ''file exists'',
     dev_actual = ''file deleted (unlink detected by eBPF)''\<rparr>"

section \<open>The handler\<close>

text \<open>The state the handler works on; the snapshots of rules, whitelist and engine are replaced as a
  whole by a reload.\<close>

record Monitor =
  mo_alerts :: AlertManager
  mo_rules :: FileRuleTable
  mo_whitelist :: WhitelistTable
  mo_matcher :: WhitelistMatcher
  mo_baselines :: "(u64 \<times> CheckEntry) list"
  mo_last_check :: "u64 \<rightharpoonup> int"

text \<open>What is answered while one rule is handled: \<open>/proc\<close> for the whitelist, the clock and the world
  of the violation, then the files and the world of the check, and the users each names.\<close>

record RuleAnswers =
  ra_procfs :: ProcFs
  ra_now :: int
  ra_user_fs :: ProcFs
  ra_passwd :: "int \<Rightarrow> string option"
  ra_world :: World
  ra_files :: Files
  ra_check_user_fs :: ProcFs
  ra_check_world :: World

record EventAnswers =
  xa_attr_world :: World
  xa_rule :: "nat \<Rightarrow> RuleAnswers"
  xa_now :: int
  xa_files :: Files
  xa_dev_world :: "nat \<Rightarrow> World"

definition has_mask :: "FileEvent \<Rightarrow> u8 \<Rightarrow> bool" where
  "has_mask e b \<longleftrightarrow> and (ev_mask e) (ucast b) \<noteq> 0"

definition rule_suppressed :: "RuleAnswers \<Rightarrow> FileEvent \<Rightarrow> FileActorContext option \<Rightarrow> MonRule \<Rightarrow> Monitor \<Rightarrow> bool \<times> WhitelistMatcher" where
  "rule_suppressed ra e actor rule st =
     (if mo_whitelist st = [] then (False, mo_matcher st)
      else (case actor of
              Some a \<Rightarrow>
                (if fa_exe a \<noteq> [] then
                   match_known (mo_whitelist st) rule (int_of_u32 (ev_pid e)) (ev_start_time e) (fa_exe a)
                     (actor_ancestor_exes (case fa_ancestors a of Some j \<Rightarrow> j | None \<Rightarrow> JArr [])) (mo_matcher st)
                 else match_proc (ra_procfs ra) (mo_whitelist st) rule (int_of_u32 (ev_pid e)) (mo_matcher st))
            | None \<Rightarrow> match_proc (ra_procfs ra) (mo_whitelist st) rule (int_of_u32 (ev_pid e)) (mo_matcher st)))"

definition handle_rule ::
  "RuleAnswers \<Rightarrow> FileEvent \<Rightarrow> FileActorContext option \<Rightarrow> string option \<Rightarrow> MonRule \<Rightarrow> Monitor \<Rightarrow> Monitor" where
  "handle_rule ra e actor path rule st =
     (case rule_suppressed ra e actor rule st of
        (True, wl) \<Rightarrow> st\<lparr>mo_matcher := wl\<rparr>
      | (False, wl) \<Rightarrow>
          (let st1 = st\<lparr>mo_matcher := wl\<rparr>
           in case path of
                None \<Rightarrow> st1
              | Some p \<Rightarrow>
                  (let actual_event = (if has_mask e EVENT_READ then ''read'' else ''write'');
                       comm = c_str (ev_comm e); pid = int_of_u32 (ev_pid e);
                       m1 = on_violation_detected (user_of (ra_user_fs ra) (ra_passwd ra) pid) (ra_now ra) (ra_world ra) rule p
                              actual_event comm pid actor
                              (mo_alerts st1);
                       m2 = (if has_mask e EVENT_WRITE
                             then on_check_mismatch_detected (user_of (ra_check_user_fs ra) (ra_passwd ra) pid) (ra_files ra)
                                    (ra_check_world ra) rule p comm pid actor m1
                             else m1)
                   in st1\<lparr>mo_alerts := m2\<rparr>)))"

fun rule_loop ::
  "(nat \<Rightarrow> RuleAnswers) \<Rightarrow> FileEvent \<Rightarrow> FileActorContext option \<Rightarrow> string option \<Rightarrow> nat \<Rightarrow> MonRule list \<Rightarrow> Monitor \<Rightarrow> Monitor" where
  "rule_loop ra e actor path i [] st = st"
| "rule_loop ra e actor path i (rule # rs) st = rule_loop ra e actor path (i + 1) rs (handle_rule (ra i) e actor path rule st)"

fun deviation_loop ::
  "(nat \<Rightarrow> World) \<Rightarrow> FileEvent \<Rightarrow> FileActorContext option \<Rightarrow> string \<Rightarrow> nat \<Rightarrow> BaselineDeviation list \<Rightarrow> AlertManager \<Rightarrow> AlertManager" where
  "deviation_loop w e actor path i [] m = m"
| "deviation_loop w e actor path i (dev # devs) m =
     deviation_loop w e actor path (i + 1) devs
       (HandleBaselineDeviation (w i) dev path (c_str (ev_comm e)) (int_of_u32 (ev_pid e)) kBaselineRuleId actor m)"

definition baseline_compare :: "EventAnswers \<Rightarrow> FileEvent \<Rightarrow> FileActorContext option \<Rightarrow> Monitor \<Rightarrow> Monitor" where
  "baseline_compare xa e actor st =
     (if mo_baselines st \<noteq> [] \<and> (ev_event_type e \<noteq> 0 \<or> has_mask e EVENT_WRITE) then
        (case map_of (mo_baselines st) (ev_ino e) of
           None \<Rightarrow> st
         | Some baseline \<Rightarrow>
             (if (case mo_last_check st (ev_ino e) of None \<Rightarrow> False | Some t \<Rightarrow> whole_seconds (xa_now xa - t) < 2) then st
              else st\<lparr>mo_last_check := (mo_last_check st)(ev_ino e \<mapsto> xa_now xa),
                mo_alerts := deviation_loop (xa_dev_world xa) e actor (en_file_path baseline) 0
                  (CompareWithBaseline (xa_files xa) baseline (en_file_path baseline)) (mo_alerts st)\<rparr>))
      else st)"

definition file_rules_part :: "EventAnswers \<Rightarrow> FileEvent \<Rightarrow> FileActorContext option \<Rightarrow> Monitor \<Rightarrow> Monitor" where
  "file_rules_part xa e actor st =
     (case map_of (inode_to_rules (mo_rules st)) (ev_ino e) of
        None \<Rightarrow> st
      | Some rules \<Rightarrow> rule_loop (xa_rule xa) e actor (map_of (inode_to_path (mo_rules st)) (ev_ino e)) 0 rules st)"

definition process_event_core :: "EventAnswers \<Rightarrow> FileEvent \<Rightarrow> FileActorContext option \<Rightarrow> Monitor \<Rightarrow> Monitor" where
  "process_event_core xa e actor st =
     (if mo_baselines st \<noteq> [] \<and> (ev_event_type e = EVENT_CHMOD \<or> ev_event_type e = EVENT_CHOWN)
      then st\<lparr>mo_alerts := handle_chmod_chown_event (xa_attr_world xa) (mo_baselines st) e actor (mo_alerts st)\<rparr>
      else if mo_baselines st \<noteq> [] \<and> ev_event_type e = EVENT_UNLINK
      then (case map_of (mo_baselines st) (ev_ino e) of
              None \<Rightarrow> st
            | Some baseline \<Rightarrow>
                st\<lparr>mo_alerts := HandleBaselineDeviation (xa_attr_world xa) unlink_deviation (en_file_path baseline)
                     (c_str (ev_comm e)) (int_of_u32 (ev_pid e)) kBaselineRuleId actor (mo_alerts st)\<rparr>)
      else baseline_compare xa e actor (file_rules_part xa e actor st))"

section \<open>The perf buffer path and the reload\<close>

definition build_file_actor_fallback :: "ProcFs \<Rightarrow> (int \<Rightarrow> string option) \<Rightarrow> FileEvent \<Rightarrow> FileActorContext" where
  "build_file_actor_fallback fs passwd e =
     empty_actor\<lparr>fa_uid := ev_uid e, fa_gid := ev_gid e,
       fa_user_name := (case passwd (uint (ev_uid e)) of Some n \<Rightarrow> n | None \<Rightarrow> []),
       fa_exe := exe_path_of fs (int_of_u32 (ev_pid e)), fa_container_id := container_id_of fs (int_of_u32 (ev_pid e))\<rparr>"

text \<open>The events of a batch with the answers each gets.\<close>

definition FlushEventBatch :: "((ProcFs \<times> (int \<Rightarrow> string option) \<times> EventAnswers) \<times> FileEvent) list \<Rightarrow> Monitor \<Rightarrow> Monitor" where
  "FlushEventBatch batch st =
     fold (\<lambda>((fs, passwd, xa), e) st. process_event_core xa e (Some (build_file_actor_fallback fs passwd e)) st) batch st"

text \<open>What a reload parses: the rules and the notification settings; \<open>None\<close> is a configuration or a
  rule directory that cannot be read.\<close>

definition reload_monitor_config :: "Files \<Rightarrow> int \<Rightarrow> (MonRule list \<times> NotifyConfig) option \<Rightarrow> Monitor \<Rightarrow> Monitor" where
  "reload_monitor_config fs now parsed st =
     (case parsed of
        None \<Rightarrow> st
      | Some (rules, notify) \<Rightarrow>
          st\<lparr>mo_rules := build_file_rules (compute_inodes fs rules), mo_whitelist := build_table (compute_inodes fs rules),
             mo_matcher := clear_cache (mo_matcher st), mo_alerts := UpdateNotifyConfig notify now (mo_alerts st)\<rparr>)"

end
