(* ===== verification/File_Alerts_Correct.thy ===== *)
theory File_Alerts_Correct
  imports File_Alerts Alert_Manager_Correct Whitelist_Correct
begin

text \<open>
  Every rule of an inode is handled on its own unless the answer its process gets from the
  whitelist or from the cache of answers suppresses it; everything the handlers do to the alert
  manager is a sequence of its steps, so what holds of every run of the alert manager holds of
  file events. The check of a rule shares the throttle window of its
  violations, the deviations of one comparison share one window, and comparisons are
  debounced per inode.
\<close>

section \<open>The rule table\<close>

definition rules_of_inode :: "u64 \<Rightarrow> MonRule list \<Rightarrow> MonRule list" where
  "rules_of_inode ino rules = filter (\<lambda>r. monitored r \<and> mr_ino r = ino) rules"

definition option_of_list :: "'a list \<Rightarrow> 'a list option" where
  "option_of_list xs = (if xs = [] then None else Some xs)"

lemma add_file_rule_entries:
  "map_of (inode_to_rules (add_file_rule r t)) ino =
     (if monitored r \<and> mr_ino r = ino then Some (entry_list (inode_to_rules t) ino @ [r]) else map_of (inode_to_rules t) ino)"
  "map_of (inode_to_path (add_file_rule r t)) ino =
     (if monitored r \<and> mr_ino r = ino then Some (monitor_path r) else map_of (inode_to_path t) ino)"
  by (auto simp: add_file_rule_def Let_def update_conv')

lemma build_file_rules_entries:
  "map_of (inode_to_rules (build_file_rules rules)) ino = option_of_list (rules_of_inode ino rules) \<and>
   map_of (inode_to_path (build_file_rules rules)) ino =
     (if rules_of_inode ino rules = [] then None else Some (monitor_path (last (rules_of_inode ino rules))))"
proof (induction rules rule: rev_induct)
  case Nil
  then show ?case by (simp add: build_file_rules_def rules_of_inode_def option_of_list_def)
next
  case (snoc r rules)
  have "build_file_rules (rules @ [r]) = add_file_rule r (build_file_rules rules)"
    by (simp add: build_file_rules_def)
  with snoc show ?case
    by (auto simp: add_file_rule_entries rules_of_inode_def option_of_list_def entry_list_def)
qed

section \<open>Handlers as steps of the alert manager\<close>

definition mismatch :: "Files \<Rightarrow> MonRule \<Rightarrow> string \<Rightarrow> (u32 \<times> string) option" where
  "mismatch fs rule path =
     (if \<not> has_check rule \<or> check_path rule = [] \<or> check_path rule \<noteq> path then None
      else (case (f_stat fs path, compute_sha256 fs path) of
              (Some st, Inr h) \<Rightarrow>
                (if (check_expected rule \<noteq> 0 \<longrightarrow> and (st_mode st) 0x1FF = check_expected rule) \<and>
                    (check_hash rule \<noteq> [] \<longrightarrow> h = check_hash rule) then None
                 else Some (and (st_mode st) 0x1FF, h))
            | _ \<Rightarrow> None))"

definition violation_of :: "RuleAnswers \<Rightarrow> FileEvent \<Rightarrow> FileActorContext option \<Rightarrow> string \<Rightarrow> MonRule \<Rightarrow> AlertEvent" where
  "violation_of ra e actor path rule =
     violation_alert (w_now_string (ra_world ra)) rule path (if has_mask e EVENT_READ then ''read'' else ''write'')
       (c_str (ev_comm e)) (int_of_u32 (ev_pid e)) (user_of (ra_user_fs ra) (ra_passwd ra) (int_of_u32 (ev_pid e)) actor) actor"

definition mismatch_of :: "RuleAnswers \<Rightarrow> FileEvent \<Rightarrow> FileActorContext option \<Rightarrow> string \<Rightarrow> MonRule \<Rightarrow> u32 \<times> string \<Rightarrow> AlertEvent" where
  "mismatch_of ra e actor path rule found =
     mismatch_alert (w_now_string (ra_check_world ra)) rule path (fst found) (snd found) (c_str (ev_comm e))
       (int_of_u32 (ev_pid e)) (user_of (ra_check_user_fs ra) (ra_passwd ra) (int_of_u32 (ev_pid e)) actor) actor"

definition rule_ops :: "RuleAnswers \<Rightarrow> FileEvent \<Rightarrow> FileActorContext option \<Rightarrow> string \<Rightarrow> MonRule \<Rightarrow> AlertOp list" where
  "rule_ops ra e actor path rule =
     RaiseAlert (ra_now ra) (ra_world ra) (violation_of ra e actor path rule) #
     (if has_mask e EVENT_WRITE then
        (case mismatch (ra_files ra) rule path of
           None \<Rightarrow> []
         | Some found \<Rightarrow> [SendAlert (ra_check_world ra) (mismatch_of ra e actor path rule found)])
      else [])"

lemma violation_rule_id [simp]: "ae_rule_id (violation_alert s rule p a c pid u actor) = mr_id rule"
  by (simp add: violation_alert_def with_actor_def split: option.split)

lemma mismatch_rule_id [simp]: "ae_rule_id (mismatch_alert s rule p md h c pid u actor) = mr_id rule"
  by (simp add: mismatch_alert_def with_actor_def Let_def split: option.split)

lemma on_violation_step: "on_violation_detected user now w rule p a c pid actor m =
    alert_step (RaiseAlert now w (violation_alert (w_now_string w) rule p a c pid (user actor) actor)) m"
  by (simp add: on_violation_detected_def raise_alert_def)

lemma on_mismatch_step: "on_check_mismatch_detected user fs w rule p c pid actor m =
    (case mismatch fs rule p of
       None \<Rightarrow> m
     | Some found \<Rightarrow>
         alert_step (SendAlert w (mismatch_alert (w_now_string w) rule p (fst found) (snd found) c pid (user actor) actor)) m)"
  by (auto simp: on_check_mismatch_detected_def mismatch_def Let_def split: option.splits sum.splits)

lemma handle_rule_steps:
  "handle_rule ra e actor (Some p) rule st =
     (let (s, wl) = rule_suppressed ra e actor rule st
      in st\<lparr>mo_matcher := wl,
           mo_alerts := (if s then mo_alerts st else fold alert_step (rule_ops ra e actor p rule) (mo_alerts st))\<rparr>)"
  by (auto simp: handle_rule_def rule_ops_def on_violation_step on_mismatch_step violation_of_def mismatch_of_def Let_def
      split: prod.split bool.split option.split)

text \<open>The rules that the whitelist does not suppress, with their positions.\<close>

fun unsuppressed ::
  "(nat \<Rightarrow> RuleAnswers) \<Rightarrow> FileEvent \<Rightarrow> FileActorContext option \<Rightarrow> nat \<Rightarrow> MonRule list \<Rightarrow> Monitor \<Rightarrow> (nat \<times> MonRule) list" where
  "unsuppressed ra e actor i [] st = []"
| "unsuppressed ra e actor i (rule # rs) st =
     (case rule_suppressed (ra i) e actor rule st of
        (s, wl) \<Rightarrow> (if s then [] else [(i, rule)]) @ unsuppressed ra e actor (i + 1) rs (st\<lparr>mo_matcher := wl\<rparr>))"

lemma suppressed_alerts [simp]: "rule_suppressed ra e actor rule (st\<lparr>mo_alerts := m\<rparr>) = rule_suppressed ra e actor rule st"
  by (cases actor) (simp_all add: rule_suppressed_def)

lemma unsuppressed_alerts [simp]: "unsuppressed ra e actor i rs (st\<lparr>mo_alerts := m\<rparr>) = unsuppressed ra e actor i rs st"
proof (induction rs arbitrary: i st m)
  case (Cons r rs)
  have "unsuppressed ra e actor j rs (st\<lparr>mo_alerts := m, mo_matcher := wl\<rparr>) = unsuppressed ra e actor j rs (st\<lparr>mo_matcher := wl\<rparr>)" for j wl
    proof -
    have "st\<lparr>mo_alerts := m, mo_matcher := wl\<rparr> = st\<lparr>mo_matcher := wl, mo_alerts := m\<rparr>" by simp
    then show ?thesis by (simp only: Cons [where st = "st\<lparr>mo_matcher := wl\<rparr>" and m = m])
  qed
  then show ?case by (simp split: prod.split)
qed simp

lemma rule_loop_alerts:
  "mo_alerts (rule_loop ra e actor (Some p) i rs st) =
     fold alert_step (concat (map (\<lambda>(j, rule). rule_ops (ra j) e actor p rule) (unsuppressed ra e actor i rs st))) (mo_alerts st)"
proof (induction rs arbitrary: i st)
  case (Cons r rs)
  obtain s wl where "rule_suppressed (ra i) e actor r st = (s, wl)" by (metis surj_pair)
  then show ?case
    using Cons [where i = "i + 1" and st = "st\<lparr>mo_matcher := wl\<rparr>"]
      Cons [where i = "i + 1" and st = "st\<lparr>mo_matcher := wl, mo_alerts := fold alert_step (rule_ops (ra i) e actor p r) (mo_alerts st)\<rparr>"]
    by (cases s) (simp_all add: handle_rule_steps)
qed simp

section \<open>Which rules the whitelist holds back\<close>

text \<open>
  The process an event is checked for: its executable, those of its ancestors and, when the
  answer may be cached, its start time; \<open>None\<close> is a process that cannot be identified.
\<close>

definition process_on_disk :: "ProcFs \<Rightarrow> int \<Rightarrow> (string \<times> string list \<times> u64 option) option" where
  "process_on_disk fs pid =
     (case parse_proc_stat fs pid of
        None \<Rightarrow> None
      | Some psi \<Rightarrow>
          (if exe_path_of fs pid = [] then None
           else Some (exe_path_of fs pid, collect_ancestors 8 fs [pid] (psi_ppid psi), Some (psi_start_time psi))))"

definition actor_process :: "ProcFs \<Rightarrow> FileEvent \<Rightarrow> FileActorContext option \<Rightarrow> (string \<times> string list \<times> u64 option) option" where
  "actor_process fs e actor =
     (if int_of_u32 (ev_pid e) \<le> 0 then None
      else (case actor of
              None \<Rightarrow> process_on_disk fs (int_of_u32 (ev_pid e))
            | Some a \<Rightarrow>
                (if fa_exe a = [] then process_on_disk fs (int_of_u32 (ev_pid e))
                 else Some (fa_exe a, actor_ancestor_exes (case fa_ancestors a of Some j \<Rightarrow> j | None \<Rightarrow> JArr []),
                        if ev_start_time e = 0 then None else Some (ev_start_time e)))))"

text \<open>
  Whether a rule is held back. An answer cached for the process decides for all rules; where
  there is none but the start time is known, the whitelist of the first rule of the inode
  decides for all of them; otherwise the whitelist of the rule itself.
\<close>

definition held_back :: "ProcFs \<Rightarrow> FileEvent \<Rightarrow> FileActorContext option \<Rightarrow> Monitor \<Rightarrow> MonRule \<Rightarrow> MonRule \<Rightarrow> bool" where
  "held_back fs e actor st first rule \<longleftrightarrow>
     mo_whitelist st \<noteq> [] \<and>
     (case actor_process fs e actor of
        None \<Rightarrow> False
      | Some (exe, ancestors, None) \<Rightarrow> table_match (mo_whitelist st) rule exe ancestors
      | Some (exe, ancestors, Some start) \<Rightarrow>
          (case cache_find (mo_matcher st) (int_of_u32 (ev_pid e), start) of
             Some hit \<Rightarrow> hit
           | None \<Rightarrow> table_match (mo_whitelist st) first exe ancestors))"

lemma rule_suppressed_resolved:
  "rule_suppressed ra e actor rule st =
     (if mo_whitelist st = [] then (False, mo_matcher st)
      else (case actor_process (ra_procfs ra) e actor of
              None \<Rightarrow> (False, mo_matcher st)
            | Some (exe, ancestors, start) \<Rightarrow>
                match_resolved (mo_whitelist st) rule (int_of_u32 (ev_pid e)) (case start of None \<Rightarrow> 0 | Some t \<Rightarrow> t)
                  exe ancestors (start \<noteq> None) (mo_matcher st)))"
  by (auto simp: rule_suppressed_def actor_process_def process_on_disk_def match_known_def match_proc_def Let_def
      split: option.split)

lemma match_resolved_cache_ok: "cache_ok m \<Longrightarrow> cache_ok (snd (match_resolved table rule pid t exe anc c m))"
  using wl_cache.put_inv [of "strip m"] match_resolved_cache [of table rule pid t exe anc c m]
  by (metis strip_simps(1))

lemma rule_suppressed_cache_ok: "cache_ok (mo_matcher st) \<Longrightarrow> cache_ok (snd (rule_suppressed ra e actor rule st))"
  by (auto simp: rule_suppressed_resolved match_resolved_cache_ok split: option.split)

lemma match_resolved_found: "cache_ok m \<Longrightarrow>
    cache_find (snd (match_resolved table rule pid t exe anc True m)) (pid, t) =
      Some (fst (match_resolved table rule pid t exe anc True m))"
  using wl_cache.put_get [of "strip m"] match_resolved_cache [of table rule pid t exe anc True m]
  by (metis strip_simps(1,2) match_resolved_answer)

text \<open>Where the answer for a rule stays the same along the loop, the loop is a filter.\<close>

lemma unsuppressed_filter:
  assumes "\<And>j rule st. Q st \<Longrightarrow> fst (rule_suppressed (ra j) e actor rule st) = P rule \<and>
    Q (st\<lparr>mo_matcher := snd (rule_suppressed (ra j) e actor rule st)\<rparr>)"
  shows "Q st \<Longrightarrow> unsuppressed ra e actor i rs st = filter (\<lambda>(j, rule). \<not> P rule) (enumerate i rs)"
proof (induction rs arbitrary: i st)
  case (Cons r rs)
  obtain s wl where call: "rule_suppressed (ra i) e actor r st = (s, wl)" by (metis surj_pair)
  with assms [OF Cons.prems, of i r] have "s = P r" and "Q (st\<lparr>mo_matcher := wl\<rparr>)" by simp_all
  with Cons.IH [of "st\<lparr>mo_matcher := wl\<rparr>" "Suc i"] show ?case
    by (simp add: call)
qed simp

lemma unsuppressed_cached:
  assumes "actor_process fs e actor = Some (exe, anc, Some t)" and "mo_whitelist st \<noteq> []"
    and "\<And>j. ra_procfs (ra j) = fs"
    and "cache_ok (mo_matcher st)" and "cache_find (mo_matcher st) (int_of_u32 (ev_pid e), t) = Some h"
  shows "unsuppressed ra e actor i rs st = filter (\<lambda>(j, rule). \<not> h) (enumerate i rs)"
proof -
  let ?Q = "\<lambda>st. mo_whitelist st \<noteq> [] \<and> cache_ok (mo_matcher st) \<and>
    cache_find (mo_matcher st) (int_of_u32 (ev_pid e), t) = Some h"
  have "fst (rule_suppressed (ra j) e actor rule st) = h \<and>
      ?Q (st\<lparr>mo_matcher := snd (rule_suppressed (ra j) e actor rule st)\<rparr>)" if "?Q st" for j rule st
    using that assms(1,3) by (simp add: rule_suppressed_resolved match_resolved_cache_ok match_resolved_found)
      (simp add: match_resolved_answer answer_of_def)
  then show ?thesis using assms by (intro unsuppressed_filter [where Q = ?Q]) simp_all
qed

lemma unsuppressed_held_back:
  assumes fs: "\<And>j. ra_procfs (ra j) = fs" and ok: "cache_ok (mo_matcher st)"
  shows "unsuppressed ra e actor i rs st =
    filter (\<lambda>(j, rule). \<not> held_back fs e actor st (hd rs) rule) (enumerate i rs)"
proof (cases "\<exists>exe anc t. mo_whitelist st \<noteq> [] \<and> actor_process fs e actor = Some (exe, anc, Some t)")
  case False
  let ?Q = "\<lambda>st'. mo_whitelist st' = mo_whitelist st"
  have "fst (rule_suppressed (ra j) e actor rule st') = held_back fs e actor st (hd rs) rule \<and>
      ?Q (st'\<lparr>mo_matcher := snd (rule_suppressed (ra j) e actor rule st')\<rparr>)" if "?Q st'" for j rule st'
    using that False fs
    by (auto simp: rule_suppressed_resolved held_back_def match_resolved_answer answer_of_def split: option.split)
  then show ?thesis by (intro unsuppressed_filter [where Q = ?Q]) simp_all
next
  case True
  then obtain exe anc t where wl: "mo_whitelist st \<noteq> []" and known: "actor_process fs e actor = Some (exe, anc, Some t)"
    by blast
  show ?thesis
  proof (cases rs)
    case (Cons r rest)
    let ?a = "rule_suppressed (ra i) e actor r st"
    have held: "held_back fs e actor st (hd rs) rule = fst ?a" for rule
      using wl known Cons fs
      by (simp add: held_back_def rule_suppressed_resolved match_resolved_answer answer_of_def split: option.split)
    have "cache_find (snd ?a) (int_of_u32 (ev_pid e), t) = Some (fst ?a)"
      using wl known fs ok by (simp add: rule_suppressed_resolved match_resolved_found)
    then have "unsuppressed ra e actor (i + 1) rest (st\<lparr>mo_matcher := snd ?a\<rparr>) =
        filter (\<lambda>(j, rule). \<not> fst ?a) (enumerate (i + 1) rest)"
      using wl ok by (intro unsuppressed_cached [OF known _ fs]) (simp_all add: rule_suppressed_cache_ok)
    then show ?thesis by (cases ?a) (simp only: held, simp add: Cons)
  qed simp
qed

lemma rule_loop_cache_ok: "cache_ok (mo_matcher st) \<Longrightarrow> cache_ok (mo_matcher (rule_loop ra e actor p i rs st))"
proof (induction rs arbitrary: i st)
  case (Cons r rs)
  have "mo_matcher (handle_rule (ra i) e actor p r st) = snd (rule_suppressed (ra i) e actor r st)"
    by (simp add: handle_rule_def Let_def split: prod.split bool.split option.split)
  with Cons show ?case by (simp add: rule_suppressed_cache_ok)
qed simp

text \<open>
  C32. Without a baseline database, the rules configured for the inode of a file event are handled one
  by one, in the order of the configuration: for every rule that is not held back its alert
  is raised once, and after a write a mismatch with the rule's own check is sent, and
  nothing else happens to the alert manager. Which rules are held back is given by
  \<open>held_back\<close>. It is the rule's own whitelist only where the start time of the process is not
  known: otherwise an answer cached for the process id and start time, whichever rule it was
  first given for, holds back all rules or none, and where nothing is cached the whitelist of
  the first rule of the inode decides for all of them. The file system of processes is
  assumed not to change while the event is handled; the cache invariant assumed holds of the
  fresh matcher and is kept.
\<close>

theorem rules_reported_unless_held_back:
  assumes "mo_rules st = build_file_rules rules" and "mo_baselines st = []"
    and "\<And>j. ra_procfs (xa_rule xa j) = fs" and "cache_ok (mo_matcher st)"
  shows "mo_alerts (process_event_core xa e actor st) =
    (let rs = rules_of_inode (ev_ino e) rules
     in fold alert_step
          (concat (map (\<lambda>(j, rule). rule_ops (xa_rule xa j) e actor (monitor_path (last rs)) rule)
             (filter (\<lambda>(j, rule). \<not> held_back fs e actor st (hd rs) rule) (enumerate 0 rs))))
          (mo_alerts st)) \<and>
    cache_ok (mo_matcher (process_event_core xa e actor st))"
proof -
  have "process_event_core xa e actor st = file_rules_part xa e actor st"
  proof -
    have "mo_baselines (rule_loop ra e actor p i rs st) = mo_baselines st" for ra p i rs and st :: Monitor
      by (induction rs arbitrary: i st)
        (simp_all add: handle_rule_def Let_def split: prod.split bool.split option.split)
    with assms(2) show ?thesis
      by (simp add: process_event_core_def baseline_compare_def file_rules_part_def split: option.split)
  qed
  with build_file_rules_entries [of rules "ev_ino e"] assms show ?thesis
    using unsuppressed_held_back [where ra = "xa_rule xa" and e = e and actor = actor and i = 0
        and rs = "rules_of_inode (ev_ino e) rules", OF assms(3,4)]
    by (auto simp: file_rules_part_def option_of_list_def rule_loop_alerts rule_loop_cache_ok Let_def
        split: option.splits if_splits)
qed

definition guard_rule :: MonRule where
  "guard_rule = empty_rule\<lparr>mr_id := ''shadow'', mr_ino := 42, has_monitor := True, monitor_path := ''/etc/shadow'',
     monitor_write := True, has_check := True, check_path := ''/etc/shadow'', check_expected := 0x180\<rparr>"

definition shadow_write :: FileEvent where
  "shadow_write = \<lparr>ev_pid = 7, ev_comm = ''vi'' @ replicate 14 NUL, ev_path = replicate 256 NUL, ev_ino = 42, ev_mask = 2,
     ev_action = ACTION_ALERT, ev_event_type = 0, ev_new_mode = 0, ev_new_uid = 0, ev_new_gid = 0, ev_uid = 0, ev_gid = 0,
     ev_start_time = 5\<rparr>"

definition no_procfs :: ProcFs where
  "no_procfs = \<lparr>fs_stat = \<lambda>_. None, fs_status = \<lambda>_. None, fs_cgroup = \<lambda>_. None, fs_exe = \<lambda>_. None, fs_hz = 100\<rparr>"

definition open_files :: Files where
  "open_files = \<lparr>f_stat = \<lambda>_. Some \<lparr>st_mode = 0x1FF, st_uid = 0, st_gid = 0, st_ino = 42, st_size = 0, st_mtime = 0\<rparr>,
     f_lstat = \<lambda>_. Some \<lparr>st_mode = 0x1FF, st_uid = 0, st_gid = 0, st_ino = 42, st_size = 0, st_mtime = 0\<rparr>, f_bytes = \<lambda>_. Some [], f_digest = \<lambda>_. []\<rparr>"

definition quiet_answers :: "int \<Rightarrow> EventAnswers" where
  "quiet_answers now = \<lparr>xa_attr_world = quiet_world now,
     xa_rule = \<lambda>_. \<lparr>ra_procfs = no_procfs, ra_now = now, ra_user_fs = no_procfs, ra_passwd = \<lambda>_. None, ra_world = quiet_world now,
       ra_files = open_files, ra_check_user_fs = no_procfs, ra_check_world = quiet_world now\<rparr>,
     xa_now = now, xa_files = open_files, xa_dev_world = \<lambda>_. quiet_world now\<rparr>"

definition monitoring :: "MonRule list \<Rightarrow> Monitor" where
  "monitoring rules = \<lparr>mo_alerts = started minute_config small_table, mo_rules = build_file_rules rules,
     mo_whitelist = build_table rules, mo_matcher = new_matcher, mo_baselines = [], mo_last_check = Map.empty\<rparr>"

definition shadow_entry :: CheckEntry where
  "shadow_entry = \<lparr>en_file_path = ''/etc/shadow'', en_file_type = ''regular'', en_hash = [], en_permission = ''rw-------'',
     en_uid = 0, en_gid = 0, en_owner = ''0'', en_grp = ''0'', en_file_size = 0, en_mtime = 0, en_snapshot_id = ''s'',
     en_label = ''default'', en_recorded_at = []\<rparr>"

definition with_baseline :: Monitor where
  "with_baseline = (monitoring [])\<lparr>mo_baselines := [(42, shadow_entry)]\<rparr>"

text \<open>A second rule for the file trusts the editor; an event without a start time.\<close>

definition trusting_rule :: MonRule where
  "trusting_rule = guard_rule\<lparr>mr_id := ''editor'', mr_whitelist := [\<lparr>we_exe = ''/usr/bin/vi'', we_parent_chain = []\<rparr>]\<rparr>"

definition editor :: FileActorContext where
  "editor = empty_actor\<lparr>fa_exe := ''/usr/bin/vi''\<rparr>"

definition undated_write :: FileEvent where
  "undated_write = shadow_write\<lparr>ev_start_time := 0\<rparr>"

lemma rules_reported_unless_held_back_witness:
  "mo_alerts (process_event_core (quiet_answers 0) undated_write (Some editor) (monitoring [trusting_rule, guard_rule])) =
     fold alert_step (rule_ops (xa_rule (quiet_answers 0) 1) undated_write (Some editor) ''/etc/shadow'' guard_rule)
       (started minute_config small_table)"
proof -
  let ?rs = "[trusting_rule, guard_rule]" and ?st = "monitoring [trusting_rule, guard_rule]"
  have rules: "rules_of_inode (ev_ino undated_write) ?rs = ?rs"
    by (simp add: rules_of_inode_def trusting_rule_def guard_rule_def undated_write_def shadow_write_def monitored_def)
  have wl: "mo_whitelist ?st = [(''editor'', [\<lparr>we_exe = ''/usr/bin/vi'', we_parent_chain = []\<rparr>])]"
    by (simp add: monitoring_def build_table_def trusting_rule_def guard_rule_def empty_rule_def table_entries_def)
  have actor: "actor_process no_procfs undated_write (Some editor) = Some (''/usr/bin/vi'', [], None)"
    by (simp add: actor_process_def undated_write_def shadow_write_def editor_def empty_actor_def actor_ancestor_exes_def
        int_of_u32_def)
  have ids: "mr_id trusting_rule = ''editor''" "mr_id guard_rule = ''shadow''" "monitor_path guard_rule = ''/etc/shadow''"
    by (simp_all add: trusting_rule_def guard_rule_def)
  have "held_back no_procfs undated_write (Some editor) ?st first trusting_rule"
    "\<not> held_back no_procfs undated_write (Some editor) ?st first guard_rule" for first
    by (simp_all add: held_back_def wl actor table_match_def ids entry_matches_def)
  moreover have "mo_rules ?st = build_file_rules ?rs" "mo_baselines ?st = []"
    "mo_alerts ?st = started minute_config small_table" "mo_matcher ?st = new_matcher"
    by (simp_all add: monitoring_def)
  moreover have "ra_procfs (xa_rule (quiet_answers 0) j) = no_procfs" for j by (simp add: quiet_answers_def)
  moreover have "cache_ok new_matcher" by (simp add: cache_ok_def new_matcher_def)
  ultimately show ?thesis
    using rules_reported_unless_held_back [of ?st ?rs "quiet_answers 0" no_procfs undated_write "Some editor"]
    by (simp add: rules ids Let_def)
qed

section \<open>Checks share the throttle window of their rule\<close>

text \<open>
  After the violation alert of a rule the mismatch with its check is only stored if the throttle
  time of the rule has passed since the last alert of the rule, which is this violation alert
  itself unless that was held back.
\<close>

theorem check_mismatch_needs_new_window:
  assumes "0 < am_throttle_seconds m"
    and "am_db (on_check_mismatch_detected user' fs cw rule p c pid actor
           (on_violation_detected user now w rule p a c pid actor m)) \<noteq>
         am_db (on_violation_detected user now w rule p a c pid actor m)"
  shows "\<exists>t. secs (am_throttle_seconds m) \<le> w_now cw - t \<and>
    (t = w_now w \<or> (am_last_alert_time m (mr_id rule) = Some t \<and> (now - t < secs (am_throttle_seconds m) \<or>
       w_now w - t < secs (am_throttle_seconds m))))"
proof -
  let ?T = "am_throttle_seconds m" and ?v = "violation_alert (w_now_string w) rule p a c pid (user actor) actor"
  define m1 where "m1 = on_violation_detected user now w rule p a c pid actor m"
  have frame: "am_throttle_seconds m1 = ?T \<and> am_last_alert_time m1 =
      (if ThrottledNow (mr_id rule) now m then am_last_alert_time m
       else am_last_alert_time (snd (IsThrottled (mr_id rule) (w_now w) m)))"
    using send_time [of w ?v m]
    by (simp add: m1_def on_violation_detected_def) (simp add: NoteThrottled_def)
  from assms(2) obtain found where "am_db (snd (SendDingTalk cw
      (mismatch_alert (w_now_string cw) rule p (fst found) (snd found) c pid (user' actor) actor) m1)) \<noteq> am_db m1"
    unfolding m1_def [symmetric] on_mismatch_step by (auto split: option.splits)
  then have "\<not> fst (IsThrottled (mr_id rule) (w_now cw) m1)"
    by (auto simp: SendDingTalk_def NoteThrottled_def IsThrottled_def split: prod.splits bool.splits if_splits option.splits)
  with frame assms(1) have passed: "am_last_alert_time m1 (mr_id rule) = Some t \<Longrightarrow> secs ?T \<le> w_now cw - t" for t
    by (auto simp: IsThrottled_def whole_seconds_le split: if_splits)
  have last: "\<exists>t. am_last_alert_time m1 (mr_id rule) = Some t \<and>
      (t = w_now w \<or> (am_last_alert_time m (mr_id rule) = Some t \<and> (now - t < secs ?T \<or> w_now w - t < secs ?T)))"
    using frame assms(1)
    by (auto simp: ThrottledNow_def IsThrottled_def whole_seconds_le whole_seconds_less not_le split: if_splits option.splits)
  from last passed show ?thesis by blast
qed

lemma stored_cong: "am_db m = am_db m' \<Longrightarrow> stored m = stored m'"
  by (simp add: stored_def)

lemma check_mismatch_needs_new_window_witness:
  "\<exists>t. secs 60 \<le> secs 100 - t \<and> (t = secs 1 \<or> (am_last_alert_time (started minute_config small_table) ''shadow'' = Some t \<and>
     (secs 1 - t < secs 60 \<or> secs 1 - t < secs 60)))"
proof -
  let ?m = "started minute_config small_table" and ?user = "\<lambda>_. ([], [])"
  define m1 where "m1 = on_violation_detected ?user (secs 1) (quiet_world (secs 1)) guard_rule ''/etc/shadow'' ''write'' ''vi'' 7 None ?m"
  define m2 where "m2 = on_check_mismatch_detected ?user open_files (quiet_world (secs 100)) guard_rule ''/etc/shadow'' ''vi'' 7 None m1"
  have id: "mr_id guard_rule = ''shadow''" by (simp add: guard_rule_def)
  have throttle: "am_throttle_seconds ?m = 60" "am_last_alert_time ?m = Map.empty"
    by (simp_all add: started_def SetDB_def LoadConfig_def new_manager_def minute_config_def)
  have inv: "table_inv 5 ?m"
    by (simp add: table_inv_def started_def SetDB_def LoadConfig_def new_manager_def table_ok_empty small_table_def)
      (simp add: empty_alerts_def)
  have m1: "m1 = snd (SendDingTalk (quiet_world (secs 1)) (violation_alert [] guard_rule ''/etc/shadow'' ''write'' ''vi'' 7 ([], []) None) ?m)"
    by (simp add: m1_def on_violation_detected_def ThrottledNow_def throttle) (simp add: quiet_world_def)
  have "table_inv 5 m1" unfolding m1 using send_table [OF inv _ quiet_db] by simp
  have w: "w_now (quiet_world t) = t" for t by (simp add: quiet_world_def)
  have last: "am_last_alert_time m1 ''shadow'' = Some (secs 1)" "am_throttle_seconds m1 = 60"
    unfolding m1 using send_time throttle by (simp_all add: IsThrottled_def id w)
  have "mismatch open_files guard_rule ''/etc/shadow'' = Some (0x1FF, [])"
    by (simp add: mismatch_def guard_rule_def open_files_def compute_sha256_def)
  then have "stored m2 = stored m1 + 1"
    using send_table [OF \<open>table_inv 5 m1\<close> _ quiet_db] last
    by (simp add: m2_def on_mismatch_step id IsThrottled_def w) (simp add: whole_seconds_def secs_def)
  then have "am_db m2 \<noteq> am_db m1" using stored_cong [of m2 m1] by auto
  then show ?thesis
    using check_mismatch_needs_new_window [of ?m ?user open_files "quiet_world (secs 100)" guard_rule "''/etc/shadow''" "''vi''" 7 None
        ?user "secs 1" "quiet_world (secs 1)" "''write''"] throttle
    by (simp add: m1_def m2_def id w)
qed

section \<open>Deviations share one throttle window\<close>

lemma deviation_rule_id [simp]: "ae_rule_id (deviation_alert s dev p c pid rid actor) = rid"
  by (simp add: deviation_alert_def with_actor_def Let_def split: option.split)

definition deviation_sends ::
  "(nat \<Rightarrow> World) \<Rightarrow> FileEvent \<Rightarrow> FileActorContext option \<Rightarrow> string \<Rightarrow> nat \<Rightarrow> BaselineDeviation list \<Rightarrow> (World \<times> AlertEvent) list" where
  "deviation_sends w e actor path i devs =
     map (\<lambda>(j, dev). (w j, deviation_alert (w_now_string (w j)) dev path (c_str (ev_comm e)) (int_of_u32 (ev_pid e))
       kBaselineRuleId actor)) (zip [i..<i + length devs] devs)"

lemma deviation_loop_sends: "deviation_loop w e actor path i devs m = send_all (deviation_sends w e actor path i devs) m"
proof (induction devs arbitrary: i m)
  case (Cons dev devs)
  have "[i..<i + length (dev # devs)] = i # [Suc i..<Suc i + length devs]"
    using upt_conv_Cons [of i "i + length (dev # devs)"] by simp
  with Cons show ?case by (simp add: HandleBaselineDeviation_def deviation_sends_def send_all_def)
qed (simp add: deviation_sends_def send_all_def)

lemma deviation_loop_stores_one:
  assumes "0 < am_throttle_seconds m"
    and "\<And>j. t0 \<le> w_now (w j) \<and> w_now (w j) - t0 < secs (am_throttle_seconds m)"
  shows "stored (deviation_loop w e actor path i devs m) \<le> stored m + 1"
  unfolding deviation_loop_sends
  by (rule burst_stores_one [where r = kBaselineRuleId and ?t0.0 = t0])
    (use assms in \<open>auto simp: deviation_sends_def\<close>)

section \<open>Comparisons with the baseline\<close>

definition check_attempt :: "u64 \<Rightarrow> int \<Rightarrow> Monitor \<Rightarrow> Verdict \<times> Monitor" where
  "check_attempt ino now st =
     (if (case mo_last_check st ino of None \<Rightarrow> False | Some t \<Rightarrow> whole_seconds (now - t) < 2) then (Limited, st)
      else (Admitted, st\<lparr>mo_last_check := (mo_last_check st)(ino \<mapsto> now)\<rparr>))"

interpretation debounce: exact_limiter mo_last_check "\<lambda>_. secs 2" "\<lambda>ino. ino" check_attempt
  by unfold_locales (auto simp: check_attempt_def whole_seconds_less not_less split: if_splits option.splits)

definition compared :: "FileEvent \<Rightarrow> Monitor \<Rightarrow> bool" where
  "compared e st \<longleftrightarrow> map_of (mo_baselines st) (ev_ino e) \<noteq> None \<and>
     ev_event_type e \<notin> {EVENT_CHMOD, EVENT_CHOWN, EVENT_UNLINK} \<and> (ev_event_type e \<noteq> 0 \<or> has_mask e EVENT_WRITE)"

type_synonym FileInput = "EventAnswers \<times> FileEvent \<times> FileActorContext option"

definition file_step :: "FileInput \<Rightarrow> Monitor \<Rightarrow> Monitor" where
  "file_step x st = (case x of (xa, e, actor) \<Rightarrow> process_event_core xa e actor st)"

fun check_decisions :: "FileInput list \<Rightarrow> Monitor \<Rightarrow> (u64 \<times> int \<times> Verdict) list" where
  "check_decisions [] st = []"
| "check_decisions ((xa, e, actor) # xs) st =
     (if compared e st then [(ev_ino e, xa_now xa, fst (check_attempt (ev_ino e) (xa_now xa) st))] else []) @
     check_decisions xs (process_event_core xa e actor st)"

lemma rule_loop_frame [simp]:
  "mo_baselines (rule_loop ra e actor p i rs st) = mo_baselines st"
  "mo_last_check (rule_loop ra e actor p i rs st) = mo_last_check st"
  by (induction rs arbitrary: i st) (simp_all add: handle_rule_def Let_def split: prod.split bool.split option.split)

lemma file_rules_frame [simp]:
  "mo_baselines (file_rules_part xa e actor st) = mo_baselines st"
  "mo_last_check (file_rules_part xa e actor st) = mo_last_check st"
  by (simp_all add: file_rules_part_def split: option.split)

lemma event_last_check:
  "mo_last_check (process_event_core xa e actor st) =
     (if compared e st then mo_last_check (snd (check_attempt (ev_ino e) (xa_now xa) st)) else mo_last_check st)"
  by (auto simp: process_event_core_def baseline_compare_def compared_def check_attempt_def split: option.splits)

lemma check_trace: "debounce.trace st (check_decisions xs st) (fold file_step xs st)"
proof (induction xs arbitrary: st)
  case Nil
  then show ?case by (simp add: debounce.trace.start)
next
  case (Cons x xs)
  obtain xa e actor where x: "x = (xa, e, actor)" by (metis surj_pair)
  let ?st = "process_event_core xa e actor st" and ?a = "check_attempt (ev_ino e) (xa_now xa) st"
  have "debounce.trace st (if compared e st then [(ev_ino e, xa_now xa, fst ?a)] else []) ?st"
  proof (cases "compared e st")
    case True
    have "debounce.trace st ([] @ [(ev_ino e, xa_now xa, fst ?a)]) (snd ?a)"
      by (rule debounce.trace.attempt [OF debounce.trace.start]) simp
    with True debounce.trace.other [of st _ "snd ?a" ?st] show ?thesis by (simp add: event_last_check)
  next
    case False
    with debounce.trace.other [OF debounce.trace.start, of ?st st] show ?thesis by (simp add: event_last_check)
  qed
  from debounce.trace_append [OF Cons this] show ?case by (simp add: x file_step_def)
qed

text \<open>
  With a clock that does not go back, a changed file is compared with its baseline unless it was
  compared less than two seconds before, and two comparisons of a file are at least two
  seconds apart.
\<close>

theorem baseline_checks_debounced:
  assumes "mo_last_check st = Map.empty" and "sorted (map (\<lambda>d. fst (snd d)) (check_decisions xs st))"
    and "check_decisions xs st = a @ (ino, now, v) # b"
  shows "(v = Limited \<longrightarrow> (\<exists>t. (ino, t, Admitted) \<in> set a \<and> now - t < secs 2)) \<and>
    (v = Admitted \<longrightarrow> (\<forall>t. (ino, t, Admitted) \<in> set a \<longrightarrow> secs 2 \<le> now - t))"
proof -
  have "v = Limited \<Longrightarrow> \<exists>t. (ino, t, Admitted) \<in> set a \<and> now - t < secs 2"
    using debounce.limited_justified [OF check_trace assms(1), of xs a ino now b] assms(3) by auto
  moreover have "v = Admitted \<Longrightarrow> (ino, t, Admitted) \<in> set a \<Longrightarrow> secs 2 \<le> now - t" for t
    using debounce.admitted_spaced [OF check_trace assms(1) _ assms(2), of a ino now b ino t] assms(3) by simp
  ultimately show ?thesis by blast
qed

lemma event_baselines [simp]: "mo_baselines (process_event_core xa e actor st) = mo_baselines st"
  by (simp add: process_event_core_def baseline_compare_def split: option.split)

definition two_seconds :: "FileInput list" where
  "two_seconds = [(quiet_answers (secs 1), shadow_write, None), (quiet_answers (secs 2), shadow_write, None)]"

lemma two_decisions: "check_decisions two_seconds with_baseline = [(42, secs 1, Admitted), (42, secs 2, Limited)]"
  by (simp add: two_seconds_def event_last_check compared_def check_attempt_def)
    (simp add: with_baseline_def monitoring_def shadow_write_def quiet_answers_def has_mask_def event_defs whole_seconds_def secs_def)

lemma baseline_checks_debounced_witness: "secs 2 - secs 1 < secs 2"
proof -
  have "mo_last_check with_baseline = Map.empty" by (simp add: with_baseline_def monitoring_def)
  moreover have "sorted (map (\<lambda>d. fst (snd d)) (check_decisions two_seconds with_baseline))"
    by (simp add: two_decisions secs_def)
  ultimately show ?thesis
    using baseline_checks_debounced [of with_baseline two_seconds "[(42, secs 1, Admitted)]" 42 "secs 2" Limited "[]"]
    by (simp add: two_decisions)
qed

section \<open>What a database run does not report\<close>

lemma attr_events_bypass_rules:
  assumes "mo_baselines st \<noteq> []" and "ev_event_type e \<in> {EVENT_CHMOD, EVENT_CHOWN, EVENT_UNLINK}"
    and "map_of (mo_baselines st) (ev_ino e) = None"
  shows "process_event_core xa e actor st = st"
  using assms by (auto simp: process_event_core_def handle_chmod_chown_event_def)

end
