(* ===== verification/Snapshot_Store.thy ===== *)
theory Snapshot_Store
  imports Baseline_Check Proc_Fs
begin

text \<open>
  The tables of the baseline (\<open>src/src/storage/baseline_db.cpp\<close>): entries, audit trail and
  snapshots, and what \<open>ApplySnapshot\<close>, \<open>DeleteBaselineEntries\<close>, \<open>ListBaselineEntries\<close>,
  \<open>GetAllBaselineEntries\<close> and \<open>GetBaselineEntry\<close> do to them. Whether SQLite carries out all
  statements of a transaction is an argument; otherwise it is rolled back. Texts contain no NUL.
\<close>

section \<open>Tables\<close>

record AuditRow =
  au_snapshot_id :: string
  au_label :: string
  au_file_path :: string
  au_change_type :: string
  au_old :: "SnapshotEntry option"
  au_new :: "SnapshotEntry option"
  au_changed_at :: string

record SnapshotRow =
  sn_snapshot_id :: string
  sn_label :: string
  sn_started_at :: string
  sn_finished_at :: string
  sn_roots :: string
  sn_excludes :: string
  sn_recursive :: bool
  sn_scanned :: int
  sn_added :: int
  sn_modified :: int
  sn_removed :: int
  sn_unchanged :: int
  sn_errors :: int

record BaselineStore =
  bs_entries :: "CheckEntry list"
  bs_audit :: "AuditRow list"
  bs_snapshots :: "SnapshotRow list"

definition empty_store :: BaselineStore where
  "empty_store = \<lparr>bs_entries = [], bs_audit = [], bs_snapshots = []\<rparr>"

text \<open>\<open>INSERT ... ON CONFLICT(file_path) DO UPDATE\<close> and \<open>DELETE ... WHERE file_path = ?\<close>.\<close>

definition upsert_entry :: "CheckEntry \<Rightarrow> CheckEntry list \<Rightarrow> CheckEntry list" where
  "upsert_entry e rows =
     (if en_file_path e \<in> set (map en_file_path rows)
      then map (\<lambda>r. if en_file_path r = en_file_path e then e else r) rows else rows @ [e])"

definition delete_entry :: "string \<Rightarrow> CheckEntry list \<Rightarrow> CheckEntry list" where
  "delete_entry path rows = filter (\<lambda>r. en_file_path r \<noteq> path) rows"

definition entry_of_row :: "CheckEntry \<Rightarrow> SnapshotEntry" where
  "entry_of_row r = SnapshotEntry.truncate r"

definition row_of_entry :: "SnapshotEntry \<Rightarrow> string \<Rightarrow> string \<Rightarrow> string \<Rightarrow> CheckEntry" where
  "row_of_entry e snapshot_id label recorded_at =
     SnapshotEntry.extend e (CheckEntry.fields snapshot_id label recorded_at)"

section \<open>Scopes\<close>

record SnapshotScope =
  sc_path :: string
  sc_recursive :: bool
  sc_exact_file :: bool

text \<open>\<open>a\<close> followed by a slash is an initial part of \<open>path\<close>.\<close>

definition below :: "string \<Rightarrow> string \<Rightarrow> bool" where
  "below path a \<longleftrightarrow> length path > length a \<and> take (length a) path = a \<and> path ! length a = CHR ''/''"

text \<open>\<open>std::filesystem::path::parent_path\<close>.\<close>

definition parent_path :: "string \<Rightarrow> string" where
  "parent_path p =
     (if p = ''/'' then ''/''
      else (case rfind_char (CHR ''/'') p of
              None \<Rightarrow> []
            | Some i \<Rightarrow>
               (let q = rev (dropWhile (\<lambda>c. c = CHR ''/'') (rev (take i p)))
                in if q = [] then ''/'' else q)))"

definition under_scope :: "string \<Rightarrow> SnapshotScope \<Rightarrow> bool" where
  "under_scope path scope \<longleftrightarrow>
     (if sc_exact_file scope then path = sc_path scope
      else if sc_path scope = path then True
      else if \<not> sc_recursive scope then parent_path path = sc_path scope
      else below path (sc_path scope))"

definition excluded_path :: "string list \<Rightarrow> string \<Rightarrow> bool" where
  "excluded_path excludes path \<longleftrightarrow> list_ex (\<lambda>exclude. path = exclude \<or> below path exclude) excludes"

definition in_scope :: "SnapshotScope list \<Rightarrow> string list \<Rightarrow> string \<Rightarrow> bool" where
  "in_scope scopes excludes path \<longleftrightarrow>
     (if excluded_path excludes path then False else list_ex (under_scope path) scopes)"

section \<open>Applying a snapshot\<close>

record SnapshotStats =
  ss_scanned :: int
  ss_added :: int
  ss_modified :: int
  ss_removed :: int
  ss_unchanged :: int
  ss_errors :: int

definition zero_stats :: SnapshotStats where
  "zero_stats = \<lparr>ss_scanned = 0, ss_added = 0, ss_modified = 0, ss_removed = 0, ss_unchanged = 0, ss_errors = 0\<rparr>"

definition current_entries :: "CheckEntry list \<Rightarrow> (string \<times> SnapshotEntry) list" where
  "current_entries rows =
     fold (\<lambda>r m. if map_of m (en_file_path r) = None then map_put (en_file_path r) (entry_of_row r) m else m) rows []"

definition scanned_entries :: "SnapshotEntry list \<Rightarrow> (string \<times> SnapshotEntry) list" where
  "scanned_entries entries = fold (\<lambda>e m. map_put (en_file_path e) e m) entries []"

definition changed_entry :: "SnapshotEntry \<Rightarrow> SnapshotEntry \<Rightarrow> bool" where
  "changed_entry old_entry entry \<longleftrightarrow>
     en_file_type old_entry \<noteq> en_file_type entry \<or> en_hash old_entry \<noteq> en_hash entry \<or>
     en_permission old_entry \<noteq> en_permission entry \<or> en_uid old_entry \<noteq> en_uid entry \<or>
     en_gid old_entry \<noteq> en_gid entry \<or> en_owner old_entry \<noteq> en_owner entry \<or>
     en_grp old_entry \<noteq> en_grp entry \<or> en_file_size old_entry \<noteq> en_file_size entry \<or>
     en_mtime old_entry \<noteq> en_mtime entry"

text \<open>The parameters of a snapshot that its rows carry.\<close>

record SnapshotMeta =
  me_snapshot_id :: string
  me_label :: string
  me_finished_at :: string

definition audit_row :: "SnapshotMeta \<Rightarrow> string \<Rightarrow> string \<Rightarrow> SnapshotEntry option \<Rightarrow> SnapshotEntry option \<Rightarrow> AuditRow" where
  "audit_row meta type path old_entry new_entry =
     \<lparr>au_snapshot_id = me_snapshot_id meta, au_label = me_label meta, au_file_path = path, au_change_type = type,
      au_old = old_entry, au_new = new_entry, au_changed_at = me_finished_at meta\<rparr>"

definition apply_scanned ::
  "SnapshotMeta \<Rightarrow> (string \<times> SnapshotEntry) list \<Rightarrow> string \<times> SnapshotEntry \<Rightarrow> SnapshotStats \<times> BaselineStore \<Rightarrow>
     SnapshotStats \<times> BaselineStore" where
  "apply_scanned meta current x s =
     (case (x, s) of ((path, entry), (stats, st)) \<Rightarrow>
        (let old_entry = map_of current path;
             changed = (case old_entry of None \<Rightarrow> True | Some old \<Rightarrow> changed_entry old entry)
         in if \<not> changed then (stats\<lparr>ss_unchanged := ss_unchanged stats + 1\<rparr>, st)
            else
              (if old_entry = None then stats\<lparr>ss_added := ss_added stats + 1\<rparr>
               else stats\<lparr>ss_modified := ss_modified stats + 1\<rparr>,
               st\<lparr>bs_audit := bs_audit st @
                    [audit_row meta (if old_entry = None then ''added'' else ''modified'') path old_entry (Some entry)],
                  bs_entries := upsert_entry
                    (row_of_entry entry (me_snapshot_id meta) (me_label meta) (me_finished_at meta)) (bs_entries st)\<rparr>)))"

definition apply_removed :: "SnapshotMeta \<Rightarrow> string \<times> SnapshotEntry \<Rightarrow> BaselineStore \<Rightarrow> BaselineStore" where
  "apply_removed meta x st =
     (case x of (path, old_entry) \<Rightarrow>
        st\<lparr>bs_audit := bs_audit st @ [audit_row meta ''removed'' path (Some old_entry) None],
           bs_entries := delete_entry path (bs_entries st)\<rparr>)"

text \<open>\<open>None\<close> is the result \<open>false\<close>, after which the tables are as before. The statistics given hold the
  number of scanned files.\<close>

definition ApplySnapshot ::
  "bool \<Rightarrow> SnapshotMeta \<Rightarrow> SnapshotEntry list \<Rightarrow> SnapshotScope list \<Rightarrow> string list \<Rightarrow> bool \<Rightarrow> string \<Rightarrow> string \<Rightarrow> string \<Rightarrow>
     SnapshotStats \<Rightarrow> BaselineStore \<Rightarrow> (SnapshotStats \<times> BaselineStore) option" where
  "ApplySnapshot ok meta entries scopes excludes recursive roots_text excludes_text started_at stats st =
     (let current = current_entries (bs_entries st);
          scanned = scanned_entries entries;
          gone = filter (\<lambda>(path, _). in_scope scopes excludes path \<and> map_of scanned path = None) current;
          stats1 = stats\<lparr>ss_removed := ss_removed stats + int (length gone)\<rparr>;
          (stats2, st1) = fold (apply_scanned meta current) scanned (stats1, st);
          st2 = fold (apply_removed meta) gone st1;
          row = \<lparr>sn_snapshot_id = me_snapshot_id meta, sn_label = me_label meta, sn_started_at = started_at,
                 sn_finished_at = me_finished_at meta, sn_roots = roots_text, sn_excludes = excludes_text,
                 sn_recursive = recursive, sn_scanned = ss_scanned stats2, sn_added = ss_added stats2,
                 sn_modified = ss_modified stats2, sn_removed = ss_removed stats2, sn_unchanged = ss_unchanged stats2,
                 sn_errors = ss_errors stats2\<rparr>
      in if ok then Some (stats2\<lparr>ss_scanned := int (length entries)\<rparr>, st2\<lparr>bs_snapshots := bs_snapshots st2 @ [row]\<rparr>)
         else None)"

section \<open>Queries\<close>

text \<open>SQLite's \<open>LIKE\<close>: \<open>%\<close> is any text, \<open>_\<close> any character, letters of ASCII match in both cases; with
  an escape character the next character of the pattern stands for itself.\<close>

definition ascii_lower :: "char \<Rightarrow> char" where
  "ascii_lower c = (if c_isupper c then char_of (char_code c + 32) else c)"

function sql_like :: "char option \<Rightarrow> string \<Rightarrow> string \<Rightarrow> bool" where
  "sql_like esc [] t \<longleftrightarrow> t = []"
| "sql_like esc (p # ps) t \<longleftrightarrow>
     (if Some p = esc then
        (case (ps, t) of
           (q # ps', c # t') \<Rightarrow> ascii_lower q = ascii_lower c \<and> sql_like esc ps' t'
         | _ \<Rightarrow> False)
      else if p = CHR ''%'' then
        sql_like esc ps t \<or> (case t of [] \<Rightarrow> False | _ # t' \<Rightarrow> sql_like esc (p # ps) t')
      else (case t of [] \<Rightarrow> False | c # t' \<Rightarrow> (p = CHR ''_'' \<or> ascii_lower p = ascii_lower c) \<and> sql_like esc ps t'))"
  by pat_completeness auto
termination by (relation "measure (\<lambda>(_, ps, t). length ps + length t)") auto

declare sql_like.simps [simp del]

definition by_path :: "CheckEntry list \<Rightarrow> CheckEntry list" where
  "by_path rows = text_sort en_file_path rows"

record ListResult =
  lr_entries :: "CheckEntry list"
  lr_total_count :: int

text \<open>Both queries succeed; \<open>OFFSET\<close> without \<open>LIMIT\<close> is a syntax error in SQLite.\<close>

definition ListBaselineEntries :: "string \<Rightarrow> int \<Rightarrow> int \<Rightarrow> BaselineStore \<Rightarrow> ListResult" where
  "ListBaselineEntries path_filter limit offset st =
     (let rows = filter (\<lambda>r. path_filter = [] \<or> sql_like None path_filter (en_file_path r)) (bs_entries st);
          total = int (length rows);
          sorted_rows = by_path rows
      in if total = 0 then \<lparr>lr_entries = [], lr_total_count = 0\<rparr>
         else if limit \<le> 0 \<and> offset > 0 then \<lparr>lr_entries = [], lr_total_count = total\<rparr>
         else \<lparr>lr_entries = (if limit > 0 then take (nat limit) (drop (nat offset) sorted_rows) else sorted_rows),
               lr_total_count = total\<rparr>)"

definition GetAllBaselineEntries :: "BaselineStore \<Rightarrow> CheckEntry list" where
  "GetAllBaselineEntries st = by_path (bs_entries st)"

definition GetBaselineEntry :: "string \<Rightarrow> BaselineStore \<Rightarrow> CheckEntry option" where
  "GetBaselineEntry file_path st = find (\<lambda>r. en_file_path r = file_path) (bs_entries st)"

section \<open>Deleting entries\<close>

text \<open>The condition for one path, which is pasted into the text of the statement: paths with a quote are
  left out of the model.\<close>

definition delete_condition :: "bool \<Rightarrow> string \<Rightarrow> string \<Rightarrow> bool" where
  "delete_condition recursive path file_path \<longleftrightarrow>
     (if recursive then file_path = path \<or> sql_like (Some (CHR 0x5C)) (path @ ''/%'') file_path
      else file_path = path)"

text \<open>\<open>fails\<close> is the entry whose statement fails: the transaction is rolled back, but the number of
  entries before it is returned. The end of the list stands for the commit.\<close>

definition DeleteBaselineEntries ::
  "nat option \<Rightarrow> string \<Rightarrow> string list \<Rightarrow> bool \<Rightarrow> string \<Rightarrow> BaselineStore \<Rightarrow> nat \<times> BaselineStore" where
  "DeleteBaselineEntries fails now_str paths recursive source_label st =
     (if paths = [] then (0, st)
      else
        (let to_delete = filter (\<lambda>r. list_ex (\<lambda>p. delete_condition recursive p (en_file_path r)) paths) (bs_entries st);
             meta = \<lparr>me_snapshot_id = source_label, me_label = source_label, me_finished_at = now_str\<rparr>
         in if to_delete = [] then (0, st)
            else (case fails of
                    Some i \<Rightarrow> (if i < length to_delete then i else 0, st)
                  | None \<Rightarrow>
                      (length to_delete,
                       fold (\<lambda>r st. st\<lparr>bs_audit := bs_audit st @
                                         [audit_row meta ''delete'' (en_file_path r) (Some (entry_of_row r)) None],
                                       bs_entries := delete_entry (en_file_path r) (bs_entries st)\<rparr>) to_delete st))))"

end
