(* ===== verification/Baseline_Scan.thy ===== *)
theory Baseline_Scan
  imports Snapshot_Store
begin

text \<open>
  The command \<open>baseline snapshot\<close> (\<open>src/src/baseline/baseline_snapshot.cpp\<close>) with the path
  helpers of \<open>src/src/common/utils.cpp\<close>: options, normal forms of paths, the scan and the exit
  code. Paths are those of a POSIX file system. What the directory iterators deliver, the glob
  matching of the C library, the clock and the outcome of the database are arguments.
\<close>

section \<open>Paths\<close>

fun split_on :: "char \<Rightarrow> string \<Rightarrow> string list" where
  "split_on d [] = [[]]"
| "split_on d (c # s) =
     (if c = d then [] # split_on d s
      else (case split_on d s of [] \<Rightarrow> [[c]] | w # ws \<Rightarrow> (c # w) # ws))"

definition path_join :: "string list \<Rightarrow> string" where
  "path_join ps = concat (map (\<lambda>p. ''/'' @ p) ps)"

text \<open>The names of an absolute path after \<open>.\<close> and \<open>..\<close> are resolved, in reverse.\<close>

fun resolve_dots :: "string list \<Rightarrow> string list \<Rightarrow> string list" where
  "resolve_dots acc [] = acc"
| "resolve_dots acc (p # ps) =
     (if p = [] \<or> p = ''.'' then resolve_dots acc ps
      else if p = ''..'' then resolve_dots (tl acc) ps
      else resolve_dots (p # acc) ps)"

text \<open>\<open>lexically_normal\<close> of an absolute path; a final slash, \<open>.\<close> or \<open>..\<close> leaves a final slash.\<close>

definition lexically_normal :: "string \<Rightarrow> string" where
  "lexically_normal p =
     (let parts = split_on (CHR ''/'') p; names = rev (resolve_dots [] parts)
      in if names = [] then ''/''
         else path_join names @ (if last parts \<in> {[], ''.'', ''..''} then ''/'' else []))"

text \<open>\<open>cwd\<close> is the current directory; \<open>None\<close> is the exception, which an empty path raises.\<close>

definition NormalizePath :: "string \<Rightarrow> string \<Rightarrow> string option" where
  "NormalizePath cwd value =
     (if value = [] then None
      else Some (lexically_normal (if hd value = CHR ''/'' then value else cwd @ ''/'' @ value)))"

fun normalize_all :: "string \<Rightarrow> string list \<Rightarrow> string list option" where
  "normalize_all cwd [] = Some []"
| "normalize_all cwd (p # ps) =
     (case NormalizePath cwd p of
        None \<Rightarrow> None
      | Some q \<Rightarrow> (case normalize_all cwd ps of None \<Rightarrow> None | Some qs \<Rightarrow> Some (q # qs)))"

definition base_name :: "string \<Rightarrow> string" where
  "base_name path = rev (takeWhile (\<lambda>c. c \<noteq> CHR ''/'') (rev path))"

definition IsWithin :: "string \<Rightarrow> string \<Rightarrow> bool" where
  "IsWithin path root_path \<longleftrightarrow> path = root_path \<or> below path root_path"

text \<open>\<open>glob pattern text\<close> is \<open>fnmatch(pattern, text, 0) == 0\<close>.\<close>

definition MatchesExclude :: "(string \<Rightarrow> string \<Rightarrow> bool) \<Rightarrow> string \<Rightarrow> string list \<Rightarrow> bool" where
  "MatchesExclude glob path excludes \<longleftrightarrow>
     list_ex (\<lambda>pattern. path = pattern \<or> IsWithin path pattern \<or> glob pattern path \<or> glob pattern (base_name path)) excludes"

fun JoinLines :: "string list \<Rightarrow> string" where
  "JoinLines [] = []"
| "JoinLines [v] = v"
| "JoinLines (v # w # vs) = v @ [CHR 0x0A] @ JoinLines (w # vs)"

section \<open>Options\<close>

record SnapshotOptions =
  so_db_path :: string
  so_label :: string
  so_paths :: "string list"
  so_excludes :: "string list"
  so_recursive :: bool

definition default_db :: string where
  "default_db = ''/var/lib/baseline-guard/baseline.db''"

definition default_snapshot_options :: SnapshotOptions where
  "default_snapshot_options = \<lparr>so_db_path = default_db, so_label = ''default'', so_paths = [], so_excludes = [], so_recursive = True\<rparr>"

datatype 'a Parsed = ParseError string | Help | Parsed 'a

definition missing_value :: "string \<Rightarrow> 'a Parsed" where
  "missing_value option = ParseError (''missing value for '' @ option)"

definition is_option :: "string \<Rightarrow> bool" where
  "is_option arg \<longleftrightarrow> arg \<noteq> [] \<and> hd arg = CHR ''-''"

fun snapshot_args :: "bool \<Rightarrow> string list \<Rightarrow> SnapshotOptions \<Rightarrow> SnapshotOptions Parsed" where
  "snapshot_args end_options [] opts = Parsed opts"
| "snapshot_args end_options (arg # rest) opts =
     (if end_options then snapshot_args True rest (opts\<lparr>so_paths := so_paths opts @ [arg]\<rparr>)
      else if arg = ''--'' then snapshot_args True rest opts
      else if arg = ''-h'' \<or> arg = ''--help'' then Help
      else if arg = ''--no-recurse'' then snapshot_args False rest (opts\<lparr>so_recursive := False\<rparr>)
      else if arg = ''--db'' \<or> arg = ''--label'' \<or> arg = ''--exclude'' then
        (case rest of
           [] \<Rightarrow> missing_value arg
         | v # rest' \<Rightarrow>
             snapshot_args False rest'
               (if arg = ''--db'' then opts\<lparr>so_db_path := v\<rparr>
                else if arg = ''--label'' then opts\<lparr>so_label := v\<rparr>
                else opts\<lparr>so_excludes := so_excludes opts @ [v]\<rparr>))
      else if starts_with ''--db='' arg then snapshot_args False rest (opts\<lparr>so_db_path := drop 5 arg\<rparr>)
      else if starts_with ''--label='' arg then snapshot_args False rest (opts\<lparr>so_label := drop 8 arg\<rparr>)
      else if starts_with ''--exclude='' arg then
        snapshot_args False rest (opts\<lparr>so_excludes := so_excludes opts @ [drop 10 arg]\<rparr>)
      else if is_option arg then ParseError (''unknown snapshot option: '' @ arg)
      else snapshot_args False rest (opts\<lparr>so_paths := so_paths opts @ [arg]\<rparr>))"

definition ParseSnapshotOptions :: "string list \<Rightarrow> SnapshotOptions Parsed" where
  "ParseSnapshotOptions argv =
     (case snapshot_args False argv default_snapshot_options of
        Parsed opts \<Rightarrow>
          (if so_paths opts = [] then ParseError ''at least one file or directory path is required''
           else if so_db_path opts = [] \<or> so_label opts = [] then ParseError ''--db and --label must not be empty''
           else Parsed opts)
      | r \<Rightarrow> r)"

section \<open>The scan\<close>

text \<open>An entry of a directory as the iterator delivers it: its path, \<open>is_regular_file\<close>, which follows
  symbolic links, and for the recursive iterator what is found below it.\<close>

datatype DirItem = DirItem (item_path: string) (item_regular: bool) (item_below: "DirItem list")

datatype FileType = FtRegular | FtDirectory | FtOther

record ScanWorld =
  sw_cwd :: string
  sw_status :: "string \<Rightarrow> FileType option"
  sw_items :: "bool \<Rightarrow> string \<Rightarrow> DirItem list"
  sw_complete :: "bool \<Rightarrow> string \<Rightarrow> bool"
  sw_files :: Files
  sw_glob :: "string \<Rightarrow> string \<Rightarrow> bool"

definition S_ISREG :: "u32 \<Rightarrow> bool" where
  "S_ISREG mode \<longleftrightarrow> and mode 0xF000 = 0x8000"

text \<open>The error text is empty for a path that is not a regular file itself.\<close>

definition ReadEntry :: "Files \<Rightarrow> string \<Rightarrow> string + SnapshotEntry" where
  "ReadEntry fs path =
     (case f_lstat fs path of
        None \<Rightarrow> Inl (''cannot stat '' @ [CHR 0x27] @ path @ [CHR 0x27])
      | Some st \<Rightarrow>
          (if \<not> S_ISREG (st_mode st) then Inl []
           else (case compute_sha256 fs path of
                   Inl what \<Rightarrow> Inl what
                 | Inr hash \<Rightarrow>
                     Inr \<lparr>en_file_path = path, en_file_type = ''regular'', en_hash = hash,
                       en_permission = mode_to_string (and (st_mode st) 0x1FF), en_uid = uint (st_uid st),
                       en_gid = uint (st_gid st), en_owner = dec_of_int (uint (st_uid st)),
                       en_grp = dec_of_int (uint (st_gid st)), en_file_size = st_size st, en_mtime = st_mtime st\<rparr>)))"

record CollectedSnapshot =
  cs_entries :: "SnapshotEntry list"
  cs_scopes :: "SnapshotScope list"

text \<open>\<open>seen\<close> holds the paths of the collected entries.\<close>

definition collect_entry :: "SnapshotEntry \<Rightarrow> SnapshotEntry list \<Rightarrow> SnapshotEntry list" where
  "collect_entry e es = (if en_file_path e \<in> set (map en_file_path es) then es else es @ [e])"

fun collect_items :: "ScanWorld \<Rightarrow> string list \<Rightarrow> DirItem list \<Rightarrow> SnapshotEntry list \<Rightarrow> string + SnapshotEntry list" where
  "collect_items w excludes [] es = Inr es"
| "collect_items w excludes (DirItem path regular inner # items) es =
     (case NormalizePath (sw_cwd w) path of
        None \<Rightarrow> Inl []
      | Some current \<Rightarrow>
          (if MatchesExclude (sw_glob w) current excludes then collect_items w excludes items es
           else if regular then
             (case ReadEntry (sw_files w) path of
                Inl error \<Rightarrow> Inl error
              | Inr e \<Rightarrow> collect_items w excludes items (collect_entry e es))
           else (case collect_items w excludes inner es of
                   Inl error \<Rightarrow> Inl error
                 | Inr es' \<Rightarrow> collect_items w excludes items es')))"

definition CollectPath :: "ScanWorld \<Rightarrow> bool \<Rightarrow> string list \<Rightarrow> string \<Rightarrow> CollectedSnapshot \<Rightarrow> string + CollectedSnapshot" where
  "CollectPath w recursive excludes root_path c =
     (case sw_status w root_path of
        None \<Rightarrow> Inl (''path does not exist: '' @ root_path)
      | Some ft \<Rightarrow>
          (if MatchesExclude (sw_glob w) root_path excludes then Inr c
           else (case ft of
                   FtRegular \<Rightarrow>
                     (case ReadEntry (sw_files w) root_path of
                        Inl error \<Rightarrow> Inl error
                      | Inr e \<Rightarrow> Inr (c\<lparr>cs_entries := collect_entry e (cs_entries c),
                          cs_scopes := cs_scopes c @ [\<lparr>sc_path = root_path, sc_recursive = True, sc_exact_file = True\<rparr>]\<rparr>))
                 | FtOther \<Rightarrow> Inl (''unsupported path type: '' @ root_path)
                 | FtDirectory \<Rightarrow>
                     (case collect_items w excludes (sw_items w recursive root_path) (cs_entries c) of
                        Inl error \<Rightarrow> Inl error
                      | Inr es \<Rightarrow>
                          (if sw_complete w recursive root_path
                           then Inr (c\<lparr>cs_entries := es,
                             cs_scopes := cs_scopes c @ [\<lparr>sc_path = root_path, sc_recursive = recursive, sc_exact_file = False\<rparr>]\<rparr>)
                           else Inl (''cannot traverse '' @ [CHR 0x27] @ root_path @ [CHR 0x27]))))))"

fun collect_paths :: "ScanWorld \<Rightarrow> bool \<Rightarrow> string list \<Rightarrow> string list \<Rightarrow> CollectedSnapshot \<Rightarrow> string + CollectedSnapshot" where
  "collect_paths w recursive excludes [] c = Inr c"
| "collect_paths w recursive excludes (p # ps) c =
     (case CollectPath w recursive excludes p c of
        Inl error \<Rightarrow> Inl error
      | Inr c' \<Rightarrow> collect_paths w recursive excludes ps c')"

section \<open>The command\<close>

text \<open>The database: whether it can be opened and whether the snapshot can be written.\<close>

record SnapshotWorld = ScanWorld +
  sw_started :: string
  sw_finished :: string
  sw_pid :: int
  sw_db_open :: bool
  sw_db_ok :: bool

text \<open>The exit code and the tables of the database file; \<open>None\<close> is the exception of \<open>NormalizePath\<close>, which
  nothing catches here.\<close>

definition RunBaselineSnapshot :: "SnapshotWorld \<Rightarrow> string list \<Rightarrow> BaselineStore \<Rightarrow> (int \<times> BaselineStore) option" where
  "RunBaselineSnapshot w argv st =
     (case ParseSnapshotOptions argv of
        ParseError _ \<Rightarrow> Some (2, st)
      | Help \<Rightarrow> Some (0, st)
      | Parsed opts \<Rightarrow>
         (case (normalize_all (sw_cwd w) (so_paths opts), normalize_all (sw_cwd w) (so_excludes opts),
                NormalizePath (sw_cwd w) (so_db_path opts)) of
            (Some paths0, Some excludes0, Some db_path) \<Rightarrow>
              (let excludes = excludes0 @ [db_path];
                   paths = remdups_adj (text_sort (\<lambda>p. p) paths0)
               in case collect_paths (ScanWorld.truncate w) (so_recursive opts) excludes paths \<lparr>cs_entries = [], cs_scopes = []\<rparr> of
                    Inl _ \<Rightarrow> Some (1, st)
                  | Inr c \<Rightarrow>
                      (let entries = text_sort en_file_path (cs_entries c);
                           meta = \<lparr>me_snapshot_id = sw_started w @ ''-'' @ dec_of_int (sw_pid w), me_label = so_label opts,
                                   me_finished_at = sw_finished w\<rparr>
                       in if \<not> sw_db_open w then Some (1, st)
                          else (case ApplySnapshot (sw_db_ok w) meta entries (cs_scopes c) excludes (so_recursive opts)
                                       (JoinLines paths) (JoinLines excludes) (sw_started w)
                                       (zero_stats\<lparr>ss_scanned := int (length entries)\<rparr>) st of
                                  None \<Rightarrow> Some (1, st)
                                | Some (_, st') \<Rightarrow> Some (0, st'))))
          | _ \<Rightarrow> None))"

end
