(* ===== verification/Baseline_Cmds.thy ===== *)
theory Baseline_Cmds
  imports Baseline_Scan File_Alerts
begin

text \<open>
  The commands \<open>baseline check\<close>, \<open>baseline delete\<close>, \<open>baseline clean\<close> and \<open>baseline list\<close>
  (\<open>src/src/baseline/baseline_check.cpp\<close>, \<open>baseline_delete.cpp\<close>, \<open>baseline_clean.cpp\<close>,
  \<open>baseline_list.cpp\<close>): their options, what they do to the database and their exit codes. What they
  print is given by the values the printers receive. The configuration reader, the report
  generator, the clocks and the outcomes of the database are arguments.
\<close>

section \<open>Options\<close>

definition ends_with :: "string \<Rightarrow> string \<Rightarrow> bool" where
  "ends_with str sfx \<longleftrightarrow>
     (if length sfx > length str then False else take (length sfx) (rev str) = rev sfx)"

record CheckOptions =
  ko_db_path :: string
  ko_path_filter :: string
  ko_report_html :: string
  ko_config_path :: string
  ko_json_output :: bool
  ko_send_webhook :: bool

fun check_args :: "string list \<Rightarrow> CheckOptions \<Rightarrow> CheckOptions Parsed" where
  "check_args [] o1 = Parsed o1"
| "check_args (arg # rest) o1 =
     (if arg = ''-h'' \<or> arg = ''--help'' then Help
      else if arg = ''--db'' \<or> arg = ''--path-filter'' \<or> arg = ''--report_html'' \<or> arg = ''-c'' \<or> arg = ''--config'' then
        (case rest of
           [] \<Rightarrow> missing_value arg
         | v # rest' \<Rightarrow>
             check_args rest'
               (if arg = ''--db'' then o1\<lparr>ko_db_path := v\<rparr>
                else if arg = ''--path-filter'' then o1\<lparr>ko_path_filter := v\<rparr>
                else if arg = ''--report_html'' then o1\<lparr>ko_report_html := v\<rparr>
                else o1\<lparr>ko_config_path := v\<rparr>))
      else if starts_with ''--db='' arg then check_args rest (o1\<lparr>ko_db_path := drop 5 arg\<rparr>)
      else if starts_with ''--path-filter='' arg then check_args rest (o1\<lparr>ko_path_filter := drop 14 arg\<rparr>)
      else if starts_with ''--report_html='' arg then check_args rest (o1\<lparr>ko_report_html := drop 14 arg\<rparr>)
      else if arg = ''--json'' then check_args rest (o1\<lparr>ko_json_output := True\<rparr>)
      else if arg = ''--send-webhook'' then check_args rest (o1\<lparr>ko_send_webhook := True\<rparr>)
      else if starts_with ''--config='' arg then check_args rest (o1\<lparr>ko_config_path := drop 9 arg\<rparr>)
      else ParseError (''unknown check option: '' @ arg))"

definition nonempty_db :: "('a \<Rightarrow> string) \<Rightarrow> 'a Parsed \<Rightarrow> 'a Parsed" where
  "nonempty_db db p =
     (case p of Parsed o1 \<Rightarrow> (if db o1 = [] then ParseError ''--db must not be empty'' else p) | _ \<Rightarrow> p)"

definition ParseCheckOptions :: "string list \<Rightarrow> CheckOptions Parsed" where
  "ParseCheckOptions argv =
     nonempty_db ko_db_path (check_args argv \<lparr>ko_db_path = default_db, ko_path_filter = [], ko_report_html = [],
       ko_config_path = [], ko_json_output = False, ko_send_webhook = False\<rparr>)"

record DeleteOptions =
  do_db_path :: string
  do_paths :: "string list"
  do_recursive :: bool

fun delete_args :: "bool \<Rightarrow> string list \<Rightarrow> DeleteOptions \<Rightarrow> DeleteOptions Parsed" where
  "delete_args end_options [] o1 = Parsed o1"
| "delete_args end_options (arg # rest) o1 =
     (if end_options then delete_args True rest (o1\<lparr>do_paths := do_paths o1 @ [arg]\<rparr>)
      else if arg = ''--'' then delete_args True rest o1
      else if arg = ''-h'' \<or> arg = ''--help'' then Help
      else if arg = ''--recurse'' then delete_args False rest (o1\<lparr>do_recursive := True\<rparr>)
      else if arg = ''--db'' then
        (case rest of [] \<Rightarrow> missing_value arg | v # rest' \<Rightarrow> delete_args False rest' (o1\<lparr>do_db_path := v\<rparr>))
      else if starts_with ''--db='' arg then delete_args False rest (o1\<lparr>do_db_path := drop 5 arg\<rparr>)
      else if is_option arg then ParseError (''unknown delete option: '' @ arg)
      else delete_args False rest (o1\<lparr>do_paths := do_paths o1 @ [arg]\<rparr>))"

definition ParseDeleteOptions :: "string list \<Rightarrow> DeleteOptions Parsed" where
  "ParseDeleteOptions argv =
     (case delete_args False argv \<lparr>do_db_path = default_db, do_paths = [], do_recursive = False\<rparr> of
        Parsed o1 \<Rightarrow>
          (if do_paths o1 = [] then ParseError ''at least one file or directory path is required''
           else nonempty_db do_db_path (Parsed o1))
      | r \<Rightarrow> r)"

record CleanOptions =
  co_db_path :: string
  co_dry_run :: bool

fun clean_args :: "string list \<Rightarrow> CleanOptions \<Rightarrow> CleanOptions Parsed" where
  "clean_args [] o1 = Parsed o1"
| "clean_args (arg # rest) o1 =
     (if arg = ''-h'' \<or> arg = ''--help'' then Help
      else if arg = ''--dry-run'' then clean_args rest (o1\<lparr>co_dry_run := True\<rparr>)
      else if arg = ''--db'' then
        (case rest of [] \<Rightarrow> missing_value arg | v # rest' \<Rightarrow> clean_args rest' (o1\<lparr>co_db_path := v\<rparr>))
      else if starts_with ''--db='' arg then clean_args rest (o1\<lparr>co_db_path := drop 5 arg\<rparr>)
      else ParseError (''unknown clean option: '' @ arg))"

definition ParseCleanOptions :: "string list \<Rightarrow> CleanOptions Parsed" where
  "ParseCleanOptions argv = nonempty_db co_db_path (clean_args argv \<lparr>co_db_path = default_db, co_dry_run = False\<rparr>)"

text \<open>The number at the beginning of a text, after blanks: a sign and digits, then anything.\<close>

definition leading_number :: "string \<Rightarrow> int option" where
  "leading_number s =
     (let t = dropWhile c_isspace s;
          neg = (t \<noteq> [] \<and> hd t = CHR ''-'');
          u = (if t \<noteq> [] \<and> (hd t = CHR ''-'' \<or> hd t = CHR ''+'') then tl t else t);
          digits = takeWhile c_isdigit u;
          v = int (nat_of_dec digits)
      in if digits = [] then None else Some (if neg then - v else v))"

text \<open>\<open>std::stoi\<close>; \<open>None\<close> is an exception.\<close>

definition stoi :: "string \<Rightarrow> int option" where
  "stoi s =
     (case leading_number s of
        None \<Rightarrow> None
      | Some v \<Rightarrow> (if v < - 2147483648 \<or> v > 2147483647 then None else Some v))"

record ListOptions =
  lo_db_path :: string
  lo_path_filter :: string
  lo_limit :: int
  lo_offset :: int
  lo_json_output :: bool
  lo_hash_only :: bool

definition take_int :: "string \<Rightarrow> string \<Rightarrow> string \<Rightarrow> string + int" where
  "take_int invalid option value =
     (case stoi value of
        None \<Rightarrow> Inl invalid
      | Some v \<Rightarrow> (if v < 0 then Inl (option @ '' must be non-negative'') else Inr v))"

definition set_int :: "string \<Rightarrow> int \<Rightarrow> ListOptions \<Rightarrow> ListOptions" where
  "set_int option v o1 = (if option = ''--limit'' then o1\<lparr>lo_limit := v\<rparr> else o1\<lparr>lo_offset := v\<rparr>)"

fun list_args :: "bool \<Rightarrow> string list \<Rightarrow> ListOptions \<Rightarrow> ListOptions Parsed" where
  "list_args end_options [] o1 = Parsed o1"
| "list_args end_options (arg # rest) o1 =
     (if end_options then ParseError (''unexpected positional argument: '' @ arg)
      else if arg = ''--'' then list_args True rest o1
      else if arg = ''-h'' \<or> arg = ''--help'' then Help
      else if arg = ''--json'' then list_args False rest (o1\<lparr>lo_json_output := True\<rparr>)
      else if arg = ''--hash-only'' then list_args False rest (o1\<lparr>lo_hash_only := True\<rparr>)
      else if arg = ''--db'' then
        (case rest of [] \<Rightarrow> missing_value arg | v # rest' \<Rightarrow> list_args False rest' (o1\<lparr>lo_db_path := v\<rparr>))
      else if starts_with ''--db='' arg then list_args False rest (o1\<lparr>lo_db_path := drop 5 arg\<rparr>)
      else if arg = ''--path-filter'' then
        (case rest of [] \<Rightarrow> missing_value arg | v # rest' \<Rightarrow> list_args False rest' (o1\<lparr>lo_path_filter := v\<rparr>))
      else if starts_with ''--path-filter='' arg then list_args False rest (o1\<lparr>lo_path_filter := drop 14 arg\<rparr>)
      else if arg = ''--limit'' \<or> arg = ''--offset'' then
        (case rest of
           [] \<Rightarrow> missing_value arg
         | value # rest' \<Rightarrow>
             (case take_int (''invalid integer value for '' @ arg @ '': '' @ value) arg value of
                Inl error \<Rightarrow> ParseError error
              | Inr v \<Rightarrow> list_args False rest' (set_int arg v o1)))
      else if starts_with ''--limit='' arg then
        (case take_int ''invalid integer value for --limit'' ''--limit'' (drop 8 arg) of
           Inl error \<Rightarrow> ParseError error
         | Inr v \<Rightarrow> list_args False rest (set_int ''--limit'' v o1))
      else if starts_with ''--offset='' arg then
        (case take_int ''invalid integer value for --offset'' ''--offset'' (drop 9 arg) of
           Inl error \<Rightarrow> ParseError error
         | Inr v \<Rightarrow> list_args False rest (set_int ''--offset'' v o1))
      else if is_option arg then ParseError (''unknown list option: '' @ arg)
      else ParseError (''unexpected positional argument: '' @ arg))"

definition ParseListOptions :: "string list \<Rightarrow> ListOptions Parsed" where
  "ParseListOptions argv =
     nonempty_db lo_db_path (list_args False argv \<lparr>lo_db_path = default_db, lo_path_filter = [], lo_limit = 0,
       lo_offset = 0, lo_json_output = False, lo_hash_only = False\<rparr>)"

section \<open>Comparing with the disk\<close>

record CheckFinding =
  cf_file_path :: string
  cf_event_type :: string
  cf_severity :: string
  cf_expected :: string
  cf_actual :: string
  cf_details :: string

definition CheckOneEntry :: "Files \<Rightarrow> CheckEntry \<Rightarrow> CheckFinding list" where
  "CheckOneEntry fs entry =
     (case f_lstat fs (en_file_path entry) of
        None \<Rightarrow> [\<lparr>cf_file_path = en_file_path entry, cf_event_type = ''missing'', cf_severity = ''high'',
                 cf_expected = ''file exists'', cf_actual = ''file missing'',
                 cf_details = ''baseline entry exists but file not found on disk''\<rparr>]
      | Some st \<Rightarrow>
          (case compute_sha256 fs (en_file_path entry) of
             Inl what \<Rightarrow> [\<lparr>cf_file_path = en_file_path entry, cf_event_type = ''access_failed'', cf_severity = ''medium'',
                         cf_expected = ''hash computable'', cf_actual = ''error: '' @ what,
                         cf_details = ''cannot compute sha256''\<rparr>]
           | Inr actual_hash \<Rightarrow>
               (let hash_changed = (actual_hash \<noteq> en_hash entry);
                    diff = ComparePermOwnership (and (st_mode st) 0x1FF) (st_uid st) (st_gid st)
                             (en_permission entry) (en_uid entry) (en_gid entry)
                in (if hash_changed
                    then [\<lparr>cf_file_path = en_file_path entry, cf_event_type = ''hash_changed'', cf_severity = ''high'',
                           cf_expected = short_hash (en_hash entry), cf_actual = short_hash actual_hash,
                           cf_details = ''file content has changed''\<rparr>] else []) @
                   (if has_diff diff
                    then [\<lparr>cf_file_path = en_file_path entry, cf_event_type = ''perm_changed'', cf_severity = ''medium'',
                           cf_expected = diff_expected diff, cf_actual = diff_actual diff,
                           cf_details = (if hash_changed then ''permission/ownership changed (hash also changed)''
                                         else ''permission/ownership changed (hash unchanged)'')\<rparr>] else []))))"

definition FileExistsOnDisk :: "Files \<Rightarrow> string \<Rightarrow> bool" where
  "FileExistsOnDisk fs path \<longleftrightarrow> f_lstat fs path \<noteq> None"

section \<open>The command check\<close>

definition kRuleId :: string where "kRuleId = ''baseline-check''"

definition kRuleName :: string where
  "kRuleName = utf8_bytes [0xE7, 0xA6, 0xBB, 0xE7, 0xBA, 0xBF, 0xE5, 0x9F, 0xBA, 0xE7, 0xBA, 0xBF, 0xE6, 0xA0, 0xB8,
     0xE6, 0x9F, 0xA5]"

definition finding_event :: "string \<Rightarrow> CheckFinding \<Rightarrow> AlertEvent" where
  "finding_event now_iso f =
     empty_alert\<lparr>ae_rule_id := kRuleId, ae_rule_name := ''['' @ kRuleName @ ''] '' @ kRuleName, ae_severity := cf_severity f,
       ae_file_path := cf_file_path f, ae_expected := cf_expected f, ae_actual := cf_actual f,
       ae_event_type := cf_event_type f, ae_action_taken := ''report_only'', ae_timestamp := now_iso\<rparr>"

text \<open>A record whose other fields are those of a fresh one; \<open>SaveAlert\<close> writes its empty texts.\<close>

definition finding_record :: "AlertEvent \<Rightarrow> AlertRecord" where
  "finding_record e =
     \<lparr>ar_rule_id = ae_rule_id e, ar_rule_name = ae_rule_name e, ar_severity = ae_severity e, ar_file_path = ae_file_path e,
      ar_event_type = ae_event_type e, ar_process_name = [], ar_pid = 0, ar_user_name = [], ar_uid = [],
      ar_expected = ae_expected e, ar_actual = ae_actual e, ar_action_taken = ae_action_taken e, ar_dingtalk_sent = False,
      ar_recorded_at = ae_timestamp e, ar_exe = [], ar_container_id = [], ar_ancestors = [], ar_attack = []\<rparr>"

text \<open>The world of one run: \<open>cw_send i\<close> and \<open>cw_iso i\<close> answer the calls for the finding number \<open>i\<close>.
  \<open>cw_config\<close> is the configuration reader, \<open>None\<close> its exception.\<close>

record CheckWorld =
  cw_files :: Files
  cw_db_exists :: "string \<Rightarrow> bool"
  cw_db_open :: bool
  cw_alert_db_open :: bool
  cw_config :: "string \<Rightarrow> (AlertConfig \<times> DbConfig) option"
  cw_report_ok :: bool
  cw_send :: "nat \<Rightarrow> World"
  cw_iso :: "nat \<Rightarrow> string"

record CheckDb =
  kd_store :: BaselineStore
  kd_alerts :: AlertsTable

definition load_check_config :: "CheckWorld \<Rightarrow> CheckOptions \<Rightarrow> AlertManager" where
  "load_check_config w o1 =
     (if ko_send_webhook o1 \<and> ko_config_path o1 \<noteq> [] then
        (if \<not> ends_with (ko_config_path o1) ''.yaml'' \<and> \<not> ends_with (ko_config_path o1) ''.yml'' then new_manager
         else (case cw_config w (ko_config_path o1) of
                 None \<Rightarrow> new_manager
               | Some (alert_cfg, db_cfg) \<Rightarrow> LoadConfig alert_cfg db_cfg new_manager))
      else new_manager)"

definition write_alert :: "CheckWorld \<Rightarrow> CheckOptions \<Rightarrow> nat \<times> CheckFinding \<Rightarrow> AlertManager \<Rightarrow> AlertManager" where
  "write_alert w o1 x m =
     (case x of (i, f) \<Rightarrow>
        (let event = finding_event (cw_iso w i) f
         in if ko_send_webhook o1 \<and> IsEnabled m then snd (SendDingTalk (cw_send w i) event m)
            else m\<lparr>am_db := map_option (SaveAlert (db_ok (w_db (cw_send w i))) (finding_record event)) (am_db m)\<rparr>))"

text \<open>\<open>None\<close> is the exception of the second handle of the database.\<close>

definition WriteAlerts :: "CheckWorld \<Rightarrow> CheckOptions \<Rightarrow> CheckFinding list \<Rightarrow> AlertsTable \<Rightarrow> AlertsTable option" where
  "WriteAlerts w o1 findings alerts =
     (if findings = [] then Some alerts
      else if \<not> cw_alert_db_open w then None
      else am_db (fold (write_alert w o1) (enumerate 0 findings)
                    (SetDB (Some alerts) (SetDB None (load_check_config w o1)))))"

text \<open>The exit code, the reported findings and the database.\<close>

definition RunBaselineCheck :: "CheckWorld \<Rightarrow> string list \<Rightarrow> CheckDb \<Rightarrow> int \<times> CheckFinding list \<times> CheckDb" where
  "RunBaselineCheck w argv db =
     (case ParseCheckOptions argv of
        ParseError _ \<Rightarrow> (2, [], db)
      | Help \<Rightarrow> (0, [], db)
      | Parsed o1 \<Rightarrow>
          (if \<not> cw_db_exists w (ko_db_path o1) then (1, [], db)
           else if \<not> cw_db_open w then (1, [], db)
           else
             (let entries = lr_entries (ListBaselineEntries (ko_path_filter o1) 0 0 (kd_store db))
              in if entries = [] then (0, [], db)
                 else
                   (let findings = filter (\<lambda>f. cf_event_type f \<noteq> []) (concat (map (CheckOneEntry (cw_files w)) entries))
                    in case WriteAlerts w o1 findings (kd_alerts db) of
                         None \<Rightarrow> (1, [], db)
                       | Some alerts \<Rightarrow>
                           (let db' = db\<lparr>kd_alerts := alerts\<rparr>
                            in if \<not> ko_json_output o1 \<and> ko_report_html o1 \<noteq> [] \<and> \<not> cw_report_ok w then (1, [], db')
                               else (if findings = [] then 0 else 1, findings, db'))))))"

section \<open>The commands delete, clean and list\<close>

text \<open>\<open>opens\<close>: the database can be opened; \<open>fails\<close>, \<open>now\<close>: the outcome of its statements and its clock.
  \<open>None\<close> is the exception of \<open>NormalizePath\<close>, which nothing catches.\<close>

definition RunBaselineDelete ::
  "string \<Rightarrow> bool \<Rightarrow> nat option \<Rightarrow> string \<Rightarrow> string list \<Rightarrow> BaselineStore \<Rightarrow> (int \<times> nat \<times> BaselineStore) option" where
  "RunBaselineDelete cwd opens fails now argv st =
     (case ParseDeleteOptions argv of
        ParseError _ \<Rightarrow> Some (2, 0, st)
      | Help \<Rightarrow> Some (0, 0, st)
      | Parsed o1 \<Rightarrow>
          (case normalize_all cwd (do_paths o1) of
             None \<Rightarrow> None
           | Some paths0 \<Rightarrow>
               (let paths = remdups_adj (text_sort (\<lambda>p. p) paths0)
                in if \<not> opens then Some (1, 0, st)
                   else (case DeleteBaselineEntries fails now paths (do_recursive o1) ''manual-delete'' st of
                           (deleted, st') \<Rightarrow> Some (0, deleted, st')))))"

definition orphan_paths :: "Files \<Rightarrow> BaselineStore \<Rightarrow> string list" where
  "orphan_paths fs st =
     filter (\<lambda>path. \<not> FileExistsOnDisk fs path) (map en_file_path (GetAllBaselineEntries st))"

definition RunBaselineClean ::
  "Files \<Rightarrow> (string \<Rightarrow> bool) \<Rightarrow> bool \<Rightarrow> nat option \<Rightarrow> string \<Rightarrow> string list \<Rightarrow> BaselineStore \<Rightarrow> int \<times> nat \<times> BaselineStore" where
  "RunBaselineClean fs db_exists opens fails now argv st =
     (case ParseCleanOptions argv of
        ParseError _ \<Rightarrow> (2, 0, st)
      | Help \<Rightarrow> (0, 0, st)
      | Parsed o1 \<Rightarrow>
          (if \<not> db_exists (co_db_path o1) then (1, 0, st)
           else if \<not> opens then (1, 0, st)
           else if GetAllBaselineEntries st = [] then (0, 0, st)
           else if orphan_paths fs st = [] then (0, 0, st)
           else if co_dry_run o1 then (0, 0, st)
           else (case DeleteBaselineEntries fails now (orphan_paths fs st) False ''orphan-clean'' st of
                   (deleted, st') \<Rightarrow> (0, deleted, st'))))"

definition hash_mismatch :: "Files \<Rightarrow> CheckEntry \<Rightarrow> bool" where
  "hash_mismatch fs entry \<longleftrightarrow>
     (case compute_sha256 fs (en_file_path entry) of Inl _ \<Rightarrow> True | Inr current_hash \<Rightarrow> current_hash \<noteq> en_hash entry)"

text \<open>The exit code and what the printers receive.\<close>

definition RunBaselineList ::
  "Files \<Rightarrow> (string \<Rightarrow> bool) \<Rightarrow> bool \<Rightarrow> string list \<Rightarrow> BaselineStore \<Rightarrow> int \<times> ListResult option" where
  "RunBaselineList fs db_exists opens argv st =
     (case ParseListOptions argv of
        ParseError _ \<Rightarrow> (2, None)
      | Help \<Rightarrow> (0, None)
      | Parsed o1 \<Rightarrow>
          (if \<not> db_exists (lo_db_path o1) then (1, None)
           else if \<not> opens then (1, None)
           else
             (let r = ListBaselineEntries (lo_path_filter o1) (lo_limit o1) (lo_offset o1) st
              in (0, Some (if lo_hash_only o1 then r\<lparr>lr_entries := filter (hash_mismatch fs) (lr_entries r)\<rparr> else r)))))"

end
