(* ===== verification/Rule_Check.thy ===== *)
theory Rule_Check
  imports Baseline_Cmds
begin

text \<open>
  The one-time check of the configured rules (\<open>src/src/baseline/check.cpp\<close>), the table of
  observed baselines it writes (\<open>src/src/storage/baseline_db.cpp\<close>) and the rows of its report
  (\<open>src/src/baseline/report_generator.cpp\<close>). The files below \<open>/proc/sys\<close>, the clock and the outcome of
  the statements are arguments; an exception that leaves the check is \<open>Inl\<close>.
\<close>

section \<open>Observed baselines\<close>

record BaselineRecord =
  br_file_path :: string
  br_hash :: string
  br_permission :: string
  br_owner :: string
  br_grp :: string
  br_recorded_at :: string

text \<open>\<open>INSERT OR REPLACE\<close> deletes the row with the same key first.\<close>

definition SaveBaseline :: "bool \<Rightarrow> BaselineRecord \<Rightarrow> BaselineRecord list \<Rightarrow> BaselineRecord list" where
  "SaveBaseline ok r rows = (if ok then filter (\<lambda>s. br_file_path s \<noteq> br_file_path r) rows @ [r] else rows)"

definition GetBaseline :: "string \<Rightarrow> BaselineRecord list \<Rightarrow> BaselineRecord" where
  "GetBaseline path rows =
     (case find (\<lambda>r. br_file_path r = path) rows of
        Some r \<Rightarrow> r
      | None \<Rightarrow> \<lparr>br_file_path = [], br_hash = [], br_permission = [], br_owner = [], br_grp = [], br_recorded_at = []\<rparr>)"

definition GetAllBaselines :: "BaselineRecord list \<Rightarrow> BaselineRecord list" where
  "GetAllBaselines rows = text_sort br_file_path rows"

section \<open>Kernel parameters\<close>

text \<open>\<open>stream >> value\<close> for a \<open>long long\<close>: \<open>None\<close> is a failed stream.\<close>

definition extract_ll :: "string \<Rightarrow> int option" where
  "extract_ll s =
     (case leading_number s of None \<Rightarrow> None | Some v \<Rightarrow> (if in_llong v then Some v else None))"

definition read_kernel_param :: "(string \<Rightarrow> string option) \<Rightarrow> string \<Rightarrow> int option" where
  "read_kernel_param sysfs param =
     (case sysfs (map (\<lambda>c. if c = CHR ''.'' then CHR ''/'' else c) (''/proc/sys/'' @ param)) of
        None \<Rightarrow> None
      | Some content \<Rightarrow> extract_ll content)"

definition compare_value :: "int \<Rightarrow> int \<Rightarrow> string \<Rightarrow> bool" where
  "compare_value actual wanted op \<longleftrightarrow>
     (if op = ''='' then actual = wanted
      else if op = ''!='' then actual \<noteq> wanted
      else if op = ''>='' then actual \<ge> wanted
      else if op = ''<='' then actual \<le> wanted
      else if op = ''>'' then actual > wanted
      else if op = ''<'' then actual < wanted
      else actual = wanted)"

section \<open>The check\<close>

record CheckResult =
  rs_rule_id :: string
  rs_rule_name :: string
  rs_file_path :: string
  rs_expected :: string
  rs_actual :: string
  rs_passed :: bool
  rs_severity :: string

record CheckRun =
  cr_results :: "CheckResult list"
  cr_pass :: int
  cr_fail :: int
  cr_saved :: "BaselineRecord list"

definition count_result :: "bool \<Rightarrow> CheckResult \<Rightarrow> BaselineRecord \<Rightarrow> bool \<Rightarrow> CheckRun \<Rightarrow> CheckRun" where
  "count_result ok r record rule_failed run =
     (let run1 = run\<lparr>cr_saved := SaveBaseline ok record (cr_saved run), cr_results := cr_results run @ [r]\<rparr>
      in if rule_failed then run1\<lparr>cr_fail := cr_fail run1 + 1\<rparr> else run1\<lparr>cr_pass := cr_pass run1 + 1\<rparr>)"

definition hash_prefix :: string where "hash_prefix = ''sha256:''"

definition strip_hash_prefix :: "string \<Rightarrow> string" where
  "strip_hash_prefix h = (if starts_with hash_prefix h then drop (length hash_prefix) h else h)"

definition do_file_check :: "Files \<Rightarrow> bool \<Rightarrow> string \<Rightarrow> MonRule \<Rightarrow> CheckRun \<Rightarrow> string + CheckRun" where
  "do_file_check fs ok now_iso rule run =
     (let target_path = check_path rule
      in case f_stat fs target_path of
           None \<Rightarrow> Inr (run\<lparr>cr_fail := cr_fail run + 1\<rparr>)
         | Some st \<Rightarrow>
             (let actual_mode = and (st_mode st) 0x1FF;
                  permission_failed = (''file_permission'' \<in> set (check_types rule) \<and> actual_mode \<noteq> check_expected rule);
                  has_hash_check = (''file_hash'' \<in> set (check_types rule));
                  first_hash = (if has_hash_check then compute_sha256 fs target_path else Inr [])
              in case first_hash of
                   Inl what \<Rightarrow> Inl what
                 | Inr actual_hash \<Rightarrow>
                     (let hash_failed = (has_hash_check \<and> actual_hash \<noteq> strip_hash_prefix (check_hash rule))
                      in case (if actual_hash = [] then compute_sha256 fs target_path else Inr actual_hash) of
                           Inl what \<Rightarrow> Inl what
                         | Inr saved_hash \<Rightarrow>
                             Inr (count_result ok
                               \<lparr>rs_rule_id = mr_id rule, rs_rule_name = mr_name rule, rs_file_path = check_path rule,
                                rs_expected = mode_to_string (check_expected rule), rs_actual = mode_to_string actual_mode,
                                rs_passed = (\<not> (permission_failed \<or> hash_failed)), rs_severity = severityToString (mr_severity rule)\<rparr>
                               \<lparr>br_file_path = target_path, br_hash = saved_hash, br_permission = mode_to_string actual_mode,
                                br_owner = dec_of_int (uint (st_uid st)), br_grp = dec_of_int (uint (st_gid st)),
                                br_recorded_at = now_iso\<rparr>
                               (permission_failed \<or> hash_failed) run))))"

definition do_kernel_param_check :: "(string \<Rightarrow> string option) \<Rightarrow> bool \<Rightarrow> string \<Rightarrow> MonRule \<Rightarrow> CheckRun \<Rightarrow> CheckRun" where
  "do_kernel_param_check sysfs ok now_iso rule run =
     (case read_kernel_param sysfs (check_param rule) of
        None \<Rightarrow> run\<lparr>cr_fail := cr_fail run + 1\<rparr>
      | Some actual_value \<Rightarrow>
          (let passed = compare_value actual_value (check_expected_value rule) (check_operator rule);
               key = ''[kernel_param] '' @ check_param rule
           in count_result ok
                \<lparr>rs_rule_id = mr_id rule, rs_rule_name = mr_name rule, rs_file_path = key,
                 rs_expected = check_operator rule @ '' '' @ dec_of_int (check_expected_value rule),
                 rs_actual = dec_of_int actual_value, rs_passed = passed, rs_severity = severityToString (mr_severity rule)\<rparr>
                \<lparr>br_file_path = key, br_hash = dec_of_int actual_value, br_permission = ''-'', br_owner = ''-'', br_grp = ''-'',
                 br_recorded_at = now_iso\<rparr>
                (\<not> passed) run))"

fun check_rules :: "Files \<Rightarrow> (string \<Rightarrow> string option) \<Rightarrow> bool \<Rightarrow> string \<Rightarrow> MonRule list \<Rightarrow> CheckRun \<Rightarrow> string + CheckRun" where
  "check_rules fs sysfs ok now_iso [] run = Inr run"
| "check_rules fs sysfs ok now_iso (rule # rules) run =
     (if \<not> has_check rule then check_rules fs sysfs ok now_iso rules run
      else if ''kernel_param'' \<in> set (check_types rule)
      then check_rules fs sysfs ok now_iso rules (do_kernel_param_check sysfs ok now_iso rule run)
      else (case do_file_check fs ok now_iso rule run of
              Inl what \<Rightarrow> Inl what
            | Inr run' \<Rightarrow> check_rules fs sysfs ok now_iso rules run'))"

text \<open>The exit code and the run; the report is written from \<open>cr_results\<close>.\<close>

definition do_check :: "Files \<Rightarrow> (string \<Rightarrow> string option) \<Rightarrow> bool \<Rightarrow> string \<Rightarrow> MonRule list \<Rightarrow> BaselineRecord list \<Rightarrow>
    string + int \<times> CheckRun" where
  "do_check fs sysfs ok now_iso rules saved =
     (case check_rules fs sysfs ok now_iso rules \<lparr>cr_results = [], cr_pass = 0, cr_fail = 0, cr_saved = saved\<rparr> of
        Inl what \<Rightarrow> Inl what
      | Inr run \<Rightarrow> Inr (if cr_fail run > 0 then 1 else 0, run))"

section \<open>Rows of the report\<close>

definition escape_html_char :: "char \<Rightarrow> string" where
  "escape_html_char c =
     (if c = CHR ''&'' then ''&amp;''
      else if c = CHR ''<'' then ''&lt;''
      else if c = CHR ''>'' then ''&gt;''
      else if c = CHR 0x22 then ''&quot;''
      else [c])"

definition EscapeHtml :: "string \<Rightarrow> string" where
  "EscapeHtml raw = concat (map escape_html_char raw)"

definition status_text :: "bool \<Rightarrow> string" where
  "status_text passed =
     utf8_bytes (if passed then [0xE2, 0x9C, 0x85, 0x20, 0xE9, 0x80, 0x9A, 0xE8, 0xBF, 0x87]
                 else [0xE2, 0x9D, 0x8C, 0x20, 0xE5, 0xA4, 0xB1, 0xE8, 0xB4, 0xA5])"

definition td :: "string \<Rightarrow> string" where
  "td body = ''<td>'' @ body @ ''</td>'' @ [CHR 0x0A]"

definition td_class :: "string \<Rightarrow> string \<Rightarrow> string" where
  "td_class cls body = ''<td class='' @ [CHR 0x22] @ cls @ [CHR 0x22] @ ''>'' @ body @ ''</td>'' @ [CHR 0x0A]"

definition check_row_html :: "CheckResult \<Rightarrow> string" where
  "check_row_html r =
     ''<tr>'' @ [CHR 0x0A] @
     td (EscapeHtml (rs_rule_id r)) @
     td (EscapeHtml (rs_rule_name r)) @
     td (''<code>'' @ EscapeHtml (rs_file_path r) @ ''</code>'') @
     td (EscapeHtml (rs_expected r)) @
     td (EscapeHtml (rs_actual r)) @
     td_class (if rs_passed r then ''status-pass'' else ''status-fail'') (status_text (rs_passed r)) @
     td_class (''severity-'' @ rs_severity r) (EscapeHtml (rs_severity r)) @
     ''</tr>'' @ [CHR 0x0A]"

text \<open>The counts of the summary.\<close>

definition check_summary :: "CheckResult list \<Rightarrow> int \<times> int \<times> int" where
  "check_summary results =
     (let total = int (length results); passed = int (length (filter rs_passed results)) in (total, passed, total - passed))"

end
