(* ===== verification/Snapshot_Correct.thy ===== *)
theory Snapshot_Correct
  imports Rule_Check
begin

text \<open>
  Correctness of the stored baseline: what a snapshot does to the entries and to the audit trail,
  when a comparison with the disk is silent, and which files a scan and its scopes reach.
\<close>

section \<open>Contents\<close>

definition store_ok :: "BaselineStore \<Rightarrow> bool" where
  "store_ok st \<longleftrightarrow> distinct (map en_file_path (bs_entries st))"

definition row_pair :: "CheckEntry \<Rightarrow> string \<times> SnapshotEntry" where
  "row_pair r = (en_file_path r, entry_of_row r)"

definition contents :: "BaselineStore \<Rightarrow> string \<rightharpoonup> SnapshotEntry" where
  "contents st = map_of (map row_pair (bs_entries st))"

lemma entry_path [simp]: "en_file_path (entry_of_row r) = en_file_path r"
  by (simp add: entry_of_row_def SnapshotEntry.defs)

lemma row_of_entry [simp]: "entry_of_row (row_of_entry e s l t) = e" "en_file_path (row_of_entry e s l t) = en_file_path e"
  by (simp_all add: entry_of_row_def row_of_entry_def SnapshotEntry.defs CheckEntry.defs)

lemma contents_path: "contents st p = Some e \<Longrightarrow> en_file_path e = p"
  by (auto simp: contents_def row_pair_def dest!: map_of_SomeD)

lemma map_of_upsert: "map_of (map row_pair (upsert_entry e rows)) = (map_of (map row_pair rows))(en_file_path e \<mapsto> entry_of_row e)"
proof -
  have "map_of (map row_pair (map (\<lambda>r. if en_file_path r = en_file_path e then e else r) rows)) p =
      (if p = en_file_path e \<and> p \<in> set (map en_file_path rows) then Some (entry_of_row e) else map_of (map row_pair rows) p)" for p
    by (induction rows) (auto simp: row_pair_def [abs_def])
  moreover have "en_file_path e \<notin> set (map en_file_path rows) \<Longrightarrow> map_of (map row_pair rows) (en_file_path e) = None"
    by (auto simp: map_of_eq_None_iff row_pair_def)
  ultimately show ?thesis by (auto simp: upsert_entry_def row_pair_def fun_eq_iff map_add_def split: option.splits)
qed

lemma map_of_delete: "map_of (map row_pair (delete_entry p rows)) = (map_of (map row_pair rows))(p := None)"
  by (induction rows) (auto simp: delete_entry_def row_pair_def fun_eq_iff)

lemma current_contents: "map_of (current_entries rows) = map_of (map row_pair rows)"
proof -
  have "map_of (fold (\<lambda>r m. if map_of m (en_file_path r) = None then map_put (en_file_path r) (entry_of_row r) m else m) rows m) =
      map_of (map row_pair rows) ++ map_of m" for m
  proof (induction rows arbitrary: m)
    case (Cons r rows)
    then show ?case
      by (auto simp: row_pair_def fun_eq_iff map_add_def map_of_map_put split: option.split)
  qed simp
  then show ?thesis by (simp add: current_entries_def)
qed

lemma current_distinct: "distinct (map fst (current_entries rows))"
proof -
  have "key_sorted m \<Longrightarrow> key_sorted (fold (\<lambda>r m. if map_of m (en_file_path r) = None
      then map_put (en_file_path r) (entry_of_row r) m else m) rows m)" for m
    by (induction rows arbitrary: m) (auto simp: key_sorted_put)
  from this [of "[]"] show ?thesis
    unfolding current_entries_def by (intro key_sorted_distinct) (simp add: key_sorted_def)
qed

lemma scanned_distinct: "distinct (map fst (scanned_entries es))"
proof -
  have "key_sorted m \<Longrightarrow> key_sorted (fold (\<lambda>e m. map_put (en_file_path e) e m) es m)" for m
    by (induction es arbitrary: m) (auto simp: key_sorted_put)
  from this [of "[]"] show ?thesis
    unfolding scanned_entries_def by (intro key_sorted_distinct) (simp add: key_sorted_def)
qed

lemma scanned_contents: "map_of (scanned_entries es) = map_of (rev (map (\<lambda>e. (en_file_path e, e)) es))"
proof -
  have "map_of (fold (\<lambda>e m. map_put (en_file_path e) e m) es m) =
      map_of m ++ map_of (rev (map (\<lambda>e. (en_file_path e, e)) es))" for m
    by (induction es arbitrary: m) (auto simp: fun_eq_iff map_of_map_put map_add_def split: option.split)
  then show ?thesis by (simp add: scanned_entries_def)
qed

lemma scanned_paths: "(p, e) \<in> set (scanned_entries es) \<Longrightarrow> en_file_path e = p"
  using map_of_is_SomeI [OF scanned_distinct, of p e es] unfolding scanned_contents
  by (auto dest!: map_of_SomeD)

lemma unchanged_eq: "\<not> changed_entry a b \<Longrightarrow> en_file_path a = en_file_path b \<Longrightarrow> a = b"
  by (simp add: changed_entry_def)

section \<open>The audit trail\<close>

definition replay :: "(string \<rightharpoonup> SnapshotEntry) \<Rightarrow> AuditRow \<Rightarrow> (string \<rightharpoonup> SnapshotEntry)" where
  "replay m r = m(au_file_path r := au_new r)"

text \<open>\<open>rows\<close> record a change of the contents from \<open>a\<close> to \<open>b\<close>, each path once.\<close>

definition records_change :: "AuditRow list \<Rightarrow> (string \<rightharpoonup> SnapshotEntry) \<Rightarrow> (string \<rightharpoonup> SnapshotEntry) \<Rightarrow> bool" where
  "records_change rows a b \<longleftrightarrow> foldl replay a rows = b \<and> distinct (map au_file_path rows) \<and>
     (\<forall>r \<in> set rows. au_old r = a (au_file_path r) \<and> au_new r \<noteq> au_old r)"

lemma replay_other: "p \<notin> set (map au_file_path rows) \<Longrightarrow> foldl replay a rows p = a p"
  by (induction rows arbitrary: a) (auto simp: replay_def)

lemma records_cons:
  assumes "records_change rows (a(p := x)) b" and "p \<notin> set (map au_file_path rows)" and "au_file_path r = p"
    and "au_new r = x" and "au_old r = a p" and "x \<noteq> a p"
  shows "records_change (r # rows) a b"
  using assms by (auto simp: records_change_def replay_def image_iff)

lemma records_append:
  assumes "records_change rows a b" and "records_change rows' b c" and "set (map au_file_path rows) \<inter> set (map au_file_path rows') = {}"
  shows "records_change (rows @ rows') a c"
proof -
  have "b p = a p" if "p \<in> set (map au_file_path rows')" for p
    using assms that replay_other [of p rows a] by (auto simp: records_change_def)
  with assms show ?thesis by (auto simp: records_change_def)
qed

lemma scanned_run:
  assumes "distinct (map fst xs)" and "\<forall>(p, e) \<in> set xs. en_file_path e = p"
    and "\<forall>p \<in> fst ` set xs. contents st p = map_of cur p" and "\<And>p e. map_of cur p = Some e \<Longrightarrow> en_file_path e = p"
    and "fold (apply_scanned meta cur) xs (stats, st) = (stats', st')"
  shows "\<exists>rows. bs_audit st' = bs_audit st @ rows \<and> contents st' = contents st ++ map_of xs \<and>
    records_change rows (contents st) (contents st') \<and> set (map au_file_path rows) \<subseteq> fst ` set xs \<and>
    ss_removed stats' = ss_removed stats \<and> ss_scanned stats' = ss_scanned stats \<and>
    ss_added stats' + ss_modified stats' + ss_unchanged stats' =
      ss_added stats + ss_modified stats + ss_unchanged stats + int (length xs) \<and>
    ss_added stats' + ss_modified stats' = ss_added stats + ss_modified stats + int (length rows)"
  using assms(1-3,5)
proof (induction xs arbitrary: stats st)
  case Nil
  then show ?case by (auto simp: records_change_def intro: exI [of _ "[]"])
next
  case (Cons x xs)
  obtain p e where x: "x = (p, e)" by force
  obtain stats1 st1 where step: "apply_scanned meta cur x (stats, st) = (stats1, st1)" by force
  have path: "en_file_path e = p" and old: "contents st p = map_of cur p" using Cons.prems x by auto
  have keys: "p \<notin> fst ` set xs" using Cons.prems(1) x by auto
  let ?changed = "case map_of cur p of None \<Rightarrow> True | Some old \<Rightarrow> changed_entry old e"
  have contents1: "contents st1 = (contents st)(p \<mapsto> e)"
  proof (cases ?changed)
    case True
    with step x path show ?thesis by (auto simp: apply_scanned_def contents_def map_of_upsert Let_def split: option.splits)
  next
    case False
    then obtain o1 where "map_of cur p = Some o1" "\<not> changed_entry o1 e" by (auto split: option.splits)
    with assms(4) path unchanged_eq have "map_of cur p = Some e" by metis
    with step x False old show ?thesis by (auto simp: apply_scanned_def fun_upd_idem)
  qed
  have prem: "\<forall>q \<in> fst ` set xs. contents st1 q = map_of cur q" using Cons.prems(3) keys x by (auto simp: contents1)
  have "fold (apply_scanned meta cur) xs (stats1, st1) = (stats', st')" using Cons.prems(4) step by simp
  with Cons.IH [of st1 stats1] Cons.prems(1,2) prem obtain rows where rows:
    "bs_audit st' = bs_audit st1 @ rows" "contents st' = contents st1 ++ map_of xs"
    "records_change rows (contents st1) (contents st')" "set (map au_file_path rows) \<subseteq> fst ` set xs"
    "ss_removed stats' = ss_removed stats1" "ss_scanned stats' = ss_scanned stats1"
    "ss_added stats' + ss_modified stats' + ss_unchanged stats' =
      ss_added stats1 + ss_modified stats1 + ss_unchanged stats1 + int (length xs)"
    "ss_added stats' + ss_modified stats' = ss_added stats1 + ss_modified stats1 + int (length rows)"
    by auto
  have total: "contents st' = contents st ++ map_of (x # xs)"
    using rows(2) keys x by (auto simp: contents1 fun_eq_iff map_add_def map_of_eq_None_iff split: option.splits)
  show ?case
  proof (cases ?changed)
    case True
    define r where "r = audit_row meta (if map_of cur p = None then ''added'' else ''modified'') p (map_of cur p) (Some e)"
    have r: "au_file_path r = p" "au_new r = Some e" "au_old r = map_of cur p" by (simp_all add: r_def audit_row_def)
    have "Some e \<noteq> contents st p" using True old by (cases "map_of cur p") (auto simp: changed_entry_def)
    then have rec: "records_change (r # rows) (contents st) (contents st')"
      using rows(3,4) keys old r by (intro records_cons [where p = p]) (auto simp: contents1)
    have "bs_audit st1 = bs_audit st @ [r]" "ss_removed stats1 = ss_removed stats" "ss_scanned stats1 = ss_scanned stats"
      "ss_added stats1 + ss_modified stats1 = ss_added stats + ss_modified stats + 1" "ss_unchanged stats1 = ss_unchanged stats"
      using step x True by (auto simp: apply_scanned_def Let_def r_def split: if_splits option.splits)
    with rec total rows(1,4-) r(1) x show ?thesis
      by (intro exI [of _ "r # rows"] conjI) (auto simp del: map_of.simps)
  next
    case False
    then have "st1 = st" "stats1 = stats\<lparr>ss_unchanged := ss_unchanged stats + 1\<rparr>"
      using step x by (auto simp: apply_scanned_def Let_def)
    with rows total show ?thesis by (intro exI [of _ rows]) (auto simp del: map_of.simps)
  qed
qed

lemma removed_run:
  assumes "distinct (map fst xs)" and "\<forall>(p, e) \<in> set xs. contents st p = Some e"
  shows "\<exists>rows. bs_audit (fold (apply_removed meta) xs st) = bs_audit st @ rows \<and> length rows = length xs \<and>
    contents (fold (apply_removed meta) xs st) = (\<lambda>p. if p \<in> fst ` set xs then None else contents st p) \<and>
    records_change rows (contents st) (contents (fold (apply_removed meta) xs st)) \<and> set (map au_file_path rows) = fst ` set xs"
  using assms
proof (induction xs arbitrary: st)
  case Nil
  then show ?case by (auto simp: records_change_def intro: exI [of _ "[]"])
next
  case (Cons x xs)
  obtain p e where x: "x = (p, e)" by force
  define r where "r = audit_row meta ''removed'' p (Some e) None"
  have r: "au_file_path r = p" "au_new r = None" "au_old r = Some e" by (simp_all add: r_def audit_row_def)
  let ?st = "apply_removed meta x st"
  have c1: "contents ?st = (contents st)(p := None)" and audit: "bs_audit ?st = bs_audit st @ [r]"
    by (simp_all add: x apply_removed_def contents_def map_of_delete r_def)
  have keys: "p \<notin> fst ` set xs" using Cons.prems(1) x by auto
  have "\<forall>(q, f) \<in> set xs. contents ?st q = Some f" using Cons.prems(2) keys by (force simp: c1)
  with Cons.IH [of ?st] Cons.prems(1) obtain rows where rows: "bs_audit (fold (apply_removed meta) xs ?st) = bs_audit ?st @ rows"
    "length rows = length xs" "contents (fold (apply_removed meta) xs ?st) = (\<lambda>p. if p \<in> fst ` set xs then None else contents ?st p)"
    "records_change rows (contents ?st) (contents (fold (apply_removed meta) xs ?st))" "set (map au_file_path rows) = fst ` set xs"
    by auto
  have rec: "records_change (r # rows) (contents st) (contents (fold (apply_removed meta) xs ?st))"
  proof (rule records_cons)
    show "records_change rows ((contents st)(p := None)) (contents (fold (apply_removed meta) xs ?st))"
      using rows(4) by (simp only: c1)
  qed (use rows(5) keys Cons.prems(2) x in \<open>auto simp: r\<close>)
  have total: "contents (fold (apply_removed meta) xs ?st) = (\<lambda>q. if q \<in> fst ` set (x # xs) then None else contents st q)"
    unfolding rows(3) c1 by (rule ext) (simp add: x)
  have "bs_audit (fold (apply_removed meta) xs ?st) = bs_audit st @ r # rows" by (simp add: rows(1) audit)
  with rec total rows(2,5) r(1) x show ?case by (intro exI [of _ "r # rows"] conjI) (simp_all del: fun_upd_apply)
qed

definition after_snapshot ::
  "SnapshotEntry list \<Rightarrow> SnapshotScope list \<Rightarrow> string list \<Rightarrow> (string \<rightharpoonup> SnapshotEntry) \<Rightarrow> (string \<rightharpoonup> SnapshotEntry)" where
  "after_snapshot entries scopes excludes old =
     (\<lambda>p. case map_of (scanned_entries entries) p of
            Some e \<Rightarrow> Some e
          | None \<Rightarrow> if in_scope scopes excludes p then None else old p)"

text \<open>
  C29. A snapshot that is written leaves the tables with the scanned entries, without the entries of its
  scopes that were not found, and with all other entries as they were; the rows added to the
  audit trail, replayed on the old entries, give the new ones, each path once and with the
  true old value, and their number is that of the counted changes.
\<close>

theorem snapshot_audited:
  assumes "ApplySnapshot ok meta entries scopes excludes recursive roots_text excludes_text started
      (zero_stats\<lparr>ss_scanned := int (length entries)\<rparr>) st = Some (stats, st')"
  shows "contents st' = after_snapshot entries scopes excludes (contents st) \<and>
    (\<exists>rows. bs_audit st' = bs_audit st @ rows \<and> records_change rows (contents st) (contents st') \<and>
       int (length rows) = ss_added stats + ss_modified stats + ss_removed stats) \<and>
    ss_added stats + ss_modified stats + ss_unchanged stats = int (length (scanned_entries entries))"
proof -
  let ?cur = "current_entries (bs_entries st)" and ?scanned = "scanned_entries entries"
  define gone where "gone = filter (\<lambda>(path, _). in_scope scopes excludes path \<and> map_of ?scanned path = None) ?cur"
  obtain stats2 st1 where run: "fold (apply_scanned meta ?cur) ?scanned
      ((zero_stats\<lparr>ss_scanned := int (length entries)\<rparr>)\<lparr>ss_removed := 0 + int (length gone)\<rparr>, st) = (stats2, st1)"
    by force
  have cur: "map_of ?cur = contents st" by (simp add: contents_def current_contents)
  have paths: "\<forall>(p, e) \<in> set ?scanned. en_file_path e = p" using scanned_paths by auto
  obtain rows1 where rows1: "bs_audit st1 = bs_audit st @ rows1" "contents st1 = contents st ++ map_of ?scanned"
    "records_change rows1 (contents st) (contents st1)" "set (map au_file_path rows1) \<subseteq> fst ` set ?scanned"
    "ss_removed stats2 = int (length gone)"
    "ss_added stats2 + ss_modified stats2 + ss_unchanged stats2 = int (length ?scanned)"
    "ss_added stats2 + ss_modified stats2 = int (length rows1)"
  proof -
    have "\<forall>p \<in> fst ` set ?scanned. contents st p = map_of ?cur p" by (simp add: cur)
    moreover have "\<And>p e. map_of ?cur p = Some e \<Longrightarrow> en_file_path e = p" by (simp add: cur contents_path)
    ultimately have "\<exists>rows. bs_audit st1 = bs_audit st @ rows \<and> contents st1 = contents st ++ map_of ?scanned \<and>
      records_change rows (contents st) (contents st1) \<and> set (map au_file_path rows) \<subseteq> fst ` set ?scanned \<and>
      ss_removed stats2 = int (length gone) \<and>
      ss_added stats2 + ss_modified stats2 + ss_unchanged stats2 = int (length ?scanned) \<and>
      ss_added stats2 + ss_modified stats2 = int (length rows)"
      using scanned_run [OF scanned_distinct paths _ _ run] by (simp add: zero_stats_def) blast
    with that show thesis by blast
  qed
  have gone_in: "(p, e) \<in> set gone \<longleftrightarrow> contents st p = Some e \<and> in_scope scopes excludes p \<and> map_of ?scanned p = None" for p e
    using current_distinct [of "bs_entries st"] by (auto simp: gone_def cur [symmetric])
  then have "\<forall>(p, e) \<in> set gone. contents st1 p = Some e"
    by (auto simp: rows1(2) map_add_def)
  moreover have "distinct (map fst gone)" unfolding gone_def by (rule distinct_map_filter [OF current_distinct])
  ultimately obtain rows2 where rows2:
    "bs_audit (fold (apply_removed meta) gone st1) = bs_audit st1 @ rows2" "length rows2 = length gone"
    "contents (fold (apply_removed meta) gone st1) = (\<lambda>p. if p \<in> fst ` set gone then None else contents st1 p)"
    "records_change rows2 (contents st1) (contents (fold (apply_removed meta) gone st1))"
    "set (map au_file_path rows2) = fst ` set gone"
    using removed_run [of gone st1 meta] by auto
  from assms run have st': "contents st' = contents (fold (apply_removed meta) gone st1)"
      "bs_audit st' = bs_audit (fold (apply_removed meta) gone st1)" "stats = stats2\<lparr>ss_scanned := int (length entries)\<rparr>"
    by (auto simp: ApplySnapshot_def Let_def gone_def [symmetric] zero_stats_def contents_def split: if_splits)
  have "contents st' = after_snapshot entries scopes excludes (contents st)"
    unfolding st'(1) rows2(3)
  proof
    fix p
    have "p \<in> fst ` set gone \<longleftrightarrow> contents st p \<noteq> None \<and> in_scope scopes excludes p \<and> map_of ?scanned p = None"
      using gone_in by force
    then show "(if p \<in> fst ` set gone then None else contents st1 p) = after_snapshot entries scopes excludes (contents st) p"
      by (auto simp: after_snapshot_def rows1(2) map_add_def split: option.split)
  qed
  moreover have "records_change (rows1 @ rows2) (contents st) (contents st')"
    unfolding st'(1)
  proof (rule records_append [OF rows1(3) rows2(4)])
    show "set (map au_file_path rows1) \<inter> set (map au_file_path rows2) = {}"
    proof -
      have "p \<notin> fst ` set ?scanned" if "p \<in> fst ` set gone" for p
        using that gone_in by (force simp: map_of_eq_None_iff)
      with rows1(4) rows2(5) show ?thesis by blast
    qed
  qed
  moreover have "bs_audit st' = bs_audit st @ (rows1 @ rows2)"
    "int (length (rows1 @ rows2)) = ss_added stats + ss_modified stats + ss_removed stats"
    "ss_added stats + ss_modified stats + ss_unchanged stats = int (length (scanned_entries entries))"
    using rows1(1,5-) rows2(1,2) by (simp_all add: st')
  ultimately show ?thesis by blast
qed

lemma records_none:
  assumes "records_change rows a a"
  shows "rows = []"
proof (rule ccontr)
  assume "rows \<noteq> []"
  then obtain rows0 r where rows: "rows = rows0 @ [r]" by (metis rev_exhaust)
  with assms have "(foldl replay a rows0)(au_file_path r := au_new r) = a" by (simp add: records_change_def replay_def)
  then have "au_new r = a (au_file_path r)" by (metis fun_upd_same)
  with assms rows show False by (auto simp: records_change_def)
qed

lemma after_snapshot_twice: "after_snapshot es scopes excludes (after_snapshot es scopes excludes m) = after_snapshot es scopes excludes m"
  by (auto simp: after_snapshot_def fun_eq_iff split: option.split)

text \<open>A second snapshot of the same scan changes nothing.\<close>

lemma snapshot_repeat:
  assumes "ApplySnapshot ok meta entries scopes excludes recursive roots_text excludes_text started
      (zero_stats\<lparr>ss_scanned := int (length entries)\<rparr>) st = Some (stats, st')"
    and "ApplySnapshot ok' meta' entries scopes excludes recursive' roots_text' excludes_text' started'
      (zero_stats\<lparr>ss_scanned := int (length entries)\<rparr>) st' = Some (stats', st'')"
  shows "contents st'' = contents st' \<and> bs_audit st'' = bs_audit st' \<and>
    ss_added stats' + ss_modified stats' + ss_removed stats' = 0"
proof -
  note second = snapshot_audited [OF assms(2)]
  from second snapshot_audited [OF assms(1)] have same: "contents st'' = contents st'" by (simp add: after_snapshot_twice)
  with second obtain rows where "bs_audit st'' = bs_audit st' @ rows" "records_change rows (contents st') (contents st')"
    "int (length rows) = ss_added stats' + ss_modified stats' + ss_removed stats'" by auto
  with records_none same show ?thesis by fastforce
qed

section \<open>Comparing with the disk\<close>

lemma mode_text_inj:
  assumes "mode_to_string (and a 0x1FF) = mode_to_string (and b 0x1FF)"
  shows "and a 0x1FF = and b (0x1FF :: u32)"
proof (rule bit_word_eqI)
  fix n :: nat
  have mask9: "bit (0x1FF :: u32) n \<longleftrightarrow> n < 9" if "n < 32" for n
  proof -
    have "bit (mask 9 :: u32) n \<longleftrightarrow> n < 9" using that by (auto simp: bit_mask_iff)
    moreover have "(mask 9 :: u32) = 0x1FF" by (simp add: mask_eq_exp_minus_1)
    ultimately show ?thesis by (simp only:)
  qed
  have flag: "((if P then CHR ''r'' else CHR ''-'') = (if Q then CHR ''r'' else CHR ''-'')) = (P = Q)"
    "((if P then CHR ''w'' else CHR ''-'') = (if Q then CHR ''w'' else CHR ''-'')) = (P = Q)"
    "((if P then CHR ''x'' else CHR ''-'') = (if Q then CHR ''x'' else CHR ''-'')) = (P = Q)" for P Q by simp_all
  have "bit (and a 0x1FF) n = bit (and b (0x1FF :: u32)) n" if "n < 9"
  proof -
    have "n \<in> {0, 1, 2, 3, 4, 5, 6, 7, 8}" using that by auto
    with assms show ?thesis unfolding mode_to_string_def list.inject flag by blast
  qed
  moreover have "\<not> bit (0x1FF :: u32) n" if "n < 32" "\<not> n < 9" using mask9 [of n] that by blast
  ultimately show "bit (and a 0x1FF) n = bit (and b (0x1FF :: u32)) n" if "n < LENGTH(32)"
    using that by (cases "n < 9") (simp_all add: bit_and_iff)
qed

lemma compare_perm_same:
  "has_diff (ComparePermOwnership mode uid gid perm euid egid) \<longleftrightarrow>
     mode_to_string mode \<noteq> perm \<or> uint uid \<noteq> euid \<or> uint gid \<noteq> egid"
  by (simp add: ComparePermOwnership_def Let_def)

text \<open>What the comparisons look at.\<close>

definition same_file :: "Files \<Rightarrow> Files \<Rightarrow> string \<Rightarrow> bool" where
  "same_file fs fs' p \<longleftrightarrow>
     (case (f_lstat fs p, f_lstat fs' p) of
        (Some a, Some b) \<Rightarrow>
          and (st_mode a) 0x1FF = and (st_mode b) 0x1FF \<and> st_uid a = st_uid b \<and> st_gid a = st_gid b \<and>
          compute_sha256 fs p = compute_sha256 fs' p
      | _ \<Rightarrow> False)"

text \<open>
  C30. A row that a scan wrote is compared without a finding, by the monitor and by the command
  \<open>baseline check\<close> alike, exactly when the file still exists with the same digest, the same nine
  permission bits and the same owner and group.
\<close>

theorem comparison_exact:
  assumes "ReadEntry fs p = Inr e"
  shows "(CompareWithBaseline fs' (row_of_entry e snapshot_id label recorded) p = [] \<longleftrightarrow> same_file fs fs' p) \<and>
    (CheckOneEntry fs' (row_of_entry e snapshot_id label recorded) = [] \<longleftrightarrow> same_file fs fs' p)"
proof -
  from assms obtain st h where st: "f_lstat fs p = Some st" "compute_sha256 fs p = Inr h"
    and e: "en_file_path e = p" "en_hash e = h" "en_permission e = mode_to_string (and (st_mode st) 0x1FF)"
      "en_uid e = uint (st_uid st)" "en_gid e = uint (st_gid st)"
    by (auto simp: ReadEntry_def split: option.splits if_splits sum.splits)
  have row: "en_file_path (row_of_entry e snapshot_id label recorded) = en_file_path e"
    "en_hash (row_of_entry e snapshot_id label recorded) = en_hash e"
    "en_permission (row_of_entry e snapshot_id label recorded) = en_permission e"
    "en_uid (row_of_entry e snapshot_id label recorded) = en_uid e" "en_gid (row_of_entry e snapshot_id label recorded) = en_gid e"
    by (simp_all add: row_of_entry_def SnapshotEntry.defs CheckEntry.defs)
  have u: "(uint x = uint y) = (x = y)" for x y :: u32 by (simp add: word_uint_eq_iff)
  show ?thesis
    by (cases "f_lstat fs' p"; cases "compute_sha256 fs' p")
      (auto simp: CompareWithBaseline_def CheckOneEntry_def same_file_def compare_perm_same row st e Let_def u
         dest: mode_text_inj)
qed

text \<open>The two comparisons are the same.\<close>

definition deviation_of :: "CheckFinding \<Rightarrow> BaselineDeviation" where
  "deviation_of f = \<lparr>dev_event_type = cf_event_type f, dev_severity = cf_severity f, dev_expected = cf_expected f,
     dev_actual = cf_actual f\<rparr>"

lemma comparisons_agree: "map deviation_of (CheckOneEntry fs entry) = CompareWithBaseline fs entry (en_file_path entry)"
  by (simp add: CheckOneEntry_def CompareWithBaseline_def deviation_of_def Let_def split: option.split sum.split)

section \<open>The scan\<close>

text \<open>The files a scan reads.\<close>

fun visited :: "ScanWorld \<Rightarrow> string list \<Rightarrow> DirItem list \<Rightarrow> string list" where
  "visited w excludes [] = []"
| "visited w excludes (DirItem path regular inner # items) =
     (case NormalizePath (sw_cwd w) path of
        None \<Rightarrow> []
      | Some current \<Rightarrow>
          (if MatchesExclude (sw_glob w) current excludes then visited w excludes items
           else if regular then path # visited w excludes items
           else visited w excludes inner @ visited w excludes items))"

lemma unreadable_stops:
  assumes "p \<in> set (visited w excludes items)" and "ReadEntry (sw_files w) p = Inl error"
  shows "\<exists>e. collect_items w excludes items es = Inl e"
  using assms
proof (induction w excludes items es rule: collect_items.induct)
  case (2 w excludes path regular inner items es)
  then show ?case
    by (auto split: option.splits sum.splits if_splits)
qed simp

lemma below_split: "below p a \<longleftrightarrow> (\<exists>b. p = a @ CHR ''/'' # b)"
proof
  assume "below p a"
  then have "take (length a) p = a" "p ! length a = CHR ''/''" "length a < length p"
    by (auto simp: below_def)
  with id_take_nth_drop [of "length a" p] show "\<exists>b. p = a @ CHR ''/'' # b" by metis
qed (auto simp: below_def)

lemma parent_no_slash:
  assumes "parent_path p = a @ ''/''" and "a \<noteq> []"
  shows False
proof -
  let ?strip = "\<lambda>r. rev (dropWhile (\<lambda>c. c = CHR ''/'') r)"
  have "a @ ''/'' \<noteq> ''/''" using assms(2) by simp
  with assms(1) obtain r where r: "a @ ''/'' = ?strip r"
    unfolding parent_path_def Let_def by (auto split: option.splits if_splits) metis
  then have "last (?strip r) = CHR ''/''" "?strip r \<noteq> []" by (metis last_snoc, metis snoc_eq_iff_butlast)
  with hd_dropWhile [of "\<lambda>c. c = CHR ''/''" r] show False by (auto simp: last_rev)
qed

lemma under_slash:
  assumes "under_scope p sc" and "sc_path sc = a @ ''/''" and "p \<noteq> a @ ''/''" and "a \<noteq> []"
  shows "\<exists>b. p = a @ ''//'' @ b"
  using assms parent_no_slash [of p a] by (auto simp: under_scope_def below_split split: if_splits)

text \<open>A root with a final slash keeps it, so the entries below it are in no scope.\<close>

lemma slash_roots_remove_nothing:
  assumes "\<forall>sc \<in> set scopes. \<exists>a. a \<noteq> [] \<and> sc_path sc = a @ ''/''" and "last p \<noteq> CHR ''/''"
    and "\<not> (\<exists>a b. p = a @ ''//'' @ b)"
  shows "\<not> in_scope scopes excludes p"
proof
  assume "in_scope scopes excludes p"
  then obtain sc where sc: "sc \<in> set scopes" "under_scope p sc" by (auto simp: in_scope_def list_ex_iff split: if_splits)
  with assms(1) obtain a where a: "a \<noteq> []" "sc_path sc = a @ ''/''" by blast
  have "p \<noteq> a @ ''/''" using assms(2) by auto
  from under_slash [OF sc(2) a(2) this a(1)] assms(3) show False by blast
qed

lemma path_error_stops:
  assumes "p \<in> set ps" and "\<And>c. \<exists>e. CollectPath w rec excludes p c = Inl e"
  shows "\<exists>e. collect_paths w rec excludes ps c = Inl e"
  using assms(1)
proof (induction ps arbitrary: c)
  case (Cons q ps)
  then show ?case using assms(2) [of c] by (auto split: sum.split)
qed simp

text \<open>
  C37. A scan that meets a symbolic link to a regular file ends the command with exit code 1 and leaves the
  database as it was: the iterator's test follows the link, \<open>lstat\<close> does not.
\<close>

theorem symlink_ends_snapshot:
  assumes "ParseSnapshotOptions argv = Parsed opts"
    and "normalize_all (sw_cwd w) (so_paths opts) = Some paths" and "normalize_all (sw_cwd w) (so_excludes opts) = Some excludes"
    and "NormalizePath (sw_cwd w) (so_db_path opts) = Some db_path"
    and "p \<in> set paths" and "sw_status w p = Some FtDirectory"
    and "\<not> MatchesExclude (sw_glob w) p (excludes @ [db_path])"
    and "f \<in> set (visited (ScanWorld.truncate w) (excludes @ [db_path]) (sw_items w (so_recursive opts) p))"
    and "f_lstat (sw_files w) f = Some fstat" and "\<not> S_ISREG (st_mode fstat)"
  shows "RunBaselineSnapshot w argv st = Some (1, st)"
proof -
  let ?w = "ScanWorld.truncate w"
  have w: "sw_files ?w = sw_files w" "sw_status ?w = sw_status w" "sw_items ?w = sw_items w" "sw_glob ?w = sw_glob w"
    by (simp_all add: ScanWorld.defs)
  have "ReadEntry (sw_files ?w) f = Inl []" using assms(9,10) by (simp add: ReadEntry_def w)
  with assms(8) have stop: "\<exists>e. collect_items ?w (excludes @ [db_path]) (sw_items w (so_recursive opts) p) es = Inl e" for es
    by (intro unreadable_stops)
  have "\<exists>e. CollectPath ?w (so_recursive opts) (excludes @ [db_path]) p c = Inl e" for c
    using assms(6,7) stop [of "cs_entries c"] by (auto simp: CollectPath_def w)
  moreover have "p \<in> set (remdups_adj (text_sort (\<lambda>p. p) paths))" using assms(5) by simp
  ultimately obtain e where "collect_paths ?w (so_recursive opts) (excludes @ [db_path]) (remdups_adj (text_sort (\<lambda>p. p) paths))
      \<lparr>cs_entries = [], cs_scopes = []\<rparr> = Inl e"
    using path_error_stops by blast
  with assms(1-4) show ?thesis by (simp add: RunBaselineSnapshot_def Let_def)
qed

section \<open>Recursive deletion\<close>

definition plain_pattern :: "string \<Rightarrow> bool" where
  "plain_pattern q \<longleftrightarrow> CHR ''%'' \<notin> set q \<and> CHR ''_'' \<notin> set q \<and> CHR 0x5C \<notin> set q"

lemma like_percent: "sql_like esc ''%'' t" if "esc \<noteq> Some (CHR ''%'')"
  using that by (induction t) (simp_all add: sql_like.simps)

lemma like_prefix:
  assumes "plain_pattern q"
  shows "sql_like (Some (CHR 0x5C)) (q @ ''%'') t \<longleftrightarrow>
    length q \<le> length t \<and> map ascii_lower (take (length q) t) = map ascii_lower q"
  using assms
proof (induction q arbitrary: t)
  case Nil
  then show ?case using like_percent [of "Some (CHR 0x5C)" t] by simp
next
  case (Cons c q)
  then show ?case by (cases t) (auto simp: plain_pattern_def sql_like.simps)
qed

text \<open>
  A recursive deletion of a path without wildcards deletes the path itself and what lies below it, but
  without regard to the case of ASCII letters.
\<close>

theorem recursive_delete_reach:
  assumes "plain_pattern path"
  shows "delete_condition True path f \<longleftrightarrow>
    f = path \<or> (length path < length f \<and> map ascii_lower (take (length path) f) = map ascii_lower path \<and> f ! length path = CHR ''/'')"
proof -
  have plain: "plain_pattern (path @ ''/'')" using assms by (auto simp: plain_pattern_def)
  have "sql_like (Some (CHR 0x5C)) (path @ ''/%'') f \<longleftrightarrow> length path < length f \<and>
      map ascii_lower (take (Suc (length path)) f) = map ascii_lower (path @ ''/'')"
    using like_prefix [OF plain, of f] by auto
  moreover have "ascii_lower c = ascii_lower (CHR ''/'') \<longleftrightarrow> c = CHR ''/''" for c
  proof (cases "c_isupper c")
    case True
    then have "char_code (ascii_lower c) \<noteq> char_code (CHR ''/'')" by (simp add: ascii_lower_def c_isupper_def char_code_def)
    moreover have "ascii_lower (CHR ''/'') = CHR ''/''" by (simp add: ascii_lower_def c_isupper_def char_code_def)
    moreover have "c \<noteq> CHR ''/''" using True by (auto simp: c_isupper_def char_code_def)
    ultimately show ?thesis by auto
  qed (auto simp: ascii_lower_def c_isupper_def char_code_def)
  ultimately have "sql_like (Some (CHR 0x5C)) (path @ ''/%'') f \<longleftrightarrow> length path < length f \<and>
      map ascii_lower (take (length path) f) = map ascii_lower path \<and> f ! length path = CHR ''/''"
    by (cases "length path < length f") (simp_all add: take_Suc_conv_app_nth)
  then show ?thesis by (simp add: delete_condition_def)
qed

section \<open>Concrete runs\<close>

definition sample_entry :: "string \<Rightarrow> string \<Rightarrow> SnapshotEntry" where
  "sample_entry p h = \<lparr>en_file_path = p, en_file_type = ''regular'', en_hash = h, en_permission = ''rw-r--r--'',
     en_uid = 0, en_gid = 0, en_owner = ''0'', en_grp = ''0'', en_file_size = 1, en_mtime = 1\<rparr>"

definition sample_meta :: "string \<Rightarrow> SnapshotMeta" where
  "sample_meta i = \<lparr>me_snapshot_id = i, me_label = ''l'', me_finished_at = ''t''\<rparr>"

definition sample_store :: BaselineStore where
  "sample_store = empty_store\<lparr>bs_entries := map (\<lambda>e. row_of_entry e ''0'' ''l'' ''t'') [sample_entry ''/e/a'' ''h1'', sample_entry ''/e/b'' ''h2'']\<rparr>"

definition sample_scope :: "SnapshotScope list" where
  "sample_scope = [\<lparr>sc_path = ''/e'', sc_recursive = True, sc_exact_file = False\<rparr>]"

lemma apply_written: "\<exists>stats st'. ApplySnapshot True meta es scopes ex rec r x s s0 st = Some (stats, st')"
  by (simp add: ApplySnapshot_def Let_def case_prod_unfold)

theorem snapshot_audited_witness:
  "\<exists>stats st'. ApplySnapshot True (sample_meta ''1'') [sample_entry ''/e/a'' ''h3''] sample_scope [] True [] [] ''s''
     (zero_stats\<lparr>ss_scanned := int (length [sample_entry ''/e/a'' ''h3''])\<rparr>) sample_store = Some (stats, st') \<and>
     contents st' = after_snapshot [sample_entry ''/e/a'' ''h3''] sample_scope [] (contents sample_store)"
proof -
  obtain stats st' where run: "ApplySnapshot True (sample_meta ''1'') [sample_entry ''/e/a'' ''h3''] sample_scope [] True [] [] ''s''
     (zero_stats\<lparr>ss_scanned := int (length [sample_entry ''/e/a'' ''h3''])\<rparr>) sample_store = Some (stats, st')"
    using apply_written by blast
  with snapshot_audited [OF run] show ?thesis by auto
qed

definition sample_stat :: "u32 \<Rightarrow> FileStat" where
  "sample_stat m = \<lparr>st_mode = m, st_uid = 0, st_gid = 0, st_ino = 1, st_size = 1, st_mtime = 1\<rparr>"

definition sample_files :: "u32 \<Rightarrow> Files" where
  "sample_files m = \<lparr>f_stat = (\<lambda>_. Some (sample_stat m)), f_lstat = (\<lambda>_. Some (sample_stat m)), f_bytes = (\<lambda>_. Some []), f_digest = (\<lambda>_. [0])\<rparr>"

theorem comparison_exact_witness:
  "\<exists>e. ReadEntry (sample_files 0x81A4) ''/e/a'' = Inr e \<and>
     (CompareWithBaseline (sample_files 0x81A4) (row_of_entry e ''1'' ''l'' ''t'') ''/e/a'' = [] \<longleftrightarrow>
      same_file (sample_files 0x81A4) (sample_files 0x81A4) ''/e/a'')"
proof -
  have "S_ISREG (st_mode (sample_stat 0x81A4))" by (simp add: S_ISREG_def sample_stat_def)
  then obtain e where "ReadEntry (sample_files 0x81A4) ''/e/a'' = Inr e"
    by (simp add: ReadEntry_def sample_files_def compute_sha256_def)
  with comparison_exact [OF this] show ?thesis by blast
qed

definition link_world :: SnapshotWorld where
  "link_world = \<lparr>sw_cwd = ''/'', sw_status = (\<lambda>_. Some FtDirectory), sw_items = (\<lambda>_ _. [DirItem ''/e/link'' True []]),
     sw_complete = (\<lambda>_ _. True), sw_files = sample_files 0xA1FF, sw_glob = (\<lambda>_ _. False), sw_started = ''s'', sw_finished = ''f'',
     sw_pid = 1, sw_db_open = True, sw_db_ok = True\<rparr>"

theorem symlink_ends_snapshot_witness: "RunBaselineSnapshot link_world [''/e''] sample_store = Some (1, sample_store)"
proof (rule symlink_ends_snapshot [where p = "''/e''" and f = "''/e/link''" and fstat = "sample_stat 0xA1FF"])
  show "ParseSnapshotOptions [''/e''] = Parsed (default_snapshot_options\<lparr>so_paths := [''/e'']\<rparr>)" by code_simp
qed code_simp+

theorem recursive_delete_reach_witness:
  "delete_condition True ''/srv/data'' ''/SRV/Data/x''"
  by (rule iffD2 [OF recursive_delete_reach]) code_simp+

lemma wildcard_deletes_more: "delete_condition True ''/srv/a_b'' ''/srv/axb/f''"
  by code_simp

end
