(* ===== verification/Baseline_Cmds_Correct.thy ===== *)
theory Baseline_Cmds_Correct
  imports Snapshot_Correct File_Alerts_Correct
begin

text \<open>
  Correctness of the baseline commands: what \<open>clean\<close> deletes, how many alerts \<open>check\<close> stores, and
  where the one-time check of a rule and the monitor agree.
\<close>

section \<open>Deleting\<close>

lemma removed_kind: "fold (\<lambda>r st. st\<lparr>bs_audit := bs_audit st @ [audit_row meta ''delete'' (en_file_path r) (Some (entry_of_row r)) None],
     bs_entries := delete_entry (en_file_path r) (bs_entries st)\<rparr>) rows st =
   st\<lparr>bs_audit := bs_audit st @ map (\<lambda>r. audit_row meta ''delete'' (en_file_path r) (Some (entry_of_row r)) None) rows,
      bs_entries := filter (\<lambda>r. en_file_path r \<notin> en_file_path ` set rows) (bs_entries st)\<rparr>"
proof (induction rows arbitrary: st)
  case (Cons r rows)
  then show ?case by (simp add: delete_entry_def conj_commute)
qed simp

text \<open>
  C38. \<open>baseline clean\<close> without \<open>--dry-run\<close>, when all statements succeed, removes exactly the entries whose
  file does not exist: the others stay as they were, and each removed entry is in the audit trail.
\<close>

theorem clean_removes_orphans:
  assumes "RunBaselineClean fs db_exists True None now argv st = (0, deleted, st')"
    and "ParseCleanOptions argv = Parsed opts" and "\<not> co_dry_run opts" and "db_exists (co_db_path opts)"
  shows "bs_entries st' = filter (\<lambda>r. FileExistsOnDisk fs (en_file_path r)) (bs_entries st) \<and>
    deleted = length (filter (\<lambda>r. \<not> FileExistsOnDisk fs (en_file_path r)) (bs_entries st)) \<and>
    (\<exists>rows. bs_audit st' = bs_audit st @ rows \<and>
       map (\<lambda>r. (au_file_path r, au_old r, au_new r)) rows =
       map (\<lambda>r. (en_file_path r, Some (entry_of_row r), None))
         (filter (\<lambda>r. \<not> FileExistsOnDisk fs (en_file_path r)) (bs_entries st)))"
proof -
  let ?gone = "filter (\<lambda>r. \<not> FileExistsOnDisk fs (en_file_path r)) (bs_entries st)"
  have paths: "set (orphan_paths fs st) = en_file_path ` set ?gone"
    by (auto simp: orphan_paths_def GetAllBaselineEntries_def by_path_def)
  have sel: "filter (\<lambda>r. list_ex (\<lambda>p. delete_condition False p (en_file_path r)) (orphan_paths fs st)) (bs_entries st) = ?gone"
    using paths by (intro filter_cong) (auto simp: list_ex_iff delete_condition_def)
  have keep: "filter (\<lambda>r. en_file_path r \<notin> en_file_path ` set ?gone) (bs_entries st) =
      filter (\<lambda>r. FileExistsOnDisk fs (en_file_path r)) (bs_entries st)"
    by (intro filter_cong) auto
  show ?thesis
  proof (cases "?gone = []")
    case True
    with paths have "orphan_paths fs st = []" by (metis image_is_empty set_empty)
    with assms have "st' = st" "deleted = 0" by (auto simp: RunBaselineClean_def split: if_splits)
    with True keep show ?thesis by simp
  next
    case False
    with paths have "orphan_paths fs st \<noteq> []" by (metis image_is_empty set_empty)
    moreover have "GetAllBaselineEntries st \<noteq> []"
      using False by (metis GetAllBaselineEntries_def by_path_def filter.simps(1) set_empty set_text_sort)
    ultimately have "deleted = length ?gone" "st' = fold (\<lambda>r st. st\<lparr>bs_audit := bs_audit st @
        [audit_row \<lparr>me_snapshot_id = ''orphan-clean'', me_label = ''orphan-clean'', me_finished_at = now\<rparr> ''delete''
          (en_file_path r) (Some (entry_of_row r)) None], bs_entries := delete_entry (en_file_path r) (bs_entries st)\<rparr>) ?gone st"
      using assms False by (auto simp: RunBaselineClean_def DeleteBaselineEntries_def sel Let_def)
    then show ?thesis unfolding removed_kind keep
      by (simp add: audit_row_def comp_def)
  qed
qed

definition gone_files :: Files where
  "gone_files = (sample_files 0x81A4)\<lparr>f_lstat := (\<lambda>p. if p = ''/e/b'' then None else Some (sample_stat 0x81A4))\<rparr>"

theorem clean_removes_orphans_witness:
  "map en_file_path (bs_entries (snd (snd (RunBaselineClean gone_files (\<lambda>_. True) True None ''t'' [] sample_store)))) = [''/e/a'']"
proof -
  have "fst (RunBaselineClean gone_files (\<lambda>_. True) True None ''t'' [] sample_store) = 0" by code_simp
  then obtain deleted st' where run: "RunBaselineClean gone_files (\<lambda>_. True) True None ''t'' [] sample_store = (0, deleted, st')"
    by (metis prod.collapse)
  have "filter (\<lambda>r. FileExistsOnDisk gone_files (en_file_path r)) (bs_entries sample_store) = [row_of_entry (sample_entry ''/e/a'' ''h1'') ''0'' ''l'' ''t'']"
    by code_simp
  with clean_removes_orphans [OF run, of "\<lparr>co_db_path = default_db, co_dry_run = False\<rparr>"] run show ?thesis
    by (simp add: ParseCleanOptions_def nonempty_db_def default_db_def sample_entry_def)
qed

section \<open>Alerts of a check\<close>

lemma write_unsent:
  assumes "\<not> ko_send_webhook o1" and "am_db m = Some t" and "\<And>i. db_ok (w_db (cw_send w i))"
    and "am_db (fold (write_alert w o1) (enumerate n fs) m) = Some t'"
  shows "at_next_id t' = at_next_id t + length fs"
  using assms(2,4)
proof (induction fs arbitrary: n m t)
  case (Cons f fs)
  let ?m = "write_alert w o1 (n, f) m"
  have "am_db ?m = Some (SaveAlert True (finding_record (finding_event (cw_iso w n) f)) t)"
    using Cons.prems(1) assms(1,3) by (auto simp: write_alert_def Let_def)
  from Cons.IH [OF this, of "Suc n"] Cons.prems(2) show ?case by (simp add: SaveAlert_def)
qed simp

lemma send_url: "am_dingtalk_url (snd (SendDingTalk w e m)) = am_dingtalk_url m"
proof (rule send_cases [of e w m])
  assume T: "IsThrottled (ae_rule_id e) (w_now w) m = (True, m)"
  then show ?thesis by (simp add: send_throttled [OF T] NoteThrottled_def)
next
  fix m' b
  let ?m = "SaveAlertToDB (w_db w) (w_now_string w) e b m'"
  assume T: "IsThrottled (ae_rule_id e) (w_now w) m = (False, m')"
    and S: "snd (SendDingTalk w e m) = ?m\<lparr>am_dispatcher := Dispatch e (w_dispatch_now w) (am_dispatcher ?m)\<rparr>"
  have "am_dingtalk_url ?m = am_dingtalk_url m'"
    by (simp add: SaveAlertToDB_def Let_def RunRetention_def split: option.split prod.split)
  moreover from T have "am_dingtalk_url m' = am_dingtalk_url m" by (auto simp: IsThrottled_def split: if_splits option.splits)
  ultimately show ?thesis unfolding S by simp
qed

lemma send_db: "am_db (snd (SendDingTalk w e m)) = None \<longleftrightarrow> am_db m = None"
proof (rule send_cases [of e w m])
  assume T: "IsThrottled (ae_rule_id e) (w_now w) m = (True, m)"
  then show ?thesis by (simp add: send_throttled [OF T] NoteThrottled_def)
next
  fix m' b
  let ?m = "SaveAlertToDB (w_db w) (w_now_string w) e b m'"
  assume T: "IsThrottled (ae_rule_id e) (w_now w) m = (False, m')"
    and S: "snd (SendDingTalk w e m) = ?m\<lparr>am_dispatcher := Dispatch e (w_dispatch_now w) (am_dispatcher ?m)\<rparr>"
  have "am_db ?m = None \<longleftrightarrow> am_db m' = None"
    by (simp add: SaveAlertToDB_def Let_def RunRetention_def split: option.split prod.split)
  with throttled_frame [OF T] show ?thesis unfolding S by simp
qed

definition finding_sends :: "CheckWorld \<Rightarrow> (nat \<times> CheckFinding) list \<Rightarrow> (World \<times> AlertEvent) list" where
  "finding_sends w = map (\<lambda>(i, f). (cw_send w i, finding_event (cw_iso w i) f))"

lemma write_sent:
  assumes "ko_send_webhook o1" and "IsEnabled m"
  shows "fold (write_alert w o1) xs m = send_all (finding_sends w xs) m"
  using assms(2)
proof (induction xs arbitrary: m)
  case (Cons x xs)
  obtain i f where x: "x = (i, f)" by force
  have "write_alert w o1 x m = snd (SendDingTalk (cw_send w i) (finding_event (cw_iso w i) f) m)"
    using assms(1) Cons.prems by (simp add: write_alert_def x)
  moreover have "IsEnabled (snd (SendDingTalk (cw_send w i) (finding_event (cw_iso w i) f) m))"
    using Cons.prems by (simp add: IsEnabled_def send_url)
  ultimately show ?case using Cons.IH by (simp add: send_all_def finding_sends_def x)
qed (simp add: send_all_def finding_sends_def)

text \<open>
  C39. Without \<open>--send-webhook\<close> the command \<open>baseline check\<close> stores one alert for every finding. With it and
  a webhook, all findings share one rule id: what is reported within one throttle time adds at
  most one alert to the table.
\<close>

theorem check_alerts_throttled:
  assumes "WriteAlerts w o1 findings alerts = Some alerts'" and "0 < at_next_id alerts"
    and "\<And>i. db_ok (w_db (cw_send w i))"
  shows "(\<not> ko_send_webhook o1 \<longrightarrow> at_next_id alerts' = at_next_id alerts + length findings) \<and>
    (ko_send_webhook o1 \<and> IsEnabled (load_check_config w o1) \<and> 0 < am_throttle_seconds (load_check_config w o1) \<and>
       (\<exists>t0. \<forall>i < length findings. t0 \<le> w_now (cw_send w i) \<and>
          w_now (cw_send w i) - t0 < secs (am_throttle_seconds (load_check_config w o1))) \<longrightarrow>
     at_next_id alerts' \<le> at_next_id alerts + 1)"
proof (cases "findings = []")
  case True
  with assms(1) show ?thesis by (simp add: WriteAlerts_def)
next
  case False
  let ?m = "SetDB (Some alerts) (SetDB None (load_check_config w o1))"
  have m: "am_db ?m = Some alerts" "IsEnabled ?m = IsEnabled (load_check_config w o1)"
    "am_throttle_seconds ?m = am_throttle_seconds (load_check_config w o1)" by (simp_all add: SetDB_def IsEnabled_def)
  from assms(1) False have out: "am_db (fold (write_alert w o1) (enumerate 0 findings) ?m) = Some alerts'"
    by (simp add: WriteAlerts_def split: if_splits)
  have "at_next_id alerts' = at_next_id alerts + length findings" if "\<not> ko_send_webhook o1"
    using write_unsent [of o1 ?m alerts w 0 findings] that m(1) out assms(3) by simp
  moreover have "at_next_id alerts' \<le> at_next_id alerts + 1"
    if sent: "ko_send_webhook o1" "IsEnabled (load_check_config w o1)" "0 < am_throttle_seconds (load_check_config w o1)"
      and times: "\<forall>i < length findings. t0 \<le> w_now (cw_send w i) \<and>
          w_now (cw_send w i) - t0 < secs (am_throttle_seconds (load_check_config w o1))" for t0
  proof -
    have "stored (send_all (finding_sends w (enumerate 0 findings)) ?m) \<le> stored ?m + 1"
    proof (rule burst_stores_one [where ?t0.0 = t0 and r = kRuleId])
      show "0 < am_throttle_seconds ?m" using sent(3) m(3) by simp
      show "\<forall>(w', e) \<in> set (finding_sends w (enumerate 0 findings)). ae_rule_id e = kRuleId \<and> t0 \<le> w_now w' \<and>
          w_now w' - t0 < secs (am_throttle_seconds ?m)"
        using times m(3) by (auto simp: finding_sends_def finding_event_def in_set_enumerate_eq)
    qed
    then have "stored (fold (write_alert w o1) (enumerate 0 findings) ?m) \<le> stored ?m + 1"
      using write_sent [of o1 ?m w "enumerate 0 findings"] sent m(2) by simp
    with out m(1) assms(2) show ?thesis by (simp add: stored_def)
  qed
  ultimately show ?thesis by blast
qed

definition hook_check :: CheckOptions where
  "hook_check = \<lparr>ko_db_path = default_db, ko_path_filter = [], ko_report_html = [], ko_config_path = ''c.yaml'',
     ko_json_output = False, ko_send_webhook = True\<rparr>"

definition hook_world :: CheckWorld where
  "hook_world = \<lparr>cw_files = sample_files 0x81A4, cw_db_exists = (\<lambda>_. True), cw_db_open = True, cw_alert_db_open = True,
     cw_config = (\<lambda>_. Some (\<lparr>ac_dingtalk_webhook = ''u'', ac_dingtalk_secret = [], ac_throttle_seconds = 300\<rparr>,
        \<lparr>dc_retention_days = 0, dc_retention_max_records = 0\<rparr>)),
     cw_report_ok = True, cw_send = (\<lambda>i. quiet_world (int i)), cw_iso = (\<lambda>_. ''t'')\<rparr>"

definition two_findings :: "CheckFinding list" where
  "two_findings = concat (map (CheckOneEntry (sample_files 0x81A4)) (bs_entries sample_store))"

lemma hook_written: "WriteAlerts hook_world hook_check two_findings empty_alerts \<noteq> None"
proof -
  have "am_db (fold (write_alert w o1) xs m) \<noteq> None" if "am_db m \<noteq> None" for w o1 xs m
    using that by (induction xs arbitrary: m) (auto simp: write_alert_def Let_def send_db simp del: not_None_eq split: prod.splits)
  then show ?thesis by (simp add: WriteAlerts_def hook_world_def SetDB_def)
qed

theorem check_alerts_throttled_witness:
  "\<exists>alerts'. WriteAlerts hook_world hook_check two_findings empty_alerts = Some alerts' \<and> length two_findings = 2 \<and>
     at_next_id alerts' \<le> 2"
proof -
  obtain alerts' where out: "WriteAlerts hook_world hook_check two_findings empty_alerts = Some alerts'"
    using hook_written by blast
  have len: "length two_findings = 2" by code_simp
  have "at_next_id alerts' \<le> at_next_id empty_alerts + 1"
  proof -
    have cfg: "load_check_config hook_world hook_check = LoadConfig \<lparr>ac_dingtalk_webhook = ''u'', ac_dingtalk_secret = [], ac_throttle_seconds = 300\<rparr>
        \<lparr>dc_retention_days = 0, dc_retention_max_records = 0\<rparr> new_manager"
      by (simp add: load_check_config_def hook_world_def hook_check_def ends_with_def)
    have "\<forall>i < length two_findings. 0 \<le> w_now (cw_send hook_world i) \<and> w_now (cw_send hook_world i) - 0 < secs 300"
      by (simp add: len hook_world_def quiet_world_def secs_def)
    then have "ko_send_webhook hook_check \<and> IsEnabled (load_check_config hook_world hook_check) \<and>
        0 < am_throttle_seconds (load_check_config hook_world hook_check) \<and>
        (\<exists>t0. \<forall>i < length two_findings. t0 \<le> w_now (cw_send hook_world i) \<and>
          w_now (cw_send hook_world i) - t0 < secs (am_throttle_seconds (load_check_config hook_world hook_check)))"
      unfolding cfg by (intro conjI exI [of _ 0]) (simp_all add: LoadConfig_def IsEnabled_def hook_check_def)
    moreover have "0 < at_next_id empty_alerts" by (simp add: empty_alerts_def)
    moreover have "\<And>i. db_ok (w_db (cw_send hook_world i))" by (simp add: hook_world_def quiet_world_def)
    ultimately show ?thesis using check_alerts_throttled [OF out] by blast
  qed
  with out len show ?thesis by (auto simp: empty_alerts_def)
qed

section \<open>Reports\<close>

lemma escaped_html_inert: "set (EscapeHtml raw) \<inter> {CHR ''<'', CHR ''>'', CHR 0x22} = {}"
  by (auto simp: EscapeHtml_def escape_html_char_def)

section \<open>The check of the rules\<close>

lemma sha_text:
  assumes "compute_sha256 fs p = Inr h"
  shows "\<not> starts_with hash_prefix h"
proof -
  have digit: "hex_digit n \<noteq> CHR ''s''" if "n < 16" for n
  proof -
    have "char_code (hex_digit n) < 115" using that by (simp add: hex_digit_def char_code_digit) (simp add: char_code_def)
    moreover have "char_code (CHR ''s'') = 115" by (simp add: char_code_def)
    ultimately show ?thesis by auto
  qed
  have "hex_digit (unat a div 16) \<noteq> CHR ''s''" for a :: u8
    using unat_byte [of a] by (intro digit) simp
  with assms show ?thesis
    by (cases "f_digest fs (digest_loop [] (the (f_bytes fs p)))")
      (auto simp: compute_sha256_def starts_with_def hash_prefix_def hex_byte_def split: option.splits)
qed

text \<open>
  C31. A rule that checks the mode of its file when it names one and the digest when it names one. When
  the file cannot be examined the two differ: a missing file fails the one-time check, and a file that
  cannot be read ends it with an error, while the monitor is silent about both. Otherwise the monitor
  reports a mismatch exactly when the one-time check fails the rule, except that for a digest written
  with the prefix \<open>sha256:\<close>, as the shipped rules have it, the monitor always reports a mismatch.
\<close>

theorem check_and_monitor_verdicts:
  fixes user fs w rule proc_name pid actor m ok now_iso run
  defines "monitor \<equiv> on_check_mismatch_detected user fs w rule (check_path rule) proc_name pid actor m"
    and "check \<equiv> do_file_check fs ok now_iso rule run"
  assumes "has_check rule" and "check_path rule \<noteq> []"
    and "''file_permission'' \<in> set (check_types rule) \<longleftrightarrow> check_expected rule \<noteq> 0"
    and "''file_hash'' \<in> set (check_types rule) \<longleftrightarrow> check_hash rule \<noteq> []"
  shows "case f_stat fs (check_path rule) of
      None \<Rightarrow> monitor = m \<and> check = Inr (run\<lparr>cr_fail := cr_fail run + 1\<rparr>)
    | Some st \<Rightarrow>
        (case compute_sha256 fs (check_path rule) of
           Inl what \<Rightarrow> monitor = m \<and> check = Inl what
         | Inr h \<Rightarrow> \<exists>run'. check = Inr run' \<and> (cr_fail run' = cr_fail run \<or> cr_fail run' = cr_fail run + 1) \<and>
             monitor =
               (if starts_with hash_prefix (check_hash rule) \<or> cr_fail run' = cr_fail run + 1
                then snd (SendDingTalk w (mismatch_alert (w_now_string w) rule (check_path rule) (and (st_mode st) 0x1FF) h
                       proc_name pid (user actor) actor) m)
                else m))"
proof (cases "f_stat fs (check_path rule)")
  case None
  then show ?thesis
    using assms(3,4) by (simp add: monitor_def check_def do_file_check_def on_check_mismatch_detected_def Let_def)
next
  case (Some st)
  show ?thesis
  proof (cases "compute_sha256 fs (check_path rule)")
    case (Inl what)
    with Some show ?thesis
      using assms(3,4) by (simp add: monitor_def check_def do_file_check_def on_check_mismatch_detected_def Let_def)
  next
    case (Inr h)
    let ?mode = "and (st_mode st) 0x1FF"
    let ?bad = "(check_expected rule \<noteq> 0 \<and> ?mode \<noteq> check_expected rule) \<or>
      (check_hash rule \<noteq> [] \<and> h \<noteq> strip_hash_prefix (check_hash rule))"
    have "cr_fail (count_result ok a b bad run) = cr_fail run + (if bad then 1 else 0)" for a b bad
      by (simp add: count_result_def Let_def)
    moreover have "\<exists>a b. check = Inr (count_result ok a b ?bad run)"
      using Some Inr assms(5,6) by (cases "h = []"; cases "check_hash rule = []"; simp add: check_def do_file_check_def Let_def; blast)
    ultimately obtain run' where run: "check = Inr run'" "cr_fail run' = cr_fail run + (if ?bad then 1 else 0)" by force
    have "starts_with hash_prefix (check_hash rule) \<Longrightarrow> h \<noteq> check_hash rule \<and> check_hash rule \<noteq> []"
      using sha_text [OF Inr] by (auto simp: hash_prefix_def starts_with_def)
    then have "monitor =
        (if starts_with hash_prefix (check_hash rule) \<or> ?bad
         then snd (SendDingTalk w (mismatch_alert (w_now_string w) rule (check_path rule) ?mode h proc_name pid (user actor) actor) m)
         else m)"
      using Some Inr assms(3,4) by (auto simp: monitor_def on_check_mismatch_detected_def Let_def strip_hash_prefix_def)
    then show ?thesis using Some Inr run by (intro exI [of _ run'] | simp)+
  qed
qed

definition passwd_rule :: MonRule where
  "passwd_rule = empty_rule\<lparr>mr_id := ''r'', has_check := True, check_types := [''file_hash''], check_path := ''/e/a'',
     check_hash := ''sha256:00''\<rparr>"

definition no_run :: CheckRun where "no_run = \<lparr>cr_results = [], cr_pass = 0, cr_fail = 0, cr_saved = []\<rparr>"

theorem check_and_monitor_verdicts_witness:
  "\<exists>run'. do_file_check (sample_files 0x81A4) True ''t'' passwd_rule no_run = Inr run' \<and> cr_fail run' = 0 \<and>
     on_check_mismatch_detected (\<lambda>_. ([], [])) (sample_files 0x81A4) (quiet_world 0) passwd_rule ''/e/a'' ''vi'' 7 None new_manager =
     snd (SendDingTalk (quiet_world 0) (mismatch_alert [] passwd_rule ''/e/a'' 0x1A4 ''00'' ''vi'' 7 ([], []) None) new_manager)"
proof -
  have stat: "f_stat (sample_files 0x81A4) ''/e/a'' = Some (sample_stat 0x81A4)" by (simp add: sample_files_def)
  have sha: "compute_sha256 (sample_files 0x81A4) ''/e/a'' = Inr ''00''" by code_simp
  have rule: "check_path passwd_rule = ''/e/a''" "has_check passwd_rule" "check_types passwd_rule = [''file_hash'']"
    "check_hash passwd_rule = ''sha256:00''" "check_expected passwd_rule = 0" by (simp_all add: passwd_rule_def empty_rule_def)
  then obtain run' where run: "do_file_check (sample_files 0x81A4) True ''t'' passwd_rule no_run = Inr run'" "cr_fail run' = 0"
    by (simp add: do_file_check_def stat sha Let_def strip_hash_prefix_def starts_with_def hash_prefix_def count_result_def no_run_def)
  moreover have "starts_with hash_prefix (check_hash passwd_rule)" by code_simp
  moreover have "has_check passwd_rule" "check_path passwd_rule \<noteq> []"
    "''file_permission'' \<in> set (check_types passwd_rule) \<longleftrightarrow> check_expected passwd_rule \<noteq> 0"
    "''file_hash'' \<in> set (check_types passwd_rule) \<longleftrightarrow> check_hash passwd_rule \<noteq> []"
    using rule by simp_all
  ultimately show ?thesis
    using check_and_monitor_verdicts [where rule = passwd_rule and fs = "sample_files 0x81A4" and user = "\<lambda>_. ([], [])" and
        w = "quiet_world 0" and proc_name = "''vi''" and pid = 7 and actor = None and m = new_manager and ok = True and
        now_iso = "''t''" and run = no_run] rule stat sha
    by (simp add: sample_stat_def quiet_world_def)
qed

end
