(* ===== verification/Event_Store.thy ===== *)
theory Event_Store
  imports Event_Bus Event_Layout
begin

text \<open>
  The event store (\<open>src/src/storage/event_store.hpp\<close> and \<open>.cpp\<close>): event identifiers, the texts of the
  columns, and the batches written to the table \<open>events\<close>. What the connection answers is an argument;
  of SQLite the model keeps the committed rows and the open transaction: \<open>BEGIN\<close> inside a
  transaction is refused, an identifier already present is refused by the \<open>UNIQUE\<close> column,
  \<open>ROLLBACK\<close> ends the transaction, and a \<open>COMMIT\<close> that fails either was rolled back or leaves the
  transaction open, as documented for \<open>SQLITE_BUSY\<close>. Text is bound with length -1, so up to its
  first NUL.
\<close>

section \<open>Event identifiers\<close>

definition kCrockford :: string where "kCrockford = ''0123456789ABCDEFGHJKMNPQRSTVWXYZ''"

definition ulid_indices :: "u8 list \<Rightarrow> u8 list" where
  "ulid_indices b =
     [drop_bit 5 (and (b ! 0) 0xE0),
      and (b ! 0) 0x1F,
      drop_bit 3 (and (b ! 1) 0xF8),
      or (push_bit 2 (and (b ! 1) 0x07)) (drop_bit 6 (and (b ! 2) 0xC0)),
      drop_bit 1 (and (b ! 2) 0x3E),
      or (push_bit 4 (and (b ! 2) 0x01)) (drop_bit 4 (and (b ! 3) 0xF0)),
      or (push_bit 1 (and (b ! 3) 0x0F)) (drop_bit 7 (and (b ! 4) 0x80)),
      drop_bit 2 (and (b ! 4) 0x7C),
      or (push_bit 3 (and (b ! 4) 0x03)) (drop_bit 5 (and (b ! 5) 0xE0)),
      and (b ! 5) 0x1F,
      drop_bit 3 (and (b ! 6) 0xF8),
      or (push_bit 2 (and (b ! 6) 0x07)) (drop_bit 6 (and (b ! 7) 0xC0)),
      drop_bit 1 (and (b ! 7) 0x3E),
      or (push_bit 4 (and (b ! 7) 0x01)) (drop_bit 4 (and (b ! 8) 0xF0)),
      or (push_bit 1 (and (b ! 8) 0x0F)) (drop_bit 7 (and (b ! 9) 0x80)),
      drop_bit 2 (and (b ! 9) 0x7C),
      or (push_bit 3 (and (b ! 9) 0x03)) (drop_bit 5 (and (b ! 10) 0xE0)),
      and (b ! 10) 0x1F,
      drop_bit 3 (and (b ! 11) 0xF8),
      or (push_bit 2 (and (b ! 11) 0x07)) (drop_bit 6 (and (b ! 12) 0xC0)),
      drop_bit 1 (and (b ! 12) 0x3E),
      or (push_bit 4 (and (b ! 12) 0x01)) (drop_bit 4 (and (b ! 13) 0xF0)),
      or (push_bit 1 (and (b ! 13) 0x0F)) (drop_bit 7 (and (b ! 14) 0x80)),
      drop_bit 2 (and (b ! 14) 0x7C),
      or (push_bit 3 (and (b ! 14) 0x03)) (drop_bit 5 (and (b ! 15) 0xE0)),
      and (b ! 15) 0x1F]"

definition UlidEncode :: "u8 list \<Rightarrow> string" where
  "UlidEncode b = map (\<lambda>i. kCrockford ! unat i) (ulid_indices b)"

text \<open>The bytes \<open>getrandom\<close> delivers call by call; a call that delivers none ends the loop.\<close>

fun getrandom_loop :: "u8 list list \<Rightarrow> u8 list \<Rightarrow> u8 list" where
  "getrandom_loop [] out = out"
| "getrandom_loop (n # ns) out =
     (if length out \<ge> 10 \<or> n = [] then out else getrandom_loop ns (out @ take (10 - length out) n))"

text \<open>The bytes that are left take the clock and the address of the array; a shift by 64 or more is
  undefined.\<close>

definition fallback_byte :: "(nat \<Rightarrow> u64) \<Rightarrow> u64 \<Rightarrow> nat \<Rightarrow> u8 option" where
  "fallback_byte clock addr i =
     (if i * 8 \<ge> 64 then None else Some (ucast (xor (drop_bit (i * 8) (clock i)) (drop_bit (i mod 8) addr))))"

fun fallback_bytes :: "(nat \<Rightarrow> u64) \<Rightarrow> u64 \<Rightarrow> nat list \<Rightarrow> u8 list option" where
  "fallback_bytes clock addr [] = Some []"
| "fallback_bytes clock addr (i # is) =
     (case fallback_byte clock addr i of
        None \<Rightarrow> None
      | Some b \<Rightarrow> map_option (\<lambda>bs. b # bs) (fallback_bytes clock addr is))"

definition time_bytes :: "u64 \<Rightarrow> u8 list" where
  "time_bytes ms = map (\<lambda>n. ucast (and (drop_bit n ms) 0xFF)) [40, 32, 24, 16, 8, 0]"

definition GenerateUlid :: "u64 \<Rightarrow> u8 list list \<Rightarrow> (nat \<Rightarrow> u64) \<Rightarrow> u64 \<Rightarrow> string option" where
  "GenerateUlid ms random clock addr =
     (let got = getrandom_loop random []
      in map_option (\<lambda>more. UlidEncode (time_bytes ms @ got @ more))
           (fallback_bytes clock addr [length got ..< 10]))"

section \<open>Texts of the columns\<close>

definition CategoryToString :: "u8 \<Rightarrow> string" where
  "CategoryToString category =
     (if category = CAT_FILE then ''file''
      else if category = CAT_PROCESS then ''process''
      else if category = CAT_PRIV then ''priv''
      else if category = CAT_NS then ''ns''
      else if category = CAT_NETWORK then ''network''
      else if category = CAT_DNS then ''dns''
      else ''unknown'')"

definition ActionToString :: "u8 \<Rightarrow> u8 \<Rightarrow> string" where
  "ActionToString category action =
     (if category = CAT_FILE then
        (if action = EVENT_READ then ''read''
         else if action = EVENT_WRITE then ''write''
         else if action = EVENT_CHMOD then ''chmod''
         else if action = EVENT_CHOWN then ''chown''
         else if action = EVENT_UNLINK then ''unlink''
         else if action = EVENT_RENAME then ''rename''
         else if action = EVENT_MMAP then ''mmap''
         else ''access'')
      else if category = CAT_PROCESS then
        (if action = PROC_KIND_FORK then ''fork''
         else if action = PROC_KIND_EXEC then ''exec''
         else if action = PROC_KIND_EXIT then ''exit''
         else ''unknown'')
      else if category = CAT_PRIV then
        (if action = PRIV_KIND_SETUID then ''setuid''
         else if action = PRIV_KIND_SETGID then ''setgid''
         else if action = PRIV_KIND_CAPSET then ''capset''
         else if action = PRIV_KIND_PTRACE then ''ptrace''
         else if action = PRIV_KIND_MODULE_LOAD then ''module_load''
         else ''unknown'')
      else if category = CAT_NS then
        (if action = PRIV_KIND_MOUNT then ''mount''
         else if action = PRIV_KIND_UNSHARE then ''unshare''
         else if action = PRIV_KIND_SETNS then ''setns''
         else ''unknown'')
      else if category = CAT_NETWORK then
        (if action = NET_EVENT_CONNECT then ''connect''
         else if action = NET_EVENT_ACCEPT then ''accept''
         else if action = NET_EVENT_BIND then ''bind''
         else ''unknown'')
      else if category = CAT_DNS then ''query''
      else ''unknown'')"

definition CategoryToSeverity :: "u8 \<Rightarrow> string" where
  "CategoryToSeverity category = (if category = CAT_PRIV \<or> category = CAT_NS then ''medium'' else ''low'')"

section \<open>The store\<close>

record PendingRow =
  pr_event_id :: string
  pr_ts_ns :: u64
  pr_category :: string
  pr_action :: string
  pr_priority :: int
  pr_severity :: string
  pr_pid :: u32
  pr_ppid :: u32
  pr_uid :: u32
  pr_exe :: string
  pr_container_id :: string
  pr_payload :: string

text \<open>A row of the table.\<close>

record EventRow =
  er_event_id :: string
  er_ts_ns :: int
  er_category :: string
  er_action :: string
  er_priority :: int
  er_severity :: string
  er_pid :: int
  er_ppid :: int
  er_uid :: int
  er_exe :: string
  er_container_id :: string
  er_host_id :: string
  er_payload :: string

text \<open>\<open>es_ready\<close> holds when both \<open>db_\<close> and \<open>insert_stmt_\<close> are set; \<open>es_rows\<close> are the committed rows and
  \<open>es_tx\<close> the rows of the open transaction.\<close>

record EventStore =
  es_batch_size :: int
  es_batch_ms :: int
  es_ready :: bool
  es_pending :: "PendingRow list"
  es_stored :: u64
  es_failed :: u64
  es_host_id :: string
  es_last_flush_ms :: int
  es_e2e :: LatencyStats
  es_rows :: "EventRow list"
  es_tx :: "EventRow list option"

datatype CommitAnswer = Committed | CommitRolledBack | CommitStillOpen

text \<open>What is answered while a batch is written: \<open>BEGIN\<close>, the clock in nanoseconds, the insertion of
  the row of a number, \<open>COMMIT\<close> and the clock in milliseconds.\<close>

record FlushAnswers =
  fl_begin :: bool
  fl_ts :: u64
  fl_insert :: "nat \<Rightarrow> bool"
  fl_commit :: CommitAnswer
  fl_now_ms :: int

definition open_store :: "int \<Rightarrow> int \<Rightarrow> bool \<Rightarrow> string \<Rightarrow> string \<Rightarrow> int \<Rightarrow> EventRow list \<Rightarrow> EventStore" where
  "open_store batch_size batch_ms ready host boot now rows =
     \<lparr>es_batch_size = (if batch_size > 0 then batch_size else 500),
      es_batch_ms = (if batch_ms > 0 then batch_ms else 200),
      es_ready = ready, es_pending = [], es_stored = 0, es_failed = 0, es_host_id = host @ ''-'' @ boot,
      es_last_flush_ms = now, es_e2e = new_latency, es_rows = rows, es_tx = None\<rparr>"

definition pending_row :: "string \<Rightarrow> EventRecord \<Rightarrow> string \<Rightarrow> PendingRow" where
  "pending_row ulid rec payload =
     \<lparr>pr_event_id = ulid, pr_ts_ns = ts_ns rec, pr_category = CategoryToString (rec_category rec),
      pr_action = ActionToString (rec_category rec) (rec_action rec), pr_priority = uint (rec_priority rec),
      pr_severity = CategoryToSeverity (rec_category rec), pr_pid = rec_pid rec, pr_ppid = rec_ppid rec,
      pr_uid = rec_uid rec, pr_exe = c_str (rec_exe rec), pr_container_id = c_str (rec_container_id rec),
      pr_payload = payload\<rparr>"

definition bound_row :: "string \<Rightarrow> PendingRow \<Rightarrow> EventRow" where
  "bound_row host row =
     \<lparr>er_event_id = c_str (pr_event_id row), er_ts_ns = sint (pr_ts_ns row), er_category = c_str (pr_category row),
      er_action = c_str (pr_action row), er_priority = pr_priority row, er_severity = c_str (pr_severity row),
      er_pid = sint (pr_pid row), er_ppid = sint (pr_ppid row), er_uid = sint (pr_uid row), er_exe = c_str (pr_exe row),
      er_container_id = c_str (pr_container_id row), er_host_id = c_str host, er_payload = c_str (pr_payload row)\<rparr>"

text \<open>The loop over the batch: the rows of the transaction, the latencies, and whether every row
  was inserted. Latencies are recorded row by row, before the outcome of the batch is known.\<close>

fun insert_loop ::
  "FlushAnswers \<Rightarrow> string \<Rightarrow> EventRow list \<Rightarrow> nat \<Rightarrow> PendingRow list \<Rightarrow> EventRow list \<Rightarrow> LatencyStats \<Rightarrow>
     bool \<times> EventRow list \<times> LatencyStats" where
  "insert_loop fl host committed i [] tx lat = (True, tx, lat)"
| "insert_loop fl host committed i (row # rest) tx lat =
     (if \<not> fl_insert fl i \<or> er_event_id (bound_row host row) \<in> er_event_id ` set (committed @ tx) then (False, tx, lat)
      else insert_loop fl host committed (i + 1) rest (tx @ [bound_row host row])
             (if fl_ts fl \<ge> pr_ts_ns row then latency_add (fl_ts fl - pr_ts_ns row) lat else lat))"

definition count_failed :: "EventStore \<Rightarrow> EventStore" where
  "count_failed s = s\<lparr>es_failed := es_failed s + of_nat (length (es_pending s))\<rparr>"

definition WriteBatch :: "FlushAnswers \<Rightarrow> EventStore \<Rightarrow> EventStore" where
  "WriteBatch fl s =
     (if \<not> fl_begin fl \<or> es_tx s \<noteq> None then count_failed s
      else (case insert_loop fl (es_host_id s) (es_rows s) 0 (es_pending s) [] (es_e2e s) of
              (False, _, lat) \<Rightarrow> count_failed (s\<lparr>es_e2e := lat, es_tx := None\<rparr>)
            | (True, tx, lat) \<Rightarrow>
                (case fl_commit fl of
                   Committed \<Rightarrow>
                     s\<lparr>es_e2e := lat, es_rows := es_rows s @ tx, es_stored := es_stored s + of_nat (length (es_pending s))\<rparr>
                 | CommitRolledBack \<Rightarrow> count_failed (s\<lparr>es_e2e := lat\<rparr>)
                 | CommitStillOpen \<Rightarrow> count_failed (s\<lparr>es_e2e := lat, es_tx := Some tx\<rparr>))))"

definition Flush :: "FlushAnswers \<Rightarrow> EventStore \<Rightarrow> EventStore" where
  "Flush fl s =
     (if \<not> es_ready s \<or> es_pending s = [] then s
      else (WriteBatch fl s)\<lparr>es_pending := [], es_last_flush_ms := fl_now_ms fl\<rparr>)"

definition Append :: "string \<Rightarrow> FlushAnswers \<Rightarrow> EventRecord \<Rightarrow> string \<Rightarrow> EventStore \<Rightarrow> EventStore" where
  "Append ulid fl rec payload s =
     (if \<not> es_ready s then s
      else (let s = s\<lparr>es_pending := es_pending s @ [pending_row ulid rec payload]\<rparr>
            in if int (length (es_pending s)) \<ge> es_batch_size s then Flush fl s else s))"

definition FlushIfDue :: "int \<Rightarrow> FlushAnswers \<Rightarrow> EventStore \<Rightarrow> EventStore" where
  "FlushIfDue now fl s =
     (if es_pending s = [] then s
      else if now - es_last_flush_ms s \<ge> es_batch_ms s then Flush fl s else s)"

section \<open>Sequences of calls\<close>

datatype StoreOp =
    StAppend string FlushAnswers EventRecord string
  | StDue int FlushAnswers
  | StFlush FlushAnswers

fun store_step :: "StoreOp \<Rightarrow> EventStore \<Rightarrow> EventStore" where
  "store_step (StAppend ulid fl rec payload) s = Append ulid fl rec payload s"
| "store_step (StDue now fl) s = FlushIfDue now fl s"
| "store_step (StFlush fl) s = Flush fl s"

definition store_run :: "StoreOp list \<Rightarrow> EventStore \<Rightarrow> EventStore" where
  "store_run ops s = fold store_step ops s"

fun appended :: "StoreOp list \<Rightarrow> PendingRow list" where
  "appended [] = []"
| "appended (StAppend ulid fl rec payload # ops) = pending_row ulid rec payload # appended ops"
| "appended (StDue now fl # ops) = appended ops"
| "appended (StFlush fl # ops) = appended ops"

end
