(* ===== verification/Event_Store_Correct.thy ===== *)
theory Event_Store_Correct
  imports Event_Store
begin

text \<open>
  What the event store guarantees: a batch is stored as a whole or not at all, in the order of the
  events, with exact counters; a failed commit that stays open loses every later batch.
\<close>

section \<open>Batches\<close>

definition unique_ids :: "EventRow list \<Rightarrow> bool" where
  "unique_ids rows \<longleftrightarrow> distinct (map er_event_id rows)"

lemma insert_loop_step:
  assumes "insert_loop fl host committed i (row # rest) tx lat = (True, tx', lat')"
  obtains lat1 where "er_event_id (bound_row host row) \<notin> er_event_id ` set (committed @ tx)"
    and "insert_loop fl host committed (i + 1) rest (tx @ [bound_row host row]) lat1 = (True, tx', lat')"
  using assms by (simp split: if_splits)

lemma insert_loop_rows:
  assumes "insert_loop fl host committed i rows tx lat = (True, tx', lat')"
  shows "tx' = tx @ map (bound_row host) rows"
  using assms
proof (induction rows arbitrary: i tx lat)
  case (Cons row rest)
  show ?case by (rule insert_loop_step [OF Cons.prems]) (use Cons.IH in fastforce)
qed simp

lemma insert_loop_unique:
  assumes "insert_loop fl host committed i rows tx lat = (True, tx', lat')" and "unique_ids (committed @ tx)"
  shows "unique_ids (committed @ tx')"
  using assms
proof (induction rows arbitrary: i tx lat)
  case (Cons row rest)
  obtain lat1 where new: "er_event_id (bound_row host row) \<notin> er_event_id ` set (committed @ tx)"
    and rest: "insert_loop fl host committed (i + 1) rest (tx @ [bound_row host row]) lat1 = (True, tx', lat')"
    using insert_loop_step [OF Cons.prems(1)] .
  show ?case
    by (rule Cons.IH [OF rest]) (use new Cons.prems(2) in \<open>auto simp: unique_ids_def\<close>)
qed simp

lemma count_failed_fields [simp]:
  "es_rows (count_failed s) = es_rows s" "es_stored (count_failed s) = es_stored s"
  "es_failed (count_failed s) = es_failed s + of_nat (length (es_pending s))"
  "es_pending (count_failed s) = es_pending s" "es_tx (count_failed s) = es_tx s"
  "es_host_id (count_failed s) = es_host_id s" "es_ready (count_failed s) = es_ready s"
  "es_batch_size (count_failed s) = es_batch_size s"
  by (simp_all add: count_failed_def)

lemma WriteBatch_frame [frame_simps]:
  "es_pending (WriteBatch fl s) = es_pending s" "es_host_id (WriteBatch fl s) = es_host_id s"
  "es_ready (WriteBatch fl s) = es_ready s" "es_batch_size (WriteBatch fl s) = es_batch_size s"
  by (auto simp: WriteBatch_def split: prod.split bool.split CommitAnswer.split)

text \<open>When the database takes a batch: it opens a transaction, accepts every row, no identifier occurs
  twice or is in the table already, and the commit succeeds.\<close>

definition row_ids :: "string \<Rightarrow> PendingRow list \<Rightarrow> string list" where
  "row_ids host batch = map (\<lambda>row. er_event_id (bound_row host row)) batch"

definition batch_taken :: "FlushAnswers \<Rightarrow> EventStore \<Rightarrow> PendingRow list \<Rightarrow> bool" where
  "batch_taken fl s batch \<longleftrightarrow>
     fl_begin fl \<and> es_tx s = None \<and> list_all (fl_insert fl) [0..<length batch] \<and>
     distinct (row_ids (es_host_id s) batch) \<and>
     set (row_ids (es_host_id s) batch) \<inter> er_event_id ` set (es_rows s) = {} \<and> fl_commit fl = Committed"

lemma insert_loop_succeeds:
  "fst (insert_loop fl host committed i rows tx lat) \<longleftrightarrow>
     (\<forall>k < length rows. fl_insert fl (i + k)) \<and> distinct (row_ids host rows) \<and>
     set (row_ids host rows) \<inter> er_event_id ` set (committed @ tx) = {}"
proof (induction rows arbitrary: i tx lat)
  case (Cons row rest)
  have "(\<forall>k < length (row # rest). fl_insert fl (i + k)) \<longleftrightarrow>
      fl_insert fl i \<and> (\<forall>k < length rest. fl_insert fl (i + 1 + k))"
    by (auto simp: less_Suc_eq_0_disj)
  then show ?case by (auto simp: Cons.IH row_ids_def)
qed (simp add: row_ids_def)

text \<open>The two outcomes of a batch.\<close>

lemma WriteBatch_taken:
  assumes "batch_taken fl s (es_pending s)"
  shows "es_rows (WriteBatch fl s) = es_rows s @ map (bound_row (es_host_id s)) (es_pending s)"
    and "es_stored (WriteBatch fl s) = es_stored s + of_nat (length (es_pending s))"
    and "es_failed (WriteBatch fl s) = es_failed s"
    and "unique_ids (es_rows s) \<Longrightarrow> unique_ids (es_rows (WriteBatch fl s))"
proof -
  have "fst (insert_loop fl (es_host_id s) (es_rows s) 0 (es_pending s) [] (es_e2e s))"
    using assms by (simp add: insert_loop_succeeds batch_taken_def list_all_iff)
  then obtain tx lat where L: "insert_loop fl (es_host_id s) (es_rows s) 0 (es_pending s) [] (es_e2e s) = (True, tx, lat)"
    by (cases "insert_loop fl (es_host_id s) (es_rows s) 0 (es_pending s) [] (es_e2e s)") auto
  have W: "WriteBatch fl s =
      s\<lparr>es_e2e := lat, es_rows := es_rows s @ tx, es_stored := es_stored s + of_nat (length (es_pending s))\<rparr>"
    using assms L by (simp add: WriteBatch_def batch_taken_def)
  show "es_rows (WriteBatch fl s) = es_rows s @ map (bound_row (es_host_id s)) (es_pending s)"
    using W insert_loop_rows [OF L] by simp
  show "unique_ids (es_rows s) \<Longrightarrow> unique_ids (es_rows (WriteBatch fl s))"
    using W insert_loop_unique [OF L] by simp
  show "es_stored (WriteBatch fl s) = es_stored s + of_nat (length (es_pending s))"
    "es_failed (WriteBatch fl s) = es_failed s" using W by simp_all
qed

lemma WriteBatch_refused:
  assumes "\<not> batch_taken fl s (es_pending s)"
  shows "es_rows (WriteBatch fl s) = es_rows s" and "es_stored (WriteBatch fl s) = es_stored s"
    and "es_failed (WriteBatch fl s) = es_failed s + of_nat (length (es_pending s))"
proof -
  obtain ok tx lat where L: "insert_loop fl (es_host_id s) (es_rows s) 0 (es_pending s) [] (es_e2e s) = (ok, tx, lat)"
    by (cases "insert_loop fl (es_host_id s) (es_rows s) 0 (es_pending s) [] (es_e2e s)")
  then have "ok \<longleftrightarrow> (\<forall>k < length (es_pending s). fl_insert fl k) \<and> distinct (row_ids (es_host_id s) (es_pending s)) \<and>
      set (row_ids (es_host_id s) (es_pending s)) \<inter> er_event_id ` set (es_rows s) = {}"
    using insert_loop_succeeds [of fl "es_host_id s" "es_rows s" 0 "es_pending s" "[]" "es_e2e s"] by simp
  then have no: "\<not> (fl_begin fl \<and> es_tx s = None \<and> ok \<and> fl_commit fl = Committed)"
    using assms by (auto simp: batch_taken_def list_all_iff)
  then have "es_rows (WriteBatch fl s) = es_rows s \<and> es_stored (WriteBatch fl s) = es_stored s \<and>
      es_failed (WriteBatch fl s) = es_failed s + of_nat (length (es_pending s))"
    using L by (auto simp: WriteBatch_def split: bool.splits CommitAnswer.splits)
  then show "es_rows (WriteBatch fl s) = es_rows s" "es_stored (WriteBatch fl s) = es_stored s"
    "es_failed (WriteBatch fl s) = es_failed s + of_nat (length (es_pending s))" by simp_all
qed

section \<open>Runs\<close>

text \<open>The batches a run hands to the database, one for every flush that finds something to write, with
  its outcome: all rows that wait when the batch is full, when the time since the last flush is
  over, or when a flush is asked for.\<close>

definition batch_of :: "FlushAnswers \<Rightarrow> EventStore \<Rightarrow> PendingRow list \<Rightarrow> (PendingRow list \<times> bool) list" where
  "batch_of fl s batch = (if batch = [] then [] else [(batch, batch_taken fl s batch)])"

fun flushed_by :: "StoreOp \<Rightarrow> EventStore \<Rightarrow> (PendingRow list \<times> bool) list" where
  "flushed_by (StAppend ulid fl rec payload) s =
     (let waiting = es_pending s @ [pending_row ulid rec payload]
      in if es_batch_size s \<le> int (length waiting) then batch_of fl s waiting else [])"
| "flushed_by (StDue now fl) s = (if es_batch_ms s \<le> now - es_last_flush_ms s then batch_of fl s (es_pending s) else [])"
| "flushed_by (StFlush fl) s = batch_of fl s (es_pending s)"

fun batches_of :: "StoreOp list \<Rightarrow> EventStore \<Rightarrow> (PendingRow list \<times> bool) list" where
  "batches_of [] s = []"
| "batches_of (op # ops) s = flushed_by op s @ batches_of ops (store_step op s)"

definition batch_rows :: "(PendingRow list \<times> bool) list \<Rightarrow> bool \<Rightarrow> PendingRow list" where
  "batch_rows batches outcome = concat (map fst (filter (\<lambda>b. snd b = outcome) batches))"

lemma batch_rows_simps [simp]: "batch_rows [] o1 = []" "batch_rows (xs @ ys) o1 = batch_rows xs o1 @ batch_rows ys o1"
  "batch_rows (b # bs) o1 = (if snd b = o1 then fst b else []) @ batch_rows bs o1"
  by (simp_all add: batch_rows_def)

definition accounted ::
  "EventStore \<Rightarrow> PendingRow list \<Rightarrow> (PendingRow list \<times> bool) list \<Rightarrow> EventStore \<Rightarrow> bool" where
  "accounted s0 given batches s \<longleftrightarrow>
     given = concat (map fst batches) @ es_pending s \<and>
     es_rows s = es_rows s0 @ map (bound_row (es_host_id s0)) (batch_rows batches True) \<and>
     es_stored s = es_stored s0 + of_nat (length (batch_rows batches True)) \<and>
     es_failed s = es_failed s0 + of_nat (length (batch_rows batches False)) \<and>
     unique_ids (es_rows s) \<and>
     es_ready s \<and> es_host_id s = es_host_id s0 \<and> es_batch_size s = es_batch_size s0"

lemma Flush_accounted:
  assumes "accounted s0 given batches s"
  shows "accounted s0 given (batches @ batch_of fl s (es_pending s)) (Flush fl s) \<and> es_pending (Flush fl s) = []"
proof (cases "es_pending s = []")
  case True
  then show ?thesis using assms by (simp add: Flush_def batch_of_def)
next
  case False
  then have F: "Flush fl s = (WriteBatch fl s)\<lparr>es_pending := [], es_last_flush_ms := fl_now_ms fl\<rparr>"
    using assms by (simp add: Flush_def accounted_def)
  show ?thesis
  proof (cases "batch_taken fl s (es_pending s)")
    case True
    then show ?thesis
      using assms False F WriteBatch_taken [OF True] by (auto simp: accounted_def batch_of_def frame_simps)
  next
    case no: False
    then show ?thesis
      using assms False F WriteBatch_refused [OF no] by (auto simp: accounted_def batch_of_def frame_simps)
  qed
qed

lemma step_accounted:
  assumes "accounted s0 given batches s" and "int (length (es_pending s)) < es_batch_size s0" and "0 < es_batch_size s0"
  shows "accounted s0 (given @ appended [op]) (batches @ flushed_by op s) (store_step op s) \<and>
    int (length (es_pending (store_step op s))) < es_batch_size s0"
proof (cases op)
  case (StAppend ulid fl rec payload)
  define s1 where "s1 = s\<lparr>es_pending := es_pending s @ [pending_row ulid rec payload]\<rparr>"
  have s1: "accounted s0 (given @ appended [op]) batches s1" "es_pending s1 = es_pending s @ [pending_row ulid rec payload]"
    "batch_of fl s1 xs = batch_of fl s xs" "es_batch_size s1 = es_batch_size s" for xs
    using assms(1) StAppend by (auto simp: accounted_def s1_def batch_of_def batch_taken_def)
  have "store_step op s = (if int (length (es_pending s1)) \<ge> es_batch_size s1 then Flush fl s1 else s1)"
    using StAppend assms(1) by (simp add: Append_def s1_def accounted_def Let_def)
  then show ?thesis
    using s1 assms Flush_accounted [OF s1(1), of fl] StAppend by (auto simp: accounted_def)
next
  case (StDue now fl)
  then show ?thesis
    using assms Flush_accounted [OF assms(1), of fl] by (auto simp: FlushIfDue_def batch_of_def)
next
  case (StFlush fl)
  then show ?thesis using assms Flush_accounted [OF assms(1), of fl] by simp
qed

lemma appended_append: "appended (xs @ ys) = appended xs @ appended ys"
  by (induction xs rule: appended.induct) simp_all

lemma run_accounted:
  assumes "accounted s0 given batches s" and "int (length (es_pending s)) < es_batch_size s0" and "0 < es_batch_size s0"
  shows "accounted s0 (given @ appended ops) (batches @ batches_of ops s) (store_run ops s) \<and>
    int (length (es_pending (store_run ops s))) < es_batch_size s0"
  using assms(1,2)
proof (induction ops arbitrary: given batches s)
  case Nil
  then show ?case by (simp add: store_run_def)
next
  case (Cons op ops)
  have "appended (op # ops) = appended [op] @ appended ops" using appended_append [of "[op]" ops] by simp
  then show ?case
    using Cons.IH step_accounted [OF Cons.prems assms(3), of op] by (force simp: store_run_def)
qed

text \<open>
  C35. Batches are stored as a whole or lost as a whole: whatever sequence of calls runs on a new store,
  the events given to it are, in order, those of the batches of its flushes followed by the pending ones
  (always fewer than a batch). The table gets all rows of a batch the database takes, that is one for which
  it begins a transaction, accepts every row and commits, and no row of any other batch; no identifier
  occurs twice, and the two counters are the events of the taken and of the other batches.\<close>

theorem batches_stored_or_lost_whole:
  fixes ops :: "StoreOp list" and batch_size batch_ms now :: int and host boot :: string and rows :: "EventRow list"
  assumes "unique_ids rows"
  defines "s0 \<equiv> open_store batch_size batch_ms True host boot now rows"
  shows "appended ops = concat (map fst (batches_of ops s0)) @ es_pending (store_run ops s0) \<and>
     int (length (es_pending (store_run ops s0))) < (if batch_size > 0 then batch_size else 500) \<and>
     es_rows (store_run ops s0) =
       rows @ map (bound_row (host @ ''-'' @ boot)) (batch_rows (batches_of ops s0) True) \<and>
     es_stored (store_run ops s0) = of_nat (length (batch_rows (batches_of ops s0) True)) \<and>
     es_failed (store_run ops s0) = of_nat (length (batch_rows (batches_of ops s0) False)) \<and>
     unique_ids (es_rows (store_run ops s0))"
proof -
  have "accounted s0 [] [] s0" and pos: "0 < es_batch_size s0" and "int (length (es_pending s0)) < es_batch_size s0"
    using assms(1) by (auto simp: accounted_def s0_def open_store_def)
  from run_accounted [OF this(1,3,2), of ops] show ?thesis
    by (auto simp: accounted_def s0_def open_store_def)
qed

definition sample_flush :: FlushAnswers where
  "sample_flush = \<lparr>fl_begin = True, fl_ts = 100, fl_insert = (\<lambda>_. True), fl_commit = Committed, fl_now_ms = 5\<rparr>"

text \<open>Four events in batches of two; the database refuses the last row. The first two are stored, and
  the third is lost with the fourth although its own row was accepted.\<close>

definition sample_calls :: "StoreOp list" where
  "sample_calls = [StAppend ''A'' sample_flush zero_record ''{}'', StAppend ''B'' sample_flush zero_record ''{}'',
     StAppend ''C'' sample_flush zero_record ''{}'',
     StAppend ''D'' (sample_flush\<lparr>fl_insert := (\<lambda>i. i = 0)\<rparr>) zero_record ''{}'']"

theorem batches_stored_or_lost_whole_witness:
  "map er_event_id (es_rows (store_run sample_calls (open_store 2 200 True ''h'' ''b'' 0 []))) = [''A'', ''B''] \<and>
   es_failed (store_run sample_calls (open_store 2 200 True ''h'' ''b'' 0 [])) = 2"
proof -
  have ids: "pr_event_id (pending_row u r p) = u" for u r p by (simp add: pending_row_def)
  have b: "map (\<lambda>b. (map pr_event_id (fst b), snd b)) (batches_of sample_calls (open_store 2 200 True ''h'' ''b'' 0 [])) =
      [([''A'', ''B''], True), ([''C'', ''D''], False)]"
    by code_simp
  then obtain b1 b2 where B: "batches_of sample_calls (open_store 2 200 True ''h'' ''b'' 0 []) = [(b1, True), (b2, False)]"
      "map pr_event_id b1 = [''A'', ''B'']" "map pr_event_id b2 = [''C'', ''D'']" by auto
  have "unique_ids ([] :: EventRow list)" by (simp add: unique_ids_def)
  from batches_stored_or_lost_whole [OF this, of sample_calls 2 200 "''h''" "''b''" 0] B(1)
  have R: "es_rows (store_run sample_calls (open_store 2 200 True ''h'' ''b'' 0 [])) = map (bound_row (''h'' @ ''-'' @ ''b'')) b1"
    "es_failed (store_run sample_calls (open_store 2 200 True ''h'' ''b'' 0 [])) = of_nat (length b2)" by simp_all
  have "length b2 = 2" using arg_cong [OF B(3), of length] by simp
  moreover have "map er_event_id (map (bound_row hst) b1) = map c_str (map pr_event_id b1)" for hst
    by (simp add: bound_row_def)
  ultimately show ?thesis using R B(2) by (simp add: c_str_def)
qed

section \<open>A commit that stays open\<close>

lemma Flush_open: "es_tx s \<noteq> None \<Longrightarrow> es_rows (Flush fl s) = es_rows s \<and> es_stored (Flush fl s) = es_stored s \<and> es_tx (Flush fl s) \<noteq> None"
  by (auto simp: Flush_def WriteBatch_def)

lemma step_open: "es_tx s \<noteq> None \<Longrightarrow> es_rows (store_step op s) = es_rows s \<and> es_stored (store_step op s) = es_stored s \<and> es_tx (store_step op s) \<noteq> None"
  by (cases op) (use Flush_open in \<open>auto simp: Append_def FlushIfDue_def Let_def simp del: not_None_eq\<close>)

lemma run_open: "es_tx s \<noteq> None \<Longrightarrow> es_rows (store_run ops s) = es_rows s \<and> es_stored (store_run ops s) = es_stored s \<and> es_tx (store_run ops s) \<noteq> None"
proof (induction ops arbitrary: s)
  case (Cons op ops)
  then show ?case using step_open [OF Cons.prems, of op] Cons.IH [of "store_step op s"] by (simp add: store_run_def)
qed (simp add: store_run_def)

text \<open>
  C36. A commit that fails and leaves its transaction open is never ended: after it nothing given to the
  store reaches the table, whatever is appended or flushed and whatever the database answers.\<close>

theorem open_commit_loses_all_later:
  assumes "es_pending s \<noteq> []" and "es_ready s" and "es_tx s = None" and "fl_begin fl" and "fl_commit fl = CommitStillOpen"
    and "fst (insert_loop fl (es_host_id s) (es_rows s) 0 (es_pending s) [] (es_e2e s))"
  shows "es_rows (store_run ops (Flush fl s)) = es_rows s \<and> es_stored (store_run ops (Flush fl s)) = es_stored s"
proof -
  obtain tx lat where "insert_loop fl (es_host_id s) (es_rows s) 0 (es_pending s) [] (es_e2e s) = (True, tx, lat)"
    using assms(6) by (cases "insert_loop fl (es_host_id s) (es_rows s) 0 (es_pending s) [] (es_e2e s)") auto
  then have "es_rows (Flush fl s) = es_rows s" "es_stored (Flush fl s) = es_stored s" "es_tx (Flush fl s) \<noteq> None"
    using assms by (simp_all add: Flush_def WriteBatch_def)
  then show ?thesis using run_open [of "Flush fl s" ops] by simp
qed

definition sample_full :: EventStore where
  "sample_full = store_run [StAppend ''A'' sample_flush zero_record ''{}''] (open_store 2 200 True ''h'' ''b'' 0 [])"

theorem open_commit_loses_all_later_witness:
  "es_rows (store_run [StAppend ''B'' sample_flush zero_record ''{}'', StFlush sample_flush]
     (Flush (sample_flush\<lparr>fl_commit := CommitStillOpen\<rparr>) sample_full)) = es_rows sample_full \<and>
   es_stored (store_run [StAppend ''B'' sample_flush zero_record ''{}'', StFlush sample_flush]
     (Flush (sample_flush\<lparr>fl_commit := CommitStillOpen\<rparr>) sample_full)) = es_stored sample_full"
  by (rule open_commit_loses_all_later)
    (simp_all add: sample_full_def sample_flush_def store_run_def open_store_def Append_def)

end
