(* ===== verification/Ulid_Correct.thy ===== *)
theory Ulid_Correct
  imports Event_Store "HOL-Library.List_Lexorder" "HOL-Library.Char_ord"
begin

text \<open>
  The identifiers of stored events: the 26 characters are the base 32 digits of the number whose bytes
  are the 16 bytes, most significant first, over an ascending alphabet. Their order as texts is
  therefore that of the bytes, the time first.
\<close>

lemma unat_field:
  fixes x :: u8
  assumes "drop_bit k m = mask j"
  shows "unat (drop_bit k (and x m)) = unat x div 2 ^ k mod 2 ^ j"
proof -
  have "drop_bit k (and x m) = take_bit j (drop_bit k x)"
    using assms by (simp add: take_bit_eq_mask drop_bit_and)
  then have "unat (drop_bit k (and x m)) = take_bit j (unat (drop_bit k x))"
    by (simp only: unsigned_take_bit_eq)
  also have "unat (drop_bit k x) = drop_bit k (unat x)"
    using unsigned_less [of x, where ?'a = nat] by (simp only: unsigned_drop_bit_eq) (simp add: take_bit_nat_eq_self)
  finally show ?thesis by (simp add: drop_bit_eq_div take_bit_eq_mod)
qed

lemma unat_joined:
  fixes a b :: u8
  assumes "unat b < 2 ^ k" and "unat a * 2 ^ k < 256"
  shows "unat (or (push_bit k a) b) = unat a * 2 ^ k + unat b"
proof -
  have "take_bit k (unat b) = unat b" using assms(1) by (simp add: take_bit_nat_eq_self_iff)
  then have "bit (unat b) n \<Longrightarrow> n < k" for n by (metis bit_take_bit_iff)
  then have b: "bit b n \<Longrightarrow> n < k" for n by (simp add: bit_unsigned_iff)
  have "unat (push_bit k a) = push_bit k (unat a)"
    using assms(2) by (simp only: unsigned_push_bit_eq) (simp add: take_bit_nat_eq_self_iff push_bit_eq_mult)
  then have "unat (or (push_bit k a) b) = or (push_bit k (unat a)) (unat b)" by (simp add: unsigned_or_eq)
  also have "\<dots> = push_bit k (unat a) + unat b"
    by (rule disjunctive_add_eq_or [symmetric]) (auto simp: bit_eq_iff bit_simps dest!: b)
  finally show ?thesis by (simp add: push_bit_eq_mult)
qed

lemma joined_fields:
  fixes a b :: u8
  assumes "unat a = m" and "unat b = n" and "p = 2 ^ k" and "n < p" and "m * p < 256"
  shows "unat (or (push_bit k a) b) = m * p + n"
  using unat_joined [of b k a] assms by simp

lemma byte_parts:
  fixes x :: u8
  shows "unat (drop_bit 5 (and x 0xE0)) = unat x div 32" "unat (and x 0x1F) = unat x mod 32"
    "unat (drop_bit 3 (and x 0xF8)) = unat x div 8" "unat (and x 0x07) = unat x mod 8"
    "unat (drop_bit 6 (and x 0xC0)) = unat x div 64" "unat (drop_bit 1 (and x 0x3E)) = unat x div 2 mod 32"
    "unat (and x 0x01) = unat x mod 2" "unat (drop_bit 4 (and x 0xF0)) = unat x div 16"
    "unat (and x 0x0F) = unat x mod 16" "unat (drop_bit 7 (and x 0x80)) = unat x div 128"
    "unat (drop_bit 2 (and x 0x7C)) = unat x div 4 mod 32" "unat (and x 0x03) = unat x mod 4"
proof -
  have less: "unat x < 256" using unsigned_less [of x] by simp
  show "unat (drop_bit 5 (and x 0xE0)) = unat x div 32" using unat_field [of 5 "0xE0" 3 x] less by (simp add: mask_eq_exp_minus_1)
  show "unat (and x 0x1F) = unat x mod 32" using unat_field [of 0 "0x1F" 5 x] by (simp add: mask_eq_exp_minus_1)
  show "unat (drop_bit 3 (and x 0xF8)) = unat x div 8" using unat_field [of 3 "0xF8" 5 x] less by (simp add: mask_eq_exp_minus_1)
  show "unat (and x 0x07) = unat x mod 8" using unat_field [of 0 "0x07" 3 x] by (simp add: mask_eq_exp_minus_1)
  show "unat (drop_bit 6 (and x 0xC0)) = unat x div 64" using unat_field [of 6 "0xC0" 2 x] less by (simp add: mask_eq_exp_minus_1)
  show "unat (drop_bit 1 (and x 0x3E)) = unat x div 2 mod 32" using unat_field [of 1 "0x3E" 5 x] by (simp add: mask_eq_exp_minus_1)
  show "unat (and x 0x01) = unat x mod 2" using unat_field [of 0 "0x01" 1 x] by (simp add: mask_eq_exp_minus_1)
  show "unat (drop_bit 4 (and x 0xF0)) = unat x div 16" using unat_field [of 4 "0xF0" 4 x] less by (simp add: mask_eq_exp_minus_1)
  show "unat (and x 0x0F) = unat x mod 16" using unat_field [of 0 "0x0F" 4 x] by (simp add: mask_eq_exp_minus_1)
  show "unat (drop_bit 7 (and x 0x80)) = unat x div 128" using unat_field [of 7 "0x80" 1 x] less by (simp add: mask_eq_exp_minus_1)
  show "unat (drop_bit 2 (and x 0x7C)) = unat x div 4 mod 32" using unat_field [of 2 "0x7C" 5 x] by (simp add: mask_eq_exp_minus_1)
  show "unat (and x 0x03) = unat x mod 4" using unat_field [of 0 "0x03" 2 x] by (simp add: mask_eq_exp_minus_1)
qed

fun digits_value :: "nat \<Rightarrow> nat list \<Rightarrow> nat" where
  "digits_value b [] = 0"
| "digits_value b (d # ds) = d * b ^ length ds + digits_value b ds"

lemma digits_value_less: "\<forall>d\<in>set ds. d < b \<Longrightarrow> digits_value b ds < b ^ length ds"
proof (induction ds)
  case (Cons d ds)
  then have "d + 1 \<le> b" and "digits_value b ds < b ^ length ds" by auto
  then have "d * b ^ length ds + digits_value b ds < (d + 1) * b ^ length ds" by simp
  also have "\<dots> \<le> b * b ^ length ds" using \<open>d + 1 \<le> b\<close> by (rule mult_le_mono1)
  finally show ?case by simp
qed simp

lemma digits_value_mono:
  assumes "length xs = length ys" and "\<forall>d\<in>set xs \<union> set ys. d < b"
  shows "digits_value b xs < digits_value b ys \<longleftrightarrow> xs < ys"
  using assms
proof (induction xs ys rule: list_induct2)
  case (Cons x xs y ys)
  define p where "p = b ^ length ys"
  have v: "digits_value b xs < p" "digits_value b ys < p"
    using digits_value_less [of xs b] digits_value_less [of ys b] Cons by (auto simp: p_def)
  have less: "u * p + s < w * p + t" if "u < w" "s < p" for u w s t :: nat
  proof -
    have "u * p + s < (u + 1) * p" using that by simp
    also have "\<dots> \<le> w * p" using that by (intro mult_le_mono1) simp
    finally show ?thesis by simp
  qed
  consider "x < y" | "x = y" | "y < x" by linarith
  then show ?case
  proof cases
    case 2
    then show ?thesis using Cons by simp
  next
    case 1
    then show ?thesis using less [OF 1 v(1), of "digits_value b ys"] Cons.hyps by (simp add: p_def)
  next
    case 3
    then show ?thesis using less [OF 3 v(2), of "digits_value b xs"] Cons.hyps by (simp add: p_def)
  qed
qed simp

lemma map_less_iff:
  fixes f :: "'a::linorder \<Rightarrow> 'b::linorder"
  assumes "\<forall>x\<in>set xs \<union> set ys. \<forall>y\<in>set xs \<union> set ys. f x < f y \<longleftrightarrow> x < y" and "length xs = length ys"
  shows "map f xs < map f ys \<longleftrightarrow> xs < ys"
  using assms(2,1)
proof (induction xs ys rule: list_induct2)
  case (Cons x xs y ys)
  then have "map f xs < map f ys \<longleftrightarrow> xs < ys" by simp
  moreover have "f x < f y \<longleftrightarrow> x < y" "f y < f x \<longleftrightarrow> y < x" using Cons.prems by simp_all
  moreover have "f x = f y \<longleftrightarrow> x = y" using calculation by (metis less_irrefl neq_iff)
  ultimately show ?case by simp
qed simp

text \<open>Five bytes are eight digits.\<close>

lemma regroup:
  assumes "b1 = 8 * p1 + q1" "b2 = 64 * p2 + 2 * m2 + q2" "b3 = 16 * p3 + q3" "b4 = 128 * p4 + 4 * m4 + q4" "b5 = 32 * p5 + q5"
  shows "digits_value 32 [p1, q1 * 4 + p2, m2, q2 * 16 + p3, q3 * 2 + p4, m4, q4 * 8 + p5, q5] =
         digits_value 256 [b1, b2, b3, b4, b5]"
proof -
  have eight: "digits_value 32 [a, b, c, d, e, f, g, h] = 34359738368 * a + 1073741824 * b + 33554432 * c + 1048576 * d +
      32768 * e + 1024 * f + 32 * g + h" for a b c d e f g h :: nat by simp
  have five: "digits_value 256 [a, b, c, d, e] = 4294967296 * a + 16777216 * b + 65536 * c + 256 * d + e" for a b c d e :: nat by simp
  show ?thesis unfolding eight five assms by algebra
qed

lemma five_bytes:
  fixes b1 b2 b3 b4 b5 :: nat
  shows "digits_value 32 [b1 div 8, (b1 mod 8) * 4 + b2 div 64, b2 div 2 mod 32, (b2 mod 2) * 16 + b3 div 16,
           (b3 mod 16) * 2 + b4 div 128, b4 div 4 mod 32, (b4 mod 4) * 8 + b5 div 32, b5 mod 32] =
         digits_value 256 [b1, b2, b3, b4, b5]"
proof (rule regroup)
  show "b1 = 8 * (b1 div 8) + b1 mod 8" "b3 = 16 * (b3 div 16) + b3 mod 16" "b5 = 32 * (b5 div 32) + b5 mod 32" by simp_all
  have split: "n = (k * l) * (n div (k * l)) + k * (n div k mod l) + n mod k" for n k l :: nat
    by (metis add.assoc div_mult2_eq distrib_left mult.assoc mult_div_mod_eq)
  show "b2 = 64 * (b2 div 64) + 2 * (b2 div 2 mod 32) + b2 mod 2" using split [of b2 2 32] by simp
  show "b4 = 128 * (b4 div 128) + 4 * (b4 div 4 mod 32) + b4 mod 4" using split [of b4 4 32] by simp
qed

lemma digits_value_append:
  "digits_value b (xs @ ys) = digits_value b xs * b ^ length ys + digits_value b ys"
  by (induction xs) (simp_all add: power_add algebra_simps)

definition five_digits :: "u8 \<Rightarrow> u8 \<Rightarrow> u8 \<Rightarrow> u8 \<Rightarrow> u8 \<Rightarrow> u8 list" where
  "five_digits b1 b2 b3 b4 b5 =
     [drop_bit 3 (and b1 0xF8), or (push_bit 2 (and b1 0x07)) (drop_bit 6 (and b2 0xC0)),
      drop_bit 1 (and b2 0x3E), or (push_bit 4 (and b2 0x01)) (drop_bit 4 (and b3 0xF0)),
      or (push_bit 1 (and b3 0x0F)) (drop_bit 7 (and b4 0x80)), drop_bit 2 (and b4 0x7C),
      or (push_bit 3 (and b4 0x03)) (drop_bit 5 (and b5 0xE0)), and b5 0x1F]"

lemma unat_five_digits:
  "map unat (five_digits b1 b2 b3 b4 b5) =
     [unat b1 div 8, (unat b1 mod 8) * 4 + unat b2 div 64, unat b2 div 2 mod 32, (unat b2 mod 2) * 16 + unat b3 div 16,
      (unat b3 mod 16) * 2 + unat b4 div 128, unat b4 div 4 mod 32, (unat b4 mod 4) * 8 + unat b5 div 32, unat b5 mod 32]"
proof -
  have less: "unat b < 256" for b :: u8 using unsigned_less [of b, where ?'a = nat] by simp
  have "unat (or (push_bit 2 (and b1 0x07)) (drop_bit 6 (and b2 0xC0))) = (unat b1 mod 8) * 4 + unat b2 div 64"
    by (rule joined_fields [where k = 2]) (use less [of b2] byte_parts in \<open>simp_all only:\<close>, simp_all)
  moreover have "unat (or (push_bit 4 (and b2 0x01)) (drop_bit 4 (and b3 0xF0))) = (unat b2 mod 2) * 16 + unat b3 div 16"
    by (rule joined_fields [where k = 4]) (use less [of b3] byte_parts in \<open>simp_all only:\<close>, simp_all)
  moreover have "unat (or (push_bit 1 (and b3 0x0F)) (drop_bit 7 (and b4 0x80))) = (unat b3 mod 16) * 2 + unat b4 div 128"
    by (rule joined_fields [where k = 1]) (use less [of b4] byte_parts in \<open>simp_all only:\<close>, simp_all)
  moreover have "unat (or (push_bit 3 (and b4 0x03)) (drop_bit 5 (and b5 0xE0))) = (unat b4 mod 4) * 8 + unat b5 div 32"
    by (rule joined_fields [where k = 3]) (use less [of b5] byte_parts in \<open>simp_all only:\<close>, simp_all)
  ultimately show ?thesis by (simp only: five_digits_def list.map byte_parts)
qed

lemma five_digits_value: "digits_value 32 (map unat (five_digits b1 b2 b3 b4 b5)) = digits_value 256 (map unat [b1, b2, b3, b4, b5])"
  unfolding unat_five_digits five_bytes by simp

lemma ulid_indices_split:
  "ulid_indices b = [drop_bit 5 (and (b ! 0) 0xE0), and (b ! 0) 0x1F] @
     five_digits (b ! 1) (b ! 2) (b ! 3) (b ! 4) (b ! 5) @ five_digits (b ! 6) (b ! 7) (b ! 8) (b ! 9) (b ! 10) @
     five_digits (b ! 11) (b ! 12) (b ! 13) (b ! 14) (b ! 15)"
  by (simp only: ulid_indices_def five_digits_def append.simps)

lemma ulid_indices_value:
  assumes "length b = 16"
  shows "digits_value 32 (map unat (ulid_indices b)) = digits_value 256 (map unat b)"
proof -
  have "b = map ((!) b) [0..<length b]" by (simp add: map_nth)
  also have "\<dots> = [b ! 0] @ [b ! 1, b ! 2, b ! 3, b ! 4, b ! 5] @ [b ! 6, b ! 7, b ! 8, b ! 9, b ! 10] @
      [b ! 11, b ! 12, b ! 13, b ! 14, b ! 15]" using assms by (simp add: upt_rec eval_nat_numeral)
  finally have b: "map unat b = map unat [b ! 0] @ map unat [b ! 1, b ! 2, b ! 3, b ! 4, b ! 5] @
      map unat [b ! 6, b ! 7, b ! 8, b ! 9, b ! 10] @ map unat [b ! 11, b ! 12, b ! 13, b ! 14, b ! 15]"
    by (metis map_append)
  have first: "digits_value 32 (map unat [drop_bit 5 (and x 0xE0), and x 0x1F]) = digits_value 256 (map unat [x])" for x :: u8
    by (simp only: list.map byte_parts) simp
  have len: "length (five_digits v w x y z) = 8" for v w x y z by (simp add: five_digits_def)
  show ?thesis
    unfolding ulid_indices_split map_append digits_value_append five_digits_value first length_append length_map len
    unfolding b digits_value_append by simp
qed

lemma five_digits_less:
  assumes "d \<in> set (five_digits b1 b2 b3 b4 b5)"
  shows "unat d < 32"
proof -
  have less: "unat b < 256" for b :: u8 using unsigned_less [of b, where ?'a = nat] by simp
  have "n mod 8 * 4 + m div 64 < 32" "n mod 2 * 16 + m div 16 < 32" "n mod 16 * 2 + m div 128 < 32"
      "n mod 4 * 8 + m div 32 < 32" "m div 8 < 32" if "m < 256" for n m :: nat
  proof -
    have "m div 64 < 4" "m div 16 < 16" "m div 128 < 2" "m div 32 < 8" "m div 8 < 32"
      using that by (simp_all add: div_less_iff_less_mult)
    moreover have "n mod 8 < 8" "n mod 2 < 2" "n mod 16 < 16" "n mod 4 < 4" by simp_all
    ultimately show "n mod 8 * 4 + m div 64 < 32" "n mod 2 * 16 + m div 16 < 32" "n mod 16 * 2 + m div 128 < 32"
      "n mod 4 * 8 + m div 32 < 32" "m div 8 < 32" by linarith+
  qed
  then have "\<forall>n\<in>set (map unat (five_digits b1 b2 b3 b4 b5)). n < 32"
    unfolding unat_five_digits using less by simp
  then show ?thesis using assms by simp
qed

lemma ulid_indices_less:
  assumes "d \<in> set (ulid_indices b)"
  shows "unat d < 32"
proof -
  have less: "unat x < 256" for x :: u8 using unsigned_less [of x, where ?'a = nat] by simp
  have "unat (drop_bit 5 (and x 0xE0)) < 32" "unat (and x 0x1F) < 32" for x :: u8
    using less [of x] unfolding byte_parts by auto
  then show ?thesis
    using assms five_digits_less unfolding ulid_indices_split set_append by fastforce
qed

lemma length_ulid_indices [simp]: "length (ulid_indices b) = 26"
  by (simp add: ulid_indices_def)

lemma kCrockford_ascending:
  assumes "i < 32" and "j < 32"
  shows "kCrockford ! i < kCrockford ! j \<longleftrightarrow> i < j"
proof -
  have "list_all (\<lambda>i. list_all (\<lambda>j. kCrockford ! i < kCrockford ! j \<longleftrightarrow> i < j) [0..<32]) [0..<32]" by code_simp
  then show ?thesis using assms by (simp add: list_all_iff)
qed

lemma UlidEncode_order:
  assumes "length b = 16" and "length c = 16"
  shows "UlidEncode b < UlidEncode c \<longleftrightarrow> b < c"
proof -
  have "UlidEncode b < UlidEncode c \<longleftrightarrow> map unat (ulid_indices b) < map unat (ulid_indices c)"
    unfolding UlidEncode_def
    by (subst map_less_iff [of "map unat (ulid_indices b)" "map unat (ulid_indices c)" "\<lambda>i. kCrockford ! i", symmetric])
      (auto simp: o_def kCrockford_ascending ulid_indices_less)
  also have "\<dots> \<longleftrightarrow> digits_value 32 (map unat (ulid_indices b)) < digits_value 32 (map unat (ulid_indices c))"
    by (rule digits_value_mono [symmetric]) (auto simp: ulid_indices_less)
  also have "\<dots> \<longleftrightarrow> digits_value 256 (map unat b) < digits_value 256 (map unat c)"
    using assms by (simp add: ulid_indices_value)
  also have "\<dots> \<longleftrightarrow> map unat b < map unat c"
    by (rule digits_value_mono) (use assms unsigned_less [where ?'a = nat and ?'b = 8] in auto)
  also have "\<dots> \<longleftrightarrow> b < c" using assms by (intro map_less_iff) (auto simp: word_less_nat_alt)
  finally show ?thesis .
qed

lemma getrandom_loop_length: "length out \<le> 10 \<Longrightarrow> length (getrandom_loop ns out) \<le> 10"
  by (induction ns out rule: getrandom_loop.induct) auto

lemma fallback_bytes_length: "fallback_bytes clock addr is = Some bs \<Longrightarrow> length bs = length is"
  by (induction "is" arbitrary: bs) (auto split: option.splits)

lemma time_byte: "unat (ucast (and (drop_bit n ms) 0xFF) :: u8) = unat (ms :: u64) div 2 ^ n mod 256"
proof -
  have "and (drop_bit n ms) 0xFF = take_bit 8 (drop_bit n ms)"
    by (simp add: take_bit_eq_mask mask_eq_exp_minus_1)
  moreover have "unat (ucast w :: u8) = take_bit 8 (unat w)" for w :: u64
    by (simp add: unsigned_ucast_eq)
  ultimately have "unat (ucast (and (drop_bit n ms) 0xFF) :: u8) = take_bit 8 (take_bit 8 (unat (drop_bit n ms)))"
    by (simp only: unsigned_take_bit_eq)
  also have "unat (drop_bit n ms) = unat ms div 2 ^ n"
    using unsigned_less [of ms, where ?'a = nat]
    by (simp only: unsigned_drop_bit_eq) (simp add: take_bit_nat_eq_self drop_bit_eq_div)
  finally show ?thesis by (simp add: take_bit_eq_mod)
qed

lemma time_bytes_value: "digits_value 256 (map unat (time_bytes ms)) = unat ms mod 2 ^ 48"
proof -
  have split: "n mod (p * 256) = p * (n div p mod 256) + n mod p" for n p :: nat by (rule mod_mult2_eq)
  show ?thesis
    unfolding time_bytes_def list.map time_byte
    using split [of "unat ms" "2 ^ 40"] split [of "unat ms" "2 ^ 32"] split [of "unat ms" "2 ^ 24"]
      split [of "unat ms" "2 ^ 16"] split [of "unat ms" "2 ^ 8"] split [of "unat ms" "2 ^ 0"]
    by simp
qed

lemma prefix_less: "length xs = length ys \<Longrightarrow> xs < ys \<Longrightarrow> xs @ zs < ys @ (ws :: 'a::linorder list)"
  by (induction xs ys rule: list_induct2) auto

text \<open>
  C39. Event identifiers sort by their time: of two identifiers the one made at the later millisecond is the
  greater text, byte by byte, whatever random bytes they carry, and both have 26 characters.\<close>

theorem identifiers_sort_by_time:
  assumes "ms < ms'" and "unat ms' < 2 ^ 48"
    and "GenerateUlid ms random clock addr = Some a" and "GenerateUlid ms' random' clock' addr' = Some b"
  shows "length a = 26 \<and> length b = 26 \<and> a < b"
proof -
  have bytes: "\<exists>rest. id = UlidEncode (time_bytes t @ rest) \<and> length rest = 10"
    if "GenerateUlid t r c ad = Some id" for t r c ad id
  proof -
    from that obtain more where "fallback_bytes c ad [length (getrandom_loop r []) ..< 10] = Some more"
      and "id = UlidEncode (time_bytes t @ getrandom_loop r [] @ more)"
      by (auto simp: GenerateUlid_def Let_def)
    then show ?thesis
      using fallback_bytes_length getrandom_loop_length [of "[]" r]
      by (intro exI [of _ "getrandom_loop r [] @ more"]) fastforce
  qed
  obtain r r' where a: "a = UlidEncode (time_bytes ms @ r)" "length r = 10"
    and b: "b = UlidEncode (time_bytes ms' @ r')" "length r' = 10"
    using bytes assms(3,4) by blast
  have len: "length (time_bytes t) = 6" for t by (simp add: time_bytes_def)
  have "unat ms < unat ms'" using assms(1) by (simp add: word_less_nat_alt)
  then have "digits_value 256 (map unat (time_bytes ms)) < digits_value 256 (map unat (time_bytes ms'))"
    using assms(2) by (simp add: time_bytes_value)
  then have "map unat (time_bytes ms) < map unat (time_bytes ms')"
    by (subst (asm) digits_value_mono) (use len unsigned_less [where ?'a = nat and ?'b = 8] in auto)
  then have "time_bytes ms < time_bytes ms'"
    by (subst (asm) map_less_iff) (auto simp: word_less_nat_alt len)
  then have "time_bytes ms @ r < time_bytes ms' @ r'" by (simp add: prefix_less len)
  then have "a < b" using a b UlidEncode_order [of "time_bytes ms @ r" "time_bytes ms' @ r'"] len by simp
  then show ?thesis using a b by (simp add: UlidEncode_def)
qed

theorem identifiers_sort_by_time_witness:
  "length ''0000000005041061050R3GG28A'' = 26 \<and> length ''000000009C144GJ289144GJ289'' = 26 \<and>
   ''0000000005041061050R3GG28A'' < ''000000009C144GJ289144GJ289''"
proof (rule identifiers_sort_by_time)
  show "(5 :: u64) < 300" "unat (300 :: u64) < 2 ^ 48" by simp_all
  show "GenerateUlid 5 [[1,2,3],[4,5,6,7,8,9,10,11]] (\<lambda>_. 0) 0 = Some ''0000000005041061050R3GG28A''" by code_simp
  show "GenerateUlid 300 [[9,9,9,9,9,9,9,9,9,9]] (\<lambda>_. 0) 0 = Some ''000000009C144GJ289144GJ289''" by code_simp
qed

end
