(* ===== verification/Event_Render.thy ===== *)
theory Event_Render
  imports File_Alerts Event_Layout
begin

text \<open>
  The consumer's rendering of events as JSON: \<open>render_network_event\<close>
  (\<open>src/src/baseline/monitor_network.cpp\<close>), \<open>render_privilege_event\<close> (\<open>monitor_privilege.cpp\<close>),
  \<open>render_process_exec_event\<close> (\<open>monitor_process.cpp\<close>), \<open>Enricher::enrich\<close>
  (\<open>src/src/telemetry/enricher.cpp\<close>) and the direct text of file events
  (\<open>src/src/baseline/monitor.cpp\<close>). Each also fills the index columns of the record.
\<close>

section \<open>Texts\<close>

definition comm_to_string :: "string \<Rightarrow> string" where
  "comm_to_string comm = c_str (take 16 comm)"

definition ipv4_to_string :: "u8 list \<Rightarrow> string" where
  "ipv4_to_string addr =
     dec_of_nat (unat (addr ! 0)) @ ''.'' @ dec_of_nat (unat (addr ! 1)) @ ''.'' @
     dec_of_nat (unat (addr ! 2)) @ ''.'' @ dec_of_nat (unat (addr ! 3))"

text \<open>The rest of the array stands for the index.\<close>

function qname_loop :: "string \<Rightarrow> u8 list \<Rightarrow> string" where
  "qname_loop out [] = out"
| "qname_loop out (l # bs) =
     (if l = 0 then out
      else if l > 63 \<or> unat l > length bs then []
      else qname_loop ((if out \<noteq> [] then out @ ''.'' else out) @ bytes_chars (take (unat l) bs)) (drop (unat l) bs))"
  by pat_completeness auto
termination by (relation "measure (\<lambda>(_, bs). length bs)") auto

definition dns_qname_to_string :: "u8 list \<Rightarrow> string" where
  "dns_qname_to_string qname = qname_loop [] qname"

definition exe_of :: "ProcFs \<Rightarrow> int \<Rightarrow> string" where
  "exe_of fs pid = (case fs_exe fs pid of None \<Rightarrow> [] | Some target \<Rightarrow> c_str (take 4095 target))"

definition json_u :: "'a::len word \<Rightarrow> json" where
  "json_u w = JInt (uint w)"

section \<open>Common parts\<close>

definition process_json :: "u32 \<Rightarrow> u32 \<Rightarrow> u32 \<Rightarrow> u32 \<Rightarrow> string \<Rightarrow> string \<Rightarrow> json" where
  "process_json pid ppid uid gid comm exe =
     (let proc = json_put ''comm'' (JStr (comm_to_string comm)) (json_put ''gid'' (json_u gid) (json_put ''uid'' (json_u uid)
           (json_put ''ppid'' (json_u ppid) (json_put ''pid'' (json_u pid) JNull))))
      in if exe \<noteq> [] then json_put ''exe'' (JStr exe) proc else proc)"

definition event_json :: "string \<Rightarrow> u64 \<Rightarrow> json \<Rightarrow> json" where
  "event_json kind ts proc = json_put ''process'' proc (json_put ''ts'' (json_u ts) (json_put ''event_type'' (JStr kind) JNull))"

definition with_container :: "string \<Rightarrow> json \<Rightarrow> json" where
  "with_container cid j =
     (if cid \<noteq> [] then json_put ''container'' (json_put ''container_id'' (JStr cid) JNull) j else j)"

definition set_columns :: "string \<Rightarrow> string \<Rightarrow> EventRecord \<Rightarrow> EventRecord" where
  "set_columns exe cid rec = rec\<lparr>rec_exe := record_set_str (rec_exe rec) exe,
     rec_container_id := record_set_str (rec_container_id rec) cid\<rparr>"

section \<open>Network events\<close>

definition net_kind :: "u8 \<Rightarrow> string" where
  "net_kind k =
     (if NET_EVENT_CONNECT \<le> k \<and> k \<le> NET_EVENT_DNS
      then [[], ''network.connect'', ''network.accept'', ''network.bind'', ''network.dns''] ! unat k
      else ''network.unknown'')"

definition dns_json :: "NetEvent \<Rightarrow> json" where
  "dns_json evt = json_put ''qtype'' (json_u (ne_qtype evt)) (json_put ''domain'' (JStr (dns_qname_to_string (ne_domain evt))) JNull)"

definition net_json :: "NetEvent \<Rightarrow> json" where
  "net_json evt =
     json_put ''dport'' (json_u (ne_dport evt)) (json_put ''dip'' (JStr (ipv4_to_string (ne_daddr evt)))
      (json_put ''sport'' (json_u (ne_sport evt)) (json_put ''sip'' (JStr (ipv4_to_string (ne_saddr evt)))
       (json_put ''protocol'' (json_u (ne_protocol evt)) (json_put ''family'' (json_u (ne_family evt)) JNull)))))"

definition render_network_event :: "ProcFs \<Rightarrow> NetEvent \<Rightarrow> EventRecord \<Rightarrow> json \<times> EventRecord" where
  "render_network_event fs evt rec =
     (let exe = exe_of fs (int_of_u32 (ne_pid evt));
          proc = process_json (ne_pid evt) (ne_ppid evt) (ne_uid evt) (ne_gid evt) (ne_comm evt) exe;
          j = event_json (net_kind (ne_event_kind evt)) (ne_ts_ns evt) proc;
          j = (if ne_event_kind evt = NET_EVENT_DNS then json_put ''dns'' (dns_json evt) j
               else json_put ''network'' (net_json evt) j);
          cid = container_id_of fs (int_of_u32 (ne_pid evt))
      in (with_container cid j, set_columns exe cid rec))"

section \<open>Privilege and namespace events\<close>

definition ptrace_requests :: "(u64 \<times> string) list" where
  "ptrace_requests =
     [(0, ''PTRACE_TRACEME''), (1, ''PTRACE_PEEKTEXT''), (2, ''PTRACE_PEEKDATA''), (3, ''PTRACE_PEEKUSR''),
      (4, ''PTRACE_POKETEXT''), (5, ''PTRACE_POKEDATA''), (6, ''PTRACE_POKEUSR''), (7, ''PTRACE_CONT''),
      (8, ''PTRACE_KILL''), (9, ''PTRACE_SINGLESTEP''), (12, ''PTRACE_GETREGS''), (13, ''PTRACE_SETREGS''),
      (14, ''PTRACE_GETFPREGS''), (15, ''PTRACE_SETFPREGS''), (16, ''PTRACE_ATTACH''), (17, ''PTRACE_DETACH''),
      (24, ''PTRACE_SYSCALL''), (0x4200, ''PTRACE_SEIZE''), (0x4201, ''PTRACE_INTERRUPT''),
      (0x4202, ''PTRACE_LISTEN''), (0x4203, ''PTRACE_PEEKSIGINFO'')]"

definition ptrace_request_name :: "u64 \<Rightarrow> string" where
  "ptrace_request_name request = (case map_of ptrace_requests request of Some name \<Rightarrow> name | None \<Rightarrow> [])"

definition ns_flag_names :: "(u64 \<times> string) list" where
  "ns_flag_names =
     [(0x80, ''NEWTIME''), (0x20000, ''NEWNS''), (0x2000000, ''NEWCGROUP''), (0x4000000, ''NEWUTS''),
      (0x8000000, ''NEWIPC''), (0x10000000, ''NEWUSER''), (0x20000000, ''NEWPID''), (0x40000000, ''NEWNET'')]"

function unknown_bits :: "nat \<Rightarrow> u64 \<Rightarrow> json list" where
  "unknown_bits i unknown =
     (if unknown = 0 then []
      else (if and unknown 1 \<noteq> 0 then [json_u (push_bit i 1 :: u64)] else []) @ unknown_bits (i + 1) (drop_bit 1 unknown))"
  by pat_completeness auto
termination
proof (relation "measure (\<lambda>(_, unknown). unat unknown)")
  fix i and unknown :: u64
  assume "unknown \<noteq> 0"
  then have "0 < unat unknown" by (simp add: unat_gt_0)
  moreover have "unat (drop_bit 1 unknown) = unat unknown div 2"
    by (simp add: drop_bit_Suc unat_div_distrib)
  ultimately show "((i + 1, drop_bit 1 unknown), i, unknown) \<in> measure (\<lambda>(_, unknown). unat unknown)" by simp
qed simp

declare unknown_bits.simps [simp del]

definition known_flags :: "u64 \<Rightarrow> (u64 \<times> string) list" where
  "known_flags flags = filter (\<lambda>(b, _). and flags b \<noteq> 0) ns_flag_names"

definition decode_ns_flags :: "u64 \<Rightarrow> json" where
  "decode_ns_flags flags =
     (let known = foldl or 0 (map fst (known_flags flags))
      in JArr (map (\<lambda>(_, name). JStr name) (known_flags flags) @ unknown_bits 0 (and flags (not known))))"

definition ns_type_name :: "u32 \<Rightarrow> string" where
  "ns_type_name nstype = (case map_of ns_flag_names (ucast nstype) of Some name \<Rightarrow> name | None \<Rightarrow> [])"

text \<open>\<open>fd_link pid fd\<close> is \<open>readlink\<close> of \<open>/proc/pid/fd/fd\<close>.\<close>

definition ns_fd_target :: "(int \<Rightarrow> int \<Rightarrow> string option) \<Rightarrow> int \<Rightarrow> int \<Rightarrow> string" where
  "ns_fd_target fd_link pid fd = (case fd_link pid fd of None \<Rightarrow> [] | Some target \<Rightarrow> c_str (take 255 target))"

text \<open>The members of the union.\<close>

definition u_long :: "nat \<Rightarrow> PrivEvent \<Rightarrow> u64" where "u_long off e = of_le (get_bytes off 8 (pv_u e))"
definition u_int :: "nat \<Rightarrow> PrivEvent \<Rightarrow> u32" where "u_int off e = of_le (get_bytes off 4 (pv_u e))"
definition u_text :: "nat \<Rightarrow> nat \<Rightarrow> PrivEvent \<Rightarrow> string" where "u_text off n e = c_str (bytes_chars (get_bytes off n (pv_u e)))"

definition priv_kind_name :: "u8 \<Rightarrow> string" where
  "priv_kind_name k =
     (if PRIV_KIND_SETUID \<le> k \<and> k \<le> PRIV_KIND_SETNS
      then [[], ''priv.setuid'', ''priv.setgid'', ''priv.capset'', ''priv.ptrace'', ''priv.module_load'', ''ns.mount'',
            ''ns.unshare'', ''ns.setns''] ! unat k
      else ''priv.unknown'')"

definition ns_json :: "(int \<Rightarrow> int \<Rightarrow> string option) \<Rightarrow> PrivEvent \<Rightarrow> json" where
  "ns_json fd_link evt =
     (if pv_kind evt = PRIV_KIND_MOUNT then
        json_put ''flags'' (json_u (u_long 544 evt)) (json_put ''fstype'' (JStr (u_text 512 32 evt))
          (json_put ''target'' (JStr (u_text 256 256 evt)) (json_put ''source'' (JStr (u_text 0 256 evt)) JNull)))
      else if pv_kind evt = PRIV_KIND_UNSHARE then
        json_put ''names'' (decode_ns_flags (u_long 0 evt)) (json_put ''flags'' (json_u (u_long 0 evt)) JNull)
      else if pv_kind evt = PRIV_KIND_SETNS then
        (let fd = sint (u_int 0 evt);
             ns = json_put ''nstype'' (json_u (u_int 4 evt)) (json_put ''fd'' (JInt fd) JNull);
             tn = ns_type_name (u_int 4 evt);
             ns = (if tn \<noteq> [] then json_put ''nstype_name'' (JStr tn) ns else ns);
             tgt = ns_fd_target fd_link (int_of_u32 (pv_pid evt)) fd
         in if tgt \<noteq> [] then json_put ''target_ns'' (JStr tgt) ns else ns)
      else JNull)"

definition priv_json :: "PrivEvent \<Rightarrow> json" where
  "priv_json evt =
     (if pv_kind evt = PRIV_KIND_SETUID \<or> pv_kind evt = PRIV_KIND_SETGID then
        json_put ''target_id'' (json_u (u_int 0 evt)) JNull
      else if pv_kind evt = PRIV_KIND_CAPSET then json_put ''effective_lo'' (json_u (u_int 0 evt)) JNull
      else if pv_kind evt = PRIV_KIND_PTRACE then
        (let req = ptrace_request_name (u_long 0 evt)
         in json_put ''request_value'' (json_u (u_long 0 evt))
              (json_put ''request'' (JStr (if req \<noteq> [] then req else ''PTRACE_UNKNOWN''))
                 (json_put ''target_pid'' (json_u (u_int 8 evt)) JNull)))
      else if pv_kind evt = PRIV_KIND_MODULE_LOAD then json_put ''name'' (JStr (u_text 0 64 evt)) JNull
      else JNull)"

definition render_privilege_event ::
  "ProcFs \<Rightarrow> (int \<Rightarrow> int \<Rightarrow> string option) \<Rightarrow> PrivEvent \<Rightarrow> EventRecord \<Rightarrow> json \<times> EventRecord" where
  "render_privilege_event fs fd_link evt rec =
     (let exe = exe_of fs (int_of_u32 (pv_pid evt));
          proc = process_json (pv_pid evt) (pv_ppid evt) (pv_uid evt) (pv_gid evt) (pv_comm evt) exe;
          j = event_json (priv_kind_name (pv_kind evt)) (pv_ts_ns evt) proc;
          j = (if pv_kind evt \<ge> PRIV_KIND_MOUNT then json_put ''ns'' (ns_json fd_link evt) j
               else json_put ''priv'' (priv_json evt) j);
          cid = container_id_of fs (int_of_u32 (pv_pid evt))
      in (with_container cid j, set_columns exe cid rec))"

section \<open>Executions and ancestors\<close>

definition render_process_exec_event :: "ProcFs \<Rightarrow> proc_event \<Rightarrow> EventRecord \<Rightarrow> json \<times> EventRecord" where
  "render_process_exec_event fs evt rec =
     (let link = exe_path_of fs (int_of_u32 (pe_pid evt));
          exe = (if link = [] then c_str (pe_exe evt) else link);
          proc = process_json (pe_pid evt) (pe_ppid evt) (pe_uid evt) (pe_gid evt) (pe_comm evt) exe
      in (event_json ''process.exec'' (pe_ts_ns evt) proc, rec\<lparr>rec_exe := record_set_str (rec_exe rec) exe\<rparr>))"

definition ancestor_json :: "Ancestor \<Rightarrow> json" where
  "ancestor_json a = json_put ''exe'' (JStr (anc_exe a)) (json_put ''comm'' (JStr (anc_comm a)) (json_put ''pid'' (json_u (anc_pid a)) JNull))"

definition ancestors_json :: "Ancestor list \<Rightarrow> json" where
  "ancestors_json as = JArr (map ancestor_json as)"

definition enrich :: "ProcessTree \<Rightarrow> EventRecord \<Rightarrow> json \<Rightarrow> json" where
  "enrich t rec j =
     (let proc = (case json_get ''process'' j of Some p \<Rightarrow> (if is_object p then p else JObj []) | None \<Rightarrow> JObj [])
      in json_put ''process'' (json_put ''ancestors'' (ancestors_json (ancestors_of t (rec_pid rec) (rec_ppid rec))) proc) j)"

section \<open>File events\<close>

definition file_event_kind :: "FileEvent \<Rightarrow> string" where
  "file_event_kind e =
     (if FileEvent.ev_event_type e = EVENT_CHMOD then ''file.chmod''
      else if FileEvent.ev_event_type e = EVENT_CHOWN then ''file.chown''
      else if FileEvent.ev_event_type e = EVENT_UNLINK then ''file.unlink''
      else if FileEvent.ev_event_type e = EVENT_RENAME then ''file.rename''
      else if FileEvent.ev_event_type e = EVENT_MMAP then ''file.mmap''
      else if has_mask e EVENT_WRITE then ''file.write''
      else if has_mask e EVENT_READ then ''file.read''
      else ''file.access'')"

definition file_event_path :: "Monitor \<Rightarrow> FileEvent \<Rightarrow> string" where
  "file_event_path st e =
     (case map_of (mo_baselines st) (ev_ino e) of
        Some baseline \<Rightarrow> en_file_path baseline
      | None \<Rightarrow>
          (case map_of (inode_to_path (mo_rules st)) (ev_ino e) of
             Some p \<Rightarrow> p
           | None \<Rightarrow> c_str (ev_path e)))"

text \<open>\<open>static_cast<Action>\<close> of the number of an event: the values of the enumeration are those of the
  kernel's actions, every other number takes the default branch of \<open>actionToString\<close>.\<close>

definition action_of :: "u8 \<Rightarrow> Action" where
  "action_of a =
     (if a = ACTION_LOG then ACT_LOG else if a = ACTION_ALERT then ACT_ALERT else if a = ACTION_THROTTLE then ACT_THROTTLE
      else if a = ACTION_BLOCK then ACT_BLOCK else if a = ACTION_KILL then ACT_KILL else ACT_UNKNOWN)"

definition key :: "string \<Rightarrow> string" where
  "key k = [CHR 0x22] @ k @ [CHR 0x22] @ '':''"

definition set_file_columns :: "FileEvent \<Rightarrow> FileActorContext option \<Rightarrow> EventRecord \<Rightarrow> EventRecord" where
  "set_file_columns e actor rec =
     (case actor of
        None \<Rightarrow> rec\<lparr>rec_uid := ev_uid e, rec_ppid := 0\<rparr>
      | Some a \<Rightarrow> set_columns (fa_exe a) (fa_container_id a) (rec\<lparr>rec_uid := fa_uid a, rec_ppid := fa_ppid a\<rparr>))"

text \<open>The text of the ancestors; \<open>None\<close> is the exception of \<open>dump\<close>.\<close>

definition ancestors_text :: "FileActorContext option \<Rightarrow> ProcessTree \<Rightarrow> EventRecord \<Rightarrow> string option" where
  "ancestors_text actor t rec =
     (case actor of
        Some a \<Rightarrow> Some (if fa_ancestors_json a = [] then ''[]'' else fa_ancestors_json a)
      | None \<Rightarrow> dump (ancestors_json (ancestors_of t (rec_pid rec) (rec_ppid rec))))"

definition render_file_payload ::
  "Monitor \<Rightarrow> ProcessTree \<Rightarrow> FileEvent \<Rightarrow> FileActorContext option \<Rightarrow> EventRecord \<Rightarrow> (string \<times> EventRecord) option" where
  "render_file_payload st t e actor rec =
     (case ancestors_text actor t rec of
        None \<Rightarrow> None
      | Some anc \<Rightarrow>
         (let cid = (case actor of Some a \<Rightarrow> fa_container_id a | None \<Rightarrow> []);
              exe = (case actor of Some a \<Rightarrow> fa_exe a | None \<Rightarrow> []);
              out = ''{'';
              out = (if cid \<noteq> []
                     then append_json_string (out @ key ''container'' @ ''{'' @ key ''container_id'') cid @ ''},'' else out);
              out = append_json_string (out @ key ''event_type'') (file_event_kind e);
              out = append_json_string (out @ '','' @ key ''file'' @ ''{'' @ key ''action'') (actionToString (action_of (ev_action e)));
              out = append_u64 (out @ '','' @ key ''ino'') (ev_ino e);
              out = append_u64 (out @ '','' @ key ''mask'') (scast (ev_mask e));
              out = (if FileEvent.ev_event_type e = EVENT_CHOWN
                     then append_u64 (out @ '','' @ key ''new_gid'') (ucast (ev_new_gid e)) else out);
              out = (if FileEvent.ev_event_type e = EVENT_CHMOD
                     then append_json_string (out @ '','' @ key ''new_mode'') (mode_to_string (and (ev_new_mode e) 0x1FF)) else out);
              out = (if FileEvent.ev_event_type e = EVENT_CHOWN
                     then append_u64 (out @ '','' @ key ''new_uid'') (ucast (ev_new_uid e)) else out);
              out = append_json_string (out @ '','' @ key ''path'') (file_event_path st e);
              out = out @ ''},'' @ key ''process'' @ ''{'' @ key ''ancestors'' @ anc;
              out = append_json_string (out @ '','' @ key ''comm'') (c_str (FileEvent.ev_comm e));
              out = (if exe \<noteq> [] then append_json_string (out @ '','' @ key ''exe'') exe else out);
              out = append_u64 (out @ '','' @ key ''gid'') (ucast (case actor of Some a \<Rightarrow> fa_gid a | None \<Rightarrow> FileEvent.ev_gid e));
              out = append_u64 (out @ '','' @ key ''pid'') (ucast (FileEvent.ev_pid e));
              out = (case actor of
                       Some a \<Rightarrow> (if fa_ppid a > 0 then append_u64 (out @ '','' @ key ''ppid'') (ucast (fa_ppid a)) else out)
                     | None \<Rightarrow> out);
              out = append_u64 (out @ '','' @ key ''uid'') (ucast (case actor of Some a \<Rightarrow> fa_uid a | None \<Rightarrow> FileEvent.ev_uid e));
              out = append_u64 (out @ ''},'' @ key ''ts'') (ts_ns rec) @ ''}''
          in Some (out, set_file_columns e actor rec)))"

end
