(* ===== verification/Consumer.thy ===== *)
theory Consumer
  imports Event_Store Event_Render Rule_Engine
begin

text \<open>
  The consumer thread of \<open>src/src/baseline/monitor.cpp\<close>: the process context of file events, the rules
  of the engine and their alerts, \<open>route_event\<close>, and the loop that takes the high queue before the low
  one and does the periodic work. \<open>None\<close> is an exception: nothing catches it in the thread, so the
  process ends. Of the log, the lines that hold an event are kept. Every answer of the outside
  world is an argument.
\<close>

section \<open>State\<close>

text \<open>\<open>tl_names\<close> is the cache of user names, \<open>tl_chains\<close> the one of ancestor chains with their text.\<close>

record Telemetry =
  tl_bus :: EventBus
  tl_tree :: ProcessTree
  tl_engine :: RuleEngine
  tl_mon :: Monitor
  tl_store :: "EventStore option"
  tl_proc_tree_on :: bool
  tl_names :: "(u32 \<times> string) list"
  tl_chains :: "((u32 \<times> u64) \<times> (json \<times> string)) list"
  tl_log :: "string list"

record RouteAnswers =
  ro_now :: u64
  ro_passwd :: "int \<Rightarrow> string option"
  ro_event :: EventAnswers
  ro_user_fs :: ProcFs
  ro_tree_fs :: ProcFs
  ro_tree_now :: u64
  ro_render_fs :: ProcFs
  ro_fd_link :: "int \<Rightarrow> int \<Rightarrow> string option"
  ro_dsl_now :: int
  ro_dsl_world :: World
  ro_ulid :: string
  ro_flush :: FlushAnswers

section \<open>Process context of file events\<close>

definition cached_user_name :: "(int \<Rightarrow> string option) \<Rightarrow> u32 \<Rightarrow> (u32 \<times> string) list \<Rightarrow> string \<times> (u32 \<times> string) list" where
  "cached_user_name passwd uid cache =
     (case map_of cache uid of
        Some name \<Rightarrow> (name, cache)
      | None \<Rightarrow>
          (let name = (case passwd (uint uid) of Some n \<Rightarrow> n | None \<Rightarrow> [])
           in (name, (uid, name) # cache)))"

definition chain_of :: "ProcessTree \<Rightarrow> u32 \<Rightarrow> u32 \<Rightarrow> (json \<times> string) option" where
  "chain_of t pid ppid =
     (let anc = ancestors_of t pid ppid
      in if anc = [] then Some (ancestors_json anc, [])
         else map_option (\<lambda>s. (ancestors_json anc, s)) (dump (ancestors_json anc)))"

definition cached_ancestors_of ::
  "ProcessTree \<Rightarrow> u32 \<Rightarrow> u64 \<Rightarrow> u32 \<Rightarrow> ((u32 \<times> u64) \<times> (json \<times> string)) list \<Rightarrow>
     ((json \<times> string) \<times> ((u32 \<times> u64) \<times> (json \<times> string)) list) option" where
  "cached_ancestors_of t pid start_time ppid cache =
     (if start_time = 0 then map_option (\<lambda>c. (c, cache)) (chain_of t pid ppid)
      else (case map_of cache (pid, start_time) of
              Some c \<Rightarrow> Some (c, cache)
            | None \<Rightarrow>
                (let cache = (if length cache \<ge> 4096 then [] else cache)
                 in map_option (\<lambda>c. (c, ((pid, start_time), c) # cache)) (chain_of t pid ppid))))"

definition build_file_actor :: "RouteAnswers \<Rightarrow> FileEvent \<Rightarrow> Telemetry \<Rightarrow> (FileActorContext \<times> Telemetry) option" where
  "build_file_actor ro e rt =
     (let node = find_version (tl_tree rt) (FileEvent.ev_pid e) (ev_start_time e);
          uid = (case node of Some n \<Rightarrow> node_uid n | None \<Rightarrow> FileEvent.ev_uid e);
          (name, names) = cached_user_name (ro_passwd ro) uid (tl_names rt);
          ppid = (case node of Some n \<Rightarrow> node_ppid n | None \<Rightarrow> 0);
          actor = (case node of
             Some n \<Rightarrow> empty_actor\<lparr>fa_uid := node_uid n, fa_gid := node_gid n, fa_ppid := node_ppid n,
               fa_exe := c_str (node_exe n), fa_container_id := c_str (node_container_id n), fa_user_name := name, fa_valid := True\<rparr>
           | None \<Rightarrow> empty_actor\<lparr>fa_uid := FileEvent.ev_uid e, fa_gid := FileEvent.ev_gid e, fa_user_name := name\<rparr>)
      in case cached_ancestors_of (tl_tree rt) (FileEvent.ev_pid e) (ev_start_time e) ppid (tl_chains rt) of
           None \<Rightarrow> None
         | Some ((anc, txt), chain_cache) \<Rightarrow>
             Some (actor\<lparr>fa_ancestors := (if anc = JArr [] then None else Some anc), fa_ancestors_json := txt\<rparr>,
               rt\<lparr>tl_names := names, tl_chains := chain_cache\<rparr>))"

section \<open>Rules of the engine\<close>

definition to_lower :: "char \<Rightarrow> char" where
  "to_lower c = (if c_isupper c then char_of (char_code c + 32) else c)"

text \<open>The loop over the characters: the text so far and whether the last character was folded.\<close>

fun slug_loop :: "string \<Rightarrow> bool \<Rightarrow> string \<Rightarrow> string" where
  "slug_loop out last_us [] = out"
| "slug_loop out last_us (c # cs) =
     (if c_isalnum c then slug_loop (out @ [to_lower c]) False cs
      else if \<not> last_us then slug_loop (out @ ''_'') True cs
      else slug_loop out last_us cs)"

definition dsl_rule_id :: "string \<Rightarrow> string" where
  "dsl_rule_id name = rev (dropWhile (\<lambda>c. c = CHR ''_'') (rev (slug_loop ''dsl.'' False name)))"

definition json_string :: "json option \<Rightarrow> string option" where
  "json_string v = (case v of Some (JStr s) \<Rightarrow> Some s | _ \<Rightarrow> None)"

definition ancestor_view :: "json \<Rightarrow> AncestorView" where
  "ancestor_view a =
     \<lparr>av_pid = (case json_get ''pid'' a of Some (JInt n) \<Rightarrow> n | _ \<Rightarrow> 0),
      av_comm = (case json_string (json_get ''comm'' a) of Some s \<Rightarrow> s | None \<Rightarrow> []),
      av_exe = (case json_string (json_get ''exe'' a) of Some s \<Rightarrow> s | None \<Rightarrow> [])\<rparr>"

definition fill_ancestors_view :: "json \<Rightarrow> AncestorView list" where
  "fill_ancestors_view anc = (case anc of JArr xs \<Rightarrow> map ancestor_view xs | _ \<Rightarrow> [])"

definition attack_text :: "string list \<Rightarrow> string" where
  "attack_text attack = join_with '','' attack"

definition dsl_alert :: "World \<Rightarrow> Rule \<Rightarrow> string \<Rightarrow> EventView \<Rightarrow> string \<Rightarrow> string \<Rightarrow> string \<Rightarrow> AlertEvent" where
  "dsl_alert w rule out view file_path user_name ancestors =
     empty_alert\<lparr>ae_rule_id := dsl_rule_id (rule_name rule), ae_rule_name := rule_name rule, ae_severity := rule_priority rule,
       ae_file_path := file_path, ae_actual := out, ae_process_name := EventView.ev_comm view,
       ae_pid := sint (word_of_int (EventView.ev_pid view) :: u32), ae_user_name := user_name,
       ae_uid := dec_of_int (EventView.ev_uid view), ae_timestamp := w_now_string w,
       ae_event_type := EventView.ev_event_type view, ae_action_taken := ''alert'', ae_exe := ev_exe view,
       ae_container_id := ev_container_id view, ae_ancestors := ancestors, ae_attack := attack_text (rule_attack rule)\<rparr>"

definition send_dsl_alert ::
  "int \<Rightarrow> World \<Rightarrow> Rule \<Rightarrow> string \<Rightarrow> EventView \<Rightarrow> string \<Rightarrow> string \<Rightarrow> string \<Rightarrow> AlertManager \<Rightarrow> AlertManager" where
  "send_dsl_alert now w rule out view file_path user_name ancestors m =
     (let rule_id = dsl_rule_id (rule_name rule)
      in if ThrottledNow rule_id now m then NoteThrottled rule_id m
         else snd (SendDingTalk w (dsl_alert w rule out view file_path user_name ancestors) m))"

definition file_view :: "Monitor \<Rightarrow> FileEvent \<Rightarrow> FileActorContext option \<Rightarrow> EventView" where
  "file_view st fe actor =
     empty_view\<lparr>EventView.ev_event_type := file_event_kind fe, EventView.ev_pid := uint (FileEvent.ev_pid fe),
       ev_ppid := (case actor of Some a \<Rightarrow> uint (fa_ppid a) | None \<Rightarrow> 0),
       EventView.ev_uid := uint (case actor of Some a \<Rightarrow> fa_uid a | None \<Rightarrow> FileEvent.ev_uid fe),
       EventView.ev_gid := uint (case actor of Some a \<Rightarrow> fa_gid a | None \<Rightarrow> FileEvent.ev_gid fe),
       EventView.ev_comm := c_str (FileEvent.ev_comm fe),
       ev_exe := (case actor of Some a \<Rightarrow> fa_exe a | None \<Rightarrow> []),
       ev_container_id := (case actor of Some a \<Rightarrow> fa_container_id a | None \<Rightarrow> []),
       ev_has_file := True, ev_file_path := file_event_path st fe, ev_file_action := actionToString (action_of (ev_action fe)),
       ev_file_new_mode := (if FileEvent.ev_event_type fe = EVENT_CHMOD then mode_to_string (and (ev_new_mode fe) 0x1FF) else []),
       ev_file_ino := sint (ev_ino fe), ev_file_mask := sint (ev_mask fe), ev_file_new_uid := uint (ev_new_uid fe),
       ev_file_new_gid := uint (ev_new_gid fe),
       ev_ancestors := (case actor of Some a \<Rightarrow> (case fa_ancestors a of Some anc \<Rightarrow> fill_ancestors_view anc | None \<Rightarrow> []) | None \<Rightarrow> [])\<rparr>"

definition eval_rules_on_file_event :: "RouteAnswers \<Rightarrow> FileEvent \<Rightarrow> FileActorContext option \<Rightarrow> Telemetry \<Rightarrow> Telemetry" where
  "eval_rules_on_file_event ro fe actor rt =
     (if engine_rules (tl_engine rt) = [] then rt
      else (let view = file_view (tl_mon rt) fe actor
            in case Evaluate (tl_engine rt) view of
                 None \<Rightarrow> rt
               | Some (rule, out) \<Rightarrow>
                   (let user_name = (case actor of Some a \<Rightarrow> fa_user_name a
                          | None \<Rightarrow> fst (ResolveUserInfoByPid (ro_user_fs ro) (ro_passwd ro) (int_of_u32 (FileEvent.ev_pid fe))));
                        anc = (case actor of Some a \<Rightarrow> fa_ancestors_json a | None \<Rightarrow> [])
                    in rt\<lparr>tl_mon := (tl_mon rt)\<lparr>mo_alerts := send_dsl_alert (ro_dsl_now ro) (ro_dsl_world ro) rule out view
                         (file_event_path (tl_mon rt) fe) user_name anc (mo_alerts (tl_mon rt))\<rparr>\<rparr>)))"

definition exec_view :: "proc_event \<Rightarrow> ProcNode option \<Rightarrow> json \<Rightarrow> EventView" where
  "exec_view pe node anc =
     (let exe = (case node of Some n \<Rightarrow> c_str (node_exe n) | None \<Rightarrow> [])
      in empty_view\<lparr>EventView.ev_event_type := ''process.exec'', EventView.ev_pid := uint (pe_pid pe), ev_ppid := uint (pe_ppid pe),
        EventView.ev_uid := uint (case node of Some n \<Rightarrow> node_uid n | None \<Rightarrow> pe_uid pe), EventView.ev_gid := uint (pe_gid pe),
        EventView.ev_comm := c_str (pe_comm pe), ev_exe := (if exe = [] then c_str (pe_exe pe) else exe),
        ev_container_id := (case node of Some n \<Rightarrow> c_str (node_container_id n) | None \<Rightarrow> []),
        ev_ancestors := fill_ancestors_view anc\<rparr>)"

definition eval_rules_on_exec_event :: "RouteAnswers \<Rightarrow> proc_event \<Rightarrow> Telemetry \<Rightarrow> Telemetry option" where
  "eval_rules_on_exec_event ro pe rt =
     (if engine_rules (tl_engine rt) = [] then Some rt
      else (let node = find_version (tl_tree rt) (pe_pid pe) (pe_start_time pe);
                uid = (case node of Some n \<Rightarrow> node_uid n | None \<Rightarrow> pe_uid pe);
                anc = ancestors_of (tl_tree rt) (pe_pid pe) (pe_ppid pe);
                view = exec_view pe node (ancestors_json anc)
            in case Evaluate (tl_engine rt) view of
                 None \<Rightarrow> Some rt
               | Some (rule, out) \<Rightarrow>
                   (let (name, names) = cached_user_name (ro_passwd ro) uid (tl_names rt)
                    in case (if anc = [] then Some [] else dump (ancestors_json anc)) of
                         None \<Rightarrow> None
                       | Some txt \<Rightarrow>
                           Some (rt\<lparr>tl_names := names, tl_mon := (tl_mon rt)\<lparr>mo_alerts :=
                             send_dsl_alert (ro_dsl_now ro) (ro_dsl_world ro) rule out view (ev_exe view) name txt
                               (mo_alerts (tl_mon rt))\<rparr>\<rparr>))))"

section \<open>Routing\<close>

definition store_append :: "RouteAnswers \<Rightarrow> EventRecord \<Rightarrow> string \<Rightarrow> Telemetry \<Rightarrow> Telemetry" where
  "store_append ro rec payload rt = rt\<lparr>tl_store := map_option (Append (ro_ulid ro) (ro_flush ro) rec payload) (tl_store rt)\<rparr>"

definition dequeued :: "RouteAnswers \<Rightarrow> EventRecord \<Rightarrow> Telemetry \<Rightarrow> Telemetry" where
  "dequeued ro rec rt =
     (if ro_now ro \<ge> enqueue_ts_ns rec
      then rt\<lparr>tl_bus := record_queue_latency (ro_now ro - enqueue_ts_ns rec) (tl_bus rt)\<rparr> else rt)"

definition normal_action :: "FileEvent \<Rightarrow> EventRecord \<Rightarrow> EventRecord" where
  "normal_action fe rec =
     (if FileEvent.ev_event_type fe = 0
      then rec\<lparr>rec_action := (if has_mask fe EVENT_WRITE then EVENT_WRITE else EVENT_READ)\<rparr> else rec)"

definition route_file :: "RouteAnswers \<Rightarrow> EventRecord \<Rightarrow> Telemetry \<Rightarrow> Telemetry option" where
  "route_file ro rec rt =
     (let fe = file_event_of (chars_bytes (payload_raw rec))
      in case (if tl_proc_tree_on rt then map_option (\<lambda>(a, rt). (Some a, rt)) (build_file_actor ro fe rt) else Some (None, rt)) of
           None \<Rightarrow> None
         | Some (actor, rt) \<Rightarrow>
             (let rt = rt\<lparr>tl_mon := process_event_core (ro_event ro) fe actor (tl_mon rt)\<rparr>;
                  rt = eval_rules_on_file_event ro fe actor rt
              in if tl_store rt = None then Some rt
                 else (case render_file_payload (tl_mon rt) (tl_tree rt) fe actor (normal_action fe rec) of
                         None \<Rightarrow> None
                       | Some (payload, rec) \<Rightarrow> Some (store_append ro rec payload rt))))"

definition route_process :: "RouteAnswers \<Rightarrow> EventRecord \<Rightarrow> Telemetry \<Rightarrow> Telemetry option" where
  "route_process ro rec rt =
     (let pe = proc_event_of (chars_bytes (payload_raw rec));
          rt = rt\<lparr>tl_tree := apply_event (ro_tree_fs ro) (ro_tree_now ro) pe (tl_tree rt)\<rparr>
      in if pe_kind pe \<noteq> PROC_KIND_EXEC then Some rt
         else (case eval_rules_on_exec_event ro pe rt of
                 None \<Rightarrow> None
               | Some rt \<Rightarrow>
                   (if tl_store rt = None then Some rt
                    else (let (j, rec) = render_process_exec_event (ro_render_fs ro) pe rec
                          in case dump (enrich (tl_tree rt) rec j) of
                               None \<Rightarrow> None
                             | Some payload \<Rightarrow> Some (store_append ro rec payload rt)))))"

text \<open>The common end of the network and the privilege branch.\<close>

definition log_and_store :: "RouteAnswers \<Rightarrow> json \<Rightarrow> EventRecord \<Rightarrow> Telemetry \<Rightarrow> Telemetry option" where
  "log_and_store ro j rec rt =
     (case dump j of
        None \<Rightarrow> None
      | Some line \<Rightarrow>
          (let rt = rt\<lparr>tl_log := tl_log rt @ [line]\<rparr>
           in if tl_store rt = None then Some rt
              else (case dump (enrich (tl_tree rt) rec j) of
                      None \<Rightarrow> None
                    | Some payload \<Rightarrow> Some (store_append ro rec payload rt))))"

definition route_network :: "RouteAnswers \<Rightarrow> EventRecord \<Rightarrow> Telemetry \<Rightarrow> Telemetry option" where
  "route_network ro rec rt =
     (let (j, rec) = render_network_event (ro_render_fs ro) (net_event_of (chars_bytes (payload_raw rec))) rec
      in log_and_store ro j rec rt)"

definition route_privilege :: "RouteAnswers \<Rightarrow> EventRecord \<Rightarrow> Telemetry \<Rightarrow> Telemetry option" where
  "route_privilege ro rec rt =
     (let (j, rec) = render_privilege_event (ro_render_fs ro) (ro_fd_link ro) (priv_event_of (chars_bytes (payload_raw rec))) rec
      in log_and_store ro j rec rt)"

definition route_event :: "RouteAnswers \<Rightarrow> EventRecord \<Rightarrow> Telemetry \<Rightarrow> Telemetry option" where
  "route_event ro rec rt =
     (let rt = dequeued ro rec rt; c = rec_category rec
      in if c = CAT_FILE then route_file ro rec rt
         else if c = CAT_PROCESS then route_process ro rec rt
         else if c = CAT_NETWORK \<or> c = CAT_DNS then route_network ro rec rt
         else if c = CAT_PRIV \<or> c = CAT_NS then route_privilege ro rec rt
         else Some rt)"

end
