(* ===== verification/Consumer_Loop.thy ===== *)
theory Consumer_Loop
  imports Consumer
begin

text \<open>
  The loop of the consumer thread (\<open>telemetry_consumer_main\<close> in \<open>src/src/baseline/monitor.cpp\<close>) as a
  machine that takes one step per pop and one for the periodic work, so that producers can push
  between any two steps. \<open>None\<close> is the end of the process by an exception. Log lines and
  \<open>malloc_trim\<close> are left out; sleeping has no effect but the doubled back-off.
\<close>

datatype Phase = LoopHead | DrainHi | DrainLo | Housekeeping | FinalHi | FinalLo | Stopped

record Consumer =
  cn_phase :: Phase
  cn_did_work :: bool
  cn_idle_backoff_ns :: int
  cn_last_stats :: u64
  cn_last_drop :: u64
  cn_last_sweep :: u64
  cn_last_retention :: u64
  cn_last_wl_stats :: u64
  cn_last_drop_total :: u64
  cn_user_stats :: "u64 list"
  cn_rt :: Telemetry

text \<open>What is answered in one step: the flag \<open>running\<close>, what routing asks, the clock of \<open>FlushIfDue\<close> and
  its database, the monotonic clock, the clock of the sweep and the database of the alerts.\<close>

record StepAnswers =
  sa_running :: bool
  sa_route :: RouteAnswers
  sa_due_ms :: int
  sa_flush :: FlushAnswers
  sa_now :: u64
  sa_sweep_ms :: u64
  sa_db :: Database

definition start_consumer :: "ProcFs \<Rightarrow> int list \<Rightarrow> u64 \<Rightarrow> Telemetry \<Rightarrow> Consumer" where
  "start_consumer fs pids now rt =
     \<lparr>cn_phase = LoopHead, cn_did_work = False, cn_idle_backoff_ns = 200000, cn_last_stats = now, cn_last_drop = now,
      cn_last_sweep = now, cn_last_retention = now, cn_last_wl_stats = now,
      cn_last_drop_total = drop_count_total (tl_bus rt), cn_user_stats = [],
      cn_rt = rt\<lparr>tl_tree := bootstrap fs pids (tl_tree rt)\<rparr>\<rparr>"

section \<open>Counters\<close>

definition USTAT_BATCH_OVERFLOW :: nat where "USTAT_BATCH_OVERFLOW = 8"
definition USTAT_STORE_FAILED :: nat where "USTAT_STORE_FAILED = 9"
definition USTAT_BUS_PUSHED :: nat where "USTAT_BUS_PUSHED = 10"
definition USTAT_STORE_STORED :: nat where "USTAT_STORE_STORED = 11"
definition USTAT_BUS_HI_DEPTH :: nat where "USTAT_BUS_HI_DEPTH = 12"
definition USTAT_BUS_LO_DEPTH :: nat where "USTAT_BUS_LO_DEPTH = 13"
definition USER_STATS_SLOTS :: nat where "USER_STATS_SLOTS = 16"

lemmas ustat_defs = USTAT_BATCH_OVERFLOW_def USTAT_STORE_FAILED_def USTAT_BUS_PUSHED_def USTAT_STORE_STORED_def
  USTAT_BUS_HI_DEPTH_def USTAT_BUS_LO_DEPTH_def USER_STATS_SLOTS_def

text \<open>The contents of the map; \<open>dropped\<close> is the overflow count of the monitor context.\<close>

definition sync_user_stats :: "EventBus option \<Rightarrow> EventStore option \<Rightarrow> u64 option \<Rightarrow> u64 list" where
  "sync_user_stats bus store dropped =
     (let vals = replicate USER_STATS_SLOTS 0;
          vals = (case bus of None \<Rightarrow> vals
            | Some b \<Rightarrow> [drop_count b True 0, drop_count b True 1, drop_count b True 2, drop_count b True 3,
                drop_count b False 0, drop_count b False 1, drop_count b False 2, drop_count b False 3] @ drop 8 vals);
          vals = (case bus of None \<Rightarrow> vals
            | Some b \<Rightarrow> vals[USTAT_BUS_PUSHED := bus_pushed b, USTAT_BUS_HI_DEPTH := depth (bus_hi b),
                USTAT_BUS_LO_DEPTH := depth (bus_lo b)]);
          vals = (case dropped of None \<Rightarrow> vals | Some n \<Rightarrow> vals[USTAT_BATCH_OVERFLOW := n])
      in (case store of None \<Rightarrow> vals
          | Some s \<Rightarrow> vals[USTAT_STORE_FAILED := es_failed s, USTAT_STORE_STORED := es_stored s]))"

section \<open>Periodic work\<close>

definition on_store :: "(EventStore \<Rightarrow> EventStore) \<Rightarrow> Telemetry \<Rightarrow> Telemetry" where
  "on_store f rt = rt\<lparr>tl_store := map_option f (tl_store rt)\<rparr>"

definition report_drops :: "u64 \<Rightarrow> Consumer \<Rightarrow> Consumer" where
  "report_drops now c =
     (if now - cn_last_drop c \<ge> 30000000000
      then (let total = drop_count_total (tl_bus (cn_rt c))
            in c\<lparr>cn_last_drop_total := (if total > cn_last_drop_total c then total else cn_last_drop_total c),
                 cn_last_drop := now\<rparr>)
      else c)"

definition reset_suppressed :: "u64 \<Rightarrow> Consumer \<Rightarrow> Consumer" where
  "reset_suppressed now c =
     (if now - cn_last_wl_stats c \<ge> 60000000000
      then (let rt = cn_rt c; st = tl_mon rt
            in c\<lparr>cn_rt := rt\<lparr>tl_mon := st\<lparr>mo_matcher := snd (get_and_reset_suppressed (mo_matcher st))\<rparr>\<rparr>, cn_last_wl_stats := now\<rparr>)
      else c)"

definition sweep_tree :: "u64 \<Rightarrow> u64 \<Rightarrow> Consumer \<Rightarrow> Consumer" where
  "sweep_tree now now_ms c =
     (if now - cn_last_sweep c \<ge> 60000000000
      then (let rt = cn_rt c
            in c\<lparr>cn_rt := rt\<lparr>tl_tree := sweep_tombstones now_ms (tl_tree rt)\<rparr>, cn_last_sweep := now\<rparr>)
      else c)"

definition retain_alerts :: "u64 \<Rightarrow> Database \<Rightarrow> Consumer \<Rightarrow> Consumer" where
  "retain_alerts now db c =
     (if now - cn_last_retention c \<ge> 3600000000000
      then (let rt = cn_rt c; st = tl_mon rt
            in c\<lparr>cn_rt := rt\<lparr>tl_mon := st\<lparr>mo_alerts := snd (RunRetention db (mo_alerts st))\<rparr>\<rparr>, cn_last_retention := now\<rparr>)
      else c)"

definition idle_backoff :: "Consumer \<Rightarrow> Consumer" where
  "idle_backoff c =
     (if \<not> cn_did_work c \<and> cn_idle_backoff_ns c < 2000000
      then c\<lparr>cn_idle_backoff_ns := cn_idle_backoff_ns c * 2\<rparr> else c)"

definition housekeeping :: "StepAnswers \<Rightarrow> Consumer \<Rightarrow> Consumer" where
  "housekeeping sa c =
     (let c = (if cn_did_work c then c\<lparr>cn_idle_backoff_ns := 200000\<rparr> else c);
          c = c\<lparr>cn_rt := on_store (FlushIfDue (sa_due_ms sa) (sa_flush sa)) (cn_rt c)\<rparr>;
          now = sa_now sa;
          c = (if now - cn_last_stats c \<ge> 60000000000 then c\<lparr>cn_last_stats := now\<rparr> else c);
          c = reset_suppressed now c;
          c = report_drops now c;
          c = sweep_tree now (sa_sweep_ms sa) c;
          c = retain_alerts now (sa_db sa) c
      in (idle_backoff c)\<lparr>cn_phase := LoopHead\<rparr>)"

section \<open>Steps\<close>

text \<open>One pop of a loop \<open>while (try_pop(rec)) route_event(rec, rt)\<close> and the phase when the queue is empty.
  The final loops do not set \<open>did_work\<close>, and nothing reads it after them.\<close>

definition take_step ::
  "(EventBus \<Rightarrow> (EventRecord option \<times> EventBus) option) \<Rightarrow> Phase \<Rightarrow> StepAnswers \<Rightarrow> Consumer \<Rightarrow> Consumer option" where
  "take_step pop next_phase sa c =
     (case pop (tl_bus (cn_rt c)) of
        None \<Rightarrow> None
      | Some (r, bus) \<Rightarrow>
          (let rt = (cn_rt c)\<lparr>tl_bus := bus\<rparr>
           in case r of
                None \<Rightarrow> Some (c\<lparr>cn_rt := rt, cn_phase := next_phase\<rparr>)
              | Some rec \<Rightarrow> map_option (\<lambda>rt. c\<lparr>cn_rt := rt, cn_did_work := True\<rparr>) (route_event (sa_route sa) rec rt)))"

definition finish :: "StepAnswers \<Rightarrow> Consumer \<Rightarrow> Consumer" where
  "finish sa c =
     (let rt = on_store (Flush (sa_flush sa)) (cn_rt c)
      in c\<lparr>cn_rt := rt, cn_user_stats := sync_user_stats (Some (tl_bus rt)) (tl_store rt) (Some 0), cn_phase := Stopped\<rparr>)"

definition consumer_step :: "StepAnswers \<Rightarrow> Consumer \<Rightarrow> Consumer option" where
  "consumer_step sa c =
     (case cn_phase c of
        LoopHead \<Rightarrow> Some (if sa_running sa then c\<lparr>cn_did_work := False, cn_phase := DrainHi\<rparr> else c\<lparr>cn_phase := FinalHi\<rparr>)
      | DrainHi \<Rightarrow> take_step bus_try_pop_hi DrainLo sa c
      | DrainLo \<Rightarrow> take_step bus_try_pop_lo Housekeeping sa c
      | Housekeeping \<Rightarrow> Some (housekeeping sa c)
      | FinalHi \<Rightarrow> take_step bus_try_pop_hi FinalLo sa c
      | FinalLo \<Rightarrow> (case take_step bus_try_pop_lo Stopped sa c of
            None \<Rightarrow> None
          | Some c \<Rightarrow> Some (if cn_phase c = Stopped then finish sa c else c))
      | Stopped \<Rightarrow> Some c)"

text \<open>A producer pushes, or the consumer takes a step.\<close>

datatype Turn = Produce EventRecord | Consume StepAnswers

fun turn :: "Turn \<Rightarrow> Consumer \<Rightarrow> Consumer option" where
  "turn (Produce r) c =
     map_option (\<lambda>(ok, bus). c\<lparr>cn_rt := (cn_rt c)\<lparr>tl_bus := bus\<rparr>\<rparr>) (bus_try_push (tl_bus (cn_rt c)) r)"
| "turn (Consume sa) c = consumer_step sa c"

fun turns :: "Turn list \<Rightarrow> Consumer \<Rightarrow> Consumer option" where
  "turns [] c = Some c"
| "turns (t # ts) c = (case turn t c of None \<Rightarrow> None | Some c' \<Rightarrow> turns ts c')"

end
