(* ===== verification/Event_Render_Correct.thy ===== *)
theory Event_Render_Correct
  imports Event_Render Json_Text_Correct
begin

text \<open>
  Rendering: the direct text of file events is the text of the JSON object, and which rendered
  objects can be dumped: those whose texts are well-formed UTF-8.
\<close>

section \<open>The direct text of file events\<close>

lemma append_json_string_quote: "append_json_string out s = out @ json_quote s"
  using json_loop_reads [of s] by (fastforce simp: append_json_string_def json_quote_def)

lemma json_quote_literal: "key k = json_quote k @ '':''" if "json_quote k = [CHR 0x22] @ k @ [CHR 0x22]"
  using that by (simp add: key_def)

lemma dec_of_uint: "dec_of_int (uint w) = dec_of_nat (unat w)"
  by (simp add: dec_of_int_def)

text \<open>The object as the library would build it, keys in no particular order.\<close>

definition file_part_json :: "string \<Rightarrow> FileEvent \<Rightarrow> json" where
  "file_part_json path e =
     (let f = json_put ''path'' (JStr path) JNull;
          f = json_put ''action'' (JStr (actionToString (action_of (ev_action e)))) f;
          f = json_put ''ino'' (json_u (ev_ino e)) f;
          f = json_put ''mask'' (json_u (scast (ev_mask e) :: u64)) f;
          f = (if FileEvent.ev_event_type e = EVENT_CHMOD
               then json_put ''new_mode'' (JStr (mode_to_string (and (ev_new_mode e) 0x1FF))) f else f)
      in if FileEvent.ev_event_type e = EVENT_CHOWN
         then json_put ''new_uid'' (json_u (ev_new_uid e)) (json_put ''new_gid'' (json_u (ev_new_gid e)) f) else f)"

definition process_part_json :: "FileEvent \<Rightarrow> FileActorContext option \<Rightarrow> json \<Rightarrow> json" where
  "process_part_json e actor anc =
     (let proc = json_put ''pid'' (json_u (FileEvent.ev_pid e)) JNull;
          proc = json_put ''comm'' (JStr (c_str (FileEvent.ev_comm e))) proc;
          proc = json_put ''uid'' (json_u (case actor of Some a \<Rightarrow> fa_uid a | None \<Rightarrow> FileEvent.ev_uid e)) proc;
          proc = json_put ''gid'' (json_u (case actor of Some a \<Rightarrow> fa_gid a | None \<Rightarrow> FileEvent.ev_gid e)) proc;
          proc = (case actor of Some a \<Rightarrow> (if fa_ppid a > 0 then json_put ''ppid'' (json_u (fa_ppid a)) proc else proc) | None \<Rightarrow> proc);
          proc = (case actor of Some a \<Rightarrow> (if fa_exe a \<noteq> [] then json_put ''exe'' (JStr (fa_exe a)) proc else proc) | None \<Rightarrow> proc)
      in json_put ''ancestors'' anc proc)"

definition file_payload_json :: "Monitor \<Rightarrow> FileEvent \<Rightarrow> FileActorContext option \<Rightarrow> Ancestor list \<Rightarrow> EventRecord \<Rightarrow> json" where
  "file_payload_json st e actor as rec =
     (let cid = (case actor of Some a \<Rightarrow> fa_container_id a | None \<Rightarrow> []);
          j = json_put ''event_type'' (JStr (file_event_kind e)) JNull;
          j = json_put ''ts'' (json_u (ts_ns rec)) j;
          j = json_put ''file'' (file_part_json (file_event_path st e) e) j;
          j = json_put ''process'' (process_part_json e actor (ancestors_json as)) j
      in if cid \<noteq> [] then json_put ''container'' (json_put ''container_id'' (JStr cid) JNull) j else j)"

lemma file_part_shape:
  "file_part_json path e = JObj ([(''action'', JStr (actionToString (action_of (ev_action e)))), (''ino'', json_u (ev_ino e)),
       (''mask'', json_u (scast (ev_mask e) :: u64))] @
     (if FileEvent.ev_event_type e = EVENT_CHOWN then [(''new_gid'', json_u (ev_new_gid e))] else []) @
     (if FileEvent.ev_event_type e = EVENT_CHMOD then [(''new_mode'', JStr (mode_to_string (and (ev_new_mode e) 0x1FF)))] else []) @
     (if FileEvent.ev_event_type e = EVENT_CHOWN then [(''new_uid'', json_u (ev_new_uid e))] else []) @ [(''path'', JStr path)])"
  by (simp add: file_part_json_def Let_def char_code_def)

lemma process_part_shape:
  "process_part_json e actor anc = JObj ([(''ancestors'', anc), (''comm'', JStr (c_str (FileEvent.ev_comm e)))] @
     (case actor of Some a \<Rightarrow> if fa_exe a \<noteq> [] then [(''exe'', JStr (fa_exe a))] else [] | None \<Rightarrow> []) @
     [(''gid'', json_u (case actor of Some a \<Rightarrow> fa_gid a | None \<Rightarrow> FileEvent.ev_gid e)), (''pid'', json_u (FileEvent.ev_pid e))] @
     (case actor of Some a \<Rightarrow> if fa_ppid a > 0 then [(''ppid'', json_u (fa_ppid a))] else [] | None \<Rightarrow> []) @
     [(''uid'', json_u (case actor of Some a \<Rightarrow> fa_uid a | None \<Rightarrow> FileEvent.ev_uid e))])"
  by (cases actor) (simp_all add: process_part_json_def Let_def char_code_def)

lemma file_payload_shape:
  "file_payload_json st e actor as rec = JObj (
     (case actor of Some a \<Rightarrow> if fa_container_id a \<noteq> [] then [(''container'', JObj [(''container_id'', JStr (fa_container_id a))])] else []
        | None \<Rightarrow> []) @
     [(''event_type'', JStr (file_event_kind e)), (''file'', file_part_json (file_event_path st e) e),
      (''process'', process_part_json e actor (ancestors_json as)), (''ts'', json_u (ts_ns rec))])"
  by (cases actor) (simp_all add: file_payload_json_def Let_def char_code_def)

lemma quoted_all:
  "list_all (\<lambda>s. json_quote s = [CHR 0x22] @ s @ [CHR 0x22])
   [''container'', ''container_id'', ''event_type'', ''file'', ''action'', ''ino'', ''mask'', ''new_gid'',
    ''new_mode'', ''new_uid'', ''path'', ''process'', ''ancestors'', ''comm'', ''exe'', ''gid'', ''pid'',
    ''ppid'', ''uid'', ''ts'']"
  by code_simp

lemma quoted_keys:
  "json_quote ''container'' = [CHR 0x22] @ ''container'' @ [CHR 0x22]"
  "json_quote ''container_id'' = [CHR 0x22] @ ''container_id'' @ [CHR 0x22]"
  "json_quote ''event_type'' = [CHR 0x22] @ ''event_type'' @ [CHR 0x22]"
  "json_quote ''file'' = [CHR 0x22] @ ''file'' @ [CHR 0x22]"
  "json_quote ''action'' = [CHR 0x22] @ ''action'' @ [CHR 0x22]"
  "json_quote ''ino'' = [CHR 0x22] @ ''ino'' @ [CHR 0x22]"
  "json_quote ''mask'' = [CHR 0x22] @ ''mask'' @ [CHR 0x22]"
  "json_quote ''new_gid'' = [CHR 0x22] @ ''new_gid'' @ [CHR 0x22]"
  "json_quote ''new_mode'' = [CHR 0x22] @ ''new_mode'' @ [CHR 0x22]"
  "json_quote ''new_uid'' = [CHR 0x22] @ ''new_uid'' @ [CHR 0x22]"
  "json_quote ''path'' = [CHR 0x22] @ ''path'' @ [CHR 0x22]"
  "json_quote ''process'' = [CHR 0x22] @ ''process'' @ [CHR 0x22]"
  "json_quote ''ancestors'' = [CHR 0x22] @ ''ancestors'' @ [CHR 0x22]"
  "json_quote ''comm'' = [CHR 0x22] @ ''comm'' @ [CHR 0x22]"
  "json_quote ''exe'' = [CHR 0x22] @ ''exe'' @ [CHR 0x22]"
  "json_quote ''gid'' = [CHR 0x22] @ ''gid'' @ [CHR 0x22]"
  "json_quote ''pid'' = [CHR 0x22] @ ''pid'' @ [CHR 0x22]"
  "json_quote ''ppid'' = [CHR 0x22] @ ''ppid'' @ [CHR 0x22]"
  "json_quote ''uid'' = [CHR 0x22] @ ''uid'' @ [CHR 0x22]"
  "json_quote ''ts'' = [CHR 0x22] @ ''ts'' @ [CHR 0x22]"
  using quoted_all [unfolded list.pred_inject] by blast+

lemma append_u64_exact_small: "unat v < 10 ^ 19 \<Longrightarrow> append_u64 out v = out @ dec_of_nat (unat v)"
  using append_u64_exact by blast

lemma append_u64_ucast: "append_u64 out (ucast (w :: u32)) = out @ dec_of_nat (unat w)"
proof -
  have "unat (ucast w :: u64) = unat w" by (simp add: unsigned_ucast_eq take_bit_nat_eq_self less_trans [OF unsigned_less])
  moreover have "unat w < 10 ^ 19" using unsigned_less [of w, where ?'a = nat] by simp
  ultimately show ?thesis using append_u64_exact_small [of "ucast w"] by simp
qed

lemmas text_pieces = append_json_string_quote append_u64_exact_small append_u64_ucast key_def quoted_keys json_u_def dec_of_uint

lemma append_if: "(if c then out @ x else out) = out @ (if c then x else [])"
  by simp

definition optional :: "bool \<Rightarrow> string \<Rightarrow> string" where
  "optional c x = (if c then x else [])"

lemma file_part_text:
  "json_text (file_part_json path e) = ''{'' @ key ''action'' @ json_quote (actionToString (action_of (ev_action e))) @ '','' @
     key ''ino'' @ dec_of_nat (unat (ev_ino e)) @ '','' @ key ''mask'' @ dec_of_nat (unat (scast (ev_mask e) :: u64)) @
     optional (FileEvent.ev_event_type e = EVENT_CHOWN) ('','' @ key ''new_gid'' @ dec_of_nat (unat (ev_new_gid e))) @
     optional (FileEvent.ev_event_type e = EVENT_CHMOD) ('','' @ key ''new_mode'' @ json_quote (mode_to_string (and (ev_new_mode e) 0x1FF))) @
     optional (FileEvent.ev_event_type e = EVENT_CHOWN) ('','' @ key ''new_uid'' @ dec_of_nat (unat (ev_new_uid e))) @
     '','' @ key ''path'' @ json_quote path @ ''}''"
  unfolding file_part_shape
  by (cases "FileEvent.ev_event_type e = EVENT_CHOWN"; cases "FileEvent.ev_event_type e = EVENT_CHMOD")
    (simp_all add: optional_def key_def quoted_keys json_u_def dec_of_uint)

lemma process_part_text:
  "json_text (process_part_json e actor anc) = ''{'' @ key ''ancestors'' @ json_text anc @ '','' @
     key ''comm'' @ json_quote (c_str (FileEvent.ev_comm e)) @
     optional (case actor of Some a \<Rightarrow> fa_exe a \<noteq> [] | None \<Rightarrow> False)
       ('','' @ key ''exe'' @ json_quote (case actor of Some a \<Rightarrow> fa_exe a | None \<Rightarrow> [])) @ '','' @
     key ''gid'' @ dec_of_nat (unat (case actor of Some a \<Rightarrow> fa_gid a | None \<Rightarrow> FileEvent.ev_gid e)) @ '','' @
     key ''pid'' @ dec_of_nat (unat (FileEvent.ev_pid e)) @
     optional (case actor of Some a \<Rightarrow> fa_ppid a > 0 | None \<Rightarrow> False)
       ('','' @ key ''ppid'' @ dec_of_nat (unat (case actor of Some a \<Rightarrow> fa_ppid a | None \<Rightarrow> 0))) @ '','' @
     key ''uid'' @ dec_of_nat (unat (case actor of Some a \<Rightarrow> fa_uid a | None \<Rightarrow> FileEvent.ev_uid e)) @ ''}''"
proof (cases actor)
  case None
  then show ?thesis unfolding process_part_shape by (simp add: optional_def key_def quoted_keys json_u_def dec_of_uint)
next
  case (Some a)
  then show ?thesis unfolding process_part_shape
    by (cases "fa_exe a = []"; cases "fa_ppid a > 0") (simp_all add: optional_def key_def quoted_keys json_u_def dec_of_uint)
qed

lemma file_payload_text:
  "json_text (file_payload_json st e actor as rec) = ''{'' @
     optional (case actor of Some a \<Rightarrow> fa_container_id a \<noteq> [] | None \<Rightarrow> False)
       (key ''container'' @ ''{'' @ key ''container_id'' @ json_quote (case actor of Some a \<Rightarrow> fa_container_id a | None \<Rightarrow> []) @ ''},'') @
     key ''event_type'' @ json_quote (file_event_kind e) @ '','' @
     key ''file'' @ json_text (file_part_json (file_event_path st e) e) @ '','' @
     key ''process'' @ json_text (process_part_json e actor (ancestors_json as)) @ '','' @
     key ''ts'' @ dec_of_nat (unat (ts_ns rec)) @ ''}''"
proof (cases actor)
  case None
  then show ?thesis unfolding file_payload_shape by (simp add: optional_def key_def quoted_keys json_u_def dec_of_uint)
next
  case (Some a)
  then show ?thesis unfolding file_payload_shape
    by (cases "fa_container_id a = []") (simp_all add: optional_def key_def quoted_keys json_u_def dec_of_uint)
qed

text \<open>
  C37. The direct text of a file event is the text of the JSON object: for numbers of at most 19 digits it is,
  byte for byte, what \<open>dump\<close> gives for the object built with the same members in any order, whenever
  \<open>dump\<close> gives a text at all.\<close>

theorem file_payload_is_json_text:
  assumes "render_file_payload st t e actor rec = Some (payload, rec')"
    and "ancestors_text actor t rec = Some (json_text (ancestors_json as))"
    and "unat (ev_ino e) < 10 ^ 19" and "unat (scast (ev_mask e) :: u64) < 10 ^ 19" and "unat (ts_ns rec) < 10 ^ 19"
  shows "dump (file_payload_json st e actor as rec) = (if json_ok (file_payload_json st e actor as rec) then Some payload else None)"
proof -
  define anc where "anc = json_text (ancestors_json as)"
  have anc: "ancestors_text actor t rec = Some anc" using assms(2) by (simp add: anc_def)
  have P: "payload = fst (the (render_file_payload st t e actor rec))" using assms(1) by simp
  have pieces: "append_u64 out (ev_ino e) = out @ dec_of_nat (unat (ev_ino e))"
      "append_u64 out (scast (ev_mask e)) = out @ dec_of_nat (unat (scast (ev_mask e) :: u64))"
      "append_u64 out (ts_ns rec) = out @ dec_of_nat (unat (ts_ns rec))" for out
    using assms(3-5) by (simp_all only: append_u64_exact_small)
  have "payload = json_text (file_payload_json st e actor as rec)"
    unfolding P render_file_payload_def anc file_payload_text file_part_text process_part_text anc_def [symmetric]
    by (cases actor) (simp_all add: Let_def optional_def append_json_string_quote pieces append_u64_ucast)
  then show ?thesis by (simp add: dump_def)
qed

section \<open>Objects that can be dumped\<close>

lemma ascii_valid: "\<forall>c\<in>set s. char_code c < 128 \<Longrightarrow> utf8_valid s"
proof (induction s rule: utf8_valid.induct)
  case (2 c cs)
  have "followers (char_byte c) = Some []"
    using "2.prems" by (simp add: followers_def char_code_byte word_less_nat_alt)
  then show ?case using 2 by simp
qed simp

lemma digits_ascii: "c \<in> set (dec_of_nat n) \<Longrightarrow> char_code c < 128"
  using dec_of_nat_digits [of n] by (auto simp: c_isdigit_def)

lemma ip_valid: "utf8_valid (ipv4_to_string addr)"
  by (rule ascii_valid) (auto simp: ipv4_to_string_def char_code_def dest: digits_ascii)

lemma valid_keys:
  "utf8_valid []" "utf8_valid ''comm''" "utf8_valid ''gid''" "utf8_valid ''uid''" "utf8_valid ''ppid''" "utf8_valid ''pid''" "utf8_valid ''exe''"
  "utf8_valid ''process''" "utf8_valid ''ts''" "utf8_valid ''event_type''" "utf8_valid ''container''" "utf8_valid ''container_id''"
  "utf8_valid ''dns''" "utf8_valid ''network''" "utf8_valid ''qtype''" "utf8_valid ''domain''" "utf8_valid ''dport''" "utf8_valid ''dip''"
  "utf8_valid ''sport''" "utf8_valid ''sip''" "utf8_valid ''protocol''" "utf8_valid ''family''" "utf8_valid ''ancestors''"
  by (rule ascii_valid, simp add: char_code_def)+

lemma net_kind_valid: "utf8_valid (net_kind k)"
proof (cases "NET_EVENT_CONNECT \<le> k \<and> k \<le> NET_EVENT_DNS")
  case True
  then have "1 \<le> unat k" "unat k \<le> 4" by (simp_all add: word_le_nat_alt NET_EVENT_CONNECT_def NET_EVENT_DNS_def)
  then have "unat k \<in> {1, 2, 3, 4}" by auto
  then have "net_kind k \<in> {''network.connect'', ''network.accept'', ''network.bind'', ''network.dns''}"
    using True by (auto simp: net_kind_def)
  then show ?thesis by (intro ascii_valid) (auto simp: char_code_def)
next
  case False
  then have "net_kind k = ''network.unknown''" unfolding net_kind_def by (rule if_not_P)
  then show ?thesis by (intro ascii_valid) (simp add: char_code_def)
qed

fun well :: "json \<Rightarrow> bool" where
  "well JNull \<longleftrightarrow> True"
| "well (JObj m) \<longleftrightarrow> key_sorted m"
| "well _ \<longleftrightarrow> False"

lemma well_put [simp]: "well j \<Longrightarrow> well (json_put k v j)"
  by (cases j) (simp_all add: key_sorted_put, simp_all add: key_sorted_def)

lemma is_object_put [simp]: "is_object (json_put k v j)"
  by (cases j) (simp_all add: is_object_def)

lemma json_get_put: "well j \<Longrightarrow> json_get k (json_put k' v j) = (if k = k' then Some v else json_get k j)"
  by (cases j) (simp_all add: map_of_map_put)

lemma json_ok_get: "well j \<Longrightarrow> json_ok j \<longleftrightarrow> (\<forall>k v. json_get k j = Some v \<longrightarrow> utf8_valid k \<and> json_ok v)"
proof (cases j)
  case (JObj m)
  assume "well j"
  with JObj have "distinct (map fst m)" by (simp add: key_sorted_distinct)
  then show ?thesis using JObj by (fastforce simp: list_all_iff)
qed simp_all

lemma json_ok_put_new:
  assumes "well j" and "json_get k j = None"
  shows "json_ok (json_put k v j) \<longleftrightarrow> utf8_valid k \<and> json_ok v \<and> json_ok j"
  using assms by (auto simp: json_ok_get json_get_put split: if_splits)

lemma json_ok_put_more:
  assumes "well j" and "json_get k j = Some v" and "json_ok v' \<longleftrightarrow> json_ok v \<and> ok"
  shows "json_ok (json_put k v' j) \<longleftrightarrow> json_ok j \<and> ok"
  using assms by (auto simp: json_ok_get [of j] json_ok_get [of "json_put k v' j"] json_get_put split: if_splits)

declare utf8_valid.simps [simp del] json_put.simps [simp del]

lemmas json_ok_puts = json_ok_put_new json_get_put valid_keys

lemma process_json_ok:
  "well (process_json pid ppid uid gid comm exe)" "is_object (process_json pid ppid uid gid comm exe)"
  "json_get ''ancestors'' (process_json pid ppid uid gid comm exe) = None"
  "json_ok (process_json pid ppid uid gid comm exe) \<longleftrightarrow> utf8_valid (comm_to_string comm) \<and> utf8_valid exe"
proof -
  show "well (process_json pid ppid uid gid comm exe)" by (simp add: process_json_def Let_def)
  show "json_get ''ancestors'' (process_json pid ppid uid gid comm exe) = None"
    by (simp add: process_json_def Let_def json_get_put)
  show "json_ok (process_json pid ppid uid gid comm exe) \<longleftrightarrow> utf8_valid (comm_to_string comm) \<and> utf8_valid exe"
    by (auto simp: process_json_def Let_def json_ok_puts json_u_def)
  show "is_object (process_json pid ppid uid gid comm exe)"
    by (simp add: process_json_def Let_def)
qed

definition ancestors_valid :: "ProcessTree \<Rightarrow> EventRecord \<Rightarrow> bool" where
  "ancestors_valid t rec \<longleftrightarrow>
     list_all (\<lambda>a. utf8_valid (anc_comm a) \<and> utf8_valid (anc_exe a)) (ancestors_of t (rec_pid rec) (rec_ppid rec))"

lemma ancestors_json_ok: "json_ok (ancestors_json as) \<longleftrightarrow> list_all (\<lambda>a. utf8_valid (anc_comm a) \<and> utf8_valid (anc_exe a)) as"
  by (auto simp: ancestors_json_def list_all_iff ancestor_json_def json_ok_puts json_u_def)

lemma enrich_ok:
  assumes "well j" and "json_get ''process'' j = Some p" and "is_object p" and "well p" and "json_get ''ancestors'' p = None"
  shows "json_ok (enrich t rec j) \<longleftrightarrow> json_ok j \<and> ancestors_valid t rec"
  unfolding enrich_def Let_def assms(2) option.case
  by (rule json_ok_put_more [OF assms(1,2)])
    (use assms in \<open>auto simp: json_ok_puts ancestors_json_ok ancestors_valid_def\<close>)

lemma network_json_ok:
  assumes "render_network_event fs e rec = (j, rec')"
  shows "well j" "\<exists>p. json_get ''process'' j = Some p \<and> is_object p \<and> well p \<and> json_get ''ancestors'' p = None"
    "json_ok j \<longleftrightarrow> utf8_valid (comm_to_string (ne_comm e)) \<and> utf8_valid (exe_of fs (int_of_u32 (ne_pid e))) \<and>
      (ne_event_kind e = NET_EVENT_DNS \<longrightarrow> utf8_valid (dns_qname_to_string (ne_domain e))) \<and>
      utf8_valid (container_id_of fs (int_of_u32 (ne_pid e)))"
proof -
  have j: "j = fst (render_network_event fs e rec)" using assms by simp
  show "well j" unfolding j by (simp add: render_network_event_def Let_def with_container_def event_json_def)
  show "\<exists>p. json_get ''process'' j = Some p \<and> is_object p \<and> well p \<and> json_get ''ancestors'' p = None"
    unfolding j by (simp add: render_network_event_def Let_def with_container_def event_json_def json_get_put process_json_ok)
  show "json_ok j \<longleftrightarrow> utf8_valid (comm_to_string (ne_comm e)) \<and> utf8_valid (exe_of fs (int_of_u32 (ne_pid e))) \<and>
      (ne_event_kind e = NET_EVENT_DNS \<longrightarrow> utf8_valid (dns_qname_to_string (ne_domain e))) \<and>
      utf8_valid (container_id_of fs (int_of_u32 (ne_pid e)))"
    unfolding j by (auto simp: render_network_event_def Let_def with_container_def event_json_def json_ok_puts process_json_ok
        net_kind_valid dns_json_def net_json_def json_u_def ip_valid)
qed

end
