(* ===== verification/Consumer_Correct.thy ===== *)
theory Consumer_Correct
  imports Consumer Event_Render_Correct File_Alerts_Correct Telemetry_Handlers
begin

text \<open>
  Where the consumer fails: a network event whose text is not well-formed UTF-8 ends the process, and
  rules whose names hold no ASCII letter or digit share a throttle window.
\<close>

section \<open>Events that end the process\<close>

lemma network_route_fails:
  assumes "render_network_event fs e rec = (j, rec')"
  shows "log_and_store ro j rec' rt = None \<longleftrightarrow>
    \<not> (utf8_valid (comm_to_string (ne_comm e)) \<and> utf8_valid (exe_of fs (int_of_u32 (ne_pid e))) \<and>
       (ne_event_kind e = NET_EVENT_DNS \<longrightarrow> utf8_valid (dns_qname_to_string (ne_domain e))) \<and>
       utf8_valid (container_id_of fs (int_of_u32 (ne_pid e))) \<and> (tl_store rt \<noteq> None \<longrightarrow> ancestors_valid (tl_tree rt) rec))"
proof -
  from network_json_ok [OF assms] obtain p where
    well: "well j" and p: "json_get ''process'' j = Some p" "is_object p" "well p" "json_get ''ancestors'' p = None" by blast
  have "ancestors_valid (tl_tree rt) rec' = ancestors_valid (tl_tree rt) rec"
    using assms by (auto simp: render_network_event_def Let_def set_columns_def ancestors_valid_def)
  with enrich_ok [OF well p] have "json_ok (enrich (tl_tree rt) rec' j) \<longleftrightarrow> json_ok j \<and> ancestors_valid (tl_tree rt) rec" by simp
  then show ?thesis
    using network_json_ok(3) [OF assms] by (simp add: log_and_store_def dump_def Let_def, blast?)
qed

lemma dequeued_frame [frame_simps]:
  "tl_store (dequeued ro rec rt) = tl_store rt" "tl_tree (dequeued ro rec rt) = tl_tree rt"
  by (simp_all add: dequeued_def)

text \<open>
  C34. A network or DNS event ends the process exactly when one of its texts is not well-formed UTF-8: the
  name of its process, the path of its executable, its container, for DNS its domain and, when events
  are stored, the name or path of an ancestor. Nothing else about it matters.\<close>

theorem network_event_ends_process_iff:
  assumes "rec_category rec = CAT_NETWORK \<or> rec_category rec = CAT_DNS"
  shows "route_event ro rec rt = None \<longleftrightarrow>
    (let e = net_event_of (chars_bytes (payload_raw rec)); fs = ro_render_fs ro; pid = int_of_u32 (ne_pid e)
     in \<not> (utf8_valid (comm_to_string (ne_comm e)) \<and> utf8_valid (exe_of fs pid) \<and>
        (ne_event_kind e = NET_EVENT_DNS \<longrightarrow> utf8_valid (dns_qname_to_string (ne_domain e))) \<and>
        utf8_valid (container_id_of fs pid) \<and> (tl_store rt \<noteq> None \<longrightarrow> ancestors_valid (tl_tree rt) rec)))"
proof -
  obtain j rec' where R: "render_network_event (ro_render_fs ro) (net_event_of (chars_bytes (payload_raw rec))) rec = (j, rec')"
    by force
  have "route_event ro rec rt = log_and_store ro j rec' (dequeued ro rec rt)"
    using assms R by (auto simp: route_event_def route_network_def Let_def cat_defs)
  then show ?thesis using network_route_fails [OF R, of ro "dequeued ro rec rt"] by (simp add: Let_def frame_simps)
qed

text \<open>A connection of a process named by one byte that is no character.\<close>

definition odd_connect :: "string \<Rightarrow> NetEvent" where
  "odd_connect comm = \<lparr>ne_ts_ns = 1, ne_pid = 7, ne_ppid = 1, ne_uid = 0, ne_gid = 0, ne_cgroup_id = 0,
     ne_event_kind = NET_EVENT_CONNECT, ne_family = 2, ne_protocol = 6, ne_sport = 1, ne_dport = 80,
     ne_saddr = replicate 16 0, ne_daddr = replicate 16 0, ne_comm = comm @ replicate (16 - length comm) NUL,
     ne_qtype = 0, ne_domain = replicate 256 0\<rparr>"

lemma network_event_ends_process_iff_witness:
  "\<forall>ro rt. route_event ro (network_record 1 (odd_connect [CHR 0xFF])) rt = None"
proof (intro allI)
  fix ro rt
  have "\<not> utf8_valid (comm_to_string (ne_comm (net_event_of (chars_bytes (payload_raw (network_record 1 (odd_connect [CHR 0xFF])))))))"
    by code_simp
  moreover have "rec_category (network_record 1 (odd_connect [CHR 0xFF])) = CAT_NETWORK \<or>
      rec_category (network_record 1 (odd_connect [CHR 0xFF])) = CAT_DNS" by code_simp
  ultimately show "route_event ro (network_record 1 (odd_connect [CHR 0xFF])) rt = None"
    by (subst network_event_ends_process_iff) (simp_all add: Let_def)
qed

section \<open>A payload\<close>

lemma file_payload_is_json_text_witness:
  "\<exists>payload rec'. render_file_payload (monitoring []) empty_tree shadow_write None (file_record 1 shadow_write) = Some (payload, rec') \<and>
     dump (file_payload_json (monitoring []) shadow_write None [] (file_record 1 shadow_write)) =
       (if json_ok (file_payload_json (monitoring []) shadow_write None [] (file_record 1 shadow_write)) then Some payload else None)"
proof -
  have anc: "ancestors_text None empty_tree (file_record 1 shadow_write) = Some (json_text (ancestors_json []))"
    by (simp add: ancestors_text_def ancestors_of_def find_node_def empty_tree_def kMaxAncestors_def ancestors_json_def dump_def
        file_record_def zero_record_def eval_nat_numeral)
  then obtain payload rec' where R:
    "render_file_payload (monitoring []) empty_tree shadow_write None (file_record 1 shadow_write) = Some (payload, rec')"
    by (simp add: render_file_payload_def Let_def)
  have "unat (ev_ino shadow_write) < 10 ^ 19" "unat (scast (ev_mask shadow_write) :: u64) < 10 ^ 19"
    "unat (ts_ns (file_record 1 shadow_write)) < 10 ^ 19" by (simp_all add: shadow_write_def file_record_def)
  with file_payload_is_json_text [OF R anc] R show ?thesis by blast
qed

section \<open>Rules of one slug\<close>

lemma slug_loop_quiet: "\<forall>c\<in>set s. \<not> c_isalnum c \<Longrightarrow> slug_loop out b s = out @ (if \<not> b \<and> s \<noteq> [] then ''_'' else [])"
  by (induction s arbitrary: out b) auto

lemma dsl_rule_id_quiet: "\<forall>c\<in>set name. \<not> c_isalnum c \<Longrightarrow> dsl_rule_id name = ''dsl.''"
  by (simp add: dsl_rule_id_def slug_loop_quiet)

lemma send_dsl_raise: "send_dsl_alert now w rule out view p u anc m = raise_alert now w (dsl_alert w rule out view p u anc) m"
  by (simp add: send_dsl_alert_def raise_alert_def Let_def dsl_alert_def)

text \<open>Alerts that look at the throttle first: within one throttle time at most one of a rule is stored.\<close>

definition raise_all :: "(int \<times> World \<times> AlertEvent) list \<Rightarrow> AlertManager \<Rightarrow> AlertManager" where
  "raise_all raises m = fold (\<lambda>(now, w, e) m. raise_alert now w e m) raises m"

lemma raise_quiet:
  assumes "am_last_alert_time m r = Some t" and "0 < am_throttle_seconds m"
    and "\<forall>(now, w, e) \<in> set raises. ae_rule_id e = r \<and> now - t < secs (am_throttle_seconds m)"
  shows "stored (raise_all raises m) = stored m"
  using assms
proof (induction raises arbitrary: m)
  case (Cons x raises)
  obtain now w e where x: "x = (now, w, e)" by (cases x)
  with Cons.prems have "ThrottledNow (ae_rule_id e) now m"
    by (auto simp: ThrottledNow_def whole_seconds_less not_le)
  then have R: "raise_alert now w e m = NoteThrottled r m" using x Cons.prems by (simp add: raise_alert_def)
  have "stored (raise_all raises (NoteThrottled r m)) = stored (NoteThrottled r m)"
    using Cons.prems by (intro Cons.IH) (auto simp: NoteThrottled_def)
  then show ?case using x R by (simp add: raise_all_def note_table)
qed (simp add: raise_all_def)

lemma raise_burst_stores_one:
  assumes "0 < am_throttle_seconds m"
    and "\<forall>(now, w, e) \<in> set raises. ae_rule_id e = r \<and> t0 \<le> w_now w \<and> now - t0 < secs (am_throttle_seconds m)"
  shows "stored (raise_all raises m) \<le> stored m + 1"
  using assms
proof (induction raises arbitrary: m)
  case (Cons x raises)
  obtain now w e where x: "x = (now, w, e)" by (cases x)
  have e: "ae_rule_id e = r" "t0 \<le> w_now w" using Cons.prems x by auto
  let ?m = "snd (SendDingTalk w e m)"
  have frame: "am_throttle_seconds ?m = am_throttle_seconds m" using send_time [of w e m] by simp
  consider (noted) "raise_alert now w e m = NoteThrottled r m"
    | (held) "raise_alert now w e m = ?m" "fst (IsThrottled r (w_now w) m)"
    | (sent) "raise_alert now w e m = ?m" "\<not> fst (IsThrottled r (w_now w) m)"
    using e unfolding raise_alert_def by (cases "ThrottledNow (ae_rule_id e) now m") auto
  then show ?case
  proof cases
    case noted
    have "stored (raise_all raises (NoteThrottled r m)) \<le> stored (NoteThrottled r m) + 1"
      using Cons.prems by (intro Cons.IH) (auto simp: NoteThrottled_def)
    then show ?thesis using x noted by (simp add: raise_all_def note_table)
  next
    case held
    have "stored (raise_all raises ?m) \<le> stored ?m + 1"
      using Cons.prems frame by (intro Cons.IH) auto
    then show ?thesis using x held send_stored [of w e m] e by (simp add: raise_all_def)
  next
    case sent
    then have "am_last_alert_time ?m r = Some (w_now w)"
      using send_time [of w e m] e Cons.prems(1) by (auto simp: IsThrottled_def split: option.splits if_splits)
    moreover have "\<forall>(now', w', e') \<in> set raises. ae_rule_id e' = r \<and> now' - w_now w < secs (am_throttle_seconds ?m)"
      using Cons.prems(2) e frame by fastforce
    ultimately have "stored (raise_all raises ?m) = stored ?m"
      using Cons.prems(1) frame by (intro raise_quiet [where t = "w_now w"]) auto
    then show ?thesis using x sent send_stored [of w e m] e by (simp add: raise_all_def)
  qed
qed (simp add: raise_all_def)

record DslMatch =
  dm_now :: int
  dm_world :: World
  dm_rule :: Rule
  dm_out :: string
  dm_view :: EventView
  dm_path :: string
  dm_user :: string
  dm_ancestors :: string

definition send_match :: "DslMatch \<Rightarrow> AlertManager \<Rightarrow> AlertManager" where
  "send_match d m = send_dsl_alert (dm_now d) (dm_world d) (dm_rule d) (dm_out d) (dm_view d) (dm_path d) (dm_user d) (dm_ancestors d) m"

lemma send_matches_raise:
  "fold send_match ds m = raise_all (map (\<lambda>d. (dm_now d, dm_world d,
     dsl_alert (dm_world d) (dm_rule d) (dm_out d) (dm_view d) (dm_path d) (dm_user d) (dm_ancestors d))) ds) m"
  by (induction ds arbitrary: m) (simp_all add: raise_all_def send_match_def send_dsl_raise)

text \<open>
  C40. Rules whose names hold no ASCII letter or digit all have the rule id \<open>dsl.\<close>, so they share one
  throttle window: however many different rules of that kind match within the throttle time, at most
  one alert is stored.\<close>

theorem nameless_rules_share_window:
  assumes "0 < am_throttle_seconds m"
    and "\<forall>d\<in>set ds. (\<forall>c\<in>set (rule_name (dm_rule d)). \<not> c_isalnum c) \<and>
      t0 \<le> w_now (dm_world d) \<and> dm_now d - t0 < secs (am_throttle_seconds m)"
  shows "stored (fold send_match ds m) \<le> stored m + 1"
  unfolding send_matches_raise
  by (rule raise_burst_stores_one [where r = "''dsl.''" and ?t0.0 = t0])
    (use assms in \<open>auto simp: dsl_alert_def dsl_rule_id_quiet\<close>)

definition nameless_match :: "string \<Rightarrow> int \<Rightarrow> DslMatch" where
  "nameless_match name now = \<lparr>dm_now = now, dm_world = quiet_world now,
     dm_rule = \<lparr>rule_name = name, rule_desc = [], output_template = [], rule_priority = ''high'', rule_attack = [],
       fpr_note = [], rule_response = ''alert'', source_file = ''core.yaml'', condition = CondAnd []\<rparr>,
     dm_out = ''out'', dm_view = empty_view, dm_path = ''/etc/shadow'', dm_user = ''root'', dm_ancestors = []\<rparr>"

text \<open>Two names of three bytes each, as UTF-8 writes a Chinese character.\<close>

lemma nameless_rules_share_window_witness:
  "stored (fold send_match [nameless_match [CHR 0xE8, CHR 0xAF, CHR 0xBB] (secs 1), nameless_match [CHR 0xE5, CHR 0x86, CHR 0x99] (secs 2)]
     (started minute_config small_table)) \<le> stored (started minute_config small_table) + 1"
proof (rule nameless_rules_share_window [where ?t0.0 = "secs 1"])
  show "0 < am_throttle_seconds (started minute_config small_table)"
    by (simp add: started_def SetDB_def LoadConfig_def new_manager_def minute_config_def)
  show "\<forall>d\<in>set [nameless_match [CHR 0xE8, CHR 0xAF, CHR 0xBB] (secs 1), nameless_match [CHR 0xE5, CHR 0x86, CHR 0x99] (secs 2)].
      (\<forall>c\<in>set (rule_name (dm_rule d)). \<not> c_isalnum c) \<and> secs 1 \<le> w_now (dm_world d) \<and>
      dm_now d - secs 1 < secs (am_throttle_seconds (started minute_config small_table))"
    by (simp add: nameless_match_def quiet_world_def char_class_defs started_def SetDB_def LoadConfig_def new_manager_def
        minute_config_def secs_def)
qed

end
