(* ===== verification/Consumer_Order.thy ===== *)
theory Consumer_Order
  imports Consumer_Loop Consumer_Correct Event_Bus_Correct
begin

text \<open>
  The order of routing: every accepted event is routed once, in the order of its queue, and the thread
  stops with both queues empty when producers are quiet; what arrives after the final drain is
  lost, and a flood of low priority events keeps the high queue and the periodic work waiting.
\<close>

section \<open>Every event is routed once, in order\<close>

definition same_queues :: "EventBus \<Rightarrow> EventBus \<Rightarrow> bool" where
  "same_queues b b' \<longleftrightarrow> bus_hi b' = bus_hi b \<and> bus_lo b' = bus_lo b \<and> drops_hi b' = drops_hi b \<and>
     drops_lo b' = drops_lo b \<and> bus_pushed b' = bus_pushed b"

lemma same_queues_rel: "same_queues b b' \<Longrightarrow> bus_rel n b' a = bus_rel n b a"
  by (simp add: same_queues_def bus_rel_def)

lemma log_and_store_bus: "log_and_store ro j rec rt = Some rt' \<Longrightarrow> tl_bus rt' = tl_bus rt"
  by (auto simp: log_and_store_def store_append_def Let_def split: option.splits if_splits)

lemma build_file_actor_bus: "build_file_actor ro e rt = Some (a, rt') \<Longrightarrow> tl_bus rt' = tl_bus rt"
  by (auto simp: build_file_actor_def Let_def split: option.splits prod.splits)

lemma eval_file_bus [simp]: "tl_bus (eval_rules_on_file_event ro fe actor rt) = tl_bus rt"
  by (auto simp: eval_rules_on_file_event_def Let_def split: option.splits prod.splits)

lemma eval_exec_bus: "eval_rules_on_exec_event ro pe rt = Some rt' \<Longrightarrow> tl_bus rt' = tl_bus rt"
  by (auto simp: eval_rules_on_exec_event_def Let_def split: option.splits prod.splits if_splits)

lemma route_file_bus: "route_file ro rec rt = Some rt' \<Longrightarrow> tl_bus rt' = tl_bus rt"
  by (auto simp: route_file_def store_append_def Let_def split: option.splits prod.splits if_splits dest: build_file_actor_bus)

lemma route_process_bus: "route_process ro rec rt = Some rt' \<Longrightarrow> tl_bus rt' = tl_bus rt"
  by (auto simp: route_process_def store_append_def Let_def split: option.splits prod.splits if_splits dest!: eval_exec_bus)

lemma route_event_queues:
  assumes "route_event ro rec rt = Some rt'"
  shows "same_queues (tl_bus rt) (tl_bus rt')"
proof -
  have "tl_bus rt' = tl_bus (dequeued ro rec rt)"
    using assms by (auto simp: route_event_def route_network_def route_privilege_def Let_def
        split: if_splits prod.splits dest: route_file_bus route_process_bus log_and_store_bus)
  then show ?thesis by (simp add: same_queues_def dequeued_def record_queue_latency_def)
qed

lemma periodic_bus [simp]:
  "tl_bus (on_store f rt) = tl_bus rt" "tl_bus (cn_rt (idle_backoff c)) = tl_bus (cn_rt c)"
  "tl_bus (cn_rt (retain_alerts now db c)) = tl_bus (cn_rt c)" "tl_bus (cn_rt (sweep_tree now ms c)) = tl_bus (cn_rt c)"
  "tl_bus (cn_rt (report_drops now c)) = tl_bus (cn_rt c)" "tl_bus (cn_rt (reset_suppressed now c)) = tl_bus (cn_rt c)"
  by (simp_all add: on_store_def idle_backoff_def retain_alerts_def sweep_tree_def report_drops_def reset_suppressed_def Let_def)

lemma housekeeping_bus [simp]: "tl_bus (cn_rt (housekeeping sa c)) = tl_bus (cn_rt c)"
  by (simp add: housekeeping_def Let_def if_distrib [where f = "\<lambda>c. tl_bus (cn_rt c)"] cong: if_cong)

lemma housekeeping_phase: "cn_phase (housekeeping sa c) = LoopHead"
  by (simp add: housekeeping_def Let_def)

lemma finish_bus [simp]: "tl_bus (cn_rt (finish sa c)) = tl_bus (cn_rt c)" "cn_phase (finish sa c) = Stopped"
  by (simp_all add: finish_def on_store_def Let_def)

text \<open>What the next pop of the consumer takes out: the queue, the event and the bus afterwards.\<close>

definition next_pop :: "Consumer \<Rightarrow> (bool \<times> EventRecord \<times> EventBus) option" where
  "next_pop c =
     (if cn_phase c = DrainHi \<or> cn_phase c = FinalHi
      then (case bus_try_pop_hi (tl_bus (cn_rt c)) of Some (Some r, bus) \<Rightarrow> Some (True, r, bus) | _ \<Rightarrow> None)
      else if cn_phase c = DrainLo \<or> cn_phase c = FinalLo
      then (case bus_try_pop_lo (tl_bus (cn_rt c)) of Some (Some r, bus) \<Rightarrow> Some (False, r, bus) | _ \<Rightarrow> None)
      else None)"

text \<open>The event a turn routes, with its queue: the turn takes it out of the queue, and the state it
  leaves is the one \<open>route_event\<close> makes for this event of the state without it, no more and no less.\<close>

fun routed_by :: "Turn \<Rightarrow> Consumer \<Rightarrow> (bool \<times> EventRecord) list" where
  "routed_by (Produce r) c = []"
| "routed_by (Consume sa) c =
     (case (next_pop c, turn (Consume sa) c) of
        (Some (hi, r, bus), Some c') \<Rightarrow>
          (if route_event (sa_route sa) r ((cn_rt c)\<lparr>tl_bus := bus\<rparr>) = Some (cn_rt c') then [(hi, r)] else [])
      | _ \<Rightarrow> [])"

text \<open>The events whose push was accepted.\<close>

fun accepted_by :: "Turn \<Rightarrow> Consumer \<Rightarrow> EventRecord list" where
  "accepted_by (Produce r) c = (case bus_try_push (tl_bus (cn_rt c)) r of Some (True, _) \<Rightarrow> [r] | _ \<Rightarrow> [])"
| "accepted_by (Consume sa) c = []"

fun along :: "(Turn \<Rightarrow> Consumer \<Rightarrow> 'a list) \<Rightarrow> Turn list \<Rightarrow> Consumer \<Rightarrow> 'a list" where
  "along f [] c = []"
| "along f (t # ts) c = f t c @ (case turn t c of None \<Rightarrow> [] | Some c' \<Rightarrow> along f ts c')"

definition of_queue :: "bool \<Rightarrow> (bool \<times> EventRecord) list \<Rightarrow> EventRecord list" where
  "of_queue hi rs = map snd (filter (\<lambda>r. fst r = hi) rs)"

lemma of_queue_simps [simp]: "of_queue hi [] = []" "of_queue hi (x # xs) = (if fst x = hi then [snd x] else []) @ of_queue hi xs"
  "of_queue hi (xs @ ys) = of_queue hi xs @ of_queue hi ys"
  by (simp_all add: of_queue_def)

lemma take_step_routes:
  assumes "take_step pop ph sa c = Some c'" and "pop (tl_bus (cn_rt c)) = Some (Some r, bus)"
  shows "route_event (sa_route sa) r ((cn_rt c)\<lparr>tl_bus := bus\<rparr>) = Some (cn_rt c')"
  using assms by (auto simp: take_step_def Let_def split: option.splits)

lemma routed_by_hi:
  assumes "cn_phase c = DrainHi \<or> cn_phase c = FinalHi" and "turn (Consume sa) c = Some c'"
    and "bus_try_pop_hi (tl_bus (cn_rt c)) = Some (r, bus)"
  shows "routed_by (Consume sa) c = (case r of None \<Rightarrow> [] | Some x \<Rightarrow> [(True, x)])"
proof -
  have "\<exists>ph. take_step bus_try_pop_hi ph sa c = Some c'"
    using assms(1,2) by (auto simp: consumer_step_def)
  then show ?thesis using assms take_step_routes [where pop = bus_try_pop_hi]
    by (auto simp: next_pop_def split: option.split)
qed

lemma routed_by_lo:
  assumes "cn_phase c = DrainLo \<or> cn_phase c = FinalLo" and "turn (Consume sa) c = Some c'"
    and "bus_try_pop_lo (tl_bus (cn_rt c)) = Some (r, bus)"
  shows "routed_by (Consume sa) c = (case r of None \<Rightarrow> [] | Some x \<Rightarrow> [(False, x)])"
proof (cases r)
  case (Some x)
  have "\<exists>ph. take_step bus_try_pop_lo ph sa c = Some c'"
  proof (cases "cn_phase c = FinalLo")
    case True
    then obtain c1 where c1: "take_step bus_try_pop_lo Stopped sa c = Some c1"
      "c' = (if cn_phase c1 = Stopped then finish sa c1 else c1)"
      using assms(2) by (auto simp: consumer_step_def split: option.splits)
    moreover have "cn_phase c1 = cn_phase c"
      using c1(1) assms(3) Some by (auto simp: take_step_def Let_def split: option.splits)
    ultimately show ?thesis using True by auto
  qed (use assms(1,2) in \<open>auto simp: consumer_step_def\<close>)
  then show ?thesis using assms Some take_step_routes [where pop = bus_try_pop_lo]
    by (auto simp: next_pop_def)
qed (use assms in \<open>auto simp: next_pop_def split: option.split\<close>)

lemma routed_by_other: "cn_phase c \<in> {LoopHead, Housekeeping, Stopped} \<Longrightarrow> routed_by (Consume sa) c = []"
  by (auto simp: next_pop_def split: option.split)

declare routed_by.simps(2) [simp del]

lemma take_step_rel:
  assumes "take_step pop ph sa c = Some c'" and "pop (tl_bus (cn_rt c)) = Some (r, bus)" and "bus_rel n bus a"
  shows "bus_rel n (tl_bus (cn_rt c')) a \<and> cn_phase c' = (if r = None then ph else cn_phase c)"
  using assms same_queues_rel
  by (auto simp: take_step_def Let_def split: option.splits dest!: route_event_queues)

lemma hi_step_rel:
  assumes "take_step bus_try_pop_hi ph sa c = Some c'" and "bus_rel (Suc n) (tl_bus (cn_rt c)) a"
  shows "\<exists>a' r bus. bus_try_pop_hi (tl_bus (cn_rt c)) = Some (r, bus) \<and> bus_rel n (tl_bus (cn_rt c')) a' \<and>
    abs_hi a = (case r of None \<Rightarrow> [] | Some x \<Rightarrow> [x]) @ abs_hi a' \<and> abs_lo a' = abs_lo a \<and>
    (r = None \<longrightarrow> abs_hi a' = []) \<and> cn_phase c' = (if r = None then ph else cn_phase c)"
proof -
  obtain o1 bus a' where B: "bus_step OpPopHi (tl_bus (cn_rt c)) = Some (o1, bus)" "abs_step OpPopHi a = (o1, a')" "bus_rel n bus a'"
    using bus_step_refines [OF assms(2), of OpPopHi] by blast
  then obtain r where r: "bus_try_pop_hi (tl_bus (cn_rt c)) = Some (r, bus)" "o1 = Popped r" by auto
  with take_step_rel [OF assms(1) r(1) B(3)] B(2) show ?thesis
    by (intro exI [of _ a'] exI [of _ r] exI [of _ bus]) (auto split: list.splits)
qed

lemma lo_step_rel:
  assumes "take_step bus_try_pop_lo ph sa c = Some c'" and "bus_rel (Suc n) (tl_bus (cn_rt c)) a"
  shows "\<exists>a' r bus. bus_try_pop_lo (tl_bus (cn_rt c)) = Some (r, bus) \<and> bus_rel n (tl_bus (cn_rt c')) a' \<and>
    abs_lo a = (case r of None \<Rightarrow> [] | Some x \<Rightarrow> [x]) @ abs_lo a' \<and> abs_hi a' = abs_hi a \<and>
    (r = None \<longrightarrow> abs_lo a' = []) \<and> cn_phase c' = (if r = None then ph else cn_phase c)"
proof -
  obtain o1 bus a' where B: "bus_step OpPopLo (tl_bus (cn_rt c)) = Some (o1, bus)" "abs_step OpPopLo a = (o1, a')" "bus_rel n bus a'"
    using bus_step_refines [OF assms(2), of OpPopLo] by blast
  then obtain r where r: "bus_try_pop_lo (tl_bus (cn_rt c)) = Some (r, bus)" "o1 = Popped r" by auto
  with take_step_rel [OF assms(1) r(1) B(3)] B(2) show ?thesis
    by (intro exI [of _ a'] exI [of _ r] exI [of _ bus]) (auto split: list.splits)
qed

text \<open>What a turn does to the two lists, and which lists its phases leave empty.\<close>

definition drained :: "Consumer \<Rightarrow> AbsBus \<Rightarrow> bool" where
  "drained c a \<longleftrightarrow> (cn_phase c = FinalLo \<longrightarrow> abs_hi a = []) \<and> (cn_phase c = Stopped \<longrightarrow> abs_hi a = [] \<and> abs_lo a = [])"

fun is_consume :: "Turn \<Rightarrow> bool" where
  "is_consume (Consume sa) \<longleftrightarrow> True"
| "is_consume (Produce r) \<longleftrightarrow> False"

lemma turn_rel:
  assumes "turn t c = Some c'" and "bus_rel (Suc n) (tl_bus (cn_rt c)) a"
  shows "\<exists>a'. bus_rel n (tl_bus (cn_rt c')) a' \<and>
    abs_hi a @ filter is_hi (accepted_by t c) = of_queue True (routed_by t c) @ abs_hi a' \<and>
    abs_lo a @ filter (\<lambda>r. \<not> is_hi r) (accepted_by t c) = of_queue False (routed_by t c) @ abs_lo a' \<and>
    (is_consume t \<longrightarrow> drained c a \<longrightarrow> drained c' a')"
proof (cases t)
  case (Produce r)
  obtain b bus' a' where B: "bus_try_push (tl_bus (cn_rt c)) r = Some (b, bus')" "abs_step (OpPush r) a = (Pushed b, a')" "bus_rel n bus' a'"
    using bus_push_refines [OF assms(2), of r] by blast
  with Produce assms(1) show ?thesis
    by (intro exI [of _ a']) (auto simp: count_drop_def split: if_splits)
next
  case (Consume sa)
  have down: "bus_rel n (tl_bus (cn_rt c)) a"
    using assms(2) mpsc.inv_mono [of "Suc n" _ n] by (auto simp: bus_rel_def)
  from assms(1) Consume have S: "consumer_step sa c = Some c'" by simp
  show ?thesis
  proof (cases "cn_phase c")
    case DrainHi
    with S have "take_step bus_try_pop_hi DrainLo sa c = Some c'" by (simp add: consumer_step_def)
    from hi_step_rel [OF this assms(2)] DrainHi assms(1) show ?thesis
      unfolding Consume by (force simp: routed_by_hi drained_def split: option.splits)
  next
    case FinalHi
    with S have "take_step bus_try_pop_hi FinalLo sa c = Some c'" by (simp add: consumer_step_def)
    from hi_step_rel [OF this assms(2)] FinalHi assms(1) show ?thesis
      unfolding Consume by (force simp: routed_by_hi drained_def split: option.splits)
  next
    case DrainLo
    with S have "take_step bus_try_pop_lo Housekeeping sa c = Some c'" by (simp add: consumer_step_def)
    from lo_step_rel [OF this assms(2)] DrainLo assms(1) show ?thesis
      unfolding Consume by (force simp: routed_by_lo drained_def split: option.splits)
  next
    case FinalLo
    with S obtain c1 where P: "take_step bus_try_pop_lo Stopped sa c = Some c1"
      and c': "c' = (if cn_phase c1 = Stopped then finish sa c1 else c1)"
      by (auto simp: consumer_step_def split: option.splits)
    from c' have "tl_bus (cn_rt c') = tl_bus (cn_rt c1)" by simp
    with lo_step_rel [OF P assms(2)] FinalLo assms(1) c' show ?thesis
      unfolding Consume by (force simp: routed_by_lo drained_def split: option.splits)
  qed (use S down Consume in \<open>auto simp: consumer_step_def routed_by_other drained_def housekeeping_phase split: if_splits intro!: exI [of _ a]\<close>)
qed

lemma turns_rel:
  assumes "turns ts c = Some c'" and "bus_rel (n + length ts) (tl_bus (cn_rt c)) a"
  shows "\<exists>a'. bus_rel n (tl_bus (cn_rt c')) a' \<and>
    abs_hi a @ filter is_hi (along accepted_by ts c) = of_queue True (along routed_by ts c) @ abs_hi a' \<and>
    abs_lo a @ filter (\<lambda>r. \<not> is_hi r) (along accepted_by ts c) = of_queue False (along routed_by ts c) @ abs_lo a' \<and>
    (list_all is_consume ts \<longrightarrow> drained c a \<longrightarrow> drained c' a')"
  using assms
proof (induction ts arbitrary: c a)
  case (Cons t ts)
  from Cons.prems(1) obtain c1 where c1: "turn t c = Some c1" "turns ts c1 = Some c'" by (auto split: option.splits)
  from Cons.prems(2) have "bus_rel (Suc (n + length ts)) (tl_bus (cn_rt c)) a" by simp
  from turn_rel [OF c1(1) this] obtain a1 where a1: "bus_rel (n + length ts) (tl_bus (cn_rt c1)) a1"
    "abs_hi a @ filter is_hi (accepted_by t c) = of_queue True (routed_by t c) @ abs_hi a1"
    "abs_lo a @ filter (\<lambda>r. \<not> is_hi r) (accepted_by t c) = of_queue False (routed_by t c) @ abs_lo a1"
    "is_consume t \<longrightarrow> drained c a \<longrightarrow> drained c1 a1" by blast
  from Cons.IH [OF c1(2) a1(1)] obtain a' where a': "bus_rel n (tl_bus (cn_rt c')) a'"
    "abs_hi a1 @ filter is_hi (along accepted_by ts c1) = of_queue True (along routed_by ts c1) @ abs_hi a'"
    "abs_lo a1 @ filter (\<lambda>r. \<not> is_hi r) (along accepted_by ts c1) = of_queue False (along routed_by ts c1) @ abs_lo a'"
    "list_all is_consume ts \<longrightarrow> drained c1 a1 \<longrightarrow> drained c' a'" by blast
  show ?case
  proof (intro exI [of _ a'] conjI)
    show "bus_rel n (tl_bus (cn_rt c')) a'" by (rule a'(1))
    show "abs_hi a @ filter is_hi (along accepted_by (t # ts) c) = of_queue True (along routed_by (t # ts) c) @ abs_hi a'"
      using a1(2) a'(2) c1(1) by simp (metis append.assoc)
    show "abs_lo a @ filter (\<lambda>r. \<not> is_hi r) (along accepted_by (t # ts) c) = of_queue False (along routed_by (t # ts) c) @ abs_lo a'"
      using a1(3) a'(3) c1(1) by simp (metis append.assoc)
    show "list_all is_consume (t # ts) \<longrightarrow> drained c a \<longrightarrow> drained c' a'" using a1(4) a'(4) by simp
  qed
qed (auto simp: along.simps)

lemma turns_append: "turns (ps @ qs) c = (case turns ps c of None \<Rightarrow> None | Some c1 \<Rightarrow> turns qs c1)"
  by (induction ps arbitrary: c) (auto split: option.splits)

lemma along_append: "along f (ps @ qs) c = along f ps c @ (case turns ps c of None \<Rightarrow> [] | Some c1 \<Rightarrow> along f qs c1)"
  by (induction ps arbitrary: c) (auto split: option.splits)

lemma accepted_quiet: "list_all is_consume ts \<Longrightarrow> along accepted_by ts c = []"
proof (induction ts arbitrary: c)
  case (Cons t ts)
  then show ?case by (cases t) (auto split: option.splits)
qed simp

text \<open>
  C33. Starting with a bus that is new but for its latency statistics, every event the bus accepted is
  routed exactly once and, within its queue, in the order of the pushes, however pushes and consumer
  steps interleave, provided no event ends the process; and once the thread has stopped none is left,
  if nothing was pushed since before the final drain left the high queue. That an event is routed means
  that a turn took it from its queue and left the state that \<open>route_event\<close> makes for it.\<close>

theorem every_event_routed_once_in_order:
  assumes "new_bus hi lo = Some bus" and "same_queues bus (tl_bus (cn_rt c))" and "2 \<le> hi" and "hi \<le> 2 ^ 62" and "2 \<le> lo" and "lo \<le> 2 ^ 62"
    and "length (ps @ qs) < 2 ^ 62"
    and "turns ps c = Some c1" and "cn_phase c1 \<noteq> FinalLo" and "cn_phase c1 \<noteq> Stopped"
    and "list_all is_consume qs" and "turns qs c1 = Some c'" and "cn_phase c' = Stopped"
  shows "of_queue True (along routed_by (ps @ qs) c) = filter is_hi (along accepted_by ps c) \<and>
    of_queue False (along routed_by (ps @ qs) c) = filter (\<lambda>r. \<not> is_hi r) (along accepted_by ps c)"
proof -
  obtain ch cl where R: "bus_rel (length (ps @ qs)) (tl_bus (cn_rt c)) (abs_init ch cl)"
    using new_bus_rel [OF assms(3-7)] assms(1,2) same_queues_rel by auto
  then have "bus_rel (length qs + length ps) (tl_bus (cn_rt c)) (abs_init ch cl)" by (simp add: add.commute)
  from turns_rel [OF assms(8) this] obtain a1 where a1: "bus_rel (length qs) (tl_bus (cn_rt c1)) a1"
    "filter is_hi (along accepted_by ps c) = of_queue True (along routed_by ps c) @ abs_hi a1"
    "filter (\<lambda>r. \<not> is_hi r) (along accepted_by ps c) = of_queue False (along routed_by ps c) @ abs_lo a1"
    by (auto simp: abs_init_def)
  then have "bus_rel (0 + length qs) (tl_bus (cn_rt c1)) a1" by simp
  from turns_rel [OF assms(12) this] obtain a' where a':
    "abs_hi a1 @ filter is_hi (along accepted_by qs c1) = of_queue True (along routed_by qs c1) @ abs_hi a'"
    "abs_lo a1 @ filter (\<lambda>r. \<not> is_hi r) (along accepted_by qs c1) = of_queue False (along routed_by qs c1) @ abs_lo a'"
    "list_all is_consume qs \<longrightarrow> drained c1 a1 \<longrightarrow> drained c' a'" by blast
  have "drained c1 a1" using assms(9,10) by (simp add: drained_def)
  with a'(3) assms(11,13) have "abs_hi a' = []" "abs_lo a' = []" by (simp_all add: drained_def)
  then show ?thesis using a1 a' assms(8) accepted_quiet [OF assms(11)] by (simp add: along_append)
qed

section \<open>Events that come too late\<close>

lemma late_turn:
  assumes "turn t c = Some c'" and "cn_phase c = FinalLo \<or> cn_phase c = Stopped"
  shows "(cn_phase c' = FinalLo \<or> cn_phase c' = Stopped) \<and> of_queue True (routed_by t c) = []"
proof (cases t)
  case (Produce r)
  then show ?thesis using assms by auto
next
  case (Consume sa)
  have "of_queue True (routed_by t c) = []"
    using assms(2) unfolding Consume by (auto simp: routed_by.simps next_pop_def split: option.split prod.split)
  moreover have "cn_phase c' = FinalLo \<or> cn_phase c' = Stopped"
    using assms Consume by (auto simp: consumer_step_def take_step_def Let_def split: option.splits if_splits prod.splits)
  ultimately show ?thesis by blast
qed

text \<open>An event of high priority that is pushed after the final drain found the high queue empty is never
  routed: the thread that polls the ring buffers is stopped by the same flag and may still push.\<close>

theorem late_high_event_never_routed:
  assumes "turns ts c = Some c'" and "cn_phase c = FinalLo \<or> cn_phase c = Stopped"
  shows "of_queue True (along routed_by ts c) = []"
  using assms
proof (induction ts arbitrary: c)
  case (Cons t ts)
  then obtain c1 where "turn t c = Some c1" "turns ts c1 = Some c'" by (auto split: option.splits)
  with Cons late_turn [of t c c1] show ?case by auto
qed simp

section \<open>A flood of low priority events\<close>

definition flood :: "(EventRecord \<times> StepAnswers) list \<Rightarrow> Turn list" where
  "flood xs = concat (map (\<lambda>(r, sa). [Produce r, Consume sa]) xs)"

lemma flood_round:
  assumes "bus_rel (n + 2) (tl_bus (cn_rt c)) a" and "cn_phase c = DrainLo" and "\<not> is_hi r" and "0 < cap_lo a"
    and "turn (Produce r) c = Some c1" and "turn (Consume sa) c1 = Some c2"
  shows "\<exists>a'. bus_rel n (tl_bus (cn_rt c2)) a' \<and> cap_lo a' = cap_lo a \<and> c2 = c\<lparr>cn_rt := cn_rt c2, cn_did_work := True\<rparr> \<and>
    abs_hi a' = abs_hi a"
proof -
  have "bus_rel (Suc (Suc n)) (tl_bus (cn_rt c)) a" using assms(1) by simp
  from bus_push_refines [OF this, of r] obtain b bus1 a1 where P: "bus_try_push (tl_bus (cn_rt c)) r = Some (b, bus1)"
    "abs_step (OpPush r) a = (Pushed b, a1)" "bus_rel (Suc n) bus1 a1" by blast
  from P(1) assms(5) have c1: "c1 = c\<lparr>cn_rt := (cn_rt c)\<lparr>tl_bus := bus1\<rparr>\<rparr>" by auto
  from P(2) assms(3,4) have a1: "abs_lo a1 \<noteq> []" "abs_hi a1 = abs_hi a" "cap_lo a1 = cap_lo a"
    by (auto simp: count_drop_def split: if_splits)
  obtain o2 bus2 a2 where Q: "bus_step OpPopLo bus1 = Some (o2, bus2)" "abs_step OpPopLo a1 = (o2, a2)" "bus_rel n bus2 a2"
    using bus_step_refines [OF P(3), of OpPopLo] by blast
  from Q a1(1) obtain x where x: "bus_try_pop_lo bus1 = Some (Some x, bus2)" "abs_hi a2 = abs_hi a1" "cap_lo a2 = cap_lo a1"
    by (auto split: list.splits)
  from assms(2,6) c1 x(1) obtain rt where rt: "route_event (sa_route sa) x ((cn_rt c)\<lparr>tl_bus := bus2\<rparr>) = Some rt"
    "c2 = c\<lparr>cn_rt := rt, cn_did_work := True\<rparr>"
    by (auto simp: consumer_step_def take_step_def Let_def)
  from route_event_queues [OF rt(1)] Q(3) have "bus_rel n (tl_bus (cn_rt c2)) a2"
    using rt(2) same_queues_rel by fastforce
  then show ?thesis using x a1 rt(2) by (intro exI [of _ a2]) simp
qed

lemma flood_rel:
  assumes "bus_rel (n + 2 * length xs) (tl_bus (cn_rt c)) a" and "cn_phase c = DrainLo" and "0 < cap_lo a"
    and "\<forall>(r, sa)\<in>set xs. \<not> is_hi r" and "turns (flood xs) c = Some c'"
  shows "\<exists>a' b. bus_rel n (tl_bus (cn_rt c')) a' \<and> c' = c\<lparr>cn_rt := cn_rt c', cn_did_work := b\<rparr> \<and> abs_hi a' = abs_hi a"
  using assms
proof (induction xs arbitrary: c a)
  case Nil
  then show ?case by (intro exI [of _ a] exI [of _ "cn_did_work c"]) (simp add: flood_def)
next
  case (Cons x xs)
  obtain r sa where x: "x = (r, sa)" by force
  from Cons.prems(5) x obtain c1 c2 where T: "turn (Produce r) c = Some c1" "turn (Consume sa) c1 = Some c2"
    "turns (flood xs) c2 = Some c'" by (auto simp: flood_def split: option.splits)
  have "bus_rel ((n + 2 * length xs) + 2) (tl_bus (cn_rt c)) a" using Cons.prems(1) by simp
  from flood_round [OF this Cons.prems(2) _ Cons.prems(3) T(1,2)] Cons.prems(4) x obtain a2 where a2:
    "bus_rel (n + 2 * length xs) (tl_bus (cn_rt c2)) a2" "cap_lo a2 = cap_lo a"
    "c2 = c\<lparr>cn_rt := cn_rt c2, cn_did_work := True\<rparr>" "abs_hi a2 = abs_hi a" by auto
  from a2(3) Cons.prems(2) have "cn_phase c2 = DrainLo" by (metis Consumer.select_convs(1) Consumer.surjective Consumer.update_convs(1,2,11))
  with Cons.IH [OF a2(1) _ _ _ T(3)] a2(2) Cons.prems(3,4) obtain a' b where
    "bus_rel n (tl_bus (cn_rt c')) a'" "c' = c2\<lparr>cn_rt := cn_rt c', cn_did_work := b\<rparr>" "abs_hi a' = abs_hi a2" by auto
  then show ?case using a2 by (intro exI [of _ a'] exI [of _ b]) (metis Consumer.surjective Consumer.update_convs(2,11) Consumer.select_convs)
qed

text \<open>
  C38. While low priority events keep coming the consumer stays in its inner loop: whatever waits in the high
  queue stays there, untouched and in order, no high event is routed, and no periodic work is done,
  for as long as the flood lasts.\<close>

theorem low_flood_starves_high:
  assumes "bus_rel (2 * length xs) (tl_bus (cn_rt c)) a" and "cn_phase c = DrainLo" and "0 < cap_lo a"
    and "\<forall>(r, sa)\<in>set xs. \<not> is_hi r" and "turns (flood xs) c = Some c'"
  shows "queued (bus_hi (tl_bus (cn_rt c'))) = queued (bus_hi (tl_bus (cn_rt c))) \<and>
    c' = c\<lparr>cn_rt := cn_rt c', cn_did_work := cn_did_work c'\<rparr>"
proof -
  have "bus_rel (0 + 2 * length xs) (tl_bus (cn_rt c)) a" using assms(1) by simp
  from flood_rel [OF this assms(2-5)] obtain a' b where R: "bus_rel 0 (tl_bus (cn_rt c')) a'"
    "c' = c\<lparr>cn_rt := cn_rt c', cn_did_work := b\<rparr>" "abs_hi a' = abs_hi a" by blast
  then have "cn_did_work c' = b" by (metis Consumer.select_convs(2) Consumer.surjective Consumer.update_convs(2,11))
  with R assms(1) show ?thesis by (simp add: bus_rel_def)
qed

section \<open>Runs\<close>

text \<open>A new bus with room for one latency sample, so that runs evaluate.\<close>

definition sample_bus :: EventBus where
  "sample_bus = \<lparr>bus_hi = the (new_queue 2), bus_lo = the (new_queue 2), drops_hi = replicate 4 0, drops_lo = replicate 4 0,
     bus_pushed = 0, queue_lat = \<lparr>samples = [0], lat_idx = 0, lat_count = 0\<rparr>\<rparr>"

definition sample_telemetry :: Telemetry where
  "sample_telemetry = \<lparr>tl_bus = sample_bus, tl_tree = empty_tree, tl_engine = \<lparr>engine_rules = [], engine_buckets = \<lambda>_. []\<rparr>,
     tl_mon = monitoring [], tl_store = None, tl_proc_tree_on = True, tl_names = [], tl_chains = [], tl_log = []\<rparr>"

definition sample_step :: "bool \<Rightarrow> StepAnswers" where
  "sample_step running = \<lparr>sa_running = running,
     sa_route = \<lparr>ro_now = 0, ro_passwd = \<lambda>_. None, ro_event = quiet_answers 0, ro_user_fs = no_procfs, ro_tree_fs = no_procfs,
       ro_tree_now = 0, ro_render_fs = no_procfs, ro_fd_link = \<lambda>_ _. None, ro_dsl_now = 0, ro_dsl_world = quiet_world 0,
       ro_ulid = [], ro_flush = \<lparr>fl_begin = True, fl_ts = 0, fl_insert = \<lambda>_. True, fl_commit = Committed, fl_now_ms = 0\<rparr>\<rparr>,
     sa_due_ms = 0, sa_flush = \<lparr>fl_begin = True, fl_ts = 0, fl_insert = \<lambda>_. True, fl_commit = Committed, fl_now_ms = 0\<rparr>,
     sa_now = 0, sa_sweep_ms = 0, sa_db = \<lparr>db_ok = True, db_newest_first = id, db_cutoff = \<lambda>_. []\<rparr>\<rparr>"

definition sample_consumer :: Consumer where
  "sample_consumer = start_consumer no_procfs [] 0 sample_telemetry"

text \<open>A record of no known category, which routing ignores.\<close>

definition idle_record :: "u8 \<Rightarrow> EventRecord" where
  "idle_record prio = \<lparr>ts_ns = 1, enqueue_ts_ns = 1, rec_pid = 7, rec_ppid = 1, rec_uid = 0, rec_gid = 0, rec_category = 9,
     rec_action = 0, rec_priority = prio, rec_pad = 0, rec_comm = [NUL], rec_exe = [NUL], rec_container_id = [NUL], payload_raw = []\<rparr>"

definition before_stop :: "Turn list" where
  "before_stop = [Produce (idle_record PRIO_NETWORK), Produce (idle_record PRIO_CTRL), Consume (sample_step False)]"

definition final_drain :: "Turn list" where
  "final_drain = replicate 4 (Consume (sample_step False))"

lemma sample_bus_new: "\<exists>bus. new_bus 2 2 = Some bus \<and> same_queues bus sample_bus"
proof -
  have "case new_bus 2 2 of None \<Rightarrow> False | Some bus \<Rightarrow> same_queues bus sample_bus" by code_simp
  then show ?thesis by (auto split: option.splits)
qed

definition late_events :: "Turn list" where
  "late_events = [Produce (idle_record PRIO_CTRL), Consume (sample_step False), Produce (idle_record PRIO_CTRL), Consume (sample_step False)]"

definition small_flood :: "(EventRecord \<times> StepAnswers) list" where
  "small_flood = [(idle_record PRIO_NETWORK, sample_step True), (idle_record PRIO_DNS, sample_step True)]"

text \<open>The three runs end; evaluated together, for the evaluator is set up once.\<close>

lemma sample_runs:
  "(case turns before_stop sample_consumer of None \<Rightarrow> False
    | Some c1 \<Rightarrow> cn_phase c1 = FinalHi \<and> (case turns final_drain c1 of None \<Rightarrow> False | Some c' \<Rightarrow> cn_phase c' = Stopped)) \<and>
   (case turns late_events (sample_consumer\<lparr>cn_phase := FinalLo\<rparr>) of None \<Rightarrow> False | Some c' \<Rightarrow> True) \<and>
   (case turns (flood small_flood) (sample_consumer\<lparr>cn_phase := DrainLo\<rparr>) of None \<Rightarrow> False | Some c' \<Rightarrow> True)"
  by code_simp

lemma sample_consumer_bus: "tl_bus (cn_rt (sample_consumer\<lparr>cn_phase := ph\<rparr>)) = sample_bus"
  by (simp add: sample_consumer_def start_consumer_def sample_telemetry_def)

lemma every_event_routed_once_in_order_witness:
  "\<exists>c1 c'. turns before_stop sample_consumer = Some c1 \<and> turns final_drain c1 = Some c' \<and>
     of_queue True (along routed_by (before_stop @ final_drain) sample_consumer) = filter is_hi (along accepted_by before_stop sample_consumer) \<and>
     of_queue False (along routed_by (before_stop @ final_drain) sample_consumer) =
       filter (\<lambda>r. \<not> is_hi r) (along accepted_by before_stop sample_consumer)"
proof -
  obtain c1 c' where T: "turns before_stop sample_consumer = Some c1" "cn_phase c1 = FinalHi"
    "turns final_drain c1 = Some c'" "cn_phase c' = Stopped" using sample_runs [THEN conjunct1] by (auto split: option.splits)
  obtain bus where bus: "new_bus 2 2 = Some bus" "same_queues bus sample_bus" using sample_bus_new by blast
  have "of_queue True (along routed_by (before_stop @ final_drain) sample_consumer) = filter is_hi (along accepted_by before_stop sample_consumer) \<and>
     of_queue False (along routed_by (before_stop @ final_drain) sample_consumer) =
       filter (\<lambda>r. \<not> is_hi r) (along accepted_by before_stop sample_consumer)"
    by (rule every_event_routed_once_in_order [OF bus(1) _ _ _ _ _ _ T(1) _ _ _ T(3,4)])
      (use bus(2) sample_consumer_bus [of LoopHead] T(2) in
        \<open>simp_all add: before_stop_def final_drain_def list_all_iff sample_consumer_def start_consumer_def\<close>)
  then show ?thesis using T by blast
qed

lemma late_high_event_never_routed_witness:
  "of_queue True (along routed_by late_events (sample_consumer\<lparr>cn_phase := FinalLo\<rparr>)) = []"
proof -
  obtain c' where "turns late_events (sample_consumer\<lparr>cn_phase := FinalLo\<rparr>) = Some c'"
    using sample_runs [THEN conjunct2, THEN conjunct1] by (auto split: option.splits)
  then show ?thesis by (rule late_high_event_never_routed) simp
qed

lemma low_flood_starves_high_witness:
  "\<exists>c'. turns (flood small_flood) (sample_consumer\<lparr>cn_phase := DrainLo\<rparr>) = Some c' \<and>
     queued (bus_hi (tl_bus (cn_rt c'))) = queued (bus_hi sample_bus) \<and> cn_phase c' = DrainLo"
proof -
  obtain c' where T: "turns (flood small_flood) (sample_consumer\<lparr>cn_phase := DrainLo\<rparr>) = Some c'"
    using sample_runs [THEN conjunct2, THEN conjunct2] by (auto split: option.splits)
  obtain bus where bus: "new_bus 2 2 = Some bus" "same_queues bus sample_bus" using sample_bus_new by blast
  obtain ch cl where R: "2 \<le> cl" "bus_rel (2 * length small_flood) bus (abs_init ch cl)"
    using new_bus_rel [of 2 2 "2 * length small_flood"] bus(1) by (auto simp: small_flood_def)
  have "queued (bus_hi (tl_bus (cn_rt c'))) = queued (bus_hi (tl_bus (cn_rt (sample_consumer\<lparr>cn_phase := DrainLo\<rparr>)))) \<and>
    c' = (sample_consumer\<lparr>cn_phase := DrainLo\<rparr>)\<lparr>cn_rt := cn_rt c', cn_did_work := cn_did_work c'\<rparr>"
    by (rule low_flood_starves_high [where a = "abs_init ch cl", OF _ _ _ _ T])
      (use R bus(2) same_queues_rel [OF bus(2)] sample_consumer_bus in
        \<open>simp_all add: small_flood_def idle_record_def is_hi_def prio_defs abs_init_def word_le_nat_alt\<close>)
  then have "queued (bus_hi (tl_bus (cn_rt c'))) = queued (bus_hi sample_bus)" and
    "cn_phase c' = cn_phase ((sample_consumer\<lparr>cn_phase := DrainLo\<rparr>)\<lparr>cn_rt := cn_rt c', cn_did_work := cn_did_work c'\<rparr>)"
    using sample_consumer_bus [of DrainLo] by auto
  then show ?thesis using T by simp
qed

end
