(* ===== verification/Spec2Isabelle.thy ===== *)
theory Spec2Isabelle
  imports Rule_Engine_Correct Condition_Parser_Correct Event_Bus_Correct Process_Tree_Correct
    Proc_Fs_Correct Whitelist_Correct Bpf_File_Correct Rule_Sets_Correct Telemetry_Correct Json_Text_Correct
    Alert_Manager_Correct Notify_Silence File_Alerts_Correct Snapshot_Correct Baseline_Cmds_Correct
    Event_Store_Correct Ulid_Correct Consumer_Order
begin

text \<open>
  A model of the host security agent in this repository: the kernel programs under \<open>src/bpf\<close> that watch
  files, connections, privileges and processes, and the user space agent under \<open>src/src\<close> that turns
  their events into alerts, stored events and reports, with the commands on the file baseline.

  \<^bold>\<open>Parts and how they interact.\<close>
  The configuration gives monitoring rules. At startup the agent merges them into one rule set per
  inode and writes the sets into a kernel map. The file hooks look the inode of an access up in this map,
  deny the access where a rule blocks it, and report it; the network, privilege and process programs
  report without rules. A callback of the agent turns the bytes of a report into an event record and
  pushes it on the bus, two lock-free queues for high and low priority. One consumer thread pops the
  records: file events go through whitelists, rule checks and the baseline comparison to the alert
  manager; file and exec events are evaluated by the rule engine; every event is rendered as JSON,
  enriched with its ancestors from the process tree and appended to the event store. The alert manager
  throttles, stores alerts in the baseline database and hands them to the notification dispatcher, whose
  own worker thread sends them. The commands write and check the baseline the monitor compares with.

  \<^bold>\<open>Theories and sources.\<close> A theory holds the definitions of its component under the names of the source;
  the theory of the same name with \<open>_Correct\<close> holds what is proved of them.
  \<^item> \<open>Prelude\<close>: byte strings with the operations of the C++ library the sources use, word
    abbreviations and shared lemmas. \<open>Byte_Layout\<close>: structs as bytes, little endian.
    \<open>Lru\<close>, \<open>Rate_Limit\<close>: the contracts of a recency-bounded map and of a limiter per key.
  \<^item> Kernel: \<open>Bpf_Core\<close> (\<open>bpf_common.h\<close>, \<open>stats_slots.h\<close>: reserve, submit, discard and the
    counters), \<open>Bpf_File\<close> (\<open>lsm_file.bpf.c\<close>, \<open>lsm_kprobe.bpf.c\<close>), \<open>Bpf_Net\<close>, \<open>Bpf_Priv\<close>,
    \<open>Bpf_Proc\<close> (the programs of the same names). A hook is a function of the kernel facts it reads.
  \<^item> From rules to the kernel: \<open>Mon_Rule\<close> (\<open>cli/baseline.hpp\<close>), \<open>Rule_Sets\<close> (\<open>monitor_init\<close>,
    \<open>merge_rules\<close> and the writing of the map in \<open>baseline/monitor.cpp\<close>).
  \<^item> Telemetry: \<open>Event_Record\<close>, \<open>Mpsc_Queue\<close> (\<open>telemetry/event_bus\<close>: each atomic operation of
    \<open>try_push\<close> and \<open>try_pop\<close> is a step), \<open>Event_Bus\<close> (routing, drop counters, latency window),
    \<open>Event_Layout\<close> and \<open>Telemetry_Handlers\<close> (event structs and the callbacks of
    \<open>monitor*.cpp\<close>), \<open>Proc_Fs\<close> (parsers of \<open>/proc\<close>), \<open>Process_Tree\<close> (\<open>process_tree.cpp\<close>,
    \<open>enricher.cpp\<close>).
  \<^item> Detection: \<open>Rule\<close>, \<open>Condition_Parser\<close>, \<open>Rule_Eval\<close>, \<open>Rule_Engine\<close> (\<open>src/src/detect\<close>).
  \<^item> Consumer: \<open>Json_Value\<close>, \<open>Json_Text\<close>, \<open>Json_Utf8\<close> and \<open>Event_Render\<close> (the objects of
    \<open>monitor_*.cpp\<close> and the direct text of file events), \<open>Event_Store\<close> (\<open>storage/event_store.cpp\<close>),
    \<open>Whitelist\<close> (\<open>baseline/whitelist.cpp\<close>), \<open>File_Alerts\<close> (\<open>process_event_core\<close> and its
    handlers), \<open>Consumer\<close> (\<open>route_event\<close> and what it calls), \<open>Consumer_Loop\<close>
    (\<open>telemetry_consumer_main\<close>, one pop or one round of periodic work per step).
  \<^item> Alerts: \<open>Alert_Manager\<close>, \<open>Notify\<close> (\<open>src/src/alerts\<close>, with the worker as steps),
    \<open>Alerts_Store\<close> (the statements on the alerts table).
  \<^item> Baseline: \<open>Baseline_Check\<close> (\<open>common/utils.cpp\<close>, \<open>monitor_baseline.cpp\<close>), \<open>Snapshot_Store\<close>
    (\<open>storage/baseline_db.cpp\<close>), \<open>Baseline_Scan\<close>, \<open>Baseline_Cmds\<close> (the commands), \<open>Rule_Check\<close>
    (\<open>baseline/check.cpp\<close>).

  \<^bold>\<open>State and errors.\<close> The state of a component is a record with the members of its class; an operation
  returns the new record. Machine integers keep their width as words. A return code, an error text or a
  thrown exception is a constructor of a sum or \<open>None\<close>. What the code learns from outside
  (files, clocks, the database, the web, the kernel's room in a buffer) is an argument of the definition
  that uses it: a record of answers (\<open>RouteAnswers\<close>, \<open>FlushAnswers\<close>) or a function.
  Concurrency is explicit: queue steps interleave as a list of the threads that move,
  and runs of components are folds over a datatype of their operations.

  \<^bold>\<open>What the lemmas show.\<close>
  \<^item> Kernel: a hook denies exactly the accesses with a blocking rule whose event is not shed; with
    the merged rule sets this covers the configured rules. Channels hold exactly the events sent, in
    order, and their slots count every outcome (one locale, interpreted by all six builds). Events
    are read back unchanged from the record the bus gets, under the priority of their kind.
  \<^item> Bus: the queue is first in, first out under every interleaving; the bus refines two bounded lists;
    the latency summary is over the last samples.
  \<^item> Detection: the parser accepts what a printer of conditions prints and builds exactly the
    well-formed ones; the indexed evaluation is a linear scan in the order of buckets, and a template
    interpolates as its parse says.
  \<^item> Consumer: every event determines the fields of its node in the process tree; under every
    interleaving with producers each accepted event is routed once, in the order of its queue, and
    none is left at a quiet stop; the exact inputs that end the process; every batch the store
    flushes is in the table as a whole or not at all; identifiers sort by time; the direct JSON text
    is that of the JSON library.
  \<^item> Alerts: windows of throttling and silence are respected in every run and every alert is counted once
    (the locales of \<open>Rate_Limit\<close>); the alerts table is bounded; the worker wakes in time. The
    rules of a file are reported one by one except those the cached answer or the whitelist holds back.
  \<^item> Baseline: snapshots replace their scopes and audit every change; a comparison is silent exactly when
    nothing changed; the two checkers of rules agree on files that can be examined, but for the digest prefix.
  Several theorems are about behaviour that fails: overloaded queues, a commit left open, texts that are
  not UTF-8, rules that share a window.

  \<^bold>\<open>Bounds and recursion.\<close> Bounds are those of the sources, as constants of the same names: 100000 nodes
  and 8 ancestors, 1024 cached whitelist answers, 4 rules of an inode and 31 labels of a DNS
  name. Loops are structural or have a measure (rest of the input, rest of the counter).
  The retry loops of the queue and the rounding of its capacity are partial functions into options, for
  they need not end under contention or above \<open>2 ^ 63\<close>; that they end without contention, and
  exactly when the rounding ends, is proved. The reading of a file in pieces by \<open>fgets\<close> has as fuel
  the length of the file, and each piece takes at least one byte.

  \<^bold>\<open>Not modelled.\<close> Loading, pinning and attaching of programs, signal handlers and polling
  (calls of libbpf in sequence); the fill level of ring buffers, computed in floating point (its level
  is an argument of the hooks); walks over YAML nodes (\<open>cli/config.cpp\<close>, \<open>detect/rule_loader.cpp\<close>;
  their result is the argument of \<open>Build\<close> and of the rule tables); HTTP, HMAC, Base64 and SHA-256
  (arguments); read-only queries of the database for listings; command line help, log lines and the
  fixed page around a report; the asset inventory and the statistics command, which take no part in
  detection; vendored libraries, generated kernel types, tests and scripts. Atomic
  operations interleave in one order; the weaker orders the hardware may allow are not modelled.
\<close>

end
